(* ===== verification/Prelude.thy ===== *)
theory Prelude
  imports Main "HOL-Library.AList" "HOL-Library.Word"
begin

text \<open>
  Shared vocabulary of the development: bytes, durations and instants, Rust's
  \<^verbatim>\<open>std::cmp::Ordering\<close> with its combinators, the iterator selections
  \<^verbatim>\<open>min_by\<close> and \<^verbatim>\<open>max_by\<close>, \<^verbatim>\<open>Vec::remove\<close>, and the lemma collections the
  component theories extend. A \<^verbatim>\<open>HashMap\<close> is an association list with distinct
  keys (\<^verbatim>\<open>HOL-Library.AList\<close>): the list is some iteration order of the map, and
  every theorem quantifies over all of them.
\<close>

section \<open>Collections of facts\<close>

named_theorems ordering_simps \<open>evaluation of comparison results\<close>
named_theorems inv_intros \<open>operations keep a component invariant\<close>

section \<open>Primitive types\<close>

type_synonym byte = "8 word"
type_synonym bytes = "byte list"

text \<open>A \<^verbatim>\<open>Duration\<close> and an \<^verbatim>\<open>Instant\<close> are counted in nanoseconds.\<close>

type_synonym duration = nat
type_synonym instant = nat

type_synonym ('k, 'v) hashmap = "('k \<times> 'v) list"

definition nanos_per_sec :: nat where
  "nanos_per_sec = 1000000000"

definition from_secs :: "nat \<Rightarrow> duration" where
  "from_secs s = s * nanos_per_sec"

definition from_millis :: "nat \<Rightarrow> duration" where
  "from_millis ms = ms * 1000000"

definition as_millis :: "duration \<Rightarrow> nat" where
  "as_millis d = d div 1000000"

definition as_secs :: "duration \<Rightarrow> nat" where
  "as_secs d = d div nanos_per_sec"

text \<open>
  \<^verbatim>\<open>Instant::saturating_duration_since\<close> is subtraction that stops at zero, and
  \<^verbatim>\<open>Instant::checked_add\<close> fails where the seconds of the sum leave the signed
  64-bit range of the platform clock.
\<close>

definition saturating_duration_since :: "instant \<Rightarrow> instant \<Rightarrow> duration" where
  "saturating_duration_since now earlier = now - earlier"

definition instant_checked_add :: "instant \<Rightarrow> duration \<Rightarrow> instant option" where
  "instant_checked_add t d =
     (if (t + d) div nanos_per_sec < 2 ^ 63 then Some (t + d) else None)"

section \<open>Orderings\<close>

datatype ordering = Less | Equal | Greater

fun ordering_reverse :: "ordering \<Rightarrow> ordering" where
  "ordering_reverse Less = Greater"
| "ordering_reverse Equal = Equal"
| "ordering_reverse Greater = Less"

fun then_with :: "ordering \<Rightarrow> ordering \<Rightarrow> ordering" where
  "then_with Equal o2 = o2"
| "then_with o1 o2 = o1"

definition compare :: "'a::linorder \<Rightarrow> 'a \<Rightarrow> ordering" where
  "compare x y = (if x < y then Less else if x = y then Equal else Greater)"

text \<open>
  \<^verbatim>\<open>Iterator::min_by\<close> keeps the first of equal minima; \<^verbatim>\<open>Iterator::max_by\<close> keeps the
  last of equal maxima. Both fold over the iterator from its first element.
\<close>

fun min_from :: "('a \<Rightarrow> 'a \<Rightarrow> ordering) \<Rightarrow> 'a \<Rightarrow> 'a list \<Rightarrow> 'a" where
  "min_from cmp x [] = x"
| "min_from cmp x (y # ys) = min_from cmp (if cmp x y = Greater then y else x) ys"

fun max_from :: "('a \<Rightarrow> 'a \<Rightarrow> ordering) \<Rightarrow> 'a \<Rightarrow> 'a list \<Rightarrow> 'a" where
  "max_from cmp x [] = x"
| "max_from cmp x (y # ys) = max_from cmp (if cmp x y = Greater then x else y) ys"

fun min_by :: "('a \<Rightarrow> 'a \<Rightarrow> ordering) \<Rightarrow> 'a list \<Rightarrow> 'a option" where
  "min_by cmp [] = None"
| "min_by cmp (x # xs) = Some (min_from cmp x xs)"

fun max_by :: "('a \<Rightarrow> 'a \<Rightarrow> ordering) \<Rightarrow> 'a list \<Rightarrow> 'a option" where
  "max_by cmp [] = None"
| "max_by cmp (x # xs) = Some (max_from cmp x xs)"

text \<open>\<^verbatim>\<open>iter().enumerate()\<close> and \<^verbatim>\<open>Vec::remove\<close> at an index in range.\<close>

definition enumerated :: "'a list \<Rightarrow> (nat \<times> 'a) list" where
  "enumerated xs = zip [0..<length xs] xs"

definition vec_remove :: "nat \<Rightarrow> 'a list \<Rightarrow> 'a list" where
  "vec_remove i xs = take i xs @ drop (Suc i) xs"

section \<open>Lemmas on orderings\<close>

lemma compare_simps [simp, ordering_simps]:
  "compare x y = Less \<longleftrightarrow> x < y"
  "compare x y = Equal \<longleftrightarrow> x = y"
  "compare x y = Greater \<longleftrightarrow> y < x"
  by (auto simp: compare_def)

lemma then_with_simps [simp, ordering_simps]:
  "then_with a b = Equal \<longleftrightarrow> a = Equal \<and> b = Equal"
  "then_with a b = Less \<longleftrightarrow> a = Less \<or> a = Equal \<and> b = Less"
  "then_with a b = Greater \<longleftrightarrow> a = Greater \<or> a = Equal \<and> b = Greater"
  by (cases a; simp)+

lemma ordering_reverse_simps [simp, ordering_simps]:
  "ordering_reverse a = Less \<longleftrightarrow> a = Greater"
  "ordering_reverse a = Equal \<longleftrightarrow> a = Equal"
  "ordering_reverse a = Greater \<longleftrightarrow> a = Less"
  by (cases a; simp)+

text \<open>
  The contract of a comparison function handed to \<^verbatim>\<open>min_by\<close> or \<^verbatim>\<open>max_by\<close>: a total
  preorder. Everything the selections promise is proved once from it.
\<close>

locale comparator =
  fixes cmp :: "'a \<Rightarrow> 'a \<Rightarrow> ordering"
  assumes cmp_refl: "cmp x x = Equal"
    and cmp_swap: "cmp x y = Greater \<longleftrightarrow> cmp y x = Less"
    and cmp_trans: "cmp x y \<noteq> Greater \<Longrightarrow> cmp y z \<noteq> Greater \<Longrightarrow> cmp x z \<noteq> Greater"
begin

lemma not_Less_iff: "cmp x y \<noteq> Less \<longleftrightarrow> cmp y x \<noteq> Greater"
  by (metis cmp_swap)

lemma Greater_le: "cmp x y = Greater \<Longrightarrow> cmp y x \<noteq> Greater"
  using cmp_swap by auto

lemma min_from_in: "min_from cmp x ys \<in> set (x # ys)"
proof (induction ys arbitrary: x)
  case (Cons y ys)
  show ?case using Cons [of x] Cons [of y] by auto
qed simp

lemma max_from_in: "max_from cmp x ys \<in> set (x # ys)"
proof (induction ys arbitrary: x)
  case (Cons y ys)
  show ?case using Cons [of x] Cons [of y] by auto
qed simp

lemma min_from_le: "y \<in> set (x # ys) \<Longrightarrow> cmp (min_from cmp x ys) y \<noteq> Greater"
proof (induction ys arbitrary: x y)
  case Nil
  then show ?case by (simp add: cmp_refl)
next
  case (Cons z zs)
  let ?w = "if cmp x z = Greater then z else x"
  have w: "cmp ?w x \<noteq> Greater" "cmp ?w z \<noteq> Greater"
    by (auto simp: cmp_refl Greater_le)
  have head: "cmp (min_from cmp ?w zs) ?w \<noteq> Greater"
    by (rule Cons.IH) simp
  have rest: "cmp (min_from cmp ?w zs) u \<noteq> Greater" if "u \<in> set zs" for u
    by (rule Cons.IH) (simp add: that)
  from Cons.prems show ?case
    using cmp_trans [OF head w(1)] cmp_trans [OF head w(2)] rest by auto
qed

lemma max_from_ge: "y \<in> set (x # ys) \<Longrightarrow> cmp y (max_from cmp x ys) \<noteq> Greater"
proof (induction ys arbitrary: x y)
  case Nil
  then show ?case by (simp add: cmp_refl)
next
  case (Cons z zs)
  let ?w = "if cmp x z = Greater then x else z"
  have w: "cmp x ?w \<noteq> Greater" "cmp z ?w \<noteq> Greater"
    by (auto simp: cmp_refl Greater_le)
  have head: "cmp ?w (max_from cmp ?w zs) \<noteq> Greater"
    by (rule Cons.IH) simp
  have rest: "cmp u (max_from cmp ?w zs) \<noteq> Greater" if "u \<in> set zs" for u
    by (rule Cons.IH) (simp add: that)
  from Cons.prems show ?case
    using cmp_trans [OF w(1) head] cmp_trans [OF w(2) head] rest by auto
qed

lemma min_by_Some:
  assumes "min_by cmp xs = Some x"
  shows "x \<in> set xs" and "\<And>y. y \<in> set xs \<Longrightarrow> cmp x y \<noteq> Greater"
  using assms min_from_in min_from_le by (cases xs; force)+

lemma max_by_Some:
  assumes "max_by cmp xs = Some x"
  shows "x \<in> set xs" and "\<And>y. y \<in> set xs \<Longrightarrow> cmp y x \<noteq> Greater"
  using assms max_from_in max_from_ge by (cases xs; force)+

end

lemma min_by_None [simp]: "min_by cmp xs = None \<longleftrightarrow> xs = []"
  by (cases xs) auto

lemma max_by_None [simp]: "max_by cmp xs = None \<longleftrightarrow> xs = []"
  by (cases xs) auto

text \<open>Comparison functions are built from others: by a key, reversed, or in sequence.\<close>

interpretation key_order: comparator "compare :: 'a::linorder \<Rightarrow> 'a \<Rightarrow> ordering"
  by unfold_locales (auto simp: not_less)

lemma comparator_key: "comparator c \<Longrightarrow> comparator (\<lambda>x y. c (f x) (f y))"
  unfolding comparator_def by blast

lemma comparator_flip: "comparator c \<Longrightarrow> comparator (\<lambda>x y. c y x)"
  unfolding comparator_def by metis

lemma comparator_then:
  assumes a: "comparator c" and b: "comparator d"
  shows "comparator (\<lambda>x y. then_with (c x y) (d x y))"
proof
  fix x y z
  show "then_with (c x x) (d x x) = Equal"
    using a b by (simp add: comparator.cmp_refl)
  have c_swap: "c x y = Greater \<longleftrightarrow> c y x = Less" and d_swap: "d x y = Greater \<longleftrightarrow> d y x = Less" for x y
    using a b by (simp_all add: comparator.cmp_swap)
  have c_eq: "c x y = Equal \<longleftrightarrow> c y x = Equal" for x y
    using c_swap [of x y] c_swap [of y x] by (cases "c x y"; cases "c y x"; simp)
  show "then_with (c x y) (d x y) = Greater \<longleftrightarrow> then_with (c y x) (d y x) = Less"
    using c_swap d_swap c_eq by auto
  assume xy: "then_with (c x y) (d x y) \<noteq> Greater" and yz: "then_with (c y z) (d y z) \<noteq> Greater"
  then have cxz: "c x z \<noteq> Greater"
    using comparator.cmp_trans [OF a, of x y z] by auto
  have "d x z \<noteq> Greater" if "c x z = Equal"
  proof -
    have "c z x \<noteq> Greater" using that c_eq [of x z] by simp
    then have "c y x \<noteq> Greater" "c z y \<noteq> Greater"
      using comparator.cmp_trans [OF a, of y z x] comparator.cmp_trans [OF a, of z x y] xy yz
      by auto
    then have "c x y = Equal" "c y z = Equal"
      using xy yz c_swap by (cases "c x y"; cases "c y z"; auto)+
    then show ?thesis
      using xy yz comparator.cmp_trans [OF b, of x y z] by auto
  qed
  then show "then_with (c x z) (d x z) \<noteq> Greater" using cxz by auto
qed

lemmas comparator_by_key = comparator_key [OF key_order.comparator_axioms]
lemmas comparator_intros = comparator_then comparator_by_key

section \<open>Lemmas on vectors and maps\<close>

lemma set_enumerated: "(i, x) \<in> set (enumerated xs) \<longleftrightarrow> i < length xs \<and> x = xs ! i"
  by (force simp: enumerated_def set_zip)

lemma enumerated_Nil [simp]: "enumerated [] = []"
  by (simp add: enumerated_def)

lemma enumerated_Nil_iff [simp]: "enumerated xs = [] \<longleftrightarrow> xs = []"
  by (auto simp: enumerated_def zip_eq_Nil_iff)

lemma length_vec_remove [simp]: "i < length xs \<Longrightarrow> length (vec_remove i xs) = length xs - 1"
  by (simp add: vec_remove_def)

lemma length_vec_remove_le: "length xs \<le> m \<Longrightarrow> length (vec_remove i xs) \<le> m"
  by (simp add: vec_remove_def)

lemma map_vec_remove: "map f (vec_remove i xs) = vec_remove i (map f xs)"
  by (simp add: vec_remove_def take_map drop_map)

lemma set_vec_remove_subset: "set (vec_remove i xs) \<subseteq> set xs"
  by (auto simp: vec_remove_def dest: in_set_takeD in_set_dropD)

lemma vec_remove_split: "i < length xs \<Longrightarrow> xs = take i xs @ xs ! i # drop (Suc i) xs"
  by (rule id_take_nth_drop)

lemma set_vec_remove: "i < length xs \<Longrightarrow> distinct xs \<Longrightarrow> set (vec_remove i xs) = set xs - {xs ! i}"
  using vec_remove_split [of i xs] unfolding vec_remove_def
  by (metis (no_types, lifting) Diff_insert_absorb Un_insert_right distinct_append
      distinct.simps(2) insert_iff list.simps(15) set_append UnE disjoint_iff)

lemma distinct_vec_remove: "distinct xs \<Longrightarrow> distinct (vec_remove i xs)"
  by (simp add: vec_remove_def set_take_disj_set_drop_if_distinct)

lemma sorted_wrt_vec_remove: "sorted_wrt r xs \<Longrightarrow> sorted_wrt r (vec_remove i xs)"
proof (cases "i < length xs")
  case True
  assume "sorted_wrt r xs"
  then have "sorted_wrt r (take i xs @ xs ! i # drop (Suc i) xs)"
    by (simp flip: vec_remove_split [OF True])
  then show ?thesis by (auto simp: vec_remove_def sorted_wrt_append)
qed (simp add: vec_remove_def)

end
