(* ===== verification/Text.thy ===== *)
theory Text
  imports Prelude
begin

text \<open>
  The string operations the code uses. A Rust \<^verbatim>\<open>str\<close> is modelled over the code points
  U+0000 to U+00FF: a \<^typ>\<open>char\<close> is one code point, \<^verbatim>\<open>utf8\<close> gives its bytes, and
  \<^verbatim>\<open>str::len\<close> counts those bytes. A panic (slicing inside a character, subtraction
  below zero with overflow checks) is a result of its own.
\<close>

datatype 'a exec = Panic | Ret 'a

definition utf8 :: "char \<Rightarrow> byte list" where
  "utf8 c = (let n = of_char c :: nat in
     if n < 128 then [of_nat n] else [of_nat (192 + n div 64), of_nat (128 + n mod 64)])"

definition str_bytes :: "string \<Rightarrow> byte list" where
  "str_bytes s = concat (map utf8 s)"

definition str_len :: "string \<Rightarrow> nat" where
  "str_len s = length (str_bytes s)"

text \<open>\<^verbatim>\<open>char::is_whitespace\<close> on this range.\<close>

definition is_whitespace :: "char \<Rightarrow> bool" where
  "is_whitespace c = (let n = of_char c :: nat in 9 \<le> n \<and> n \<le> 13 \<or> n = 32 \<or> n = 133 \<or> n = 160)"

definition trim_start :: "string \<Rightarrow> string" where
  "trim_start s = dropWhile is_whitespace s"

definition trim :: "string \<Rightarrow> string" where
  "trim s = rev (dropWhile is_whitespace (rev (trim_start s)))"

definition to_ascii_lowercase :: "string \<Rightarrow> string" where
  "to_ascii_lowercase s = map (\<lambda>c. let n = of_char c :: nat in
     if 65 \<le> n \<and> n \<le> 90 then char_of (n + 32) else c) s"

text \<open>\<^verbatim>\<open>str::split_once\<close> with a nonempty pattern: the text around its first occurrence.\<close>

fun split_once :: "string \<Rightarrow> string \<Rightarrow> (string \<times> string) option" where
  "split_once p [] = None"
| "split_once p (c # cs) =
     (if take (length p) (c # cs) = p then Some ([], drop (length p) (c # cs))
      else map_option (\<lambda>(a, b). (c # a, b)) (split_once p cs))"

definition occurs :: "string \<Rightarrow> string \<Rightarrow> bool" where
  "occurs p s = (split_once p s \<noteq> None)"

text \<open>Decimal rendering of a natural number, as \<^verbatim>\<open>Display\<close> writes it.\<close>

fun nat_to_string :: "nat \<Rightarrow> string" where
  "nat_to_string n =
     (if n < 10 then [char_of (48 + n)]
      else nat_to_string (n div 10) @ [char_of (48 + n mod 10)])"

declare nat_to_string.simps [simp del]

section \<open>Lemmas\<close>

lemma trim_id:
  assumes "s \<noteq> [] \<Longrightarrow> \<not> is_whitespace (hd s)" and "s \<noteq> [] \<Longrightarrow> \<not> is_whitespace (last s)"
  shows "trim s = s"
proof (cases "s = []")
  case False
  have "dropWhile is_whitespace s = s"
    using assms(1) False by (cases s) auto
  moreover have "dropWhile is_whitespace (rev s) = rev s"
    using assms(2) False by (metis dropWhile_eq_self_iff hd_rev rev_is_Nil_conv)
  ultimately show ?thesis by (simp add: trim_def trim_start_def)
qed (simp add: trim_def trim_start_def)

lemma trim_fixed:
  assumes "trim s = s" "s \<noteq> []"
  shows "\<not> is_whitespace (hd s)" and "\<not> is_whitespace (last s)"
proof -
  let ?t = "dropWhile is_whitespace s"
  have r: "rev (dropWhile is_whitespace (rev ?t)) = s"
    using assms(1) by (simp add: trim_def trim_start_def)
  have "length s \<le> length ?t"
    by (metis length_dropWhile_le length_rev r)
  moreover have split: "takeWhile is_whitespace s @ ?t = s" by simp
  ultimately have "takeWhile is_whitespace s = []"
    by (metis add_le_same_cancel2 le_zero_eq length_0_conv length_append)
  then have t: "?t = s" using split by simp
  show "\<not> is_whitespace (hd s)"
    using t assms(2) hd_dropWhile [of is_whitespace s] by fastforce
  have "dropWhile is_whitespace (rev s) = rev s"
    using r t by (metis rev_rev_ident)
  then show "\<not> is_whitespace (last s)"
    using assms(2) by (metis dropWhile_eq_self_iff hd_rev rev_is_Nil_conv)
qed

lemma split_once_char:
  "c \<notin> set k \<Longrightarrow> split_once [c] (k @ c # v) = Some (k, v)"
  by (induction k) auto

lemma split_once_char_None: "split_once [c] s = None \<longleftrightarrow> c \<notin> set s"
  by (induction s) auto

lemma split_once_Some: "split_once p s = Some (a, b) \<Longrightarrow> s = a @ p @ b"
proof (induction s arbitrary: a)
  case (Cons c cs)
  show ?case
  proof (cases "take (length p) (c # cs) = p")
    case True
    then show ?thesis using Cons.prems append_take_drop_id [of "length p" "c # cs"] by auto
  next
    case False
    then show ?thesis using Cons by auto
  qed
qed simp


end
