(* ===== verification/Data.thy ===== *)
theory Data
  imports Text
begin

text \<open>
  Identifiers and descriptors (crates/aether-core/src/data.rs and id.rs). A \<^verbatim>\<open>DataId\<close> is
  32 bytes; the BLAKE3 digest that makes one from content is a parameter
  \<^verbatim>\<open>hash\<close> of every definition that uses it. Node, task and workflow ids wrap a
  128-bit UUID.
\<close>

datatype data_id = DataId (id_bytes: "byte list")

datatype node_id = NodeId "128 word"
datatype task_id = TaskId "128 word"
datatype workflow_id = WorkflowId "128 word"

type_synonym digest = "bytes \<Rightarrow> data_id"

definition DATA_ID_LEN :: nat where
  "DATA_ID_LEN = 32"

definition data_id_wf :: "data_id \<Rightarrow> bool" where
  "data_id_wf d = (length (id_bytes d) = DATA_ID_LEN)"

record data_descriptor =
  desc_id :: data_id
  size_bytes :: nat

definition descriptor_new :: "data_id \<Rightarrow> nat \<Rightarrow> data_descriptor" where
  "descriptor_new i n = \<lparr>desc_id = i, size_bytes = n\<rparr>"

definition descriptor_of :: "digest \<Rightarrow> bytes \<Rightarrow> data_descriptor" where
  "descriptor_of hash bs = descriptor_new (hash bs) (length bs)"

section \<open>Text form of a data id\<close>

text \<open>\<^verbatim>\<open>Display\<close> writes two lower-case hex digits per byte.\<close>

definition hex_digit :: "nat \<Rightarrow> char" where
  "hex_digit n = (if n < 10 then char_of (48 + n) else char_of (87 + n))"

definition byte_hex :: "byte \<Rightarrow> string" where
  "byte_hex b = [hex_digit (unat b div 16), hex_digit (unat b mod 16)]"

definition data_id_display :: "data_id \<Rightarrow> string" where
  "data_id_display d = concat (map byte_hex (id_bytes d))"

datatype data_id_parse_error = WrongLength nat | InvalidHex nat

text \<open>
  \<^verbatim>\<open>char::to_digit(16)\<close>, and \<^verbatim>\<open>u8::from_str_radix(_, 16)\<close> on a slice of two bytes: the
  integer parser of the standard library accepts one leading plus sign.
\<close>

definition to_digit16 :: "byte \<Rightarrow> nat option" where
  "to_digit16 b = (let n = unat b in
     if 48 \<le> n \<and> n \<le> 57 then Some (n - 48)
     else if 97 \<le> n \<and> n \<le> 102 then Some (n - 87)
     else if 65 \<le> n \<and> n \<le> 70 then Some (n - 55)
     else None)"

definition from_str_radix16 :: "byte \<Rightarrow> byte \<Rightarrow> byte option" where
  "from_str_radix16 a b =
     (if a = 43 then map_option of_nat (to_digit16 b)
      else case (to_digit16 a, to_digit16 b) of
             (Some x, Some y) \<Rightarrow> Some (of_nat (16 * x + y))
           | _ \<Rightarrow> None)"

text \<open>
  The loop of \<^verbatim>\<open>DataId::from_str\<close>. Slicing \<^verbatim>\<open>s[2i..2i+2]\<close> panics when an end falls
  inside a character, that is on a continuation byte.
\<close>

definition is_continuation :: "byte \<Rightarrow> bool" where
  "is_continuation b = (128 \<le> unat b \<and> unat b < 192)"

definition slice_ok :: "bytes \<Rightarrow> bool" where
  "slice_ok rest = (case rest of [] \<Rightarrow> True | b # _ \<Rightarrow> \<not> is_continuation b)"

fun parse_pairs :: "nat \<Rightarrow> bytes \<Rightarrow> (data_id_parse_error + bytes) exec" where
  "parse_pairs i (a # b # rest) =
     (if \<not> slice_ok (a # b # rest) \<or> \<not> slice_ok rest then Panic
      else case from_str_radix16 a b of
             None \<Rightarrow> Ret (Inl (InvalidHex i))
           | Some x \<Rightarrow>
               (case parse_pairs (Suc i) rest of
                  Ret (Inr xs) \<Rightarrow> Ret (Inr (x # xs))
                | r \<Rightarrow> r))"
| "parse_pairs i _ = Ret (Inr [])"

definition data_id_from_str :: "string \<Rightarrow> (data_id_parse_error + data_id) exec" where
  "data_id_from_str s =
     (if str_len s \<noteq> DATA_ID_LEN * 2 then Ret (Inl (WrongLength (str_len s)))
      else case parse_pairs 0 (str_bytes s) of
             Panic \<Rightarrow> Panic
           | Ret (Inl e) \<Rightarrow> Ret (Inl e)
           | Ret (Inr bs) \<Rightarrow> Ret (Inr (DataId bs)))"

section \<open>Printing and parsing\<close>

lemma byte_bound: "unat (b :: byte) < 256"
  using unsigned_less [of b] by simp

lemma utf8_ascii: "n < 128 \<Longrightarrow> utf8 (char_of n) = [of_nat n]"
  by (simp add: utf8_def Let_def)

lemma str_bytes_simps [simp]:
  "str_bytes [] = []" "str_bytes (s @ t) = str_bytes s @ str_bytes t" "str_bytes (c # s) = utf8 c @ str_bytes s"
  by (simp_all add: str_bytes_def)

definition hex_code :: "nat \<Rightarrow> nat" where
  "hex_code n = (if n < 10 then 48 + n else 87 + n)"

lemma hex_code_bounds: "n < 16 \<Longrightarrow> 48 \<le> hex_code n \<and> hex_code n < 103"
  by (simp add: hex_code_def)

lemma utf8_hex_digit: "n < 16 \<Longrightarrow> utf8 (hex_digit n) = [of_nat (hex_code n)]"
proof -
  assume "n < 16"
  moreover have "hex_digit n = char_of (hex_code n)" by (simp add: hex_digit_def hex_code_def)
  ultimately show ?thesis using utf8_ascii [of "hex_code n"] hex_code_bounds [of n] by simp
qed

lemma unat_hex_code [simp]: "n < 16 \<Longrightarrow> unat (of_nat (hex_code n) :: byte) = hex_code n"
  using hex_code_bounds [of n] by (simp add: unat_of_nat)

lemma to_digit16_hex_code: "n < 16 \<Longrightarrow> to_digit16 (of_nat (hex_code n)) = Some n"
  by (simp add: to_digit16_def Let_def) (simp add: hex_code_def)

lemma hex_code_not_plus: "n < 16 \<Longrightarrow> (of_nat (hex_code n) :: byte) \<noteq> 43"
proof
  assume n: "n < 16" and "(of_nat (hex_code n) :: byte) = 43"
  then have "unat (of_nat (hex_code n) :: byte) = 43" by simp
  then show False using n hex_code_bounds [of n] by simp
qed

lemma from_str_radix16_hex:
  "from_str_radix16 (of_nat (hex_code (unat b div 16))) (of_nat (hex_code (unat b mod 16))) = Some b"
proof -
  note byte_bound [of b]
  then have d: "unat b div 16 < 16" "unat b mod 16 < 16" by auto
  have "16 * (unat b div 16) + unat b mod 16 = unat b" by simp
  then have "(of_nat (16 * (unat b div 16) + unat b mod 16) :: byte) = b" by (simp only: of_nat_unat ucast_id)
  then show ?thesis
    using d by (simp only: from_str_radix16_def to_digit16_hex_code hex_code_not_plus option.case prod.case if_False)
qed

lemma slice_ok_hex: "n < 16 \<Longrightarrow> slice_ok (of_nat (hex_code n) # r)"
  using hex_code_bounds [of n] by (simp add: slice_ok_def is_continuation_def)

lemma str_bytes_byte_hex:
  "str_bytes (byte_hex b) = [of_nat (hex_code (unat b div 16)), of_nat (hex_code (unat b mod 16))]"
proof -
  note byte_bound [of b]
  then show ?thesis by (simp add: byte_hex_def utf8_hex_digit)
qed

lemma slice_ok_display: "slice_ok (str_bytes (concat (map byte_hex bs)))"
proof (cases bs)
  case (Cons b r)
  note byte_bound [of b]
  then show ?thesis using Cons by (simp add: str_bytes_byte_hex slice_ok_hex)
qed (simp add: slice_ok_def)

lemma parse_pairs_display: "parse_pairs i (str_bytes (concat (map byte_hex bs))) = Ret (Inr bs)"
proof (induction bs arbitrary: i)
  case (Cons b bs)
  note byte_bound [of b]
  then show ?case
    using Cons [of "Suc i"] slice_ok_display [of bs]
    by (simp add: str_bytes_byte_hex slice_ok_hex from_str_radix16_hex)
qed simp

lemma length_display: "length (str_bytes (concat (map byte_hex bs))) = 2 * length bs"
  by (induction bs) (simp_all add: str_bytes_byte_hex)

text \<open>A valid id survives printing and parsing.\<close>

lemma data_id_roundtrip_wf:
  "data_id_wf d \<Longrightarrow> data_id_from_str (data_id_display d) = Ret (Inr d)"
  by (cases d) (simp add: data_id_from_str_def data_id_display_def str_len_def length_display
      parse_pairs_display data_id_wf_def)

text \<open>
  Printing an id of 32 bytes and parsing the text gives the id back, without a panic.
\<close>

lemma data_id_roundtrip:
  assumes "length bs = 32"
  shows "data_id_from_str (data_id_display (DataId bs)) = Ret (Inr (DataId bs))"
  using assms by (intro data_id_roundtrip_wf) (simp add: data_id_wf_def DATA_ID_LEN_def)

text \<open>
  The parser takes more than it prints: a pair may be a plus sign and one digit, and a
  64-byte text with a two-byte character across a pair boundary panics.
\<close>

lemma data_id_accepts_plus:
  "data_id_from_str (concat (replicate 32 ''+f'')) = Ret (Inr (DataId (replicate 32 15)))"
  by code_simp

lemma data_id_panics_inside_character:
  "data_id_from_str (''0'' @ [char_of (233 :: nat)] @ replicate 61 (CHR ''0'')) = Panic"
  by code_simp

end
