(* ===== verification/Task.thy ===== *)
theory Task
  imports Data "HOL-Library.Product_Lexorder"
begin

text \<open>
  Units of work (crates/aether-core/src/task.rs) and placement constraints
  (crates/aether-core/src/labels.rs): priorities with their order and text form, tasks,
  task results, label maps and the constraint language.
\<close>

section \<open>Priorities\<close>

datatype priority = Background | Low | Normal | High | Critical

definition PRIORITY_ALL :: "priority list" where
  "PRIORITY_ALL = [Background, Low, Normal, High, Critical]"

fun promoted :: "priority \<Rightarrow> priority" where
  "promoted Background = Low"
| "promoted Low = Normal"
| "promoted Normal = High"
| "promoted High = Critical"
| "promoted Critical = Critical"

text \<open>The discriminant \<^verbatim>\<open>priority as usize\<close>, which also gives the derived order.\<close>

fun priority_index :: "priority \<Rightarrow> nat" where
  "priority_index Background = 0"
| "priority_index Low = 1"
| "priority_index Normal = 2"
| "priority_index High = 3"
| "priority_index Critical = 4"

fun priority_as_str :: "priority \<Rightarrow> string" where
  "priority_as_str Background = ''background''"
| "priority_as_str Low = ''low''"
| "priority_as_str Normal = ''normal''"
| "priority_as_str High = ''high''"
| "priority_as_str Critical = ''critical''"

definition priority_from_str :: "string \<Rightarrow> string + priority" where
  "priority_from_str input =
     (let s = to_ascii_lowercase (trim input) in
      if s = ''critical'' then Inr Critical
      else if s = ''high'' then Inr High
      else if s = ''normal'' \<or> s = [] then Inr Normal
      else if s = ''low'' then Inr Low
      else if s = ''background'' then Inr Background
      else Inl input)"

instantiation priority :: linorder
begin

definition less_eq_priority :: "priority \<Rightarrow> priority \<Rightarrow> bool" where
  "less_eq_priority p q = (priority_index p \<le> priority_index q)"

definition less_priority :: "priority \<Rightarrow> priority \<Rightarrow> bool" where
  "less_priority p q = (priority_index p < priority_index q)"

instance
proof
  fix x y z :: priority
  show "x < y \<longleftrightarrow> x \<le> y \<and> \<not> y \<le> x"
    by (auto simp: less_eq_priority_def less_priority_def)
  show "x \<le> x" and "x \<le> y \<or> y \<le> x"
    by (auto simp: less_eq_priority_def)
  show "x \<le> z" if "x \<le> y" "y \<le> z"
    using that by (simp add: less_eq_priority_def)
  show "x = y" if "x \<le> y" "y \<le> x"
    using that by (cases x; cases y; simp add: less_eq_priority_def)
qed

end

section \<open>Labels and constraints\<close>

text \<open>
  A label map is a \<^verbatim>\<open>BTreeMap<String, String>\<close>; the code only looks keys up and inserts.
\<close>

type_synonym labels = "string \<rightharpoonup> string"

datatype constraint =
    Equals string string
  | Exists string
  | NotEquals string string

fun is_satisfied_by :: "constraint \<Rightarrow> labels \<Rightarrow> bool" where
  "is_satisfied_by (Equals key val) labels = (labels key = Some val)"
| "is_satisfied_by (Exists key) labels = (labels key \<noteq> None)"
| "is_satisfied_by (NotEquals key val) labels = (labels key \<noteq> Some val)"

text \<open>\<^verbatim>\<open>Constraint::from_str\<close>: the error carries the input.\<close>

definition constraint_from_str :: "string \<Rightarrow> string + constraint" where
  "constraint_from_str input =
     (let text = trim input in
      case split_once ''!='' text of
        Some (key, val) \<Rightarrow>
          (if trim key = [] then Inl input else Inr (NotEquals (trim key) (trim val)))
      | None \<Rightarrow>
          (case split_once ''='' text of
             Some (key, val) \<Rightarrow>
               (if trim key = [] then Inl input else Inr (Equals (trim key) (trim val)))
           | None \<Rightarrow> (if text = [] then Inl input else Inr (Exists text))))"

fun constraint_display :: "constraint \<Rightarrow> string" where
  "constraint_display (Equals key val) = key @ ''='' @ val"
| "constraint_display (Exists key) = key"
| "constraint_display (NotEquals key val) = key @ ''!='' @ val"

definition satisfies_all :: "labels \<Rightarrow> constraint list \<Rightarrow> bool" where
  "satisfies_all labels cs = list_all (\<lambda>c. is_satisfied_by c labels) cs"

text \<open>\<^verbatim>\<open>parse_labels\<close>: a pair without an equals sign or with an empty key is dropped.\<close>

definition parse_label :: "string \<Rightarrow> (string \<times> string) option" where
  "parse_label pair =
     (case split_once ''='' pair of
        None \<Rightarrow> None
      | Some (key, val) \<Rightarrow> (if trim key = [] then None else Some (trim key, trim val)))"

fun parse_labels_from :: "labels \<Rightarrow> string list \<Rightarrow> labels" where
  "parse_labels_from m [] = m"
| "parse_labels_from m (p # ps) =
     parse_labels_from (case parse_label p of None \<Rightarrow> m | Some (k, v) \<Rightarrow> m(k \<mapsto> v)) ps"

definition parse_labels :: "string list \<Rightarrow> labels" where
  "parse_labels pairs = parse_labels_from Map.empty pairs"

section \<open>Tasks and results\<close>

record task =
  task_id :: task_id
  task_kind :: string
  payload :: bytes
  inputs :: "data_id list"
  task_priority :: priority
  constraints :: "constraint list"
  module :: "data_id option"

text \<open>The generated identifier is an argument.\<close>

definition task_new :: "task_id \<Rightarrow> string \<Rightarrow> bytes \<Rightarrow> task" where
  "task_new i k p = \<lparr>task_id = i, task_kind = k, payload = p, inputs = [],
     task_priority = Normal, constraints = [], module = None\<rparr>"

definition task_wasm :: "task_id \<Rightarrow> data_id \<Rightarrow> bytes \<Rightarrow> task" where
  "task_wasm i m p = \<lparr>task_id = i, task_kind = ''wasm'', payload = p, inputs = [m],
     task_priority = Normal, constraints = [], module = Some m\<rparr>"

definition with_inputs :: "task \<Rightarrow> data_id list \<Rightarrow> task" where
  "with_inputs t ins = t\<lparr>inputs :=
     (case module t of
        Some m \<Rightarrow> (if m \<in> set ins then ins else m # ins)
      | None \<Rightarrow> ins)\<rparr>"

definition with_constraints :: "task \<Rightarrow> constraint list \<Rightarrow> task" where
  "with_constraints t cs = t\<lparr>constraints := cs\<rparr>"

definition requiring :: "task \<Rightarrow> constraint \<Rightarrow> task" where
  "requiring t c = t\<lparr>constraints := constraints t @ [c]\<rparr>"

definition with_priority :: "task \<Rightarrow> priority \<Rightarrow> task" where
  "with_priority t p = t\<lparr>task_priority := p\<rparr>"

definition payload_len :: "task \<Rightarrow> nat" where
  "payload_len t = length (payload t)"

datatype task_outcome = Success bytes | Failure string

record task_result =
  res_task_id :: task_id
  res_node_id :: node_id
  outcome :: task_outcome
  res_duration :: duration
  output_id :: "data_id option"

definition result_success :: "task_id \<Rightarrow> node_id \<Rightarrow> bytes \<Rightarrow> duration \<Rightarrow> task_result" where
  "result_success t n out d = \<lparr>res_task_id = t, res_node_id = n, outcome = Success out,
     res_duration = d, output_id = None\<rparr>"

definition result_produced ::
    "task_id \<Rightarrow> node_id \<Rightarrow> bytes \<Rightarrow> duration \<Rightarrow> data_id \<Rightarrow> task_result" where
  "result_produced t n out d i = (result_success t n out d)\<lparr>output_id := Some i\<rparr>"

definition result_failure :: "task_id \<Rightarrow> node_id \<Rightarrow> string \<Rightarrow> duration \<Rightarrow> task_result" where
  "result_failure t n msg d = \<lparr>res_task_id = t, res_node_id = n, outcome = Failure msg,
     res_duration = d, output_id = None\<rparr>"

definition is_success :: "task_result \<Rightarrow> bool" where
  "is_success r = (case outcome r of Success _ \<Rightarrow> True | Failure _ \<Rightarrow> False)"

definition result_output :: "task_result \<Rightarrow> bytes option" where
  "result_output r = (case outcome r of Success out \<Rightarrow> Some out | Failure _ \<Rightarrow> None)"

section \<open>Lemmas on priorities\<close>

lemma priority_index_inject [simp]: "priority_index p = priority_index q \<longleftrightarrow> p = q"
  by (cases p; cases q; simp)

lemma priority_le_Critical [simp]: "p \<le> Critical"
  by (cases p) (simp_all add: less_eq_priority_def)

lemma priority_index_promoted: "priority_index (promoted p) = min 4 (Suc (priority_index p))"
  by (cases p) simp_all

lemma priority_index_promotedn: "priority_index ((promoted ^^ n) p) = min 4 (n + priority_index p)"
proof (induction n)
  case 0
  then show ?case by (cases p) simp_all
qed (simp add: priority_index_promoted)

lemma promotedn_Critical: "4 \<le> n \<Longrightarrow> (promoted ^^ n) p = Critical"
  using priority_index_promotedn [of n p] by (simp flip: priority_index_inject)

lemma promotedn_mono: "m \<le> n \<Longrightarrow> (promoted ^^ m) p \<le> (promoted ^^ n) p"
  by (simp add: less_eq_priority_def priority_index_promotedn)

lemma priority_roundtrip_each: "priority_from_str (priority_as_str p) = Inr p"
  by (cases p) (simp_all add: priority_from_str_def trim_def trim_start_def is_whitespace_def
      to_ascii_lowercase_def Let_def)

section \<open>Constraints survive printing and parsing\<close>

text \<open>
  A constraint whose text is unambiguous: trimmed parts, a nonempty key without an
  equals sign, and no occurrence of the not-equals sign except the one that is printed.
\<close>

fun printable :: "constraint \<Rightarrow> bool" where
  "printable (Equals key val) =
     (key \<noteq> [] \<and> trim key = key \<and> trim val = val \<and> CHR ''='' \<notin> set key
      \<and> \<not> occurs ''!='' (key @ ''='' @ val))"
| "printable (Exists key) = (key \<noteq> [] \<and> trim key = key \<and> CHR ''='' \<notin> set key)"
| "printable (NotEquals key val) =
     (key \<noteq> [] \<and> trim key = key \<and> trim val = val \<and> CHR ''='' \<notin> set key)"

lemma not_occurs_iff: "\<not> occurs p s \<longleftrightarrow> split_once p s = None"
  by (cases "split_once p s") (simp_all add: occurs_def)

lemma not_equals_occurs_eq: "occurs ''!='' s \<Longrightarrow> CHR ''='' \<in> set s"
  by (auto simp: occurs_def dest: split_once_Some)

lemma split_once_ne:
  "CHR ''='' \<notin> set k \<Longrightarrow> split_once ''!='' (k @ ''!='' @ v) = Some (k, v)"
proof (induction k)
  case (Cons c k)
  then have "take 2 (c # k @ ''!='' @ v) \<noteq> ''!=''"
    by (cases k) auto
  then show ?case using Cons by simp
qed simp

lemma is_whitespace_signs [simp]: "\<not> is_whitespace (CHR ''='')" "\<not> is_whitespace (CHR ''!'')"
  by (simp_all add: is_whitespace_def)

lemma trim_joined:
  assumes "key \<noteq> []" "trim key = key" "trim val = val" "sep \<noteq> []" "\<not> is_whitespace (last sep)"
  shows "trim (key @ sep @ val) = key @ sep @ val"
proof (rule trim_id)
  show "\<not> is_whitespace (hd (key @ sep @ val))"
    using trim_fixed(1) [OF assms(2,1)] assms(1) by simp
  show "\<not> is_whitespace (last (key @ sep @ val))"
    using trim_fixed(2) [OF assms(3)] assms(4,5) by (cases "val = []") simp_all
qed

lemma constraint_roundtrip_printable:
  assumes "printable c"
  shows "constraint_from_str (constraint_display c) = Inr c"
proof (cases c)
  case (Equals key val)
  with assms have "split_once ''!='' (key @ ''='' @ val) = None"
    by (simp add: not_occurs_iff)
  with Equals assms show ?thesis
    using trim_joined [of key val "''=''"] split_once_char [of "CHR ''=''" key val]
    by (simp add: constraint_from_str_def)
next
  case (Exists key)
  with assms have "split_once ''='' key = None" by (simp add: split_once_char_None)
  moreover have "split_once ''!='' key = None"
    using assms Exists not_equals_occurs_eq [of key] by (auto simp flip: not_occurs_iff)
  ultimately show ?thesis using Exists assms by (simp add: constraint_from_str_def)
next
  case (NotEquals key val)
  with assms show ?thesis
    using trim_joined [of key val "''!=''"] split_once_ne [of key val]
    by (simp add: constraint_from_str_def)
qed

text \<open>
  A constraint with trimmed parts, a nonempty key without an equals sign, and no stray
  not-equals sign is read back from its text form as itself.
\<close>

lemma constraint_roundtrip:
  assumes "printable c"
  shows "constraint_from_str (constraint_display c) = Inr c"
  using assms by (rule constraint_roundtrip_printable)

text \<open>
  Without that condition the text form is ambiguous: a constraint that the parser itself
  produces prints as the text of a different one.
\<close>

lemma constraint_display_ambiguous:
  "constraint_from_str ''a! =b'' = Inr (Equals ''a!'' ''b'') \<and>
   constraint_from_str (constraint_display (Equals ''a!'' ''b'')) = Inr (NotEquals ''a'' ''b'')"
  by code_simp

end
