(* ===== verification/Floats.thy ===== *)
theory Floats
  imports Prelude Complex_Main
begin

text \<open>
  Rust's \<^verbatim>\<open>f32\<close> and \<^verbatim>\<open>f64\<close>: IEEE 754 binary formats with round-to-nearest-even,
  as far as the scheduler, the queue, the autoscaler and the compression policy use
  them. A finite value is a sign and a nonnegative rational magnitude, so that both
  zeros exist; a not-a-number carries no payload. The operations compute, and the
  lemmas the components need are monotonicity of rounding and exactness on integers.
\<close>

section \<open>Formats and rounding\<close>

record fformat =
  prec :: nat
  emax :: int

definition f32 :: fformat where
  "f32 = \<lparr>prec = 24, emax = 127\<rparr>"

definition f64 :: fformat where
  "f64 = \<lparr>prec = 53, emax = 1023\<rparr>"

text \<open>The exponent of the leading bit of a positive rational.\<close>

definition pow2 :: "int \<Rightarrow> rat" where
  "pow2 e = (if 0 \<le> e then 2 ^ nat e else 1 / 2 ^ nat (- e))"

fun bit_length :: "int \<Rightarrow> int" where
  "bit_length n = (if n \<le> 0 then 0 else 1 + bit_length (n div 2))"

declare bit_length.simps [simp del]

definition ilog2 :: "rat \<Rightarrow> int" where
  "ilog2 x = (if 1 \<le> x then bit_length \<lfloor>x\<rfloor> - 1 else - bit_length (\<lceil>1 / x\<rceil> - 1))"

text \<open>Round to an integer, ties to even.\<close>

definition round_even :: "rat \<Rightarrow> int" where
  "round_even x = (let f = \<lfloor>x\<rfloor>; r = x - of_int f
     in if r < 1 / 2 then f else if 1 / 2 < r then f + 1 else if even f then f else f + 1)"

text \<open>The exponent of the unit in the last place of a magnitude; subnormals share one.\<close>

definition ulp_exp :: "fformat \<Rightarrow> rat \<Rightarrow> int" where
  "ulp_exp m x = max (ilog2 x - (int (prec m) - 1)) (2 - emax m - int (prec m))"

definition round_at :: "int \<Rightarrow> rat \<Rightarrow> rat" where
  "round_at q x = of_int (round_even (x / pow2 q)) * pow2 q"

definition round_mag :: "fformat \<Rightarrow> rat \<Rightarrow> rat" where
  "round_mag m x = (if x \<le> 0 then 0 else round_at (ulp_exp m x) x)"

definition max_finite :: "fformat \<Rightarrow> rat" where
  "max_finite m = (2 - pow2 (1 - int (prec m))) * pow2 (emax m)"

section \<open>Values and operations\<close>

datatype fl = NaN | Inf (negative: bool) | Num (negative: bool) (mag: rat)
  where "negative NaN = False" | "mag NaN = 0" | "mag (Inf s) = 0"

definition fval :: "fl \<Rightarrow> rat" where
  "fval x = (if negative x then - mag x else mag x)"

text \<open>The nearest value of the format, with the sign a zero result takes.\<close>

definition fround :: "fformat \<Rightarrow> bool \<Rightarrow> rat \<Rightarrow> fl" where
  "fround m s v =
     (if v = 0 then Num s 0
      else let r = round_mag m \<bar>v\<bar> in if max_finite m < r then Inf (v < 0) else Num (v < 0) r)"

fun fneg :: "fl \<Rightarrow> fl" where
  "fneg NaN = NaN"
| "fneg (Inf s) = Inf (\<not> s)"
| "fneg (Num s a) = Num (\<not> s) a"

fun fadd :: "fformat \<Rightarrow> fl \<Rightarrow> fl \<Rightarrow> fl" where
  "fadd m (Num s a) (Num t b) = fround m (s \<and> t) (fval (Num s a) + fval (Num t b))"
| "fadd m (Inf s) (Inf t) = (if s = t then Inf s else NaN)"
| "fadd m (Inf s) (Num _ _) = Inf s"
| "fadd m (Num _ _) (Inf t) = Inf t"
| "fadd m _ _ = NaN"

definition fsub :: "fformat \<Rightarrow> fl \<Rightarrow> fl \<Rightarrow> fl" where
  "fsub m x y = fadd m x (fneg y)"

fun fmul :: "fformat \<Rightarrow> fl \<Rightarrow> fl \<Rightarrow> fl" where
  "fmul m (Num s a) (Num t b) = fround m (s \<noteq> t) (fval (Num s a) * fval (Num t b))"
| "fmul m (Inf s) (Inf t) = Inf (s \<noteq> t)"
| "fmul m (Inf s) (Num t b) = (if b = 0 then NaN else Inf (s \<noteq> t))"
| "fmul m (Num s a) (Inf t) = (if a = 0 then NaN else Inf (s \<noteq> t))"
| "fmul m _ _ = NaN"

fun fdiv :: "fformat \<Rightarrow> fl \<Rightarrow> fl \<Rightarrow> fl" where
  "fdiv m (Num s a) (Num t b) =
     (if b = 0 then if a = 0 then NaN else Inf (s \<noteq> t)
      else fround m (s \<noteq> t) (fval (Num s a) / fval (Num t b)))"
| "fdiv m (Inf s) (Num t b) = Inf (s \<noteq> t)"
| "fdiv m (Num s a) (Inf t) = Num (s \<noteq> t) 0"
| "fdiv m _ _ = NaN"

fun fabs :: "fl \<Rightarrow> fl" where
  "fabs NaN = NaN"
| "fabs (Inf s) = Inf False"
| "fabs (Num s a) = Num False a"

text \<open>The IEEE comparison: false as soon as one side is not a number.\<close>

fun flt :: "fl \<Rightarrow> fl \<Rightarrow> bool" where
  "flt (Num s a) (Num t b) = (fval (Num s a) < fval (Num t b))"
| "flt (Inf s) (Inf t) = (s \<and> \<not> t)"
| "flt (Inf s) (Num _ _) = s"
| "flt (Num _ _) (Inf t) = (\<not> t)"
| "flt _ _ = False"

definition feq :: "fl \<Rightarrow> fl \<Rightarrow> bool" where
  "feq x y = (x \<noteq> NaN \<and> y \<noteq> NaN \<and> \<not> flt x y \<and> \<not> flt y x)"

definition fle :: "fl \<Rightarrow> fl \<Rightarrow> bool" where
  "fle x y = (flt x y \<or> feq x y)"

text \<open>\<^verbatim>\<open>f32::max\<close> ignores a not-a-number; \<^verbatim>\<open>clamp\<close> passes it through.\<close>

definition fmax :: "fl \<Rightarrow> fl \<Rightarrow> fl" where
  "fmax x y = (if x = NaN then y else if y = NaN then x else if flt x y then y else x)"

definition fclamp :: "fl \<Rightarrow> fl \<Rightarrow> fl \<Rightarrow> fl" where
  "fclamp lo hi x = (if flt x lo then lo else if flt hi x then hi else x)"

text \<open>
  \<^verbatim>\<open>total_cmp\<close>: negative before positive, minus zero before plus zero, and the
  not-a-number (its sign is not modelled) above everything.
\<close>

fun total_rank :: "fl \<Rightarrow> int \<times> rat" where
  "total_rank (Inf True) = (0, 0)"
| "total_rank (Num True a) = (1, - a)"
| "total_rank (Num False a) = (2, a)"
| "total_rank (Inf False) = (3, 0)"
| "total_rank NaN = (4, 0)"

definition total_cmp :: "fl \<Rightarrow> fl \<Rightarrow> ordering" where
  "total_cmp x y = then_with (compare (fst (total_rank x)) (fst (total_rank y)))
                             (compare (snd (total_rank x)) (snd (total_rank y)))"

text \<open>Casts: from an integer, between formats, and saturating to an unsigned integer.\<close>

definition of_nat_f :: "fformat \<Rightarrow> nat \<Rightarrow> fl" where
  "of_nat_f m n = fround m False (of_nat n)"

definition fconst :: "fformat \<Rightarrow> rat \<Rightarrow> fl" where
  "fconst m v = fround m False v"

fun fcast :: "fformat \<Rightarrow> fl \<Rightarrow> fl" where
  "fcast m NaN = NaN"
| "fcast m (Inf s) = Inf s"
| "fcast m (Num s a) = fround m s (fval (Num s a))"

fun to_uint :: "nat \<Rightarrow> fl \<Rightarrow> nat" where
  "to_uint w NaN = 0"
| "to_uint w (Inf s) = (if s then 0 else 2 ^ w - 1)"
| "to_uint w (Num s a) = (if s then 0 else min (nat \<lfloor>a\<rfloor>) (2 ^ w - 1))"

fun fceil :: "fl \<Rightarrow> fl" where
  "fceil (Num s a) = (let c = \<lceil>fval (Num s a)\<rceil> in Num s \<bar>of_int c\<bar>)"
| "fceil x = x"

fun ffloor :: "fl \<Rightarrow> fl" where
  "ffloor (Num s a) = (let c = \<lfloor>fval (Num s a)\<rfloor> in Num s \<bar>of_int c\<bar>)"
| "ffloor x = x"

text \<open>\<^verbatim>\<open>Duration::as_secs_f64\<close> adds whole seconds and the fraction in double precision.\<close>

definition as_secs_f64 :: "duration \<Rightarrow> fl" where
  "as_secs_f64 d = fadd f64 (of_nat_f f64 (d div nanos_per_sec))
     (fdiv f64 (of_nat_f f64 (d mod nanos_per_sec)) (of_nat_f f64 nanos_per_sec))"

definition as_secs_f32 :: "duration \<Rightarrow> fl" where
  "as_secs_f32 d = fadd f32 (of_nat_f f32 (d div nanos_per_sec))
     (fdiv f32 (of_nat_f f32 (d mod nanos_per_sec)) (of_nat_f f32 nanos_per_sec))"

text \<open>The quotient of two durations cast to \<^verbatim>\<open>u32\<close>.\<close>

definition f64_periods :: "duration \<Rightarrow> duration \<Rightarrow> nat" where
  "f64_periods waited period = to_uint 32 (fdiv f64 (as_secs_f64 waited) (as_secs_f64 period))"

section \<open>Powers of two and leading bits\<close>

lemma pow2_powi: "pow2 e = 2 powi e"
  by (simp add: pow2_def power_int_def field_simps)

lemma pow2_pos [simp]: "0 < pow2 e"
  by (simp add: pow2_powi)

lemma pow2_neq_0 [simp]: "pow2 e \<noteq> 0"
  using pow2_pos [of e] by linarith

lemma pow2_add: "pow2 (a + b) = pow2 a * pow2 b"
  by (simp add: pow2_powi power_int_add)

lemma pow2_diff: "pow2 (a - b) = pow2 a / pow2 b"
  by (simp add: pow2_powi power_int_diff)

lemma pow2_mono: "a \<le> b \<Longrightarrow> pow2 a \<le> pow2 b"
  by (simp add: pow2_powi power_int_increasing)

lemma pow2_strict: "a < b \<Longrightarrow> pow2 a < pow2 b"
  by (simp add: pow2_powi power_int_strict_increasing)

lemma pow2_less: "pow2 a < pow2 b \<longleftrightarrow> a < b"
  using pow2_strict [of a b] pow2_mono [of b a] by (cases "a < b") auto

lemma pow2_nat: "0 \<le> e \<Longrightarrow> pow2 e = of_int (2 ^ nat e)"
  by (simp add: pow2_def)

lemma bit_length_nonneg [simp]: "0 \<le> bit_length n"
proof (induction n rule: bit_length.induct)
  case (1 n)
  then show ?case by (subst bit_length.simps) simp
qed

lemma bit_length_bounds: "0 < n \<Longrightarrow> 1 \<le> bit_length n \<and> 2 ^ nat (bit_length n - 1) \<le> n \<and> n < 2 ^ nat (bit_length n)"
proof (induction n rule: bit_length.induct)
  case (1 n)
  show ?case
  proof (cases "n = 1")
    case True
    then show ?thesis by (simp add: bit_length.simps)
  next
    case False
    let ?b = "bit_length (n div 2)"
    from False 1 have b: "1 \<le> ?b" "2 ^ nat (?b - 1) \<le> n div 2" "n div 2 < 2 ^ nat ?b"
      by (auto simp: not_le)
    have e: "bit_length n = 1 + ?b"
      using 1 by (subst bit_length.simps) simp
    have p: "(2::int) ^ nat ?b = 2 * 2 ^ nat (?b - 1)"
      using b(1) by (metis (no_types, lifting) Suc_nat_eq_nat_zadd1 add.commute diff_ge_0_iff_ge le_add_diff_inverse2 power_Suc)
    have q: "(2::int) ^ nat (1 + ?b) = 2 * 2 ^ nat ?b"
      by (simp add: nat_add_distrib)
    have d: "2 * (n div 2) \<le> n" "n < 2 * (n div 2) + 2" by auto
    have "bit_length n - 1 = ?b" using e by simp
    then show ?thesis unfolding e using b d p q by simp
  qed
qed

lemma ilog2_bounds:
  assumes "0 < x"
  shows "pow2 (ilog2 x) \<le> x" and "x < pow2 (ilog2 x + 1)"
proof -
  have "pow2 (ilog2 x) \<le> x \<and> x < pow2 (ilog2 x + 1)"
  proof (cases "1 \<le> x")
    case True
    let ?b = "bit_length \<lfloor>x\<rfloor>"
    have "0 < \<lfloor>x\<rfloor>" using True by (simp add: le_floor_iff)
    then have b: "1 \<le> ?b" "2 ^ nat (?b - 1) \<le> \<lfloor>x\<rfloor>" "\<lfloor>x\<rfloor> < 2 ^ nat ?b"
      using bit_length_bounds by auto
    have "pow2 (?b - 1) \<le> x" using b(1,2) by (simp add: pow2_nat le_floor_iff)
    moreover have "x < pow2 ?b" using b(1,3) by (simp add: pow2_nat floor_less_iff)
    ultimately show ?thesis using True by (simp add: ilog2_def)
  next
    case False
    let ?n = "\<lceil>1 / x\<rceil> - 1" let ?b = "bit_length ?n"
    have "1 < 1 / x" using False assms by (simp add: field_simps)
    then have n: "0 < ?n" by (simp add: less_ceiling_iff)
    have b: "1 \<le> ?b" "2 ^ nat (?b - 1) \<le> ?n" "?n < 2 ^ nat ?b"
      using bit_length_bounds [OF n] by blast+
    have "\<lceil>1 / x\<rceil> \<le> 2 ^ nat ?b" using b(3) by simp
    then have up: "1 / x \<le> pow2 ?b" using b(1) by (simp add: pow2_nat ceiling_le_iff)
    have "2 ^ nat (?b - 1) < \<lceil>1 / x\<rceil>" using b(2) by simp
    then have lo: "pow2 (?b - 1) < 1 / x" using b(1) by (simp add: pow2_nat less_ceiling_iff)
    have e: "ilog2 x = - ?b" using False by (simp add: ilog2_def)
    have inv: "pow2 (- a) = 1 / pow2 a" for a
      using pow2_diff [of 0 a] by (simp add: pow2_def)
    have inv1: "pow2 (1 - ?b) = 1 / pow2 (?b - 1)"
      using inv [of "?b - 1"] by simp
    have "1 / pow2 ?b \<le> x" using up assms by (simp add: field_simps)
    moreover have "x < 1 / pow2 (?b - 1)" using lo assms by (simp add: field_simps)
    ultimately show ?thesis by (simp add: e inv inv1)
  qed
  then show "pow2 (ilog2 x) \<le> x" and "x < pow2 (ilog2 x + 1)" by auto
qed

lemma ilog2_mono:
  assumes "0 < x" "x \<le> y"
  shows "ilog2 x \<le> ilog2 y"
proof -
  have "0 < y" using assms by simp
  have "pow2 (ilog2 x) < pow2 (ilog2 y + 1)"
    using ilog2_bounds(1) [OF assms(1)] assms(2) ilog2_bounds(2) [OF \<open>0 < y\<close>] by linarith
  then show ?thesis by (simp add: pow2_less)
qed

section \<open>Rounding is monotone and exact on representable values\<close>

lemma round_even_of_int [simp]: "round_even (of_int n) = n"
  by (simp add: round_even_def)

lemma round_even_mono: "x \<le> y \<Longrightarrow> round_even x \<le> round_even y"
proof -
  assume xy: "x \<le> y"
  then have f: "\<lfloor>x\<rfloor> \<le> \<lfloor>y\<rfloor>" by (rule floor_mono)
  have up: "round_even x \<le> \<lfloor>x\<rfloor> + 1" and lo: "\<lfloor>y\<rfloor> \<le> round_even y"
    by (auto simp: round_even_def Let_def)
  show ?thesis
  proof (cases "\<lfloor>x\<rfloor> = \<lfloor>y\<rfloor>")
    case True
    then show ?thesis using xy by (auto simp: round_even_def Let_def)
  next
    case False
    then show ?thesis using f up lo by linarith
  qed
qed

lemma round_at_mono: "x \<le> y \<Longrightarrow> round_at q x \<le> round_at q y"
  unfolding round_at_def
  by (intro mult_right_mono) (auto intro!: round_even_mono divide_right_mono simp: less_imp_le)

lemma round_at_exact: "round_at q (of_int n * pow2 q) = of_int n * pow2 q"
  by (simp add: round_at_def)

lemma pow2_multiple:
  assumes "q \<le> e"
  shows "\<exists>n::int. pow2 e = of_int n * pow2 q"
proof
  show "pow2 e = of_int (2 ^ nat (e - q)) * pow2 q"
    using assms pow2_add [of "e - q" q] by (simp add: pow2_nat)
qed

lemma round_at_pow2: "q \<le> e \<Longrightarrow> round_at q (pow2 e) = pow2 e"
  using pow2_multiple round_at_exact by metis

lemma round_mag_nonneg [simp]: "0 \<le> round_mag m x"
proof (cases "x \<le> 0")
  case False
  then have "round_at (ulp_exp m x) 0 \<le> round_at (ulp_exp m x) x"
    by (intro round_at_mono) simp
  then show ?thesis using False round_at_exact [of _ 0] by (simp add: round_mag_def)
qed (simp add: round_mag_def)

lemma round_mag_mono:
  assumes "x \<le> y" and p: "1 \<le> prec m"
  shows "round_mag m x \<le> round_mag m y"
proof (cases "0 < x")
  case True
  let ?qx = "ulp_exp m x" let ?qy = "ulp_exp m y" let ?e = "ilog2 y"
  have y: "0 < y" using True assms by simp
  have le: "ilog2 x \<le> ?e" using True assms(1) by (rule ilog2_mono)
  have def: "round_mag m x = round_at ?qx x" "round_mag m y = round_at ?qy y"
    using True y by (simp_all add: round_mag_def)
  show ?thesis
  proof (cases "?qx = ?qy")
    case True
    then show ?thesis using def assms(1) by (simp add: round_at_mono)
  next
    case False
    then have less: "?qx < ?qy" "ilog2 x < ?e" "?qx \<le> ?e"
      using le by (auto simp: ulp_exp_def max_def split: if_splits)
    show ?thesis
    proof (cases "?qy \<le> ?e")
      case True
      have "x \<le> pow2 ?e"
        using ilog2_bounds(2) [OF \<open>0 < x\<close>] pow2_mono [of "ilog2 x + 1" ?e] less(2) by simp
      then have "round_at ?qx x \<le> round_at ?qx (pow2 ?e)" by (rule round_at_mono)
      also have "\<dots> = pow2 ?e" using less(3) by (rule round_at_pow2)
      also have "\<dots> = round_at ?qy (pow2 ?e)" using True by (rule round_at_pow2 [symmetric])
      also have "\<dots> \<le> round_at ?qy y" using ilog2_bounds(1) [OF y] by (rule round_at_mono)
      finally show ?thesis by (simp add: def)
    next
      case False
      then have False using less p by (auto simp: ulp_exp_def max_def split: if_splits)
      then show ?thesis ..
    qed
  qed
next
  case False
  then have "round_mag m x = 0" by (simp add: round_mag_def)
  then show ?thesis by simp
qed

lemma round_mag_of_nat:
  assumes "n \<le> 2 ^ prec m" and "1 \<le> prec m" and "int (prec m) \<le> emax m"
  shows "round_mag m (of_nat n) = of_nat n"
proof (cases "n = 0")
  case False
  let ?x = "of_nat n :: rat" let ?q = "ulp_exp m ?x"
  have x: "0 < ?x" using False by simp
  have "pow2 (int (prec m)) = of_nat (2 ^ prec m)" by (simp add: pow2_def)
  then have n: "?x \<le> pow2 (int (prec m))" using assms(1) by (simp only: of_nat_le_iff)
  then have "pow2 (ilog2 ?x) \<le> pow2 (int (prec m))"
    using ilog2_bounds(1) [OF x] by (rule order_trans [rotated])
  then have e: "ilog2 ?x \<le> int (prec m)" using pow2_less [of "int (prec m)" "ilog2 ?x"] by auto
  show ?thesis
  proof (cases "ilog2 ?x = int (prec m)")
    case True
    then have "?x = pow2 (int (prec m))"
      using ilog2_bounds(1) [OF x] n by simp
    moreover have "?q \<le> int (prec m)" using e assms(2,3) by (simp add: ulp_exp_def)
    ultimately show ?thesis
      using x round_at_pow2 [of ?q "int (prec m)"] by (simp add: round_mag_def not_le)
  next
    case False
    then have q: "?q \<le> 0" using e assms by (simp add: ulp_exp_def)
    obtain k :: int where k: "1 = of_int k * pow2 ?q"
      using pow2_multiple [OF q] by (auto simp: pow2_def)
    have "?x = of_int (int n * k) * pow2 ?q" using k by (simp add: mult.assoc)
    then have "round_at ?q ?x = ?x" using round_at_exact [of ?q "int n * k"] by metis
    then show ?thesis using x by (simp add: round_mag_def)
  qed
qed (simp add: round_mag_def)

text \<open>
  What a rounding function promises its clients: it keeps the order and it keeps the
  integers up to a bound. The float operations on nonnegative values are used through
  this contract only.
\<close>

locale rounding =
  fixes rnd :: "rat \<Rightarrow> rat" and bound :: nat
  assumes rnd_mono: "x \<le> y \<Longrightarrow> rnd x \<le> rnd y"
    and rnd_nat: "n \<le> bound \<Longrightarrow> rnd (of_nat n) = of_nat n"
begin

lemma rnd_0 [simp]: "rnd 0 = 0"
  using rnd_nat [of 0] by simp

lemma rnd_nonneg: "0 \<le> x \<Longrightarrow> 0 \<le> rnd x"
  using rnd_mono [of 0 x] by simp

lemma rnd_ge_nat: "n \<le> bound \<Longrightarrow> of_nat n \<le> x \<Longrightarrow> of_nat n \<le> rnd x"
  using rnd_mono [of "of_nat n" x] rnd_nat [of n] by simp

lemma rnd_le_nat: "n \<le> bound \<Longrightarrow> x \<le> of_nat n \<Longrightarrow> rnd x \<le> of_nat n"
  using rnd_mono [of x "of_nat n"] rnd_nat [of n] by simp

text \<open>A rounded quotient is at least every integer the exact quotient reaches.\<close>

lemma rnd_div_ge:
  assumes "k \<le> bound" "0 < d" "of_nat k * d \<le> n"
  shows "of_nat k \<le> rnd (n / d)"
  using assms by (intro rnd_ge_nat) (simp_all add: field_simps)

end

interpretation r32: rounding "round_mag f32" "2 ^ 24"
  by unfold_locales (simp_all add: round_mag_mono round_mag_of_nat f32_def)

interpretation r64: rounding "round_mag f64" "2 ^ 53"
  by unfold_locales (simp_all add: round_mag_mono round_mag_of_nat f64_def)

section \<open>Seconds and quotients in double precision\<close>

lemma max_finite_f64: "n \<le> 2 ^ 53 \<Longrightarrow> of_nat n \<le> max_finite f64"
proof -
  assume "n \<le> 2 ^ 53"
  then have "of_nat n \<le> (of_nat (2 ^ 53) :: rat)" by (simp only: of_nat_le_iff)
  also have "\<dots> \<le> max_finite f64" by (simp add: max_finite_def f64_def pow2_def)
  finally show ?thesis .
qed

lemma fround_f64_nonneg:
  assumes "0 \<le> v" "v \<le> of_nat n" "n \<le> 2 ^ 53"
  shows "fround f64 False v = Num False (round_mag f64 v)"
proof (cases "v = 0")
  case False
  have "round_mag f64 v \<le> of_nat n" using assms by (intro r64.rnd_le_nat) auto
  also have "\<dots> \<le> max_finite f64" using assms(3) by (rule max_finite_f64)
  finally show ?thesis using False assms(1) by (simp add: fround_def Let_def not_less)
qed (simp add: fround_def)

lemma of_nat_f64: "n \<le> 2 ^ 53 \<Longrightarrow> of_nat_f f64 n = Num False (of_nat n)"
  using fround_f64_nonneg [of "of_nat n" n] r64.rnd_nat [of n] by (simp add: of_nat_f_def)

lemma fval_Num [simp]: "fval (Num s a) = (if s then - a else a)"
  by (simp add: fval_def)

text \<open>The double nearest to a duration in seconds lies between its whole seconds.\<close>

lemma as_secs_f64_bounds:
  assumes "d div nanos_per_sec < 2 ^ 52"
  obtains a where "as_secs_f64 d = Num False a"
    and "of_nat (d div nanos_per_sec) \<le> a" and "\<And>k. d \<le> from_secs k \<Longrightarrow> k \<le> 2 ^ 52 \<Longrightarrow> a \<le> of_nat k"
proof
  let ?s = "d div nanos_per_sec" and ?n = "d mod nanos_per_sec"
  let ?f = "round_mag f64 (of_nat ?n / of_nat nanos_per_sec)"
  let ?a = "round_mag f64 (of_nat ?s + ?f)"
  have n: "?n < nanos_per_sec" by (simp add: nanos_per_sec_def)
  have small: "?s \<le> 2 ^ 53" "?n \<le> 2 ^ 53" "nanos_per_sec \<le> 2 ^ 53"
    using assms n by (simp_all add: nanos_per_sec_def)
  have frac: "0 \<le> of_nat ?n / (of_nat nanos_per_sec :: rat)" "of_nat ?n / (of_nat nanos_per_sec :: rat) \<le> of_nat 1"
    using n by (simp_all add: nanos_per_sec_def field_simps)
  have f: "0 \<le> ?f" "?f \<le> of_nat 1"
    using frac r64.rnd_nonneg r64.rnd_le_nat [of 1] by simp_all
  have "fdiv f64 (of_nat_f f64 ?n) (of_nat_f f64 nanos_per_sec) = Num False ?f"
    using frac fround_f64_nonneg [of "of_nat ?n / of_nat nanos_per_sec" 1] small
    by (simp add: of_nat_f64 nanos_per_sec_def)
  moreover have "of_nat ?s + ?f \<le> of_nat (?s + 1)" using f by simp
  ultimately show "as_secs_f64 d = Num False ?a"
    using f assms fround_f64_nonneg [of "of_nat ?s + ?f" "?s + 1"] small
    by (simp add: as_secs_f64_def of_nat_f64)
  show "of_nat ?s \<le> ?a" using f small(1) by (intro r64.rnd_ge_nat) auto
  fix k assume k: "d \<le> from_secs k" "k \<le> 2 ^ 52"
  have "of_nat ?s + ?f \<le> of_nat k"
  proof (cases "?s < k")
    case True
    then have "of_nat ?s + 1 \<le> (of_nat k :: rat)" by (metis Suc_leI of_nat_Suc of_nat_mono add.commute)
    then show ?thesis using f by simp
  next
    case False
    then have "k * nanos_per_sec \<le> ?s * nanos_per_sec" by (intro mult_le_mono1) simp
    moreover have "?s * nanos_per_sec + ?n \<le> k * nanos_per_sec" using k(1) by (simp add: from_secs_def)
    ultimately have "?n = 0" "?s * nanos_per_sec = k * nanos_per_sec" by linarith+
    then have "?s = k \<and> ?n = 0" by (simp add: nanos_per_sec_def)
    then show ?thesis by (simp add: nanos_per_sec_def)
  qed
  then show "?a \<le> of_nat k" using k(2) by (intro r64.rnd_le_nat) auto
qed

lemma as_secs_f64_whole: "s < 2 ^ 52 \<Longrightarrow> as_secs_f64 (from_secs s) = Num False (of_nat s)"
proof -
  assume s: "s < 2 ^ 52"
  have d: "from_secs s div nanos_per_sec = s" by (simp add: from_secs_def nanos_per_sec_def)
  obtain a where a: "as_secs_f64 (from_secs s) = Num False a"
      "of_nat (from_secs s div nanos_per_sec) \<le> a"
      "\<And>k. from_secs s \<le> from_secs k \<Longrightarrow> k \<le> 2 ^ 52 \<Longrightarrow> a \<le> of_nat k"
    using as_secs_f64_bounds [of "from_secs s"] s d by metis
  from a(2) a(3) [of s] s d have "a = of_nat s" by simp
  with a(1) show ?thesis by simp
qed

text \<open>The quotient is bracketed by the integer multiples of the divisor.\<close>

lemma f64_periods_bounds:
  assumes "0 < s" "s < 2 ^ 52" "w div nanos_per_sec < 2 ^ 52" "k < 2 ^ 32"
  shows "k * from_secs s \<le> w \<Longrightarrow> k \<le> f64_periods w (from_secs s)"
    and "w \<le> k * from_secs s \<Longrightarrow> k * s \<le> 2 ^ 52 \<Longrightarrow> f64_periods w (from_secs s) \<le> k"
proof -
  obtain a where a: "as_secs_f64 w = Num False a" "of_nat (w div nanos_per_sec) \<le> a"
      "\<And>k. w \<le> from_secs k \<Longrightarrow> k \<le> 2 ^ 52 \<Longrightarrow> a \<le> of_nat k"
    using as_secs_f64_bounds [OF assms(3)] by metis
  let ?q = "a / of_nat s"
  have a0: "0 \<le> a" using a(2) by (meson of_nat_0_le_iff order_trans)
  have "w \<le> from_secs (Suc (w div nanos_per_sec))"
    by (simp add: from_secs_def nanos_per_sec_def)
  then have up: "a \<le> of_nat (2 ^ 52)"
    using a(3) [of "Suc (w div nanos_per_sec)"] assms(3) by (metis Suc_leI of_nat_mono order_trans)
  have "?q \<le> a" using a0 assms(1) by (simp add: field_simps)
       (metis Suc_leI mult.commute mult_left_mono mult_1 of_nat_1 of_nat_mono One_nat_def mult_cancel_right1)
  then have "?q \<le> of_nat (2 ^ 52)" using up by (rule order_trans)
  then have e: "f64_periods w (from_secs s) = min (nat \<lfloor>round_mag f64 ?q\<rfloor>) (2 ^ 32 - 1)"
    using a0 assms(1,2) a(1) fround_f64_nonneg [of ?q "2 ^ 52"]
    by (simp add: f64_periods_def as_secs_f64_whole)
  show "k \<le> f64_periods w (from_secs s)" if "k * from_secs s \<le> w"
  proof -
    have "k * s \<le> w div nanos_per_sec"
      using that by (simp add: from_secs_def nanos_per_sec_def less_eq_div_iff_mult_less_eq)
    then have "of_nat k * of_nat s \<le> a" using a(2) by (metis of_nat_le_iff of_nat_mult order_trans)
    then have "of_nat k \<le> round_mag f64 ?q"
      using assms(1,4) by (intro r64.rnd_div_ge) auto
    then have "int k \<le> \<lfloor>round_mag f64 ?q\<rfloor>" by (simp add: le_floor_iff)
    then show ?thesis using assms(4) by (simp add: e nat_le_iff le_nat_iff)
  qed
  show "f64_periods w (from_secs s) \<le> k" if "w \<le> k * from_secs s" "k * s \<le> 2 ^ 52"
  proof -
    have "a \<le> of_nat (k * s)" using that by (intro a(3)) (simp_all add: from_secs_def mult.assoc)
    then have "?q \<le> of_nat k" using assms(1) by (simp add: field_simps)
    then have "round_mag f64 ?q \<le> of_nat k" using assms(4) by (intro r64.rnd_le_nat) auto
    then have "\<lfloor>round_mag f64 ?q\<rfloor> \<le> int k" by (simp add: floor_le_iff)
    then show ?thesis by (simp add: e)
  qed
qed

section \<open>The total order on floats\<close>

lemma comparator_total_cmp: "comparator total_cmp"
  unfolding total_cmp_def by (intro comparator_intros)

interpretation total: comparator total_cmp
  by (rule comparator_total_cmp)

end
