(* ===== verification/Node.thy ===== *)
theory Node
  imports Task Floats
begin

text \<open>
  Nodes and the metrics agents report (crates/aether-core/src/node.rs). Ratios are
  \<^verbatim>\<open>f32\<close> values, so the clamp of a reported ratio is stated on the float model,
  infinities and not-a-number included.
\<close>

record node_metrics =
  cpu_usage :: fl
  memory_usage :: fl
  memory_total_bytes :: nat

definition clamp_ratio :: "fl \<Rightarrow> fl" where
  "clamp_ratio v = (if v = NaN then Num False 0 else fclamp (Num False 0) (Num False 1) v)"

definition metrics_new :: "fl \<Rightarrow> fl \<Rightarrow> nat \<Rightarrow> node_metrics" where
  "metrics_new cpu mem tot =
     \<lparr>cpu_usage = clamp_ratio cpu, memory_usage = clamp_ratio mem, memory_total_bytes = tot\<rparr>"

definition metrics_default :: node_metrics where
  "metrics_default = metrics_new (Num False 0) (Num False 0) 0"

definition memory_used_bytes :: "node_metrics \<Rightarrow> nat" where
  "memory_used_bytes m =
     to_uint 64 (fmul f64 (of_nat_f f64 (memory_total_bytes m)) (fcast f64 (memory_usage m)))"

record node_info =
  info_id :: node_id
  hostname :: string
  address :: string
  cpu_cores :: nat
  bandwidth_bytes_per_sec :: "nat option"
  latency_ms :: "fl option"
  node_labels :: labels
  metrics :: node_metrics

definition node_info_new :: "node_id \<Rightarrow> string \<Rightarrow> string \<Rightarrow> nat \<Rightarrow> node_info" where
  "node_info_new i host addr cores =
     \<lparr>info_id = i, hostname = host, address = addr, cpu_cores = cores,
      bandwidth_bytes_per_sec = None, latency_ms = None, node_labels = Map.empty,
      metrics = metrics_default\<rparr>"

definition with_labels :: "node_info \<Rightarrow> labels \<Rightarrow> node_info" where
  "with_labels n ls = n\<lparr>node_labels := ls\<rparr>"

definition with_label :: "node_info \<Rightarrow> string \<Rightarrow> string \<Rightarrow> node_info" where
  "with_label n k v = n\<lparr>node_labels := (node_labels n)(k \<mapsto> v)\<rparr>"

definition with_bandwidth :: "node_info \<Rightarrow> nat \<Rightarrow> node_info" where
  "with_bandwidth n b = n\<lparr>bandwidth_bytes_per_sec := Some b\<rparr>"

definition with_latency_ms :: "node_info \<Rightarrow> fl \<Rightarrow> node_info" where
  "with_latency_ms n l = n\<lparr>latency_ms := Some l\<rparr>"

definition update_metrics :: "node_info \<Rightarrow> node_metrics \<Rightarrow> node_info" where
  "update_metrics n m = n\<lparr>metrics := m\<rparr>"

section \<open>Ratios stay in range\<close>

definition ratio :: "fl \<Rightarrow> bool" where
  "ratio v = (fle (Num False 0) v \<and> fle v (Num False 1))"

lemma clamp_ratio_ratio: "ratio (clamp_ratio v)"
  by (cases v) (auto simp: ratio_def clamp_ratio_def fclamp_def fle_def feq_def)

lemma clamp_ratio_id: "ratio v \<Longrightarrow> clamp_ratio v = v"
  by (cases v) (auto simp: ratio_def clamp_ratio_def fclamp_def fle_def feq_def)

lemma update_metrics_keeps [simp]:
  "info_id (update_metrics n m) = info_id n" "node_labels (update_metrics n m) = node_labels n"
  "metrics (update_metrics n m) = m"
  by (simp_all add: update_metrics_def)

end
