(* ===== verification/Store.thy ===== *)
theory Store
  imports Data
begin

text \<open>
  The content-addressed store (crates/aether-core/src/store.rs): blobs under their hash, a
  byte count kept incrementally, an optional budget and eviction of the least recently
  used blobs. The digest is the parameter \<^verbatim>\<open>hash\<close>. The locale \<^verbatim>\<open>blob_store\<close> is what the
  chunk assembler and the agents rely on: what a lookup returns hashes to the key.
\<close>

record blob =
  blob_bytes :: bytes
  used_at :: nat

record store =
  blobs :: "(data_id, blob) hashmap"
  held_bytes :: nat
  budget :: "nat option"
  clock :: nat

datatype store_error = HashMismatch data_id data_id

definition store_new :: store where
  "store_new = \<lparr>blobs = [], held_bytes = 0, budget = None, clock = 0\<rparr>"

definition with_budget :: "nat \<Rightarrow> store" where
  "with_budget b = store_new\<lparr>budget := Some b\<rparr>"

definition touch :: "store \<Rightarrow> data_id \<Rightarrow> store" where
  "touch s i =
     (let c = clock s + 1; s1 = s\<lparr>clock := c\<rparr> in
      case map_of (blobs s) i of
        None \<Rightarrow> s1
      | Some e \<Rightarrow> s1\<lparr>blobs := AList.update i (e\<lparr>used_at := c\<rparr>) (blobs s)\<rparr>)"

definition drop_blob :: "store \<Rightarrow> data_id \<Rightarrow> bool \<times> store" where
  "drop_blob s i =
     (case map_of (blobs s) i of
        None \<Rightarrow> (False, s)
      | Some e \<Rightarrow> (True, s\<lparr>blobs := AList.delete i (blobs s),
                          held_bytes := held_bytes s - length (blob_bytes e)\<rparr>))"

definition oldest_except :: "store \<Rightarrow> data_id \<Rightarrow> data_id option" where
  "oldest_except s keep =
     map_option fst (min_by (\<lambda>a b. compare (used_at (snd a)) (used_at (snd b)))
       (filter (\<lambda>(i, _). i \<noteq> keep) (blobs s)))"

interpretation recency: comparator "\<lambda>a b :: data_id \<times> blob. compare (used_at (snd a)) (used_at (snd b))"
  by (rule comparator_by_key)

lemma oldest_except_Some:
  assumes "oldest_except s keep = Some i"
  obtains e where "(i, e) \<in> set (blobs s)" "i \<noteq> keep"
    "\<And>j d. (j, d) \<in> set (blobs s) \<Longrightarrow> j \<noteq> keep \<Longrightarrow> used_at e \<le> used_at d"
proof -
  from assms obtain e where m: "min_by (\<lambda>a b. compare (used_at (snd a)) (used_at (snd b)))
      (filter (\<lambda>(i, _). i \<noteq> keep) (blobs s)) = Some (i, e)"
    by (auto simp: oldest_except_def)
  have min: "compare (used_at e) (used_at d) \<noteq> Greater" if "(j, d) \<in> set (blobs s)" "j \<noteq> keep" for j d
    using recency.min_by_Some(2) [OF m, of "(j, d)"] that by simp
  show thesis
  proof (rule that)
    show "(i, e) \<in> set (blobs s)" "i \<noteq> keep"
      using recency.min_by_Some(1) [OF m] by auto
    show "used_at e \<le> used_at d" if "(j, d) \<in> set (blobs s)" "j \<noteq> keep" for j d
      using min [OF that] by (simp add: not_less)
  qed
qed

lemma oldest_except_None: "oldest_except s keep = None \<longleftrightarrow> fst ` set (blobs s) \<subseteq> {keep}"
  by (auto simp: oldest_except_def filter_empty_conv)

lemma length_delete_less: "i \<in> fst ` set al \<Longrightarrow> length (AList.delete i al) < length al"
  by (auto simp: AList.delete_eq intro!: length_filter_less)

text \<open>The eviction loop; the blob just stored is kept.\<close>

function evict_loop :: "nat \<Rightarrow> data_id \<Rightarrow> store \<Rightarrow> data_id list \<Rightarrow> data_id list \<times> store" where
  "evict_loop limit keep s out =
     (if limit < held_bytes s then
        (case oldest_except s keep of
           Some i \<Rightarrow> evict_loop limit keep (snd (drop_blob s i)) (out @ [i])
         | None \<Rightarrow> (out, s))
      else (out, s))"
  by pat_completeness auto
termination
proof (relation "measure (\<lambda>(_, _, s, _). length (blobs s))")
  fix limit keep s i and out :: "data_id list"
  assume "oldest_except s keep = Some i"
  then obtain e where "(i, e) \<in> set (blobs s)" by (rule oldest_except_Some)
  then have i: "i \<in> fst ` set (blobs s)" by force
  then have "map_of (blobs s) i \<noteq> None" by (simp add: map_of_eq_None_iff)
  with i have "map_of (blobs s) i \<noteq> None" "i \<in> fst ` set (blobs s)" by auto
  then show "((limit, keep, snd (drop_blob s i), out @ [i]), limit, keep, s, out)
      \<in> measure (\<lambda>(_, _, s, _). length (blobs s))"
    using length_delete_less [OF i] by (auto simp: drop_blob_def)
qed simp

declare evict_loop.simps [simp del]

definition evict_over_budget :: "store \<Rightarrow> data_id \<Rightarrow> data_id list \<times> store" where
  "evict_over_budget s keep =
     (case budget s of None \<Rightarrow> ([], s) | Some limit \<Rightarrow> evict_loop limit keep s [])"

definition contains :: "store \<Rightarrow> data_id \<Rightarrow> bool" where
  "contains s i = (map_of (blobs s) i \<noteq> None)"

definition store_blob :: "store \<Rightarrow> data_id \<Rightarrow> bytes \<Rightarrow> data_id list \<times> store" where
  "store_blob s i bs =
     (if contains s i then ([], touch s i)
      else let c = clock s + 1 in
           evict_over_budget
             (s\<lparr>clock := c, held_bytes := held_bytes s + length bs,
                blobs := AList.update i \<lparr>blob_bytes = bs, used_at = c\<rparr> (blobs s)\<rparr>) i)"

definition put_evicting :: "digest \<Rightarrow> store \<Rightarrow> bytes \<Rightarrow> (data_descriptor \<times> data_id list) \<times> store" where
  "put_evicting hash s bs =
     (let d = descriptor_of hash bs; (evicted, s1) = store_blob s (desc_id d) bs
      in ((d, evicted), s1))"

definition put :: "digest \<Rightarrow> store \<Rightarrow> bytes \<Rightarrow> data_descriptor \<times> store" where
  "put hash s bs = (let ((d, _), s1) = put_evicting hash s bs in (d, s1))"

definition insert_evicting ::
    "digest \<Rightarrow> store \<Rightarrow> data_descriptor \<Rightarrow> bytes \<Rightarrow> (store_error + bool \<times> data_id list) \<times> store" where
  "insert_evicting hash s d bs =
     (let actual = descriptor_of hash bs in
      if desc_id actual \<noteq> desc_id d then (Inl (HashMismatch (desc_id d) (desc_id actual)), s)
      else if contains s (desc_id d) then (Inr (False, []), touch s (desc_id d))
      else let (evicted, s1) = store_blob s (desc_id d) bs in (Inr (True, evicted), s1))"

definition insert_data ::
    "digest \<Rightarrow> store \<Rightarrow> data_descriptor \<Rightarrow> bytes \<Rightarrow> (store_error + bool) \<times> store" where
  "insert_data hash s d bs =
     (case insert_evicting hash s d bs of
        (Inl e, s1) \<Rightarrow> (Inl e, s1)
      | (Inr (stored, _), s1) \<Rightarrow> (Inr stored, s1))"

definition get :: "store \<Rightarrow> data_id \<Rightarrow> bytes option \<times> store" where
  "get s i = (let s1 = touch s i in (map_option blob_bytes (map_of (blobs s1) i), s1))"

definition store_remove :: "store \<Rightarrow> data_id \<Rightarrow> bool \<times> store" where
  "store_remove s i = drop_blob s i"

definition store_len :: "store \<Rightarrow> nat" where
  "store_len s = length (blobs s)"

definition total_bytes :: "store \<Rightarrow> nat" where
  "total_bytes s = held_bytes s"

text \<open>\<^verbatim>\<open>descriptors\<close> sorts by id: the derived order on ids is that of their bytes.\<close>

fun bytes_le :: "bytes \<Rightarrow> bytes \<Rightarrow> bool" where
  "bytes_le [] _ = True"
| "bytes_le (_ # _) [] = False"
| "bytes_le (a # as) (b # bs) = (a < b \<or> a = b \<and> bytes_le as bs)"

fun insert_descriptor :: "data_descriptor \<Rightarrow> data_descriptor list \<Rightarrow> data_descriptor list" where
  "insert_descriptor d [] = [d]"
| "insert_descriptor d (x # xs) =
     (if bytes_le (id_bytes (desc_id d)) (id_bytes (desc_id x)) then d # x # xs
      else x # insert_descriptor d xs)"

definition descriptors :: "store \<Rightarrow> data_descriptor list" where
  "descriptors s =
     foldr insert_descriptor
       (map (\<lambda>(i, e). descriptor_new i (length (blob_bytes e))) (blobs s)) []"

section \<open>Invariant\<close>

text \<open>
  Keys are distinct and are the hashes of their blobs, the byte count is the sum of the
  blob sizes, and the access stamps are distinct and not in the future.
\<close>

definition blob_sum :: "(data_id, blob) hashmap \<Rightarrow> nat" where
  "blob_sum bl = sum_list (map (\<lambda>(_, e). length (blob_bytes e)) bl)"

definition store_inv :: "digest \<Rightarrow> store \<Rightarrow> bool" where
  "store_inv hash s = (distinct (map fst (blobs s)) \<and> held_bytes s = blob_sum (blobs s) \<and>
     list_all (\<lambda>(i, e). hash (blob_bytes e) = i \<and> used_at e \<le> clock s) (blobs s) \<and>
     distinct (map (\<lambda>(_, e). used_at e) (blobs s)))"

lemma blob_sum_Nil [simp]: "blob_sum [] = 0"
  by (simp add: blob_sum_def)

lemma blob_sum_Cons [simp]: "blob_sum ((i, e) # bl) = length (blob_bytes e) + blob_sum bl"
  by (simp add: blob_sum_def)

lemma blob_sum_delete:
  "distinct (map fst bl) \<Longrightarrow> map_of bl i = Some e \<Longrightarrow>
     blob_sum bl = length (blob_bytes e) + blob_sum (AList.delete i bl)"
proof (induction bl)
  case (Cons a bl)
  obtain k d where a: "a = (k, d)" by fastforce
  show ?case
  proof (cases "k = i")
    case True
    then have "AList.delete i bl = bl" using Cons.prems(1) a by (simp add: delete_id)
    then show ?thesis using True Cons.prems a by (simp add: AList.delete_eq)
  qed (use Cons a in \<open>simp add: AList.delete_eq\<close>)
qed simp

lemma blob_sum_update_same:
  "map_of bl i = Some e \<Longrightarrow> length (blob_bytes e') = length (blob_bytes e) \<Longrightarrow>
     blob_sum (AList.update i e' bl) = blob_sum bl"
  by (induction bl) auto

lemma blob_sum_update_new:
  "map_of bl i = None \<Longrightarrow> blob_sum (AList.update i e bl) = blob_sum bl + length (blob_bytes e)"
  by (induction bl) auto

lemma set_update_cases:
  "x \<in> set (AList.update k v al) \<Longrightarrow> distinct (map fst al) \<Longrightarrow> x = (k, v) \<or> x \<in> set al \<and> fst x \<noteq> k"
  by (induction al) (force split: if_splits)+

lemma distinct_stamps_update:
  assumes "distinct (map fst bl)" "distinct (map (\<lambda>(_, e). used_at e) bl)"
    "\<forall>(i, e) \<in> set bl. used_at e < used_at e'"
  shows "distinct (map (\<lambda>(_, e). used_at e) (AList.update i e' bl))"
  using assms
proof (induction bl)
  case (Cons a bl)
  then show ?case
    using set_update_cases [of _ i e' bl] by (fastforce simp: image_iff)
qed simp

lemma store_inv_new [inv_intros]: "store_inv hash store_new"
  by (simp add: store_inv_def store_new_def)

lemma store_inv_with_budget [inv_intros]: "store_inv hash (with_budget b)"
  by (simp add: store_inv_def store_new_def with_budget_def)

lemma store_inv_blob:
  "store_inv hash s \<Longrightarrow> map_of (blobs s) i = Some e \<Longrightarrow> hash (blob_bytes e) = i \<and> used_at e \<le> clock s"
  by (auto simp: store_inv_def list_all_iff dest!: map_of_SomeD)

lemma store_inv_stamp:
  assumes "store_inv hash s" "hash (blob_bytes e) = i" "used_at e = Suc (clock s)"
  shows "store_inv hash (s\<lparr>clock := Suc (clock s), blobs := AList.update i e (blobs s),
     held_bytes := blob_sum (AList.update i e (blobs s))\<rparr>)"
  using assms set_update_cases [of _ i e "blobs s"]
  by (fastforce simp: store_inv_def list_all_iff distinct_update less_Suc_eq_le intro!: distinct_stamps_update)

lemma touch_inv [inv_intros]:
  assumes "store_inv hash s"
  shows "store_inv hash (touch s i)"
proof (cases "map_of (blobs s) i")
  case None
  then show ?thesis
    using assms by (auto simp: touch_def store_inv_def list_all_iff)
next
  case (Some e)
  have "store_inv hash (s\<lparr>clock := Suc (clock s), blobs := AList.update i (e\<lparr>used_at := Suc (clock s)\<rparr>) (blobs s),
      held_bytes := blob_sum (AList.update i (e\<lparr>used_at := Suc (clock s)\<rparr>) (blobs s))\<rparr>)"
    using store_inv_blob [OF assms Some] by (intro store_inv_stamp assms) auto
  moreover have "blob_sum (AList.update i (e\<lparr>used_at := Suc (clock s)\<rparr>) (blobs s)) = held_bytes s"
    using assms Some by (simp add: store_inv_def blob_sum_update_same)
  ultimately show ?thesis using Some by (simp add: touch_def Let_def)
qed

lemma distinct_stamps_delete:
  "distinct (map (\<lambda>(_, e). used_at e) bl) \<Longrightarrow> distinct (map (\<lambda>(_, e). used_at e) (AList.delete i bl))"
  unfolding AList.delete_eq by (rule distinct_map_filter)

lemma drop_blob_inv [inv_intros]:
  assumes "store_inv hash s"
  shows "store_inv hash (snd (drop_blob s i))"
proof (cases "map_of (blobs s) i")
  case (Some e)
  have "blob_sum (blobs s) = length (blob_bytes e) + blob_sum (AList.delete i (blobs s))"
    using assms Some by (intro blob_sum_delete) (auto simp: store_inv_def)
  then show ?thesis
    using assms Some by (auto simp: drop_blob_def store_inv_def distinct_delete distinct_stamps_delete
        list_all_iff AList.delete_eq intro: distinct_map_filter)
qed (simp add: drop_blob_def assms)

lemma evict_loop_inv: "store_inv hash s \<Longrightarrow> store_inv hash (snd (evict_loop limit keep s out))"
proof (induction limit keep s out rule: evict_loop.induct)
  case (1 limit keep s out)
  then show ?case
    by (subst evict_loop.simps) (auto split: option.splits intro: drop_blob_inv)
qed

lemma contains_None: "\<not> contains s i \<longleftrightarrow> map_of (blobs s) i = None"
  by (simp add: contains_def)

lemma store_blob_inv [inv_intros]:
  assumes "store_inv hash s" "hash bs = i"
  shows "store_inv hash (snd (store_blob s i bs))"
proof (cases "contains s i")
  case False
  let ?e = "\<lparr>blob_bytes = bs, used_at = Suc (clock s)\<rparr>"
  have "held_bytes s + length bs = blob_sum (AList.update i ?e (blobs s))"
    using assms(1) blob_sum_update_new [OF contains_None [THEN iffD1, OF False], of ?e]
    by (simp add: store_inv_def)
  then have "store_inv hash (s\<lparr>clock := Suc (clock s), held_bytes := held_bytes s + length bs,
      blobs := AList.update i ?e (blobs s)\<rparr>)"
    using store_inv_stamp [OF assms(1), of ?e i] assms(2) by (simp add: store_inv_def)
  then show ?thesis
    using False by (auto simp: store_blob_def evict_over_budget_def Let_def evict_loop_inv split: option.splits)
qed (simp add: store_blob_def touch_inv assms)

section \<open>The contract of a blob store\<close>

locale blob_store =
  fixes hash :: digest
    and ok :: "'s \<Rightarrow> bool"
    and store_put :: "'s \<Rightarrow> bytes \<Rightarrow> 's"
    and lookup :: "'s \<Rightarrow> data_id \<Rightarrow> bytes option \<times> 's"
  assumes ok_put: "ok s \<Longrightarrow> ok (store_put s bs)"
    and ok_lookup: "ok s \<Longrightarrow> ok (snd (lookup s i))"
    and lookup_sound: "ok s \<Longrightarrow> fst (lookup s i) = Some bs \<Longrightarrow> hash bs = i"
    and lookup_put: "ok s \<Longrightarrow> fst (lookup (store_put s bs) (hash bs)) \<noteq> None"
begin

text \<open>Looking many keys up, one after the other, keeping what is there.\<close>

fun lookups :: "'s \<Rightarrow> ('a \<times> data_id) list \<Rightarrow> ('a \<times> bytes) list \<times> 's" where
  "lookups s [] = ([], s)"
| "lookups s ((a, i) # rest) =
     (let (r, s1) = lookup s i; (found, s2) = lookups s1 rest
      in (case r of None \<Rightarrow> found | Some bs \<Rightarrow> (a, bs) # found, s2))"

lemma lookups_sound:
  "ok s \<Longrightarrow> ok (snd (lookups s keys)) \<and>
     (\<forall>(a, bs) \<in> set (fst (lookups s keys)). \<exists>i. (a, i) \<in> set keys \<and> hash bs = i)"
proof (induction keys arbitrary: s)
  case (Cons k rest)
  obtain a i where k: "k = (a, i)" by fastforce
  obtain r s1 where l: "lookup s i = (r, s1)" by fastforce
  have "ok s1" using ok_lookup [OF Cons.prems, of i] l by simp
  then show ?case
    using Cons.IH [of s1] lookup_sound [OF Cons.prems, of i] k l
    by (auto split: option.splits prod.splits)
qed simp

end

lemma map_of_touch: "map_option blob_bytes (map_of (blobs (touch s i)) j) = map_option blob_bytes (map_of (blobs s) j)"
  by (auto simp: touch_def Let_def update_conv' split: option.splits)

lemma fst_get: "fst (get s i) = map_option blob_bytes (map_of (blobs s) i)"
  by (simp add: get_def Let_def map_of_touch)

lemma get_inv [inv_intros]: "store_inv hash s \<Longrightarrow> store_inv hash (snd (get s i))"
  by (simp add: get_def Let_def touch_inv)

lemma get_sound: "store_inv hash s \<Longrightarrow> fst (get s i) = Some bs \<Longrightarrow> hash bs = i"
  using store_inv_blob [of hash s i] by (auto simp: fst_get)

lemma put_inv [inv_intros]: "store_inv hash s \<Longrightarrow> store_inv hash (snd (put hash s bs))"
  using store_blob_inv [of hash s bs]
  by (auto simp: put_def put_evicting_def descriptor_of_def descriptor_new_def Let_def split: prod.splits)

lemma insert_evicting_inv [inv_intros]:
  "store_inv hash s \<Longrightarrow> store_inv hash (snd (insert_evicting hash s d bs))"
  using store_blob_inv [of hash s bs "desc_id d"] touch_inv [of hash s]
  by (auto simp: insert_evicting_def descriptor_of_def descriptor_new_def Let_def split: prod.splits)

text \<open>Eviction never touches the kept blob and never changes a surviving one.\<close>

lemma drop_blob_map_of: "map_of (blobs (snd (drop_blob s i))) j = (if j = i then None else map_of (blobs s) j)"
  by (auto simp: drop_blob_def delete_conv' split: option.splits)

lemma evict_loop_map_of:
  assumes "evict_loop limit keep s out = (out', s')"
  shows "\<exists>gone. out' = out @ gone \<and> keep \<notin> set gone \<and>
    (\<forall>j. map_of (blobs s') j = (if j \<in> set gone then None else map_of (blobs s) j))"
  using assms
proof (induction limit keep s out rule: evict_loop.induct)
  case (1 limit keep s out)
  show ?case
  proof (cases "limit < held_bytes s \<and> oldest_except s keep \<noteq> None")
    case True
    then obtain i where i: "oldest_except s keep = Some i" by auto
    then have "i \<noteq> keep" by (rule oldest_except_Some)
    moreover have rest: "evict_loop limit keep (snd (drop_blob s i)) (out @ [i]) = (out', s')"
      using 1(2) True i by (simp add: evict_loop.simps [of limit keep s out])
    ultimately show ?thesis
      using 1(1) [OF _ i rest] True by (auto simp: drop_blob_map_of)
  next
    case False
    then show ?thesis
      using 1(2) by (intro exI [of _ "[]"]) (auto simp: evict_loop.simps [of limit keep s out] split: if_splits)
  qed
qed

lemma store_blob_kept: "map_of (blobs (snd (store_blob s i bs))) i \<noteq> None"
proof (cases "contains s i")
  case True
  then show ?thesis
    using map_of_touch [of s i i] by (auto simp: store_blob_def contains_def)
next
  case False
  let ?s = "s\<lparr>clock := clock s + 1, held_bytes := held_bytes s + length bs,
      blobs := AList.update i \<lparr>blob_bytes = bs, used_at = clock s + 1\<rparr> (blobs s)\<rparr>"
  have here: "map_of (blobs ?s) i \<noteq> None" by (simp add: update_conv')
  have "map_of (blobs (snd (evict_over_budget ?s i))) i \<noteq> None"
  proof (cases "budget s")
    case (Some limit)
    obtain out' s' where e: "evict_loop limit i ?s [] = (out', s')" by fastforce
    show ?thesis
      using evict_loop_map_of [OF e] here Some e by (auto simp: evict_over_budget_def)
  qed (use here in \<open>simp add: evict_over_budget_def\<close>)
  then show ?thesis using False by (simp add: store_blob_def Let_def)
qed

lemma snd_put: "snd (put hash s bs) = snd (store_blob s (hash bs) bs)"
  by (simp add: put_def put_evicting_def descriptor_of_def descriptor_new_def Let_def split: prod.splits)

interpretation blobs: blob_store hash "store_inv hash" "\<lambda>s bs. snd (put hash s bs)" get for hash
proof
  show "fst (get (snd (put hash s bs)) (hash bs)) \<noteq> None" for s bs
    using store_blob_kept [of s "hash bs" bs] by (simp add: fst_get snd_put)
qed (auto simp: inv_intros dest: get_sound)

section \<open>Eviction is least recently used, and no more than needed\<close>

definition stamp :: "store \<Rightarrow> data_id \<Rightarrow> nat" where
  "stamp s i = (case map_of (blobs s) i of None \<Rightarrow> 0 | Some e \<Rightarrow> used_at e)"

definition blob_size :: "store \<Rightarrow> data_id \<Rightarrow> nat" where
  "blob_size s i = (case map_of (blobs s) i of None \<Rightarrow> 0 | Some e \<Rightarrow> length (blob_bytes e))"

lemma evict_loop_budget:
  "held_bytes (snd (evict_loop limit keep s out)) \<le> limit \<or>
   fst ` set (blobs (snd (evict_loop limit keep s out))) \<subseteq> {keep}"
proof (induction limit keep s out rule: evict_loop.induct)
  case (1 limit keep s out)
  show ?case
  proof (cases "limit < held_bytes s")
    case True
    then show ?thesis
      using 1 oldest_except_None [of s keep]
      by (cases "oldest_except s keep") (auto simp: evict_loop.simps [of limit keep s out])
  qed (simp add: evict_loop.simps)
qed

lemma oldest_stamp:
  assumes "distinct (map fst (blobs s))" "oldest_except s keep = Some i"
  shows "contains s i" "\<And>j. contains s j \<Longrightarrow> j \<noteq> keep \<Longrightarrow> stamp s i \<le> stamp s j"
proof -
  from assms(2) obtain e where e: "(i, e) \<in> set (blobs s)"
    and min: "\<And>j d. (j, d) \<in> set (blobs s) \<Longrightarrow> j \<noteq> keep \<Longrightarrow> used_at e \<le> used_at d"
    by (rule oldest_except_Some) blast
  have me: "map_of (blobs s) i = Some e" using assms(1) e by (rule map_of_is_SomeI)
  then show "contains s i" by (simp add: contains_def)
  fix j assume j: "contains s j" "j \<noteq> keep"
  then obtain d where d: "map_of (blobs s) j = Some d" by (auto simp: contains_def)
  then show "stamp s i \<le> stamp s j"
    using me min [OF map_of_SomeD [OF d] j(2)] by (simp add: stamp_def)
qed

lemma evict_loop_lru:
  assumes "distinct (map fst (blobs s))" "evict_loop limit keep s out = (out @ gone, s')"
    and "i \<in> set gone" "j \<noteq> keep" "contains s' j"
  shows "contains s i \<and> stamp s i \<le> stamp s j"
  using assms
proof (induction limit keep s out arbitrary: gone rule: evict_loop.induct)
  case (1 limit keep s out)
  show ?case
  proof (cases "limit < held_bytes s \<and> oldest_except s keep \<noteq> None")
    case True
    then obtain k where k: "oldest_except s keep = Some k" by auto
    let ?s1 = "snd (drop_blob s k)"
    have rest: "evict_loop limit keep ?s1 (out @ [k]) = (out @ gone, s')"
      using "1.prems"(2) True k by (simp add: evict_loop.simps [of limit keep s out])
    from evict_loop_map_of [OF rest] obtain gone1 where g: "gone = k # gone1"
      and m: "\<And>j. map_of (blobs s') j = (if j \<in> set gone1 then None else map_of (blobs ?s1) j)"
      by auto
    have dist: "distinct (map fst (blobs ?s1))"
      using "1.prems"(1) by (auto simp: drop_blob_def distinct_delete split: option.splits)
    have js1: "contains ?s1 j" using "1.prems"(5) m [of j] by (simp add: contains_def split: if_splits)
    then have js: "contains s j" "j \<noteq> k" by (auto simp: contains_def drop_blob_map_of split: if_splits)
    show ?thesis
    proof (cases "i = k")
      case True
      then show ?thesis using oldest_stamp [OF "1.prems"(1) k] js "1.prems"(4) by blast
    next
      case False
      then have "contains ?s1 i \<and> stamp ?s1 i \<le> stamp ?s1 j"
        using "1.IH" [OF _ k dist, of gone1] rest g True "1.prems" by simp
      then show ?thesis
        using False js by (simp add: contains_def stamp_def drop_blob_map_of)
    qed
  next
    case False
    then have "gone = []"
      using "1.prems"(2) by (auto simp: evict_loop.simps [of limit keep s out] split: if_splits)
    then show ?thesis using "1.prems"(3) by simp
  qed
qed

lemma evict_loop_minimal:
  assumes "store_inv hash s" "evict_loop limit keep s out = (out @ gone, s')" "gone \<noteq> []"
  shows "limit < held_bytes s' + blob_size s (last gone)"
  using assms
proof (induction limit keep s out arbitrary: gone rule: evict_loop.induct)
  case (1 limit keep s out)
  have more: "limit < held_bytes s" and some: "oldest_except s keep \<noteq> None"
    using "1.prems"(2,3) by (auto simp: evict_loop.simps [of limit keep s out] split: if_splits option.splits)
  then obtain k where k: "oldest_except s keep = Some k" by auto
  let ?s1 = "snd (drop_blob s k)"
  have rest: "evict_loop limit keep ?s1 (out @ [k]) = (out @ gone, s')"
    using "1.prems"(2) more k by (simp add: evict_loop.simps [of limit keep s out])
  from evict_loop_map_of [OF rest] obtain gone1 where g: "gone = k # gone1" by auto
  have inv: "distinct (map fst (blobs s))" "held_bytes s = blob_sum (blobs s)"
    using "1.prems"(1) by (auto simp: store_inv_def)
  obtain e where e: "map_of (blobs s) k = Some e"
    using oldest_stamp(1) [OF inv(1) k] by (auto simp: contains_def)
  have sz: "held_bytes ?s1 + blob_size s k = held_bytes s"
    using e inv blob_sum_delete [OF inv(1) e] by (simp add: drop_blob_def blob_size_def)
  show ?case
  proof (cases "gone1 = []")
    case True
    then have "s' = ?s1"
      using rest g by (auto simp: evict_loop.simps [of limit keep ?s1] split: if_splits option.splits
          dest: evict_loop_map_of)
    then show ?thesis using sz more g True by simp
  next
    case False
    then have "limit < held_bytes s' + blob_size ?s1 (last gone1)"
      using "1.IH" [OF more k drop_blob_inv [OF "1.prems"(1)], of gone1] rest g by simp
    moreover have "blob_size ?s1 i \<le> blob_size s i" for i
      by (simp add: blob_size_def drop_blob_map_of split: option.splits)
    ultimately show ?thesis
      using g False by (metis add_left_mono last_ConsR less_le_trans)
  qed
qed

section \<open>Properties\<close>

text \<open>
  Histories of store calls: every public operation that changes the store, with its
  arguments. Whatever is called, in whatever order, the invariant holds.
\<close>

datatype store_op = OpPut bytes | OpInsert data_descriptor bytes | OpGet data_id | OpDrop data_id

fun store_step :: "digest \<Rightarrow> store \<Rightarrow> store_op \<Rightarrow> store" where
  "store_step hash s (OpPut bs) = snd (put hash s bs)"
| "store_step hash s (OpInsert d bs) = snd (insert_evicting hash s d bs)"
| "store_step hash s (OpGet i) = snd (get s i)"
| "store_step hash s (OpDrop i) = snd (store_remove s i)"

lemma store_step_inv: "store_inv hash s \<Longrightarrow> store_inv hash (store_step hash s op)"
  by (cases op) (simp_all add: inv_intros store_remove_def)

text \<open>
  C22. After any history of puts, inserts, lookups and removals, the byte count equals the
  sum of the sizes of the blobs held (so no removal ever subtracts below zero), and every
  blob is stored under its own hash.
\<close>

theorem store_accounts_bytes:
  "let s = foldl (store_step hash) (if bounded then with_budget b else store_new) ops in
     held_bytes s = sum_list (map (\<lambda>(_, e). length (blob_bytes e)) (blobs s)) \<and>
     distinct (map fst (blobs s)) \<and> (\<forall>i bs. fst (get s i) = Some bs \<longrightarrow> hash bs = i)"
proof -
  have "store_inv hash s \<Longrightarrow> store_inv hash (foldl (store_step hash) s ops)" for s
    by (induction ops arbitrary: s) (simp_all add: store_step_inv)
  then have "store_inv hash (foldl (store_step hash) (if bounded then with_budget b else store_new) ops)"
    by (simp add: inv_intros)
  then show ?thesis
    using get_sound by (auto simp: Let_def store_inv_def blob_sum_def)
qed

theorem store_accounts_bytes_witness:
  "(let s = foldl (store_step DataId) (with_budget 3) [OpPut [1, 2], OpPut [3, 4], OpGet (DataId [1])]
    in held_bytes s = 2 \<and> distinct (map fst (blobs s)))"
proof -
  have "held_bytes (foldl (store_step DataId) (with_budget 3) [OpPut [1, 2], OpPut [3, 4], OpGet (DataId [1])]) = 2"
    by code_simp
  then show ?thesis
    using store_accounts_bytes [where hash = DataId and bounded = True and b = 3
        and ops = "[OpPut [1, 2], OpPut [3, 4], OpGet (DataId [1])]"]
    unfolding Let_def if_True by blast
qed

text \<open>
  C16. Storing a blob in a store with a budget ends within the budget, or with nothing but
  that blob. What was evicted had been used no later than anything that survives, and
  without the last eviction the store would have been over budget.
\<close>

theorem put_evicts_least_recently_used:
  assumes "store_inv hash s" "budget s = Some limit" "put_evicting hash s bs = ((d, evicted), s')"
    and "\<not> contains s (hash bs)"
  shows "(held_bytes s' \<le> limit \<or> fst ` set (blobs s') = {hash bs}) \<and>
    (\<forall>i \<in> set evicted. \<forall>j. contains s' j \<and> j \<noteq> hash bs \<longrightarrow> stamp s i \<le> stamp s j) \<and>
    (evicted \<noteq> [] \<longrightarrow> limit < held_bytes s' + blob_size s (last evicted)) \<and>
    fst (get s' (hash bs)) = Some bs"
proof -
  let ?h = "hash bs"
  define u where "u = s\<lparr>clock := clock s + 1, held_bytes := held_bytes s + length bs,
      blobs := AList.update ?h \<lparr>blob_bytes = bs, used_at = clock s + 1\<rparr> (blobs s)\<rparr>"
  have e: "evict_loop limit ?h u [] = ([] @ evicted, s')"
    using assms(2,3,4) by (simp add: put_evicting_def store_blob_def evict_over_budget_def descriptor_of_def
        descriptor_new_def Let_def u_def split: prod.splits)
  have "store_inv hash (u\<lparr>budget := None\<rparr>)"
    using store_blob_inv [of hash "s\<lparr>budget := None\<rparr>" bs ?h] assms(1,4)
    by (simp add: store_blob_def evict_over_budget_def contains_def store_inv_def Let_def u_def)
  then have inv: "store_inv hash u" "distinct (map fst (blobs u))" by (simp_all add: store_inv_def)
  have "map_of (blobs u) i = map_of (blobs s) i" if "i \<noteq> ?h" for i
    using that by (simp add: u_def update_conv')
  then have other: "stamp u i = stamp s i \<and> blob_size u i = blob_size s i" if "i \<noteq> ?h" for i
    using that by (simp add: stamp_def blob_size_def)
  have new: "map_of (blobs u) ?h = Some \<lparr>blob_bytes = bs, used_at = clock s + 1\<rparr>"
    by (simp add: u_def update_conv')
  with evict_loop_map_of [OF e] have gone: "?h \<notin> set evicted"
    and here: "map_of (blobs s') ?h = Some \<lparr>blob_bytes = bs, used_at = clock s + 1\<rparr>"
    by auto
  have "stamp s i \<le> stamp s j" if "i \<in> set evicted" "contains s' j" "j \<noteq> ?h" for i j
    using evict_loop_lru [OF inv(2) e that(1,3,2)] gone that other [of i] other [of j] by metis
  moreover have "limit < held_bytes s' + blob_size s (last evicted)" if "evicted \<noteq> []"
    using evict_loop_minimal [OF inv(1) e that] other [of "last evicted"] gone last_in_set [OF that] by metis
  moreover have "held_bytes s' \<le> limit \<or> fst ` set (blobs s') = {?h}"
  proof -
    have "?h \<in> fst ` set (blobs s')" using map_of_SomeD [OF here] by force
    then show ?thesis using evict_loop_budget [of limit ?h u "[]"] e by auto
  qed
  ultimately show ?thesis using here by (simp add: fst_get)
qed

theorem put_evicts_least_recently_used_witness:
  "(let s = snd (put DataId (snd (put DataId (with_budget 4) [1, 2])) [3, 4]);
        ((d, evicted), s') = put_evicting DataId s [5, 6]
    in evicted = [DataId [1, 2]] \<and> held_bytes s' \<le> 4 \<and> fst (get s' (DataId [5, 6])) = Some [5, 6])"
proof -
  define s where "s = snd (put DataId (snd (put DataId (with_budget 4) [1, 2])) [3, 4])"
  have inv: "store_inv DataId s" unfolding s_def by (intro inv_intros)
  have s: "budget s = Some 4" "\<not> contains s (DataId [5, 6])"
    unfolding s_def by code_simp+
  have "fst (put_evicting DataId s [5, 6]) = (descriptor_of DataId [5, 6], [DataId [1, 2]])"
      "held_bytes (snd (put_evicting DataId s [5, 6])) = 4"
    unfolding s_def by code_simp+
  then obtain d s' where p: "put_evicting DataId s [5, 6] = ((d, [DataId [1, 2]]), s')" "held_bytes s' = 4"
    by (metis prod.collapse)
  show ?thesis
    using put_evicts_least_recently_used [OF inv s(1) p(1) s(2)] p unfolding s_def [symmetric] by simp
qed

end
