(* ===== verification/Chunk.thy ===== *)
theory Chunk
  imports Store
begin

text \<open>
  Splitting datasets and putting them back together (crates/aether-core/src/chunk.rs).
  Indexes and the chunk size travel as \<^verbatim>\<open>u32\<close>, so the casts keep their reduction modulo
  two to the 32. Every lookup in the store counts as a use there, so the assembler's
  operations that fill in chunks return the store too. The \<^verbatim>\<open>expect\<close> of the reassembly
  loop is a panic of the model, and is shown never to happen.
\<close>

definition DEFAULT_CHUNK_SIZE :: nat where
  "DEFAULT_CHUNK_SIZE = 1024 * 1024"

definition as_u32 :: "nat \<Rightarrow> nat" where
  "as_u32 n = n mod 2 ^ 32"

record chunk_manifest =
  m_data :: data_descriptor
  chunk_size :: nat
  m_chunks :: "data_descriptor list"

text \<open>\<^verbatim>\<open>slice::chunks\<close> with a positive size.\<close>

function slice_chunks :: "nat \<Rightarrow> bytes \<Rightarrow> bytes list" where
  "slice_chunks n bs = (if n = 0 \<or> bs = [] then [] else take n bs # slice_chunks n (drop n bs))"
  by pat_completeness auto
termination
  by (relation "measure (\<lambda>(_, bs). length bs)") auto

declare slice_chunks.simps [simp del]

definition effective_chunk_size :: "nat \<Rightarrow> nat" where
  "effective_chunk_size n = (if n = 0 then DEFAULT_CHUNK_SIZE else n)"

definition manifest_split :: "digest \<Rightarrow> bytes \<Rightarrow> nat \<Rightarrow> chunk_manifest" where
  "manifest_split hash bs n =
     (let size = effective_chunk_size n in
      \<lparr>m_data = descriptor_of hash bs, chunk_size = as_u32 size,
       m_chunks = map (descriptor_of hash) (slice_chunks size bs)\<rparr>)"

definition manifest_len :: "chunk_manifest \<Rightarrow> nat" where
  "manifest_len m = length (m_chunks m)"

definition chunk_range :: "chunk_manifest \<Rightarrow> nat \<Rightarrow> (nat \<times> nat) option" where
  "chunk_range m i =
     (if i < length (m_chunks m)
      then let start = i * chunk_size m in Some (start, start + size_bytes (m_chunks m ! i))
      else None)"

definition indexed :: "chunk_manifest \<Rightarrow> (nat \<times> data_descriptor) list" where
  "indexed m = map (\<lambda>(i, d). (as_u32 i, d)) (enumerated (m_chunks m))"

datatype chunk_error =
    UnknownData data_id
  | IndexOutOfRange data_id nat nat
  | ChunkMismatch data_id nat
  | DataMismatch data_id data_id

record pending =
  p_manifest :: chunk_manifest
  p_chunks :: "(nat, bytes) hashmap"

type_synonym assembler = "(data_id, pending) hashmap"

type_synonym chunk_result = "(chunk_error + bytes option) exec"

definition assembler_new :: assembler where
  "assembler_new = []"

definition begin_dataset :: "assembler \<Rightarrow> chunk_manifest \<Rightarrow> assembler" where
  "begin_dataset a m = AList.update (desc_id (m_data m)) \<lparr>p_manifest = m, p_chunks = []\<rparr> a"

text \<open>The reassembly loop over \<^verbatim>\<open>0..len as u32\<close>; a missing chunk is a panic.\<close>

fun assemble :: "(nat, bytes) hashmap \<Rightarrow> nat list \<Rightarrow> bytes option" where
  "assemble chunks [] = Some []"
| "assemble chunks (i # is) =
     (case map_of chunks i of
        None \<Rightarrow> None
      | Some bs \<Rightarrow> map_option (\<lambda>rest. bs @ rest) (assemble (AList.delete i chunks) is))"

definition add_chunk :: "digest \<Rightarrow> assembler \<Rightarrow> data_id \<Rightarrow> nat \<Rightarrow> bytes \<Rightarrow> chunk_result \<times> assembler" where
  "add_chunk hash a i idx bs =
     (case map_of a i of
        None \<Rightarrow> (Ret (Inl (UnknownData i)), a)
      | Some p \<Rightarrow>
          (if manifest_len (p_manifest p) \<le> idx
           then (Ret (Inl (IndexOutOfRange i idx (manifest_len (p_manifest p)))), a)
           else if descriptor_of hash bs \<noteq> m_chunks (p_manifest p) ! idx
           then (Ret (Inl (ChunkMismatch i idx)), a)
           else let p1 = p\<lparr>p_chunks := AList.update idx bs (p_chunks p)\<rparr> in
             if length (p_chunks p1) < manifest_len (p_manifest p)
             then (Ret (Inr None), AList.update i p1 a)
             else let a1 = AList.delete i a in
               case assemble (p_chunks p1) [0 ..< as_u32 (manifest_len (p_manifest p))] of
                 None \<Rightarrow> (Panic, a1)
               | Some whole \<Rightarrow>
                   (if hash whole \<noteq> i then (Ret (Inl (DataMismatch i (hash whole))), a1)
                    else (Ret (Inr (Some whole)), a1))))"

text \<open>The chunks the store already holds, looked up in the order of the manifest.\<close>

fun known_chunks :: "store \<Rightarrow> (nat \<times> data_descriptor) list \<Rightarrow> (nat \<times> bytes) list \<times> store" where
  "known_chunks s [] = ([], s)"
| "known_chunks s ((idx, d) # rest) =
     (let (r, s1) = get s (desc_id d); (found, s2) = known_chunks s1 rest
      in (case r of None \<Rightarrow> found | Some bs \<Rightarrow> (idx, bs) # found, s2))"

fun add_all ::
    "digest \<Rightarrow> assembler \<Rightarrow> data_id \<Rightarrow> bytes option \<Rightarrow> (nat \<times> bytes) list \<Rightarrow> chunk_result \<times> assembler" where
  "add_all hash a i assembled [] = (Ret (Inr assembled), a)"
| "add_all hash a i assembled ((idx, bs) # rest) =
     (case add_chunk hash a i idx bs of
        (Ret (Inr r), a1) \<Rightarrow> add_all hash a1 i r rest
      | (e, a1) \<Rightarrow> (e, a1))"

definition fill_from_store ::
    "digest \<Rightarrow> assembler \<Rightarrow> store \<Rightarrow> data_id \<Rightarrow> chunk_result \<times> assembler \<times> store" where
  "fill_from_store hash a s i =
     (case map_of a i of
        None \<Rightarrow> (Ret (Inr None), a, s)
      | Some p \<Rightarrow>
          (let (known, s1) = known_chunks s
                 (filter (\<lambda>(idx, _). map_of (p_chunks p) idx = None) (indexed (p_manifest p)));
               (r, a1) = add_all hash a i None known
           in (r, a1, s1)))"

definition begin_with ::
    "digest \<Rightarrow> assembler \<Rightarrow> chunk_manifest \<Rightarrow> store \<Rightarrow> chunk_result \<times> assembler \<times> store" where
  "begin_with hash a m s = fill_from_store hash (begin_dataset a m) s (desc_id (m_data m))"

definition add_stored ::
    "digest \<Rightarrow> assembler \<Rightarrow> store \<Rightarrow> data_id \<Rightarrow> nat \<Rightarrow> bytes \<Rightarrow> chunk_result \<times> assembler \<times> store" where
  "add_stored hash a s i idx bs =
     (let s1 = snd (put hash s bs) in
      case add_chunk hash a i idx bs of
        (Ret (Inr None), a1) \<Rightarrow> fill_from_store hash a1 s1 i
      | (r, a1) \<Rightarrow> (r, a1, s1))"

definition is_pending :: "assembler \<Rightarrow> data_id \<Rightarrow> bool" where
  "is_pending a i = (map_of a i \<noteq> None)"

definition missing :: "assembler \<Rightarrow> data_id \<Rightarrow> nat list" where
  "missing a i =
     (case map_of a i of
        None \<Rightarrow> []
      | Some p \<Rightarrow> filter (\<lambda>idx. map_of (p_chunks p) idx = None)
                     [0 ..< as_u32 (manifest_len (p_manifest p))])"

section \<open>Splitting\<close>

lemma slice_chunks_Nil [simp]: "slice_chunks n [] = []"
  by (simp add: slice_chunks.simps)

lemma slice_chunks_step:
  "0 < n \<Longrightarrow> bs \<noteq> [] \<Longrightarrow> slice_chunks n bs = take n bs # slice_chunks n (drop n bs)"
  by (simp add: slice_chunks.simps [of n bs])

lemma concat_slice_chunks: "0 < n \<Longrightarrow> concat (slice_chunks n bs) = bs"
proof (induction n bs rule: slice_chunks.induct)
  case (1 n bs)
  then show ?case by (cases "bs = []") (simp_all add: slice_chunks_step)
qed

lemma nth_slice_chunks:
  "0 < n \<Longrightarrow> i < length (slice_chunks n bs) \<Longrightarrow> slice_chunks n bs ! i = take n (drop (i * n) bs)"
proof (induction n bs arbitrary: i rule: slice_chunks.induct)
  case (1 n bs)
  have ne: "bs \<noteq> []" using 1(3) by auto
  then have st: "slice_chunks n bs = take n bs # slice_chunks n (drop n bs)"
    using 1(2) by (intro slice_chunks_step)
  show ?case
  proof (cases i)
    case (Suc j)
    then have "slice_chunks n (drop n bs) ! j = take n (drop (j * n) (drop n bs))"
      using 1 ne st by simp
    then show ?thesis using Suc st by (simp add: add.commute)
  qed (simp add: st)
qed

section \<open>Assembler invariant\<close>

text \<open>
  A pending dataset is filed under the id of its manifest; the chunks collected for it are
  in range, each matches its descriptor, and at least one is still missing.
\<close>

definition chunk_ok :: "digest \<Rightarrow> chunk_manifest \<Rightarrow> nat \<times> bytes \<Rightarrow> bool" where
  "chunk_ok hash m = (\<lambda>(idx, bs). idx < manifest_len m \<and> descriptor_of hash bs = m_chunks m ! idx)"

definition pending_ok :: "digest \<Rightarrow> data_id \<times> pending \<Rightarrow> bool" where
  "pending_ok hash = (\<lambda>(i, p). desc_id (m_data (p_manifest p)) = i \<and>
     distinct (map fst (p_chunks p)) \<and> list_all (chunk_ok hash (p_manifest p)) (p_chunks p))"

definition assembler_inv :: "digest \<Rightarrow> assembler \<Rightarrow> bool" where
  "assembler_inv hash a = (distinct (map fst a) \<and> list_all (pending_ok hash) a)"

lemma assembler_inv_pending:
  "assembler_inv hash a \<Longrightarrow> map_of a i = Some p \<Longrightarrow> pending_ok hash (i, p)"
  by (auto simp: assembler_inv_def list_all_iff dest: map_of_SomeD)

lemma set_alist_update: "set (AList.update k v al) \<subseteq> insert (k, v) (set al)"
  by (induction al) auto

lemma assembler_inv_update:
  "assembler_inv hash a \<Longrightarrow> pending_ok hash (i, p) \<Longrightarrow> assembler_inv hash (AList.update i p a)"
  using set_alist_update [of i p a] by (auto simp: assembler_inv_def distinct_update list_all_iff)

lemma assembler_inv_delete: "assembler_inv hash a \<Longrightarrow> assembler_inv hash (AList.delete i a)"
  by (auto simp: assembler_inv_def distinct_delete list_all_iff AList.delete_eq intro: distinct_map_filter)

lemma assembler_new_inv [inv_intros]: "assembler_inv hash assembler_new"
  by (simp add: assembler_inv_def assembler_new_def)

lemma begin_dataset_inv [inv_intros]: "assembler_inv hash a \<Longrightarrow> assembler_inv hash (begin_dataset a m)"
  by (simp add: begin_dataset_def assembler_inv_update pending_ok_def)

lemma pending_add_ok:
  assumes "pending_ok hash (i, p)" "idx < manifest_len (p_manifest p)"
    "descriptor_of hash bs = m_chunks (p_manifest p) ! idx"
  shows "pending_ok hash (i, p\<lparr>p_chunks := AList.update idx bs (p_chunks p)\<rparr>)"
  using assms set_alist_update [of idx bs "p_chunks p"]
  by (auto simp: pending_ok_def distinct_update list_all_iff chunk_ok_def)

lemma add_chunk_inv [inv_intros]:
  assumes "assembler_inv hash a"
  shows "assembler_inv hash (snd (add_chunk hash a i idx bs))"
proof (cases "map_of a i")
  case (Some p)
  then show ?thesis
    using assms assembler_inv_pending [OF assms Some] pending_add_ok [of hash i p idx bs]
    by (auto simp: add_chunk_def Let_def not_le assembler_inv_update assembler_inv_delete split: option.splits)
qed (simp add: add_chunk_def assms)

section \<open>Reassembly\<close>

lemma delete_keys: "fst ` set (AList.delete k al) = fst ` set al - {k}"
  by (force simp: AList.delete_eq)

lemma assemble_eq:
  assumes "distinct is" "set is \<subseteq> fst ` set chunks"
  shows "assemble chunks is = Some (concat (map (\<lambda>i. the (map_of chunks i)) is))"
  using assms
proof (induction "is" arbitrary: chunks)
  case (Cons i "is")
  then obtain bs where bs: "map_of chunks i = Some bs"
    by (metis list.set_intros(1) map_of_eq_None_iff not_None_eq subsetD)
  have "assemble (AList.delete i chunks) is =
      Some (concat (map (\<lambda>j. the (map_of (AList.delete i chunks) j)) is))"
    using Cons.prems by (intro Cons.IH) (auto simp: delete_keys)
  moreover have "map (\<lambda>j. the (map_of (AList.delete i chunks) j)) is = map (\<lambda>j. the (map_of chunks j)) is"
    using Cons.prems(1) by (auto simp: delete_conv')
  ultimately show ?case using bs by simp
qed simp

text \<open>
  A set of indexes has arrived: exactly their chunks are collected, with the right bytes.
\<close>

definition arrived :: "digest \<Rightarrow> assembler \<Rightarrow> data_id \<Rightarrow> chunk_manifest \<Rightarrow> bytes list \<Rightarrow> nat set \<Rightarrow> bool" where
  "arrived hash a i m parts S =
     (\<exists>p. map_of a i = Some p \<and> p_manifest p = m \<and> distinct (map fst (p_chunks p)) \<and>
        set (p_chunks p) = (\<lambda>k. (k, parts ! k)) ` S)"

lemma set_update_distinct:
  "distinct (map fst al) \<Longrightarrow> set (AList.update k v al) = insert (k, v) {x \<in> set al. fst x \<noteq> k}"
  by (induction al) force+

lemma length_arrived:
  assumes "distinct (map fst cs)" "set cs = (\<lambda>k. (k, parts ! k)) ` S"
  shows "length cs = card S" "\<And>k. k \<in> S \<Longrightarrow> map_of cs k = Some (parts ! k)" "fst ` set cs = S"
proof -
  have "inj_on (\<lambda>k. (k, parts ! k)) S" by (rule inj_onI) simp
  then show "length cs = card S"
    using assms distinct_card [of cs] card_image [of "\<lambda>k. (k, parts ! k)" S] by (simp add: distinct_map)
  show "map_of cs k = Some (parts ! k)" if "k \<in> S" for k
    using assms that by (intro map_of_is_SomeI) auto
  show "fst ` set cs = S" unfolding assms(2) image_image by simp
qed

lemma concat_nth: "concat (map (\<lambda>k. parts ! k) [0 ..< length parts]) = concat parts"
  by (simp add: map_nth)

lemma add_chunk_arrived:
  assumes ar: "arrived hash a i m parts S" and "S \<subseteq> {..< length parts}" "k < length parts"
    and m: "m_chunks m = map (descriptor_of hash) parts" "length parts < 2 ^ 32" "hash (concat parts) = i"
  shows "if insert k S = {..< length parts}
    then add_chunk hash a i k (parts ! k) = (Ret (Inr (Some (concat parts))), AList.delete i a)
    else \<exists>a'. add_chunk hash a i k (parts ! k) = (Ret (Inr None), a') \<and> arrived hash a' i m parts (insert k S)"
proof -
  from ar obtain p where p: "map_of a i = Some p" "p_manifest p = m" "distinct (map fst (p_chunks p))"
    "set (p_chunks p) = (\<lambda>k. (k, parts ! k)) ` S" by (auto simp: arrived_def)
  let ?cs = "AList.update k (parts ! k) (p_chunks p)"
  have cs: "distinct (map fst ?cs)" "set ?cs = (\<lambda>k. (k, parts ! k)) ` insert k S"
    using p(3,4) by (auto simp: distinct_update set_update_distinct)
  note facts = length_arrived [OF cs]
  have len: "manifest_len m = length parts" by (simp add: manifest_len_def m)
  have fin: "finite S" using assms(2) finite_subset by blast
  have small: "card (insert k S) < length parts" if "insert k S \<noteq> {..< length parts}"
  proof -
    have "insert k S \<subset> {..< length parts}" using that assms(2,3) by auto
    then have "card (insert k S) < card {..< length parts}" by (intro psubset_card_mono) auto
    then show ?thesis by simp
  qed
  show ?thesis
  proof (cases "insert k S = {..< length parts}")
    case True
    have "assemble ?cs [0 ..< length parts] = Some (concat (map (\<lambda>j. the (map_of ?cs j)) [0 ..< length parts]))"
    proof (rule assemble_eq)
      show "set [0 ..< length parts] \<subseteq> fst ` set ?cs" unfolding facts(3) True by auto
    qed simp
    also have "map (\<lambda>j. the (map_of ?cs j)) [0 ..< length parts] = map (\<lambda>j. parts ! j) [0 ..< length parts]"
      using facts(2) unfolding True by (intro map_cong) auto
    finally have "assemble ?cs [0 ..< length parts] = Some (concat parts)" by (simp only: concat_nth)
    moreover have "length ?cs = length parts" unfolding facts(1) True by simp
    ultimately show ?thesis
      using True assms(3) p(1,2) m len by (simp add: add_chunk_def Let_def as_u32_def)
  next
    case False
    then have "add_chunk hash a i k (parts ! k) = (Ret (Inr None), AList.update i (p\<lparr>p_chunks := ?cs\<rparr>) a)"
      using assms(3) p(1,2) m len facts(1) small by (simp add: add_chunk_def Let_def)
    moreover have "arrived hash (AList.update i (p\<lparr>p_chunks := ?cs\<rparr>) a) i m parts (insert k S)"
      using cs p(2) by (simp add: arrived_def update_conv')
    ultimately show ?thesis using False by simp
  qed
qed

text \<open>Chunks delivered one after the other, with the answer to each.\<close>

fun deliver :: "digest \<Rightarrow> assembler \<Rightarrow> data_id \<Rightarrow> (nat \<times> bytes) list \<Rightarrow> chunk_result list \<times> assembler" where
  "deliver hash a i [] = ([], a)"
| "deliver hash a i ((k, bs) # rest) =
     (let (r, a1) = add_chunk hash a i k bs; (rs, a2) = deliver hash a1 i rest in (r # rs, a2))"

lemma deliver_all:
  assumes "arrived hash a i m parts S" "S \<subset> {..< length parts}"
    and "m_chunks m = map (descriptor_of hash) parts" "length parts < 2 ^ 32" "hash (concat parts) = i"
    and "set ks \<subseteq> {..< length parts}" "z < length parts" "z \<notin> set ks" "z \<notin> S"
    and "insert z (S \<union> set ks) = {..< length parts}"
  shows "\<exists>a'. deliver hash a i (map (\<lambda>k. (k, parts ! k)) (ks @ [z])) =
      (replicate (length ks) (Ret (Inr None)) @ [Ret (Inr (Some (concat parts)))], a') \<and> \<not> is_pending a' i"
  using assms
proof (induction ks arbitrary: a S)
  case Nil
  then show ?case
    using add_chunk_arrived [OF Nil.prems(1) psubset_imp_subset [OF Nil.prems(2)] Nil.prems(7,3,4,5)]
    by (simp add: is_pending_def delete_conv')
next
  case (Cons k ks)
  have ne: "insert k S \<noteq> {..< length parts}" using Cons.prems(7,8,9) by auto
  then obtain a1 where a1: "add_chunk hash a i k (parts ! k) = (Ret (Inr None), a1)"
      "arrived hash a1 i m parts (insert k S)"
    using add_chunk_arrived [OF Cons.prems(1) psubset_imp_subset [OF Cons.prems(2)] _ Cons.prems(3,4,5), of k]
      Cons.prems(6) by auto
  have "insert k S \<subset> {..< length parts}" using ne Cons.prems(2,6) by auto
  then show ?case
    using Cons.IH [OF a1(2)] Cons.prems a1(1) by (auto simp: insert_commute)
qed

section \<open>Properties\<close>

lemma effective_chunk_size_pos: "0 < effective_chunk_size n"
  by (simp add: effective_chunk_size_def DEFAULT_CHUNK_SIZE_def)

lemma begin_arrived:
  "desc_id (m_data m) = i \<Longrightarrow> arrived hash (begin_dataset a m) i m parts {}"
  by (simp add: arrived_def begin_dataset_def update_conv')

text \<open>
  C17. Chunks may arrive in any order and more than once. When the chunks of a split
  dataset are delivered so that the last delivery brings the only index still missing,
  every earlier delivery answers that more is needed and the last one answers with exactly
  the original bytes; the dataset is then no longer pending.
\<close>

theorem chunks_reassemble_in_any_order:
  assumes "parts = slice_chunks (effective_chunk_size n) data" "length parts < 2 ^ 32"
    and "set ks \<union> {z} = {..< length parts}" "z \<notin> set ks"
  shows "\<exists>a'. deliver hash (begin_dataset a (manifest_split hash data n)) (hash data)
      (map (\<lambda>k. (k, parts ! k)) (ks @ [z])) =
        (replicate (length ks) (Ret (Inr None)) @ [Ret (Inr (Some data))], a') \<and> \<not> is_pending a' (hash data)"
proof -
  let ?m = "manifest_split hash data n"
  have whole: "concat parts = data"
    unfolding assms(1) by (rule concat_slice_chunks [OF effective_chunk_size_pos])
  have m: "m_chunks ?m = map (descriptor_of hash) parts" "desc_id (m_data ?m) = hash data"
    by (simp_all add: manifest_split_def assms(1) Let_def descriptor_of_def descriptor_new_def)
  have "z < length parts" using assms(3) by auto
  then show ?thesis
    using deliver_all [OF begin_arrived [OF m(2)] _ m(1) assms(2) _ _ \<open>z < length parts\<close> assms(4)] assms(3) whole
    by auto
qed

theorem chunks_reassemble_in_any_order_witness:
  "\<exists>a'. deliver DataId (begin_dataset [] (manifest_split DataId [1, 2, 3, 4, 5] 2)) (DataId [1, 2, 3, 4, 5])
      [(2, [5]), (0, [1, 2]), (2, [5]), (1, [3, 4])] =
        ([Ret (Inr None), Ret (Inr None), Ret (Inr None), Ret (Inr (Some [1, 2, 3, 4, 5]))], a') \<and>
      \<not> is_pending a' (DataId [1, 2, 3, 4, 5])"
proof -
  have parts: "[[1, 2], [3, 4], [5]] = slice_chunks (effective_chunk_size 2) [1, 2, 3, 4, 5 :: byte]"
    by (simp add: slice_chunks.simps effective_chunk_size_def)
  have "set [2, 0, 2] \<union> {1} = {..< length [[1, 2], [3, 4], [5 :: byte]]}"
    by (auto simp: less_Suc_eq numeral_2_eq_2)
  then have "\<exists>a'. deliver DataId (begin_dataset [] (manifest_split DataId [1, 2, 3, 4, 5] 2)) (DataId [1, 2, 3, 4, 5])
      (map (\<lambda>k. (k, [[1, 2], [3, 4], [5]] ! k)) ([2, 0, 2] @ [1])) =
        (replicate (length [2 :: nat, 0, 2]) (Ret (Inr None)) @ [Ret (Inr (Some [1, 2, 3, 4, 5]))], a') \<and>
      \<not> is_pending a' (DataId [1, 2, 3, 4, 5])"
    by (intro chunks_reassemble_in_any_order [OF parts]) simp_all
  moreover have "map (\<lambda>k. (k, [[1, 2], [3, 4], [5 :: byte]] ! k)) ([2, 0, 2] @ [1]) =
      [(2, [5]), (0, [1, 2]), (2, [5]), (1, [3, 4])]" by simp
  moreover have "replicate (length [2 :: nat, 0, 2]) (Ret (Inr None)) @ [Ret (Inr (Some [1, 2, 3, 4, 5]))] =
      [Ret (Inr None), Ret (Inr None), Ret (Inr None), Ret (Inr (Some [1, 2, 3, 4, 5])) :: chunk_result]"
    by (simp add: numeral_3_eq_3)
  ultimately show ?thesis by (simp only:)
qed

text \<open>
  Splitting loses nothing: the chunks concatenate to the data, and the byte range the
  manifest gives for an index is the slice that chunk describes (for chunk sizes that fit
  the 32-bit field).
\<close>

lemma split_ranges_cover:
  assumes "effective_chunk_size n < 2 ^ 32" "m = manifest_split hash data n"
  shows "concat (slice_chunks (effective_chunk_size n) data) = data \<and>
    (\<forall>idx. case chunk_range m idx of
        None \<Rightarrow> manifest_len m \<le> idx
      | Some (from, to) \<Rightarrow> idx < manifest_len m \<and> to \<le> length data \<and>
          m_chunks m ! idx = descriptor_of hash (take (to - from) (drop from data)))"
proof -
  let ?n = "effective_chunk_size n" let ?parts = "slice_chunks ?n data"
  note pos = effective_chunk_size_pos [of n]
  have m: "m_chunks m = map (descriptor_of hash) ?parts" "chunk_size m = ?n"
    using assms by (simp_all add: manifest_split_def Let_def as_u32_def)
  have "case chunk_range m idx of
        None \<Rightarrow> manifest_len m \<le> idx
      | Some (from, to) \<Rightarrow> idx < manifest_len m \<and> to \<le> length data \<and>
          m_chunks m ! idx = descriptor_of hash (take (to - from) (drop from data))" for idx
  proof (cases "idx < length ?parts")
    case True
    have part: "?parts ! idx = take ?n (drop (idx * ?n) data)" by (rule nth_slice_chunks [OF pos True])
    have "?parts ! idx \<in> set ?parts" using True by simp
    then have "?parts ! idx \<noteq> []" if "[] \<notin> set ?parts" using that by auto
    moreover have "[] \<notin> set (slice_chunks k bs)" for k bs
      by (induction k bs rule: slice_chunks.induct) (auto simp: slice_chunks.simps)
    ultimately have "idx * ?n \<le> length data" using part by (metis drop_all linear take_Nil)
    then show ?thesis
      using True part m
      by (auto simp: chunk_range_def manifest_len_def Let_def descriptor_of_def descriptor_new_def min_def)
  qed (simp add: chunk_range_def m manifest_len_def)
  then show ?thesis using concat_slice_chunks [OF pos] by blast
qed

section \<open>Filling in from the store\<close>

lemma known_chunks_lookups:
  "known_chunks s keys = blobs.lookups s (map (\<lambda>(idx, d). (idx, desc_id d)) keys)"
  by (induction s keys rule: known_chunks.induct) (simp_all split: prod.splits)

lemma known_chunks_sound:
  assumes "store_inv hash s"
  shows "store_inv hash (snd (known_chunks s keys))"
    and "(idx, bs) \<in> set (fst (known_chunks s keys)) \<Longrightarrow> \<exists>d. (idx, d) \<in> set keys \<and> hash bs = desc_id d"
  using blobs.lookups_sound [OF assms, of "map (\<lambda>(idx, d). (idx, desc_id d)) keys"]
  unfolding known_chunks_lookups by auto

lemma add_chunk_Some: "fst (add_chunk hash a i idx bs) = Ret (Inr (Some whole)) \<Longrightarrow> hash whole = i"
  by (auto simp: add_chunk_def Let_def split: option.splits if_splits)

lemma add_chunk_no_panic:
  assumes "assembler_inv hash a" "\<forall>p. map_of a i = Some p \<longrightarrow> manifest_len (p_manifest p) < 2 ^ 32"
  shows "fst (add_chunk hash a i idx bs) \<noteq> Panic"
proof (cases "map_of a i")
  case (Some p)
  define cs where "cs = AList.update idx bs (p_chunks p)"
  let ?n = "manifest_len (p_manifest p)"
  have "assemble cs [0 ..< as_u32 ?n] \<noteq> None"
    if "idx < ?n" "descriptor_of hash bs = m_chunks (p_manifest p) ! idx" "\<not> length cs < ?n"
  proof -
    have "pending_ok hash (i, p\<lparr>p_chunks := cs\<rparr>)"
      unfolding cs_def by (rule pending_add_ok [OF assembler_inv_pending [OF assms(1) Some] that(1,2)])
    then have d: "distinct (map fst cs)" "set (map fst cs) \<subseteq> {..< ?n}"
      by (auto simp: pending_ok_def list_all_iff chunk_ok_def)
    then have "card (set (map fst cs)) = length cs" by (metis distinct_card length_map)
    then have "set (map fst cs) = {..< ?n}"
      using that(3) d(2) card_mono [OF _ d(2)] by (intro card_subset_eq) auto
    then have "set [0 ..< ?n] \<subseteq> fst ` set cs" by auto
    then show ?thesis using assms(2) Some by (simp add: as_u32_def assemble_eq)
  qed
  then show ?thesis
    using Some by (auto simp: add_chunk_def Let_def cs_def not_le split: option.splits)
qed (simp add: add_chunk_def)

lemma add_all_Some:
  "fst (add_all hash a i r ks) = Ret (Inr (Some whole)) \<Longrightarrow> (r = Some whole \<longrightarrow> hash whole = i) \<Longrightarrow> hash whole = i"
proof (induction hash a i r ks rule: add_all.induct)
  case (2 hash a i assembled idx bs rest)
  then show ?case
    using add_chunk_Some [of hash a i idx bs whole]
    by (cases "add_chunk hash a i idx bs") (auto split: exec.splits sum.splits)
qed simp

lemma add_all_None: "add_all hash a i None ks = (Ret (Inr (Some whole)), a') \<Longrightarrow> hash whole = i"
  using add_all_Some [of hash a i None ks whole] by simp

lemma fill_Some:
  "fst (fill_from_store hash a s i) = Ret (Inr (Some whole)) \<Longrightarrow> hash whole = i"
  by (auto simp: fill_from_store_def split: option.splits prod.splits dest: add_all_None)

lemma add_all_arrived:
  assumes "arrived hash a i m parts S" "S \<union> set ks = {..< length parts}" "S \<noteq> {..< length parts}"
    and "m_chunks m = map (descriptor_of hash) parts" "length parts < 2 ^ 32" "hash (concat parts) = i"
    and "distinct ks" "S \<inter> set ks = {}"
  shows "fst (add_all hash a i None (map (\<lambda>k. (k, parts ! k)) ks)) = Ret (Inr (Some (concat parts)))"
  using assms
proof (induction ks arbitrary: a S)
  case (Cons k ks)
  note step = add_chunk_arrived [OF Cons.prems(1) _ _ Cons.prems(4,5,6), of k]
  show ?case
  proof (cases "ks = []")
    case True
    then have full: "insert k S = {..< length parts}" using Cons.prems(2) by simp
    have "S \<subseteq> {..< length parts}" "k < length parts" using Cons.prems(2) by auto
    with step full have "add_chunk hash a i k (parts ! k) = (Ret (Inr (Some (concat parts))), AList.delete i a)"
      by (simp only: if_True)
    then show ?thesis using True by simp
  next
    case False
    then obtain k' where "k' \<in> set ks" "k' \<noteq> k" "k' \<notin> S" using Cons.prems(7,8) by (cases ks) auto
    then have "insert k S \<noteq> {..< length parts}" using Cons.prems(2) by auto
    moreover have "S \<subseteq> {..< length parts}" "k < length parts" using Cons.prems(2) by auto
    ultimately obtain a1 where "add_chunk hash a i k (parts ! k) = (Ret (Inr None), a1)"
        "arrived hash a1 i m parts (insert k S)"
      using step by (auto simp only: if_False)
    then show ?thesis
      using Cons.IH [of a1 "insert k S"] Cons.prems \<open>insert k S \<noteq> _\<close> by simp
  qed
qed auto

lemma known_chunks_all:
  assumes "store_inv hash s" "inj hash" "\<forall>(k, d) \<in> set keys. d = descriptor_of hash (parts ! k) \<and> contains s (desc_id d)"
  shows "fst (known_chunks s keys) = map (\<lambda>(k, _). (k, parts ! k)) keys"
  using assms
proof (induction s keys rule: known_chunks.induct)
  case (2 s k d rest)
  have d: "desc_id d = hash (parts ! k)" "contains s (desc_id d)"
    using "2.prems"(3) by (auto simp: descriptor_of_def descriptor_new_def)
  then obtain bs where bs: "fst (get s (desc_id d)) = Some bs" by (auto simp: fst_get contains_def)
  then have "bs = parts ! k" using get_sound [OF "2.prems"(1) bs] d(1) "2.prems"(2) by (auto dest: injD)
  moreover have "contains (snd (get s j)) k' = contains s k'" for j k'
    using map_of_touch [of s j k'] unfolding contains_def get_def Let_def
    by (cases "map_of (blobs s) k'"; cases "map_of (blobs (touch s j)) k'") auto
  moreover obtain r s1 where g: "get s (desc_id d) = (r, s1)" by fastforce
  ultimately show ?case
    using "2.IH" [OF g [symmetric] refl] "2.prems" bs get_inv [OF "2.prems"(1), of "desc_id d"]
    by (auto split: prod.splits) (metis (mono_tags, lifting) case_prodI2 prod.case snd_conv)
qed simp

text \<open>
  A receiver that already holds every chunk needs none of them sent: starting a
  nonempty dataset on a store that contains all its chunks returns the dataset at once,
  provided the digest has no collisions.
\<close>

lemma begin_with_all_chunks_held:
  assumes "inj hash" "store_inv hash s" "parts = slice_chunks (effective_chunk_size n) data"
    and "data \<noteq> []" "length parts < 2 ^ 32" "\<forall>part \<in> set parts. contains s (hash part)"
  shows "fst (begin_with hash a (manifest_split hash data n) s) = Ret (Inr (Some data))"
proof -
  let ?m = "manifest_split hash data n" let ?a = "begin_dataset a ?m"
  have whole: "concat parts = data"
    unfolding assms(3) by (rule concat_slice_chunks [OF effective_chunk_size_pos])
  have m: "m_chunks ?m = map (descriptor_of hash) parts" "desc_id (m_data ?m) = hash data"
    by (simp_all add: manifest_split_def assms(3) Let_def descriptor_of_def descriptor_new_def)
  have keys: "indexed ?m = map (\<lambda>k. (k, descriptor_of hash (parts ! k))) [0 ..< length parts]"
    using assms(5) by (auto simp: indexed_def enumerated_def m as_u32_def intro!: nth_equalityI)
  have "fst (known_chunks s (indexed ?m)) = map (\<lambda>(k, _). (k, parts ! k)) (indexed ?m)"
    using assms(6) by (intro known_chunks_all [OF assms(2,1)])
      (auto simp: keys descriptor_of_def descriptor_new_def)
  then have known: "fst (known_chunks s (indexed ?m)) = map (\<lambda>k. (k, parts ! k)) [0 ..< length parts]"
    by (simp add: keys comp_def)
  have "parts \<noteq> []" using whole assms(4) by auto
  then have "fst (add_all hash ?a (hash data) None (map (\<lambda>k. (k, parts ! k)) [0 ..< length parts])) =
      Ret (Inr (Some (concat parts)))"
    by (intro add_all_arrived [OF begin_arrived [OF m(2)] _ _ m(1) assms(5)]) (auto simp: whole)
  moreover have "map_of ?a (hash data) = Some \<lparr>p_manifest = ?m, p_chunks = []\<rparr>"
    by (simp add: begin_dataset_def m update_conv')
  ultimately show ?thesis
    using known whole by (cases "known_chunks s (indexed ?m)")
      (auto simp: begin_with_def fill_from_store_def m split: prod.splits)
qed

text \<open>
  Nothing corrupt gets through: whatever bytes arrive, a dataset that the assembler
  returns hashes to the id it was asked for, and no delivery panics or breaks the
  assembler's invariant while manifests stay below two to the 32 chunks.
\<close>

lemma assembled_data_is_authentic:
  assumes "assembler_inv hash a" "\<forall>p. map_of a i = Some p \<longrightarrow> manifest_len (p_manifest p) < 2 ^ 32"
  shows "(\<forall>whole. fst (add_stored hash a s i idx bs) = Ret (Inr (Some whole)) \<longrightarrow> hash whole = i) \<and>
    fst (add_chunk hash a i idx bs) \<noteq> Panic \<and> assembler_inv hash (snd (add_chunk hash a i idx bs))"
proof (intro conjI allI impI)
  fix whole assume "fst (add_stored hash a s i idx bs) = Ret (Inr (Some whole))"
  then show "hash whole = i"
    using add_chunk_Some [of hash a i idx bs whole] fill_Some [of hash _ "snd (put hash s bs)" i whole]
    by (cases "add_chunk hash a i idx bs") (auto simp: add_stored_def Let_def split: exec.splits sum.splits option.splits)
qed (use assms in \<open>simp_all add: add_chunk_no_panic add_chunk_inv\<close>)

text \<open>An empty dataset has no chunks, so it never completes.\<close>

lemma empty_dataset_stays_pending:
  "fst (begin_with hash a (manifest_split hash [] n) s) = Ret (Inr None)"
  "is_pending (begin_dataset a (manifest_split hash [] n)) (hash [])"
  "fst (add_chunk hash (begin_dataset a (manifest_split hash [] n)) (hash []) idx bs) =
     Ret (Inl (IndexOutOfRange (hash []) idx 0))"
  by (simp_all add: begin_with_def fill_from_store_def begin_dataset_def manifest_split_def update_conv'
      indexed_def enumerated_def descriptor_of_def descriptor_new_def is_pending_def add_chunk_def manifest_len_def)

end
