(* ===== verification/Compress.thy ===== *)
theory Compress
  imports Floats
begin

text \<open>
  Compression of transfers (crates/aether-core/src/compress.rs). The LZ4 library is two
  parameters, the compressor and the decompressor; the theorems use that decompressing what
  the compressor produced gives the input back, which is what the library documents.
\<close>

datatype codec = CodecNone | Lz4

definition compress_with :: "(bytes \<Rightarrow> bytes) \<Rightarrow> codec \<Rightarrow> bytes \<Rightarrow> bytes" where
  "compress_with lz4 c bs = (case c of CodecNone \<Rightarrow> bs | Lz4 \<Rightarrow> lz4 bs)"

definition decompress_with :: "(bytes \<Rightarrow> bytes option) \<Rightarrow> codec \<Rightarrow> bytes \<Rightarrow> bytes option" where
  "decompress_with unlz4 c bs = (case c of CodecNone \<Rightarrow> Some bs | Lz4 \<Rightarrow> unlz4 bs)"

record compression_policy =
  min_size_bytes :: nat
  fast_link_bytes_per_sec :: nat
  min_saving :: fl

definition policy_default :: compression_policy where
  "policy_default = \<lparr>min_size_bytes = 4 * 1024, fast_link_bytes_per_sec = 100 * 1024 * 1024,
     min_saving = fconst f32 (5 / 100)\<rparr>"

definition policy_disabled :: compression_policy where
  "policy_disabled = policy_default\<lparr>min_size_bytes := 2 ^ 64 - 1\<rparr>"

definition choose_codec :: "compression_policy \<Rightarrow> nat \<Rightarrow> nat option \<Rightarrow> codec" where
  "choose_codec p n bandwidth =
     (if n < min_size_bytes p then CodecNone
      else case bandwidth of
             Some b \<Rightarrow> (if fast_link_bytes_per_sec p \<le> b then CodecNone else Lz4)
           | None \<Rightarrow> Lz4)"

definition encode :: "(bytes \<Rightarrow> bytes) \<Rightarrow> compression_policy \<Rightarrow> bytes \<Rightarrow> nat option \<Rightarrow> codec \<times> bytes" where
  "encode lz4 p bs bandwidth =
     (let c = choose_codec p (length bs) bandwidth in
      if c = CodecNone then (CodecNone, bs)
      else let compressed = compress_with lz4 c bs;
               saved = fdiv f32 (of_nat_f f32 (length bs - length compressed)) (of_nat_f f32 (length bs))
           in if fle (min_saving p) saved then (c, compressed) else (CodecNone, bs))"

section \<open>Properties\<close>

lemma no_saving:
  assumes "flt (Num False 0) m" "fle m (fdiv f32 (of_nat_f f32 d) x)"
  shows "d \<noteq> 0"
proof
  assume "d = 0"
  then have "of_nat_f f32 d = Num False 0" by (simp add: of_nat_f_def fround_def)
  then have "fdiv f32 (of_nat_f f32 d) x \<in> {NaN, Num True 0, Num False 0}"
    by (cases x) (auto simp: fround_def)
  then show False using assms by (cases m) (auto simp: fle_def feq_def split: if_splits)
qed

text \<open>
  What is sent can be restored: decompressing an encoded payload with the codec sent
  along gives the original bytes, and when a positive saving is demanded the payload is
  never longer than the original, and shorter whenever it is compressed.
\<close>

lemma encode_decompresses:
  assumes "unlz4 (lz4 bs) = Some bs" "flt (Num False 0) (min_saving p)" "encode lz4 p bs bandwidth = (c, wire)"
  shows "decompress_with unlz4 c wire = Some bs \<and> length wire \<le> length bs \<and>
    (c = Lz4 \<longrightarrow> length wire < length bs)"
proof (cases "choose_codec p (length bs) bandwidth")
  case CodecNone
  then show ?thesis using assms(3) by (auto simp: encode_def decompress_with_def)
next
  case Lz4
  show ?thesis
  proof (cases "fle (min_saving p) (fdiv f32 (of_nat_f f32 (length bs - length (lz4 bs))) (of_nat_f f32 (length bs)))")
    case True
    then have "(c, wire) = (Lz4, lz4 bs)" using assms(3) Lz4 by (simp add: encode_def compress_with_def Let_def)
    moreover have "length bs - length (lz4 bs) \<noteq> 0" by (rule no_saving [OF assms(2) True])
    ultimately show ?thesis using assms(1) by (simp add: decompress_with_def)
  next
    case False
    then have "(c, wire) = (CodecNone, bs)" using assms(3) Lz4 by (simp add: encode_def compress_with_def Let_def)
    then show ?thesis by (simp add: decompress_with_def)
  qed
qed

end
