(* ===== verification/Protocol.thy ===== *)
theory Protocol
  imports Node Chunk Compress
begin

text \<open>
  The messages between controller and agents (crates/aether-protocol/src/message.rs) and
  the credentials checked at registration (crates/aether-controller/src/security.rs).
\<close>

definition PROTOCOL_VERSION :: nat where
  "PROTOCOL_VERSION = 1"

datatype message =
    RegisterNode nat node_info "string option"
  | RegisterDataChannel nat node_id "string option"
  | RegisterAccepted node_id "string option" nat
  | RegisterRejected string
  | DataEvicted node_id "data_id list"
  | DataHeld node_id "data_descriptor list"
  | Heartbeat node_id node_metrics
  | SubmitTask task
  | DataTransfer node_id data_descriptor codec bytes
  | DataManifest node_id chunk_manifest
  | DataChunk node_id data_id nat codec bytes
  | TaskAssignment node_id task "string option"
  | TaskCompleted task_result
  | DataReady node_id data_id
  | Ping nat bytes
  | Pong nat

definition register_msg :: "node_info \<Rightarrow> message" where
  "register_msg info = RegisterNode PROTOCOL_VERSION info None"

definition register_with_token :: "node_info \<Rightarrow> string option \<Rightarrow> message" where
  "register_with_token info token = RegisterNode PROTOCOL_VERSION info token"

definition register_data_channel :: "node_id \<Rightarrow> string option \<Rightarrow> message" where
  "register_data_channel n token = RegisterDataChannel PROTOCOL_VERSION n token"

fun message_kind :: "message \<Rightarrow> string" where
  "message_kind (RegisterNode _ _ _) = ''register_node''"
| "message_kind (RegisterAccepted _ _ _) = ''register_accepted''"
| "message_kind (RegisterRejected _) = ''register_rejected''"
| "message_kind (DataEvicted _ _) = ''data_evicted''"
| "message_kind (DataHeld _ _) = ''data_held''"
| "message_kind (Heartbeat _ _) = ''heartbeat''"
| "message_kind (SubmitTask _) = ''submit_task''"
| "message_kind (DataTransfer _ _ _ _) = ''data_transfer''"
| "message_kind (DataManifest _ _) = ''data_manifest''"
| "message_kind (DataChunk _ _ _ _ _) = ''data_chunk''"
| "message_kind (TaskAssignment _ _ _) = ''task_assignment''"
| "message_kind (TaskCompleted _) = ''task_completed''"
| "message_kind (Ping _ _) = ''ping''"
| "message_kind (Pong _) = ''pong''"
| "message_kind (RegisterDataChannel _ _ _) = ''register_data_channel''"
| "message_kind (DataReady _ _) = ''data_ready''"

section \<open>Credentials\<close>

text \<open>The ordered map of node tokens is a list of pairs in label order.\<close>

record security_config =
  auth_token :: "string option"
  node_tokens :: "(string \<times> string) list"

datatype auth_error = MissingToken | InvalidToken

definition security_open :: security_config where
  "security_open = \<lparr>auth_token = None, node_tokens = []\<rparr>"

definition with_token :: "string \<Rightarrow> security_config" where
  "with_token t = \<lparr>auth_token = Some t, node_tokens = []\<rparr>"

definition with_node_tokens :: "(string \<times> string) list \<Rightarrow> security_config" where
  "with_node_tokens ts = \<lparr>auth_token = None, node_tokens = ts\<rparr>"

definition requires_auth :: "security_config \<Rightarrow> bool" where
  "requires_auth c = (auth_token c \<noteq> None \<or> node_tokens c \<noteq> [])"

unbundle bit_operations_syntax

definition constant_time_eq :: "bytes \<Rightarrow> bytes \<Rightarrow> bool" where
  "constant_time_eq a b =
     (if length a \<noteq> length b then False
      else fold (\<lambda>(x, y) difference. difference OR (x XOR y)) (zip a b) 0 = 0)"

definition identify :: "security_config \<Rightarrow> string option \<Rightarrow> auth_error + string option" where
  "identify c presented =
     (if \<not> requires_auth c then Inr None
      else case presented of
             None \<Rightarrow> Inl MissingToken
           | Some p \<Rightarrow>
               (let shared = (case auth_token c of
                                None \<Rightarrow> None
                              | Some t \<Rightarrow> if constant_time_eq (str_bytes t) (str_bytes p) then Some None else None);
                    matched = fold (\<lambda>(label, t) m.
                        if constant_time_eq (str_bytes t) (str_bytes p) then Some (Some label) else m)
                      (node_tokens c) shared
                in case matched of None \<Rightarrow> Inl InvalidToken | Some l \<Rightarrow> Inr l))"

definition authorize :: "security_config \<Rightarrow> string option \<Rightarrow> auth_error + unit" where
  "authorize c presented = (case identify c presented of Inl e \<Rightarrow> Inl e | Inr _ \<Rightarrow> Inr ())"

section \<open>Constant-time comparison is equality\<close>

lemma or_fold_0:
  "fold (\<lambda>(x, y) d. d OR (x XOR y)) ps d = (0 :: byte) \<longleftrightarrow> d = 0 \<and> (\<forall>(x, y) \<in> set ps. x = y)"
proof (induction ps arbitrary: d)
  case (Cons a ps)
  obtain x y where a: "a = (x, y)" by fastforce
  have "x XOR y = 0 \<longleftrightarrow> x = y"
    by (metis xor.assoc xor.left_neutral xor.right_neutral xor_self_eq)
  then have "d OR (x XOR y) = 0 \<longleftrightarrow> d = 0 \<and> x = y" by (simp add: or_eq_0_iff)
  then show ?case using Cons [of "d OR (x XOR y)"] a by auto
qed simp

lemma constant_time_eq_iff: "constant_time_eq a b \<longleftrightarrow> a = b"
proof -
  have "(\<forall>(x, y) \<in> set (zip a b). x = y) \<longleftrightarrow> a = b" if "length a = length b"
    using that by (induction rule: list_induct2) auto
  then show ?thesis by (auto simp: constant_time_eq_def or_fold_0)
qed

section \<open>Distinct strings have distinct bytes\<close>

lemma of_nat_byte_inject: "m < 256 \<Longrightarrow> n < 256 \<Longrightarrow> (of_nat m :: byte) = of_nat n \<longleftrightarrow> m = n"
proof -
  have "unat (of_nat k :: byte) = k" if "k < 256" for k using that by (simp add: unat_of_nat)
  then show "m < 256 \<Longrightarrow> n < 256 \<Longrightarrow> ?thesis" by metis
qed

lemma utf8_prefix_code:
  assumes "utf8 c @ r = utf8 d @ s"
  shows "c = d \<and> r = s"
proof -
  have lim: "(of_char c :: nat) < 256" "(of_char d :: nat) < 256" by simp_all
  have eq: "c = d" if "(of_char c :: nat) = of_char d" using that by simp
  let ?m = "of_char c :: nat" and ?n = "of_char d :: nat"
  have div: "x div 64 < 4" if "x < 256" for x :: nat using that by (simp add: less_mult_imp_div_less)
  consider "?m < 128" "?n < 128" | "?m < 128" "\<not> ?n < 128" | "\<not> ?m < 128" "?n < 128" | "\<not> ?m < 128" "\<not> ?n < 128"
    by blast
  then show ?thesis
  proof cases
    case 1
    then show ?thesis using assms eq by (simp add: utf8_def of_nat_byte_inject)
  next
    case 2
    then show ?thesis using assms div [OF lim(2)] of_nat_byte_inject [of ?m "192 + ?n div 64"] by (simp add: utf8_def Let_def)
  next
    case 3
    then show ?thesis using assms div [OF lim(1)] of_nat_byte_inject [of "192 + ?m div 64" ?n] by (simp add: utf8_def Let_def)
  next
    case 4
    then have "?m div 64 = ?n div 64" "?m mod 64 = ?n mod 64" "r = s"
      using assms div [OF lim(1)] div [OF lim(2)] of_nat_byte_inject [of "192 + ?m div 64" "192 + ?n div 64"]
        of_nat_byte_inject [of "128 + ?m mod 64" "128 + ?n mod 64"]
      by (simp_all add: utf8_def Let_def trans_less_add1)
    then have "?m = ?n" by (metis div_mult_mod_eq)
    then show ?thesis using eq \<open>r = s\<close> by blast
  qed
qed

lemma str_bytes_inject: "str_bytes a = str_bytes b \<longleftrightarrow> a = b"
proof
  have ne: "utf8 c \<noteq> []" for c by (simp add: utf8_def Let_def)
  show "str_bytes a = str_bytes b \<Longrightarrow> a = b"
  proof (induction a arbitrary: b)
    case Nil
    then show ?case using ne by (cases b) auto
  next
    case (Cons c a)
    then obtain d b' where b: "b = d # b'" using ne by (cases b) auto
    then show ?case using Cons utf8_prefix_code [of c "str_bytes a" d "str_bytes b'"] by simp
  qed
qed simp

text \<open>
  Registration is open exactly when no token is configured; otherwise it is granted
  exactly to whoever presents the shared token or one of the node tokens, and the two
  refusals say whether a token was missing or wrong.
\<close>

lemma authorize_iff:
  "authorize c presented =
     (if auth_token c = None \<and> node_tokens c = [] then Inr ()
      else case presented of
             None \<Rightarrow> Inl MissingToken
           | Some p \<Rightarrow> (if auth_token c = Some p \<or> p \<in> snd ` set (node_tokens c) then Inr () else Inl InvalidToken))"
proof -
  have ct: "constant_time_eq (str_bytes t) (str_bytes p) \<longleftrightarrow> t = p" for t p
    by (simp add: constant_time_eq_iff str_bytes_inject)
  have none: "fold (\<lambda>(label, t) m. if t = p then Some (Some label) else m) ts m0 = None \<longleftrightarrow>
      m0 = None \<and> p \<notin> snd ` set ts" for ts m0 and p :: string
  proof (induction ts arbitrary: m0)
    case (Cons a ts)
    show ?case unfolding fold_Cons comp_def Cons by (cases a) auto
  qed simp
  show ?thesis
  proof (cases presented)
    case (Some p)
    let ?m = "fold (\<lambda>(label, t) m. if t = p then Some (Some label) else m) (node_tokens c)
        (case auth_token c of None \<Rightarrow> None | Some t \<Rightarrow> if t = p then Some None else None)"
    have "?m = None \<longleftrightarrow> auth_token c \<noteq> Some p \<and> p \<notin> snd ` set (node_tokens c)"
      by (auto simp: none split: option.splits)
    then show ?thesis
      using Some unfolding authorize_def identify_def requires_auth_def ct by (cases ?m) auto
  qed (simp add: authorize_def identify_def requires_auth_def)
qed

end
