(* ===== verification/Connections.thy ===== *)
theory Connections
  imports Protocol
begin

text \<open>
  Live agent connections (crates/aether-controller/src/connections.rs). A connection is a
  number; its outbound channel is the list of messages queued on it, and a connection whose
  writer is gone refuses to queue. A waiter is identified by a number too; handing over a
  result appends to the deliveries.
\<close>

type_synonym conn = nat
type_synonym waiter = nat

datatype dispatch_error =
    NoNodeAvailable task_id
  | Unreachable node_id string
  | Timeout node_id task_id
  | UnknownInput data_id
  | QueueFull task_id
  | QueueTimeout task_id nat

record connections =
  senders :: "(node_id, conn) hashmap"
  data_channels :: "(node_id, conn list) hashmap"
  next_channel :: "(node_id, 64 word) hashmap"
  channel_tokens :: "(node_id, string) hashmap"
  pending_results :: "(task_id, waiter) hashmap"
  pending_pongs :: "(node_id \<times> nat, waiter) hashmap"
  pending_data :: "(node_id \<times> data_id, waiter) hashmap"
  outbox :: "(conn \<times> message) list"
  closed :: "conn list"
  delivered :: "(waiter \<times> task_result) list"
  woken :: "waiter list"

definition connections_new :: connections where
  "connections_new = \<lparr>senders = [], data_channels = [], next_channel = [], channel_tokens = [],
     pending_results = [], pending_pongs = [], pending_data = [], outbox = [], closed = [], delivered = [],
     woken = []\<rparr>"

text \<open>Queueing on a channel, as \<^verbatim>\<open>UnboundedSender::send\<close> does.\<close>

definition channel_send :: "connections \<Rightarrow> conn \<Rightarrow> message \<Rightarrow> bool \<times> connections" where
  "channel_send c k m =
     (if k \<in> set (closed c) then (False, c) else (True, c\<lparr>outbox := outbox c @ [(k, m)]\<rparr>))"

text \<open>The generated token is an argument.\<close>

definition attach :: "connections \<Rightarrow> node_id \<Rightarrow> conn \<Rightarrow> string \<Rightarrow> string \<times> connections" where
  "attach c n k token =
     (token, c\<lparr>senders := AList.update n k (senders c),
               channel_tokens := AList.update n token (channel_tokens c)\<rparr>)"

definition claim_channel_token :: "connections \<Rightarrow> node_id \<Rightarrow> string option \<Rightarrow> bool" where
  "claim_channel_token c n presented =
     (case (map_of (channel_tokens c) n, presented) of
        (Some expected, Some p) \<Rightarrow> constant_time_eq (str_bytes expected) (str_bytes p)
      | _ \<Rightarrow> False)"

definition attach_data_channel :: "connections \<Rightarrow> node_id \<Rightarrow> conn \<Rightarrow> connections" where
  "attach_data_channel c n k =
     c\<lparr>data_channels := AList.update n
         ((case map_of (data_channels c) n of None \<Rightarrow> [] | Some ks \<Rightarrow> ks) @ [k]) (data_channels c)\<rparr>"

definition data_channel_count :: "connections \<Rightarrow> node_id \<Rightarrow> nat" where
  "data_channel_count c n = (case map_of (data_channels c) n of None \<Rightarrow> 0 | Some ks \<Rightarrow> length ks)"

definition detach :: "connections \<Rightarrow> node_id \<Rightarrow> connections" where
  "detach c n =
     c\<lparr>senders := AList.delete n (senders c), data_channels := AList.delete n (data_channels c),
       next_channel := AList.delete n (next_channel c), channel_tokens := AList.delete n (channel_tokens c)\<rparr>"

definition is_connected :: "connections \<Rightarrow> node_id \<Rightarrow> bool" where
  "is_connected c n = (map_of (senders c) n \<noteq> None)"

definition connected_count :: "connections \<Rightarrow> nat" where
  "connected_count c = length (senders c)"

definition send :: "connections \<Rightarrow> node_id \<Rightarrow> message \<Rightarrow> (dispatch_error + unit) \<times> connections" where
  "send c n m =
     (case map_of (senders c) n of
        None \<Rightarrow> (Inl (Unreachable n ''no live connection''), c)
      | Some k \<Rightarrow>
          (case channel_send c k m of
             (True, c1) \<Rightarrow> (Inr (), c1)
           | (False, c1) \<Rightarrow> (Inl (Unreachable n ''connection is shutting down''), c1)))"

definition send_bulk :: "connections \<Rightarrow> node_id \<Rightarrow> message \<Rightarrow> (dispatch_error + unit) \<times> connections" where
  "send_bulk c n m =
     (case map_of (data_channels c) n of
        None \<Rightarrow> send c n m
      | Some [] \<Rightarrow> send c n m
      | Some ks \<Rightarrow>
          (let cursor = (case map_of (next_channel c) n of None \<Rightarrow> 0 | Some w \<Rightarrow> w);
               k = ks ! (unat cursor mod length ks);
               c1 = c\<lparr>next_channel := AList.update n (cursor + 1) (next_channel c)\<rparr>
           in case channel_send c1 k m of
                (True, c2) \<Rightarrow> (Inr (), c2)
              | (False, c2) \<Rightarrow> (Inl (Unreachable n ''data channel is shutting down''), c2)))"

section \<open>Waiting\<close>

definition expect_result :: "connections \<Rightarrow> task_id \<Rightarrow> waiter \<Rightarrow> connections" where
  "expect_result c t w = c\<lparr>pending_results := AList.update t w (pending_results c)\<rparr>"

definition forget_result :: "connections \<Rightarrow> task_id \<Rightarrow> connections" where
  "forget_result c t = c\<lparr>pending_results := AList.delete t (pending_results c)\<rparr>"

definition expect_data :: "connections \<Rightarrow> node_id \<Rightarrow> data_id \<Rightarrow> waiter \<Rightarrow> connections" where
  "expect_data c n i w = c\<lparr>pending_data := AList.update (n, i) w (pending_data c)\<rparr>"

definition forget_data :: "connections \<Rightarrow> node_id \<Rightarrow> data_id \<Rightarrow> connections" where
  "forget_data c n i = c\<lparr>pending_data := AList.delete (n, i) (pending_data c)\<rparr>"

definition complete_data :: "connections \<Rightarrow> node_id \<Rightarrow> data_id \<Rightarrow> connections" where
  "complete_data c n i =
     (case map_of (pending_data c) (n, i) of
        None \<Rightarrow> c
      | Some w \<Rightarrow> c\<lparr>pending_data := AList.delete (n, i) (pending_data c), woken := woken c @ [w]\<rparr>)"

definition expect_pong :: "connections \<Rightarrow> node_id \<Rightarrow> nat \<Rightarrow> waiter \<Rightarrow> connections" where
  "expect_pong c n x w = c\<lparr>pending_pongs := AList.update (n, x) w (pending_pongs c)\<rparr>"

definition forget_pong :: "connections \<Rightarrow> node_id \<Rightarrow> nat \<Rightarrow> connections" where
  "forget_pong c n x = c\<lparr>pending_pongs := AList.delete (n, x) (pending_pongs c)\<rparr>"

definition complete_pong :: "connections \<Rightarrow> node_id \<Rightarrow> nat \<Rightarrow> connections" where
  "complete_pong c n x =
     (case map_of (pending_pongs c) (n, x) of
        None \<Rightarrow> c
      | Some w \<Rightarrow> c\<lparr>pending_pongs := AList.delete (n, x) (pending_pongs c), woken := woken c @ [w]\<rparr>)"

definition complete :: "connections \<Rightarrow> task_result \<Rightarrow> connections" where
  "complete c r =
     (case map_of (pending_results c) (res_task_id r) of
        None \<Rightarrow> c
      | Some w \<Rightarrow> c\<lparr>pending_results := AList.delete (res_task_id r) (pending_results c),
                     delivered := delivered c @ [(w, r)]\<rparr>)"

section \<open>Rotation over data channels\<close>

fun send_bulk_all :: "connections \<Rightarrow> node_id \<Rightarrow> message list \<Rightarrow> connections" where
  "send_bulk_all c n [] = c"
| "send_bulk_all c n (m # ms) = send_bulk_all (snd (send_bulk c n m)) n ms"

lemma send_bulk_step:
  assumes "map_of (data_channels c) n = Some ks" "ks \<noteq> []" "closed c = []"
    and "(case map_of (next_channel c) n of None \<Rightarrow> 0 | Some w \<Rightarrow> w) = cursor"
  shows "outbox (snd (send_bulk c n m)) = outbox c @ [(ks ! (unat cursor mod length ks), m)]"
    "map_of (data_channels (snd (send_bulk c n m))) n = Some ks" "closed (snd (send_bulk c n m)) = []"
    "map_of (next_channel (snd (send_bulk c n m))) n = Some (cursor + 1)"
  using assms by (cases ks; simp add: send_bulk_def channel_send_def Let_def update_conv')+

lemma send_bulk_all_outbox:
  assumes "map_of (data_channels c) n = Some ks" "ks \<noteq> []" "closed c = []"
    and "(case map_of (next_channel c) n of None \<Rightarrow> 0 | Some w \<Rightarrow> w) = (of_nat s :: 64 word)"
    and "s + length ms < 2 ^ 64"
  shows "outbox (send_bulk_all c n ms) =
    outbox c @ map (\<lambda>j. (ks ! ((s + j) mod length ks), ms ! j)) [0 ..< length ms]"
  using assms
proof (induction ms arbitrary: c s)
  case (Cons m ms)
  note st = send_bulk_step [OF Cons.prems(1-4), of m]
  have u: "unat (of_nat s :: 64 word) = s" using Cons.prems(5) by (simp add: unat_of_nat)
  have "outbox (send_bulk_all (snd (send_bulk c n m)) n ms) = outbox (snd (send_bulk c n m)) @
      map (\<lambda>j. (ks ! ((Suc s + j) mod length ks), ms ! j)) [0 ..< length ms]"
    using Cons.prems st by (intro Cons.IH) (simp_all add: add.commute)
  moreover have "map (\<lambda>j. (ks ! ((s + j) mod length ks), (m # ms) ! j)) [0 ..< length (m # ms)] =
      (ks ! (s mod length ks), m) # map (\<lambda>j. (ks ! ((Suc s + j) mod length ks), ms ! j)) [0 ..< length ms]"
    by (simp add: upt_conv_Cons map_Suc_upt [symmetric] del: upt_Suc)
  ultimately show ?case using st(1) u by simp
qed simp

text \<open>
  Bulk messages rotate over the data channels of a node: the j-th message of a batch
  goes out on channel j modulo the number of channels, each exactly once and in order.
\<close>

lemma send_bulk_rotates:
  assumes "map_of (data_channels c) n = Some ks" "ks \<noteq> []" "closed c = []"
    and "map_of (next_channel c) n = None" "length ms < 2 ^ 64"
  shows "outbox (send_bulk_all c n ms) = outbox c @ map (\<lambda>j. (ks ! (j mod length ks), ms ! j)) [0 ..< length ms]"
  using send_bulk_all_outbox [of c n ks 0 ms] assms by simp

end
