(* ===== verification/Registry.thy ===== *)
theory Registry
  imports Node
begin

text \<open>
  The registry of live nodes (crates/aether-controller/src/registry.rs) and the arithmetic
  of link probes (crates/aether-controller/src/probe.rs). The clock is an argument.
\<close>

datatype registry_error = UnknownNode node_id

record node_entry =
  e_info :: node_info
  last_seen :: instant

type_synonym registry = "(node_id, node_entry) hashmap"

definition registry_new :: registry where
  "registry_new = []"

definition register :: "registry \<Rightarrow> instant \<Rightarrow> node_info \<Rightarrow> node_entry option \<times> registry" where
  "register g now info =
     (map_of g (info_id info), AList.update (info_id info) \<lparr>e_info = info, last_seen = now\<rparr> g)"

definition registry_remove :: "registry \<Rightarrow> node_id \<Rightarrow> node_entry option \<times> registry" where
  "registry_remove g n = (map_of g n, AList.delete n g)"

definition record_heartbeat ::
    "registry \<Rightarrow> instant \<Rightarrow> node_id \<Rightarrow> node_metrics \<Rightarrow> (registry_error + unit) \<times> registry" where
  "record_heartbeat g now n m =
     (case map_of g n of
        None \<Rightarrow> (Inl (UnknownNode n), g)
      | Some e \<Rightarrow> (Inr (), AList.update n (e\<lparr>e_info := update_metrics (e_info e) m, last_seen := now\<rparr>) g))"

section \<open>Link measurements\<close>

definition SMOOTHING :: fl where
  "SMOOTHING = fconst f64 (3 / 10)"

definition smooth :: "fl option \<Rightarrow> fl \<Rightarrow> fl" where
  "smooth previous sample =
     (case previous of
        None \<Rightarrow> sample
      | Some p \<Rightarrow> fadd f64 (fmul f64 p (fsub f64 (fconst f64 1) SMOOTHING)) (fmul f64 sample SMOOTHING))"

definition record_link :: "registry \<Rightarrow> node_id \<Rightarrow> fl \<Rightarrow> nat option \<Rightarrow> registry" where
  "record_link g n latency bandwidth =
     (case map_of g n of
        None \<Rightarrow> g
      | Some e \<Rightarrow>
          (let i1 = (e_info e)\<lparr>latency_ms :=
                 Some (fcast f32 (smooth (map_option (fcast f64) (latency_ms (e_info e))) (fcast f64 latency)))\<rparr>;
               i2 = (case bandwidth of
                       None \<Rightarrow> i1
                     | Some b \<Rightarrow> i1\<lparr>bandwidth_bytes_per_sec :=
                         Some (to_uint 64 (smooth (map_option (of_nat_f f64) (bandwidth_bytes_per_sec i1)) (of_nat_f f64 b)))\<rparr>)
           in AList.update n (e\<lparr>e_info := i2\<rparr>) g))"

text \<open>\<^verbatim>\<open>measure\<close>: latency from the small round trip, bandwidth from the difference.\<close>

record link_measurement =
  m_latency_ms :: fl
  m_bandwidth :: "nat option"

definition measure_link :: "nat \<Rightarrow> duration option \<Rightarrow> duration option \<Rightarrow> link_measurement option" where
  "measure_link padding small large =
     (case (small, large) of
        (Some s, Some l) \<Rightarrow>
          (let transfer = l - s in
           Some \<lparr>m_latency_ms = fmul f32 (as_secs_f32 s) (fconst f32 1000),
                 m_bandwidth = (if from_millis 1 < transfer
                   then Some (to_uint 64 (fdiv f64 (of_nat_f f64 padding) (as_secs_f64 transfer))) else None)\<rparr>)
      | _ \<Rightarrow> None)"

definition probe_node :: "registry \<Rightarrow> nat \<Rightarrow> node_id \<Rightarrow> duration option \<Rightarrow> duration option \<Rightarrow> registry" where
  "probe_node g padding n small large =
     (case measure_link padding small large of
        None \<Rightarrow> g
      | Some m \<Rightarrow> record_link g n (m_latency_ms m) (m_bandwidth m))"

section \<open>Reading\<close>

definition registry_get :: "registry \<Rightarrow> node_id \<Rightarrow> node_entry option" where
  "registry_get g n = map_of g n"

definition registry_contains :: "registry \<Rightarrow> node_id \<Rightarrow> bool" where
  "registry_contains g n = (map_of g n \<noteq> None)"

definition registry_nodes :: "registry \<Rightarrow> node_info list" where
  "registry_nodes g = map (\<lambda>(_, e). e_info e) g"

definition stale_nodes :: "registry \<Rightarrow> instant \<Rightarrow> duration \<Rightarrow> node_id list" where
  "stale_nodes g now timeout =
     map (\<lambda>(_, e). info_id (e_info e))
       (filter (\<lambda>(_, e). timeout < saturating_duration_since now (last_seen e)) g)"

section \<open>Invariant\<close>

text \<open>Every node is filed under its own id.\<close>

definition registry_inv :: "registry \<Rightarrow> bool" where
  "registry_inv g = (distinct (map fst g) \<and> list_all (\<lambda>(n, e). info_id (e_info e) = n) g)"

lemma registry_inv_new [inv_intros]: "registry_inv registry_new"
  by (simp add: registry_inv_def registry_new_def)

lemma set_update_reg: "set (AList.update k v al) \<subseteq> insert (k, v) (set al)"
  by (induction al) auto

lemma registry_inv_update:
  "registry_inv g \<Longrightarrow> info_id (e_info e) = n \<Longrightarrow> registry_inv (AList.update n e g)"
  using set_update_reg [of n e g] by (auto simp: registry_inv_def distinct_update list_all_iff)

lemma registry_inv_entry: "registry_inv g \<Longrightarrow> map_of g n = Some e \<Longrightarrow> info_id (e_info e) = n"
  by (auto simp: registry_inv_def list_all_iff dest!: map_of_SomeD)

lemma register_inv [inv_intros]: "registry_inv g \<Longrightarrow> registry_inv (snd (register g now info))"
  by (simp add: register_def registry_inv_update)

lemma registry_remove_inv [inv_intros]: "registry_inv g \<Longrightarrow> registry_inv (snd (registry_remove g n))"
  by (auto simp: registry_remove_def registry_inv_def distinct_delete list_all_iff AList.delete_eq
      intro: distinct_map_filter)

lemma record_heartbeat_inv [inv_intros]:
  "registry_inv g \<Longrightarrow> registry_inv (snd (record_heartbeat g now n m))"
  by (auto simp: record_heartbeat_def registry_inv_entry intro!: registry_inv_update split: option.splits)

lemma record_link_inv [inv_intros]: "registry_inv g \<Longrightarrow> registry_inv (record_link g n l b)"
  by (auto simp: record_link_def registry_inv_entry Let_def intro!: registry_inv_update split: option.splits)

lemma stale_nodes_iff:
  assumes "registry_inv g"
  shows "n \<in> set (stale_nodes g now timeout) \<longleftrightarrow>
    (\<exists>e. map_of g n = Some e \<and> timeout < now - last_seen e)"
proof
  assume "n \<in> set (stale_nodes g now timeout)"
  then obtain k e where e: "(k, e) \<in> set g" "timeout < now - last_seen e" "info_id (e_info e) = n"
    by (auto simp: stale_nodes_def saturating_duration_since_def)
  then have "k = n" using assms by (auto simp: registry_inv_def list_all_iff)
  then show "\<exists>e. map_of g n = Some e \<and> timeout < now - last_seen e"
    using e assms by (auto simp: registry_inv_def intro: map_of_is_SomeI)
next
  assume "\<exists>e. map_of g n = Some e \<and> timeout < now - last_seen e"
  then obtain e where e: "map_of g n = Some e" "timeout < now - last_seen e" by blast
  then show "n \<in> set (stale_nodes g now timeout)"
    using map_of_SomeD [OF e(1)] registry_inv_entry [OF assms e(1)]
    by (force simp: stale_nodes_def saturating_duration_since_def)
qed

end
