(* ===== verification/Counters.thy ===== *)
theory Counters
  imports Floats
begin

text \<open>
  The counters of crates/aether-controller/src/observability.rs: events of the mesh, bytes
  moved and saved, and the queue's figures. The atomics are plain numbers; each recording
  function is one increment.
\<close>

record mesh_metrics =
  nodes_registered :: nat
  registrations_rejected :: nat
  nodes_disconnected :: nat
  nodes_evicted :: nat
  heartbeats :: nat
  tasks_completed :: nat
  tasks_failed :: nat
  messages_received :: nat

definition mesh_metrics_new :: mesh_metrics where
  "mesh_metrics_new = \<lparr>nodes_registered = 0, registrations_rejected = 0, nodes_disconnected = 0,
     nodes_evicted = 0, heartbeats = 0, tasks_completed = 0, tasks_failed = 0, messages_received = 0\<rparr>"

definition record_registration :: "mesh_metrics \<Rightarrow> mesh_metrics" where
  "record_registration m = m\<lparr>nodes_registered := nodes_registered m + 1\<rparr>"

definition record_rejection :: "mesh_metrics \<Rightarrow> mesh_metrics" where
  "record_rejection m = m\<lparr>registrations_rejected := registrations_rejected m + 1\<rparr>"

definition record_disconnect :: "mesh_metrics \<Rightarrow> mesh_metrics" where
  "record_disconnect m = m\<lparr>nodes_disconnected := nodes_disconnected m + 1\<rparr>"

definition count_heartbeat :: "mesh_metrics \<Rightarrow> mesh_metrics" where
  "count_heartbeat m = m\<lparr>heartbeats := heartbeats m + 1\<rparr>"

definition record_message :: "mesh_metrics \<Rightarrow> mesh_metrics" where
  "record_message m = m\<lparr>messages_received := messages_received m + 1\<rparr>"

definition record_evictions :: "mesh_metrics \<Rightarrow> nat \<Rightarrow> mesh_metrics" where
  "record_evictions m n = m\<lparr>nodes_evicted := nodes_evicted m + n\<rparr>"

definition record_task :: "mesh_metrics \<Rightarrow> bool \<Rightarrow> mesh_metrics" where
  "record_task m success =
     (if success then m\<lparr>tasks_completed := tasks_completed m + 1\<rparr>
      else m\<lparr>tasks_failed := tasks_failed m + 1\<rparr>)"

section \<open>Traffic\<close>

record traffic =
  data_bytes_sent :: nat
  data_bytes_uncompressed :: nat
  transfers_skipped :: nat
  chunks_skipped :: nat
  retries :: nat

definition traffic_new :: traffic where
  "traffic_new = \<lparr>data_bytes_sent = 0, data_bytes_uncompressed = 0, transfers_skipped = 0,
     chunks_skipped = 0, retries = 0\<rparr>"

definition record_sent :: "traffic \<Rightarrow> nat \<Rightarrow> nat \<Rightarrow> traffic" where
  "record_sent t wire original =
     t\<lparr>data_bytes_sent := data_bytes_sent t + wire,
       data_bytes_uncompressed := data_bytes_uncompressed t + original\<rparr>"

definition record_transfer_skipped :: "traffic \<Rightarrow> traffic" where
  "record_transfer_skipped t = t\<lparr>transfers_skipped := transfers_skipped t + 1\<rparr>"

definition record_chunk_skipped :: "traffic \<Rightarrow> traffic" where
  "record_chunk_skipped t = t\<lparr>chunks_skipped := chunks_skipped t + 1\<rparr>"

definition record_retry :: "traffic \<Rightarrow> traffic" where
  "record_retry t = t\<lparr>retries := retries t + 1\<rparr>"

definition compression_saved_bytes :: "traffic \<Rightarrow> nat" where
  "compression_saved_bytes t = data_bytes_uncompressed t - data_bytes_sent t"

definition compression_ratio :: "traffic \<Rightarrow> fl" where
  "compression_ratio t =
     (if data_bytes_uncompressed t = 0 then Num False 0
      else fdiv f64 (of_nat_f f64 (data_bytes_sent t)) (of_nat_f f64 (data_bytes_uncompressed t)))"

section \<open>Queue figures\<close>

record queue_stats =
  qs_depth :: nat
  qs_dequeued :: nat
  qs_refused :: nat
  qs_expired :: nat
  waited_ms :: nat
  longest_wait_ms :: nat

definition queue_stats_new :: queue_stats where
  "queue_stats_new = \<lparr>qs_depth = 0, qs_dequeued = 0, qs_refused = 0, qs_expired = 0, waited_ms = 0,
     longest_wait_ms = 0\<rparr>"

definition set_depth :: "queue_stats \<Rightarrow> nat \<Rightarrow> queue_stats" where
  "set_depth s n = s\<lparr>qs_depth := n\<rparr>"

definition record_dequeued :: "queue_stats \<Rightarrow> duration \<Rightarrow> queue_stats" where
  "record_dequeued s w =
     s\<lparr>qs_dequeued := qs_dequeued s + 1, waited_ms := waited_ms s + as_millis w,
       longest_wait_ms := max (longest_wait_ms s) (as_millis w)\<rparr>"

definition record_refused :: "queue_stats \<Rightarrow> queue_stats" where
  "record_refused s = s\<lparr>qs_refused := qs_refused s + 1\<rparr>"

definition record_expired :: "queue_stats \<Rightarrow> queue_stats" where
  "record_expired s = s\<lparr>qs_expired := qs_expired s + 1\<rparr>"

definition mean_wait_ms :: "queue_stats \<Rightarrow> fl" where
  "mean_wait_ms s =
     (if qs_dequeued s = 0 then Num False 0
      else fdiv f64 (of_nat_f f64 (waited_ms s)) (of_nat_f f64 (qs_dequeued s)))"

lemma dequeued_waits:
  "waited_ms (foldl record_dequeued s ws) = waited_ms s + sum_list (map as_millis ws)"
  "qs_dequeued (foldl record_dequeued s ws) = qs_dequeued s + length ws"
  by (induction ws arbitrary: s) (simp_all add: record_dequeued_def)

end
