(* ===== verification/Catalog.thy ===== *)
theory Catalog
  imports Node
begin

text \<open>
  The data catalogue of the scheduler crate (crates/aether-scheduler/src/locality.rs):
  which node holds which dataset. The hash map is an association list and the hash set
  of an entry a list without duplicates, in some iteration order. The locale
  \<^verbatim>\<open>holdings\<close> is the contract the controller relies on, a relation between datasets
  and nodes; the catalogue is shown to implement it.
\<close>

record entry =
  descriptor :: data_descriptor
  locations :: "node_id list"

type_synonym catalog = "(data_id, entry) hashmap"

definition catalog_new :: catalog where
  "catalog_new = []"

definition record_data :: "catalog \<Rightarrow> data_descriptor \<Rightarrow> node_id \<Rightarrow> catalog" where
  "record_data c d n =
     (let e = (case map_of c (desc_id d) of
                 Some e \<Rightarrow> e
               | None \<Rightarrow> \<lparr>descriptor = d, locations = []\<rparr>)
      in AList.update (desc_id d) (e\<lparr>locations := List.insert n (locations e)\<rparr>) c)"

definition remove_data :: "catalog \<Rightarrow> data_id \<Rightarrow> node_id \<Rightarrow> catalog" where
  "remove_data c i n =
     (case map_of c i of
        None \<Rightarrow> c
      | Some e \<Rightarrow>
          (let rest = removeAll n (locations e) in
           if rest = [] then AList.delete i c
           else AList.update i (e\<lparr>locations := rest\<rparr>) c))"

definition forget_node :: "catalog \<Rightarrow> node_id \<Rightarrow> catalog" where
  "forget_node c n =
     filter (\<lambda>(_, e). locations e \<noteq> [])
       (map (\<lambda>(i, e). (i, e\<lparr>locations := removeAll n (locations e)\<rparr>)) c)"

definition catalog_descriptor :: "catalog \<Rightarrow> data_id \<Rightarrow> data_descriptor option" where
  "catalog_descriptor c i = map_option descriptor (map_of c i)"

definition catalog_locations :: "catalog \<Rightarrow> data_id \<Rightarrow> node_id list" where
  "catalog_locations c i = (case map_of c i of None \<Rightarrow> [] | Some e \<Rightarrow> locations e)"

definition holds :: "catalog \<Rightarrow> data_id \<Rightarrow> node_id \<Rightarrow> bool" where
  "holds c i n = (case map_of c i of None \<Rightarrow> False | Some e \<Rightarrow> n \<in> set (locations e))"

definition local_bytes :: "catalog \<Rightarrow> node_id \<Rightarrow> data_id list \<Rightarrow> nat" where
  "local_bytes c n ins =
     sum_list (map (\<lambda>e. size_bytes (descriptor e))
       (filter (\<lambda>e. n \<in> set (locations e)) (List.map_filter (map_of c) ins)))"

definition held_by :: "catalog \<Rightarrow> node_id \<Rightarrow> nat \<times> nat" where
  "held_by c n =
     fold (\<lambda>e (count, bytes). (count + 1, bytes + size_bytes (descriptor e)))
       (filter (\<lambda>e. n \<in> set (locations e)) (map snd c)) (0, 0)"

definition totals :: "catalog \<Rightarrow> nat \<times> nat" where
  "totals c = (length c, sum_list (map (\<lambda>e. size_bytes (descriptor e)) (map snd c)))"

definition catalog_len :: "catalog \<Rightarrow> nat" where
  "catalog_len c = length c"

definition catalog_is_empty :: "catalog \<Rightarrow> bool" where
  "catalog_is_empty c = (c = [])"

section \<open>Invariant\<close>

text \<open>
  Keys are distinct, every entry describes its key and is held by at least one node,
  without repetitions.
\<close>

definition entry_ok :: "data_id \<times> entry \<Rightarrow> bool" where
  "entry_ok = (\<lambda>(i, e). desc_id (descriptor e) = i \<and> locations e \<noteq> [] \<and> distinct (locations e))"

definition catalog_inv :: "catalog \<Rightarrow> bool" where
  "catalog_inv c = (distinct (map fst c) \<and> list_all entry_ok c)"

lemma catalog_inv_map_of:
  "catalog_inv c \<Longrightarrow> map_of c i = Some e \<Longrightarrow>
     desc_id (descriptor e) = i \<and> locations e \<noteq> [] \<and> distinct (locations e)"
  by (auto simp: catalog_inv_def list_all_iff entry_ok_def dest!: map_of_SomeD)

lemma set_update_subset: "set (AList.update k v al) \<subseteq> insert (k, v) (set al)"
  by (induction al) auto

lemma list_all_update: "list_all P al \<Longrightarrow> P (k, v) \<Longrightarrow> list_all P (AList.update k v al)"
  using set_update_subset [of k v al] by (auto simp: list_all_iff)

lemma list_all_delete: "list_all P al \<Longrightarrow> list_all P (AList.delete k al)"
  by (auto simp: list_all_iff AList.delete_eq)

lemma catalog_inv_new [inv_intros]: "catalog_inv catalog_new"
  by (simp add: catalog_inv_def catalog_new_def)

lemma catalog_inv_update:
  "catalog_inv c \<Longrightarrow> entry_ok (i, e) \<Longrightarrow> catalog_inv (AList.update i e c)"
  by (simp add: catalog_inv_def distinct_update list_all_update)

lemma insert_not_Nil [simp]: "List.insert x xs \<noteq> []"
  by (auto simp: List.insert_def)

lemma removeAll_Nil_iff: "removeAll n xs = [] \<longleftrightarrow> set xs \<subseteq> {n}"
  by (induction xs) auto

lemma record_inv [inv_intros]:
  assumes "catalog_inv c"
  shows "catalog_inv (record_data c d n)"
proof (cases "map_of c (desc_id d)")
  case None
  then show ?thesis
    using assms by (simp add: record_data_def entry_ok_def catalog_inv_update)
next
  case (Some e)
  then show ?thesis
    using assms catalog_inv_map_of [OF assms Some]
    by (simp add: record_data_def entry_ok_def catalog_inv_update distinct_insert)
qed

lemma remove_inv [inv_intros]:
  assumes "catalog_inv c"
  shows "catalog_inv (remove_data c i n)"
proof (cases "map_of c i")
  case (Some e)
  have "catalog_inv (AList.delete i c)"
    using assms by (simp add: catalog_inv_def distinct_delete list_all_delete)
  then show ?thesis
    using Some assms catalog_inv_map_of [OF assms Some]
    by (simp add: remove_data_def Let_def catalog_inv_update entry_ok_def distinct_removeAll)
qed (simp add: remove_data_def assms)

lemma forget_node_inv [inv_intros]:
  assumes "catalog_inv c"
  shows "catalog_inv (forget_node c n)"
proof -
  let ?strip = "\<lambda>(i, e). (i, e\<lparr>locations := removeAll n (locations e)\<rparr>)"
  have "map fst (map ?strip c) = map fst c"
    by (induction c) auto
  then have "distinct (map fst (map ?strip c))"
    using assms by (simp only: catalog_inv_def)
  then have "distinct (map fst (forget_node c n))"
    unfolding forget_node_def by (rule distinct_map_filter)
  then show ?thesis
    using assms by (auto simp: catalog_inv_def forget_node_def list_all_iff entry_ok_def distinct_removeAll)
qed

section \<open>Effect of each operation on the relation\<close>

lemma holds_new: "\<not> holds catalog_new i n"
  by (simp add: holds_def catalog_new_def)

lemma holds_record: "holds (record_data c d n) i m \<longleftrightarrow> holds c i m \<or> i = desc_id d \<and> m = n"
  by (auto simp: holds_def record_data_def Let_def update_conv' split: option.splits)

lemma holds_remove: "catalog_inv c \<Longrightarrow> holds (remove_data c i n) j m \<longleftrightarrow> holds c j m \<and> \<not> (j = i \<and> m = n)"
  by (auto simp: holds_def remove_data_def Let_def update_conv' delete_conv' removeAll_Nil_iff split: option.splits if_splits)

lemma map_of_forget_node:
  "map_of (forget_node c n) i =
     (case map_of c i of
        None \<Rightarrow> None
      | Some e \<Rightarrow> (let rest = removeAll n (locations e) in
          if rest = [] then None else Some (e\<lparr>locations := rest\<rparr>)))"
  if "distinct (map fst c)"
  using that
proof (induction c)
  case (Cons a c)
  have "map_of (forget_node c n) i = None" if "i \<notin> fst ` set c"
    using Cons that by (simp add: map_of_eq_None_iff [symmetric] del: map_of_eq_None_iff)
  then show ?case
    using Cons by (cases a) (auto simp: forget_node_def Let_def)
qed (simp add: forget_node_def)

lemma holds_forget: "catalog_inv c \<Longrightarrow> holds (forget_node c n) i m \<longleftrightarrow> holds c i m \<and> m \<noteq> n"
  by (auto simp: holds_def catalog_inv_def map_of_forget_node Let_def removeAll_Nil_iff split: option.splits)

section \<open>The contract and its refinement\<close>

text \<open>
  What the controller relies on: recording adds one pair, removing takes one pair away,
  forgetting a node takes all its pairs away, and nothing else changes. Every history of
  operations is then the same history on a plain relation.
\<close>

datatype holding_op = OpRecord data_descriptor node_id | OpRemove data_id node_id | OpForget node_id

fun spec_step :: "holding_op \<Rightarrow> (data_id \<times> node_id) set \<Rightarrow> (data_id \<times> node_id) set" where
  "spec_step (OpRecord d n) r = insert (desc_id d, n) r"
| "spec_step (OpRemove i n) r = r - {(i, n)}"
| "spec_step (OpForget n) r = {(i, m) \<in> r. m \<noteq> n}"

locale holdings =
  fixes ok :: "'c \<Rightarrow> bool"
    and start :: 'c
    and put :: "'c \<Rightarrow> data_descriptor \<Rightarrow> node_id \<Rightarrow> 'c"
    and take_away :: "'c \<Rightarrow> data_id \<Rightarrow> node_id \<Rightarrow> 'c"
    and forget :: "'c \<Rightarrow> node_id \<Rightarrow> 'c"
    and has :: "'c \<Rightarrow> data_id \<Rightarrow> node_id \<Rightarrow> bool"
  assumes ok_start: "ok start"
    and ok_put: "ok c \<Longrightarrow> ok (put c d n)"
    and ok_take_away: "ok c \<Longrightarrow> ok (take_away c i n)"
    and ok_forget: "ok c \<Longrightarrow> ok (forget c n)"
    and has_start: "\<not> has start i n"
    and has_put: "ok c \<Longrightarrow> has (put c d n) i m \<longleftrightarrow> has c i m \<or> i = desc_id d \<and> m = n"
    and has_take_away: "ok c \<Longrightarrow> has (take_away c i n) j m \<longleftrightarrow> has c j m \<and> \<not> (j = i \<and> m = n)"
    and has_forget: "ok c \<Longrightarrow> has (forget c n) i m \<longleftrightarrow> has c i m \<and> m \<noteq> n"
begin

fun run :: "holding_op list \<Rightarrow> 'c \<Rightarrow> 'c" where
  "run [] c = c"
| "run (OpRecord d n # ops) c = run ops (put c d n)"
| "run (OpRemove i n # ops) c = run ops (take_away c i n)"
| "run (OpForget n # ops) c = run ops (forget c n)"

definition pairs :: "'c \<Rightarrow> (data_id \<times> node_id) set" where
  "pairs c = {(i, n). has c i n}"

lemma run_refines: "ok c \<Longrightarrow> ok (run ops c) \<and> pairs (run ops c) = fold spec_step ops (pairs c)"
proof (induction ops arbitrary: c)
  case (Cons op ops)
  show ?case
  proof (cases op)
    case (OpRecord d n)
    have "pairs (put c d n) = insert (desc_id d, n) (pairs c)"
      using Cons.prems by (auto simp: pairs_def has_put)
    then show ?thesis using Cons OpRecord by (simp add: ok_put)
  next
    case (OpRemove i n)
    have "pairs (take_away c i n) = pairs c - {(i, n)}"
      using Cons.prems by (auto simp: pairs_def has_take_away)
    then show ?thesis using Cons OpRemove by (simp add: ok_take_away)
  next
    case (OpForget n)
    have "pairs (forget c n) = {(i, m) \<in> pairs c. m \<noteq> n}"
      using Cons.prems by (auto simp: pairs_def has_forget)
    then show ?thesis using Cons OpForget by (simp add: ok_forget)
  qed
qed simp

lemma start_refines: "pairs (run ops start) = fold spec_step ops {}"
  using run_refines [OF ok_start, of ops] by (simp add: pairs_def has_start)

end

interpretation catalogue: holdings catalog_inv catalog_new record_data remove_data forget_node holds
  by unfold_locales (simp_all add: inv_intros holds_new holds_record holds_remove holds_forget)

text \<open>The history of catalogue calls, by the operations of the code.\<close>

fun catalog_run :: "holding_op list \<Rightarrow> catalog \<Rightarrow> catalog" where
  "catalog_run [] c = c"
| "catalog_run (OpRecord d n # ops) c = catalog_run ops (record_data c d n)"
| "catalog_run (OpRemove i n # ops) c = catalog_run ops (remove_data c i n)"
| "catalog_run (OpForget n # ops) c = catalog_run ops (forget_node c n)"

lemma catalog_run_eq: "catalog_run ops c = catalogue.run ops c"
  by (induction ops c rule: catalog_run.induct) simp_all

section \<open>Byte counts\<close>

lemma local_bytes_Nil [simp]: "local_bytes c n [] = 0"
  by (simp add: local_bytes_def map_filter_def)

lemma local_bytes_Cons [simp]:
  "local_bytes c n (i # is) =
     (if holds c i n then size_bytes (the (catalog_descriptor c i)) else 0) + local_bytes c n is"
  by (auto simp: local_bytes_def map_filter_def holds_def catalog_descriptor_def split: option.splits)

definition known_bytes :: "catalog \<Rightarrow> data_id list \<Rightarrow> nat" where
  "known_bytes c ins = sum_list (map size_bytes (List.map_filter (catalog_descriptor c) ins))"

lemma local_le_known: "local_bytes c n ins \<le> known_bytes c ins"
proof (induction ins)
  case (Cons i ins)
  then show ?case
    by (auto simp: known_bytes_def map_filter_def holds_def catalog_descriptor_def split: option.splits)
qed simp

lemma held_by_fold:
  "fold (\<lambda>e (count, bytes). (count + 1, bytes + size_bytes (descriptor e))) es (a, b) =
     (a + length es, b + sum_list (map (\<lambda>e. size_bytes (descriptor e)) es))"
  by (induction es arbitrary: a b) auto

lemma held_by_le_totals: "fst (held_by c n) \<le> fst (totals c) \<and> snd (held_by c n) \<le> snd (totals c)"
proof -
  have "sum_list (map f (filter P xs)) \<le> sum_list (map f xs)" for f :: "entry \<Rightarrow> nat" and P xs
    by (induction xs) auto
  moreover have "length (filter P (map snd c)) \<le> length c" for P :: "entry \<Rightarrow> bool"
    using length_filter_le [of P "map snd c"] by simp
  ultimately show ?thesis unfolding held_by_def held_by_fold totals_def by (simp del: map_map)
qed

section \<open>Properties\<close>

text \<open>
  C21. The catalogue implements a relation between datasets and nodes: after any history of
  records, removals and departures of nodes, it reports a node as holding a dataset exactly
  when the same history on a plain set of pairs contains the pair, and it lists every
  holder exactly once.
\<close>

theorem catalog_refines_relation:
  "{(i, n). holds (catalog_run ops catalog_new) i n} = fold spec_step ops {} \<and>
   distinct (catalog_locations (catalog_run ops catalog_new) i) \<and>
   set (catalog_locations (catalog_run ops catalog_new) i) = {n. (i, n) \<in> fold spec_step ops {}}"
proof -
  let ?c = "catalog_run ops catalog_new"
  have pairs: "{(i, n). holds ?c i n} = fold spec_step ops {}"
    using catalogue.start_refines [of ops] by (simp add: catalog_run_eq catalogue.pairs_def)
  have inv: "catalog_inv ?c"
    using catalogue.run_refines [OF catalog_inv_new, of ops] by (simp add: catalog_run_eq)
  have "set (catalog_locations ?c i) = {n. holds ?c i n}"
    by (cases "map_of ?c i") (simp_all add: catalog_locations_def holds_def)
  moreover have "distinct (catalog_locations ?c i)"
    using catalog_inv_map_of [OF inv, of i] by (simp add: catalog_locations_def split: option.splits)
  ultimately show ?thesis using pairs by (auto simp flip: pairs)
qed

end
