(* ===== verification/Server.thy ===== *)
theory Server
  imports Connections Registry Counters Catalog
begin

text \<open>
  The controller's side of the agent connections: the shared state
  (crates/aether-controller/src/state.rs), the handler of one connection
  (crates/aether-controller/src/server.rs) and the eviction of silent nodes
  (crates/aether-controller/src/health.rs). The handler's loop is one function from a
  received message to the next state, together with whether the loop goes on; its locals
  \<^verbatim>\<open>registered_id\<close> and \<^verbatim>\<open>channel_for\<close> are the session of the connection. Any number of
  connections run at once: a history is a list of events, one message of one connection,
  one hang-up, one failed write or one eviction round at a time.
\<close>

section \<open>Shared state\<close>

record mesh_state =
  registry :: registry
  conns :: connections
  catalog :: catalog
  counters :: mesh_metrics
  traffic_stats :: traffic
  queue_figures :: queue_stats
  heartbeat_timeout :: "duration option"

definition mesh_state_new :: mesh_state where
  "mesh_state_new = \<lparr>registry = registry_new, conns = connections_new, catalog = catalog_new,
     counters = mesh_metrics_new, traffic_stats = traffic_new, queue_figures = queue_stats_new,
     heartbeat_timeout = None\<rparr>"

definition with_heartbeat_timeout :: "mesh_state \<Rightarrow> duration \<Rightarrow> mesh_state" where
  "with_heartbeat_timeout s timeout = s\<lparr>heartbeat_timeout := Some timeout\<rparr>"

definition mesh_nodes :: "mesh_state \<Rightarrow> node_info list" where
  "mesh_nodes s = registry_nodes (registry s)"

section \<open>One connection\<close>

record session =
  registered_id :: "node_id option"
  channel_for :: "node_id option"

definition session_new :: session where
  "session_new = \<lparr>registered_id = None, channel_for = None\<rparr>"

datatype loop_control = Continue | Break

fun auth_error_display :: "auth_error \<Rightarrow> string" where
  "auth_error_display MissingToken = ''this controller requires a token''"
| "auth_error_display InvalidToken = ''invalid token''"

text \<open>
  \<^verbatim>\<open>registered_id.or(channel_for)\<close>: the node a connection may speak for.
\<close>

definition speaks_for :: "session \<Rightarrow> node_id option" where
  "speaks_for l = (case registered_id l of Some n \<Rightarrow> Some n | None \<Rightarrow> channel_for l)"

definition bump :: "(mesh_metrics \<Rightarrow> mesh_metrics) \<Rightarrow> mesh_state \<Rightarrow> mesh_state" where
  "bump f s = s\<lparr>counters := f (counters s)\<rparr>"

definition push_out :: "mesh_state \<Rightarrow> conn \<Rightarrow> message \<Rightarrow> bool \<times> mesh_state" where
  "push_out s k m = (case channel_send (conns s) k m of (ok, c) \<Rightarrow> (ok, s\<lparr>conns := c\<rparr>))"

text \<open>The arm of \<^verbatim>\<open>RegisterNode\<close>; the generated channel token is an argument.\<close>

definition on_register ::
    "security_config \<Rightarrow> instant \<Rightarrow> string \<Rightarrow> conn \<Rightarrow> nat \<Rightarrow> node_info \<Rightarrow> string option \<Rightarrow>
     mesh_state \<Rightarrow> session \<Rightarrow> loop_control \<times> mesh_state \<times> session" where
  "on_register security now fresh k version info token s l =
     (if version \<noteq> PROTOCOL_VERSION
      then (Break, snd (push_out (bump record_rejection s) k
              (RegisterRejected ''controller speaks protocol 1'')), l)
      else case authorize security token of
        Inl e \<Rightarrow> (Break, snd (push_out (bump record_rejection s) k (RegisterRejected (auth_error_display e))), l)
      | Inr _ \<Rightarrow>
          (let n = info_id info;
               s1 = s\<lparr>registry := snd (register (registry s) now info)\<rparr>;
               s2 = s1\<lparr>catalog := forget_node (catalog s1) n\<rparr>;
               (channel_token, c) = attach (conns s2) n k fresh;
               s3 = bump record_registration (s2\<lparr>conns := c\<rparr>);
               l1 = l\<lparr>registered_id := Some n\<rparr>;
               (ok, s4) = push_out s3 k (RegisterAccepted n (Some channel_token)
                 (case heartbeat_timeout s3 of None \<Rightarrow> 0 | Some t \<Rightarrow> as_secs t))
           in (if ok then Continue else Break, s4, l1)))"

definition on_register_data_channel ::
    "conn \<Rightarrow> nat \<Rightarrow> node_id \<Rightarrow> string option \<Rightarrow> mesh_state \<Rightarrow> session \<Rightarrow>
     loop_control \<times> mesh_state \<times> session" where
  "on_register_data_channel k version n token s l =
     (if version \<noteq> PROTOCOL_VERSION \<or> \<not> claim_channel_token (conns s) n token
      then (Break, bump record_rejection s, l)
      else (Continue, s\<lparr>conns := attach_data_channel (conns s) n k\<rparr>, l\<lparr>channel_for := Some n\<rparr>))"

definition on_task_completed ::
    "task_result \<Rightarrow> mesh_state \<Rightarrow> session \<Rightarrow> loop_control \<times> mesh_state \<times> session" where
  "on_task_completed r s l =
     (case registered_id l of
        None \<Rightarrow> (Break, s, l)
      | Some n \<Rightarrow>
          if res_node_id r \<noteq> n then (Break, s, l)
          else (let s1 = bump (\<lambda>m. record_task m (is_success r)) s
                in (Continue, s1\<lparr>conns := complete (conns s1) r\<rparr>, l)))"

definition on_heartbeat ::
    "instant \<Rightarrow> node_metrics \<Rightarrow> mesh_state \<Rightarrow> session \<Rightarrow> loop_control \<times> mesh_state \<times> session" where
  "on_heartbeat now m s l =
     (case registered_id l of
        None \<Rightarrow> (Break, s, l)
      | Some n \<Rightarrow>
          (case record_heartbeat (registry s) now n m of
             (Inr _, g) \<Rightarrow> (Continue, bump count_heartbeat (s\<lparr>registry := g\<rparr>), l)
           | (Inl _, g) \<Rightarrow> (Continue, s\<lparr>registry := g\<rparr>, l)))"

text \<open>One turn of the loop in \<^verbatim>\<open>handle_connection\<close>, after a message was read.\<close>

definition handle_message ::
    "security_config \<Rightarrow> instant \<Rightarrow> string \<Rightarrow> conn \<Rightarrow> message \<Rightarrow> mesh_state \<Rightarrow> session \<Rightarrow>
     loop_control \<times> mesh_state \<times> session" where
  "handle_message security now fresh k m s0 l =
     (let s = bump record_message s0 in
      case m of
        RegisterNode version info token \<Rightarrow> on_register security now fresh k version info token s l
      | RegisterDataChannel version n token \<Rightarrow> on_register_data_channel k version n token s l
      | DataReady _ i \<Rightarrow>
          (case speaks_for l of
             None \<Rightarrow> (Break, s, l)
           | Some n \<Rightarrow> (Continue, s\<lparr>conns := complete_data (conns s) n i\<rparr>, l))
      | Heartbeat _ ms \<Rightarrow> on_heartbeat now ms s l
      | DataHeld _ ds \<Rightarrow>
          (case speaks_for l of
             None \<Rightarrow> (Break, s, l)
           | Some n \<Rightarrow> (Continue, s\<lparr>catalog := fold (\<lambda>d c. record_data c d n) ds (catalog s)\<rparr>, l))
      | DataEvicted _ ids \<Rightarrow>
          (case speaks_for l of
             None \<Rightarrow> (Break, s, l)
           | Some n \<Rightarrow> (Continue, s\<lparr>catalog := fold (\<lambda>i c. remove_data c i n) ids (catalog s)\<rparr>, l))
      | Pong x \<Rightarrow>
          (case registered_id l of
             None \<Rightarrow> (Continue, s, l)
           | Some n \<Rightarrow> (Continue, s\<lparr>conns := complete_pong (conns s) n x\<rparr>, l))
      | TaskCompleted r \<Rightarrow> on_task_completed r s l
      | _ \<Rightarrow> (Continue, s, l))"

text \<open>What happens once the loop is left.\<close>

definition close_connection :: "mesh_state \<Rightarrow> session \<Rightarrow> mesh_state" where
  "close_connection s l =
     (case registered_id l of
        None \<Rightarrow> s
      | Some n \<Rightarrow>
          bump record_disconnect
            (s\<lparr>conns := detach (conns s) n, catalog := forget_node (catalog s) n\<rparr>))"

section \<open>Eviction\<close>

definition DEFAULT_HEARTBEAT_TIMEOUT :: duration where
  "DEFAULT_HEARTBEAT_TIMEOUT = from_secs 30"

definition DEFAULT_CHECK_INTERVAL :: duration where
  "DEFAULT_CHECK_INTERVAL = from_secs 5"

definition evict_one :: "node_id \<Rightarrow> mesh_state \<Rightarrow> mesh_state" where
  "evict_one n s =
     s\<lparr>registry := snd (registry_remove (registry s) n), conns := detach (conns s) n,
       catalog := forget_node (catalog s) n\<rparr>"

definition evict_stale_nodes :: "mesh_state \<Rightarrow> instant \<Rightarrow> duration \<Rightarrow> node_id list \<times> mesh_state" where
  "evict_stale_nodes s now timeout =
     (let stale = stale_nodes (registry s) now timeout;
          s1 = fold evict_one stale s
      in (stale, bump (\<lambda>m. record_evictions m (length stale)) s1))"

section \<open>Many connections\<close>

text \<open>Connections are numbered in the order they are accepted; a number is never used twice.\<close>

record server =
  mesh :: mesh_state
  sessions :: "(conn, session) hashmap"
  accepted :: nat

datatype server_event =
    Accept
  | Receive conn instant string message
  | HangUp conn
  | WriteFails conn
  | EvictRound instant duration

definition server_new :: "mesh_state \<Rightarrow> server" where
  "server_new s = \<lparr>mesh = s, sessions = [], accepted = 0\<rparr>"

definition end_session :: "server \<Rightarrow> conn \<Rightarrow> mesh_state \<Rightarrow> session \<Rightarrow> server" where
  "end_session v k s l = v\<lparr>mesh := close_connection s l, sessions := AList.delete k (sessions v)\<rparr>"

fun server_step :: "security_config \<Rightarrow> server_event \<Rightarrow> server \<Rightarrow> server" where
  "server_step security Accept v =
     v\<lparr>sessions := AList.update (accepted v) session_new (sessions v), accepted := accepted v + 1\<rparr>"
| "server_step security (Receive k now fresh m) v =
     (case map_of (sessions v) k of
        None \<Rightarrow> v
      | Some l \<Rightarrow>
          (case handle_message security now fresh k m (mesh v) l of
             (Continue, s, l1) \<Rightarrow> v\<lparr>mesh := s, sessions := AList.update k l1 (sessions v)\<rparr>
           | (Break, s, l1) \<Rightarrow> end_session v k s l1))"
| "server_step security (HangUp k) v =
     (case map_of (sessions v) k of None \<Rightarrow> v | Some l \<Rightarrow> end_session v k (mesh v) l)"
| "server_step security (WriteFails k) v =
     v\<lparr>mesh := (mesh v)\<lparr>conns := (conns (mesh v))\<lparr>closed := k # closed (conns (mesh v))\<rparr>\<rparr>\<rparr>"
| "server_step security (EvictRound now timeout) v =
     v\<lparr>mesh := snd (evict_stale_nodes (mesh v) now timeout)\<rparr>"

definition server_run :: "security_config \<Rightarrow> server_event list \<Rightarrow> server \<Rightarrow> server" where
  "server_run security evs v = fold (server_step security) evs v"

section \<open>Invariants\<close>

definition mesh_inv :: "mesh_state \<Rightarrow> bool" where
  "mesh_inv s = (registry_inv (registry s) \<and> catalog_inv (catalog s))"

lemma fold_record_inv: "catalog_inv c \<Longrightarrow> catalog_inv (fold (\<lambda>d c. record_data c d n) ds c)"
  by (induction ds arbitrary: c) (simp_all add: inv_intros)

lemma fold_remove_inv: "catalog_inv c \<Longrightarrow> catalog_inv (fold (\<lambda>i c. remove_data c i n) ids c)"
  by (induction ids arbitrary: c) (simp_all add: inv_intros)

lemma holds_fold_record_other:
  "m \<noteq> n \<Longrightarrow> holds (fold (\<lambda>d c. record_data c d n) ds c) i m = holds c i m"
  by (induction ds arbitrary: c) (simp_all add: holds_record)

lemma holds_fold_remove_other:
  "catalog_inv c \<Longrightarrow> m \<noteq> n \<Longrightarrow> holds (fold (\<lambda>i c. remove_data c i n) ids c) i m = holds c i m"
  by (induction ids arbitrary: c) (simp_all add: inv_intros holds_remove)

lemma bump_simps [simp]:
  "registry (bump f s) = registry s" "conns (bump f s) = conns s" "catalog (bump f s) = catalog s"
  "heartbeat_timeout (bump f s) = heartbeat_timeout s" "counters (bump f s) = f (counters s)"
  by (simp_all add: bump_def)

lemma push_out_simps [simp]:
  "registry (snd (push_out s k m)) = registry s" "catalog (snd (push_out s k m)) = catalog s"
  "senders (conns (snd (push_out s k m))) = senders (conns s)"
  "data_channels (conns (snd (push_out s k m))) = data_channels (conns s)"
  "channel_tokens (conns (snd (push_out s k m))) = channel_tokens (conns s)"
  "pending_data (conns (snd (push_out s k m))) = pending_data (conns s)"
  "pending_pongs (conns (snd (push_out s k m))) = pending_pongs (conns s)"
  "pending_results (conns (snd (push_out s k m))) = pending_results (conns s)"
  "delivered (conns (snd (push_out s k m))) = delivered (conns s)"
  by (simp_all add: push_out_def channel_send_def)

text \<open>The state and the session after a message, one equation per kind of effect.\<close>

abbreviation after_message ::
    "security_config \<Rightarrow> instant \<Rightarrow> string \<Rightarrow> conn \<Rightarrow> message \<Rightarrow> mesh_state \<Rightarrow> session \<Rightarrow> mesh_state" where
  "after_message security now fresh k m s l \<equiv> fst (snd (handle_message security now fresh k m s l))"

abbreviation session_after ::
    "security_config \<Rightarrow> instant \<Rightarrow> string \<Rightarrow> conn \<Rightarrow> message \<Rightarrow> mesh_state \<Rightarrow> session \<Rightarrow> session" where
  "session_after security now fresh k m s l \<equiv> snd (snd (handle_message security now fresh k m s l))"

lemmas handler_defs = handle_message_def on_register_def on_register_data_channel_def on_task_completed_def
  on_heartbeat_def attach_def push_out_def channel_send_def Let_def

lemma on_heartbeat_registry:
  "registry (fst (snd (on_heartbeat now ms s l))) =
     (case registered_id l of None \<Rightarrow> registry s | Some n \<Rightarrow> snd (record_heartbeat (registry s) now n ms))"
  by (auto simp: on_heartbeat_def split: option.splits sum.splits prod.splits)

lemma on_heartbeat_simps [simp]:
  "catalog (fst (snd (on_heartbeat now ms s l))) = catalog s"
  "conns (fst (snd (on_heartbeat now ms s l))) = conns s"
  "snd (snd (on_heartbeat now ms s l)) = l"
  by (auto simp: on_heartbeat_def split: option.splits sum.splits prod.splits)

lemma handle_heartbeat:
  "handle_message security now fresh k (Heartbeat n ms) s l = on_heartbeat now ms (bump record_message s) l"
  by (simp add: handle_message_def)

lemma handle_message_inv:
  assumes "mesh_inv s"
  shows "mesh_inv (after_message security now fresh k m s l)"
proof (cases m)
  case (Heartbeat n ms)
  then show ?thesis
    using assms by (auto simp: mesh_inv_def handle_heartbeat on_heartbeat_registry inv_intros split: option.splits)
qed (use assms in \<open>auto simp: mesh_inv_def handler_defs inv_intros fold_record_inv fold_remove_inv
      split: option.splits sum.splits if_splits\<close>)

lemma record_heartbeat_other: "n \<noteq> j \<Longrightarrow> map_of (snd (record_heartbeat g now n ms)) j = map_of g j"
  by (auto simp: record_heartbeat_def update_conv' split: option.splits)

lemma register_other: "info_id info \<noteq> j \<Longrightarrow> map_of (snd (register g now info)) j = map_of g j"
  by (simp add: register_def update_conv')

lemma complete_simps [simp]:
  "senders (complete c r) = senders c" "data_channels (complete c r) = data_channels c"
  "channel_tokens (complete c r) = channel_tokens c" "pending_data (complete c r) = pending_data c"
  "pending_pongs (complete c r) = pending_pongs c"
  "senders (complete_data c n i) = senders c" "data_channels (complete_data c n i) = data_channels c"
  "channel_tokens (complete_data c n i) = channel_tokens c" "pending_pongs (complete_data c n i) = pending_pongs c"
  "delivered (complete_data c n i) = delivered c"
  "senders (complete_pong c n x) = senders c" "data_channels (complete_pong c n x) = data_channels c"
  "channel_tokens (complete_pong c n x) = channel_tokens c" "pending_data (complete_pong c n x) = pending_data c"
  "delivered (complete_pong c n x) = delivered c"
  by (auto simp: complete_def complete_data_def complete_pong_def split: option.splits)

lemma complete_other:
  "n \<noteq> j \<Longrightarrow> map_of (pending_data (complete_data c n i)) (j, i') = map_of (pending_data c) (j, i')"
  "n \<noteq> j \<Longrightarrow> map_of (pending_pongs (complete_pong c n x)) (j, x') = map_of (pending_pongs c) (j, x')"
  by (auto simp: complete_data_def complete_pong_def delete_conv' split: option.splits)

text \<open>Everything the controller keeps about one node.\<close>

definition node_view ::
    "mesh_state \<Rightarrow> node_id \<Rightarrow> node_entry option \<times> conn option \<times> conn list option \<times> string option" where
  "node_view s n = (map_of (registry s) n, map_of (senders (conns s)) n, map_of (data_channels (conns s)) n,
     map_of (channel_tokens (conns s)) n)"

text \<open>
  C31. A connection acts only for the node it proved to be: whatever it sends, for every
  node other than the one it is registered as or a data channel of, the registry entry, the
  control connection, the data channels, the channel token, the holdings in the catalogue
  and the awaited confirmations and pongs stay exactly as they were, whatever node ids the
  message carries.
\<close>

theorem message_affects_own_node_only:
  assumes "mesh_inv s" and "handle_message security now fresh k m s l = (go, s', l')"
    and "registered_id l' \<noteq> Some n" "channel_for l' \<noteq> Some n"
  shows "node_view s' n = node_view s n \<and> (\<forall>i. holds (catalog s') i n = holds (catalog s) i n) \<and>
    (\<forall>i. map_of (pending_data (conns s')) (n, i) = map_of (pending_data (conns s)) (n, i)) \<and>
    (\<forall>x. map_of (pending_pongs (conns s')) (n, x) = map_of (pending_pongs (conns s)) (n, x))"
proof (cases m)
  case (Heartbeat n' ms)
  then show ?thesis
    using assms on_heartbeat_simps [of now ms "bump record_message s" l]
      on_heartbeat_registry [of now ms "bump record_message s" l]
    by (auto simp: handle_heartbeat node_view_def record_heartbeat_other split: option.splits)
qed (use assms in \<open>auto simp: mesh_inv_def node_view_def handler_defs speaks_for_def register_other update_conv'
      attach_data_channel_def holds_forget holds_fold_record_other holds_fold_remove_other complete_other
      split: option.splits sum.splits if_splits\<close>)

definition two_holders :: mesh_state where
  "two_holders = mesh_state_new\<lparr>catalog :=
     record_data (record_data catalog_new (descriptor_new (DataId []) 5) (NodeId 1)) (descriptor_new (DataId []) 5) (NodeId 2)\<rparr>"

definition evicting_message :: message where
  "evicting_message = DataEvicted (NodeId 2) [DataId []]"

lemma two_holders_inv: "mesh_inv two_holders"
  by (simp add: mesh_inv_def two_holders_def mesh_state_new_def inv_intros)

theorem message_affects_own_node_only_witness:
  "holds (catalog (after_message security_open 0 ''t'' 0 evicting_message two_holders
      \<lparr>registered_id = Some (NodeId 1), channel_for = None\<rparr>)) (DataId []) (NodeId 2)"
proof -
  let ?l = "\<lparr>registered_id = Some (NodeId 1), channel_for = None\<rparr>"
  have h: "handle_message security_open 0 ''t'' 0 evicting_message two_holders ?l =
      (Continue, after_message security_open 0 ''t'' 0 evicting_message two_holders ?l, ?l)"
    by (simp add: evicting_message_def handle_message_def speaks_for_def)
  have "\<forall>i. holds (catalog (after_message security_open 0 ''t'' 0 evicting_message two_holders ?l)) i (NodeId 2) =
      holds (catalog two_holders) i (NodeId 2)"
    using message_affects_own_node_only [OF two_holders_inv h] by simp
  moreover have "holds (catalog two_holders) (DataId []) (NodeId 2)"
    by (simp add: two_holders_def holds_record descriptor_new_def)
  ultimately show ?thesis by blast
qed

section \<open>Eviction removes exactly the silent nodes\<close>

lemma evict_fold:
  assumes "mesh_inv s"
  shows "mesh_inv (fold evict_one ns s) \<and>
    (\<forall>n. node_view (fold evict_one ns s) n = (if n \<in> set ns then (None, None, None, None) else node_view s n)) \<and>
    (\<forall>i n. holds (catalog (fold evict_one ns s)) i n \<longleftrightarrow> holds (catalog s) i n \<and> n \<notin> set ns) \<and>
    counters (fold evict_one ns s) = counters s"
  using assms
proof (induction ns arbitrary: s)
  case (Cons a ns)
  have "mesh_inv (evict_one a s)" using Cons.prems by (simp add: mesh_inv_def evict_one_def inv_intros)
  moreover have "node_view (evict_one a s) n = (if n = a then (None, None, None, None) else node_view s n)" for n
    by (simp add: node_view_def evict_one_def registry_remove_def detach_def delete_conv')
  moreover have "holds (catalog (evict_one a s)) i n \<longleftrightarrow> holds (catalog s) i n \<and> n \<noteq> a" for i n
    using Cons.prems by (simp add: evict_one_def mesh_inv_def holds_forget)
  moreover have "counters (evict_one a s) = counters s" by (simp add: evict_one_def)
  ultimately show ?case using Cons.IH [of "evict_one a s"] by auto
qed simp

text \<open>
  C32. A round of the health monitor removes exactly the nodes whose last heartbeat is older
  than the timeout: these have no registry entry, no connection, no data channel, no channel
  token and no holdings afterwards; every other node keeps all of that unchanged; the
  returned list names each evicted node once and the counter grows by their number.
\<close>

theorem eviction_exact:
  assumes "mesh_inv s" and "evict_stale_nodes s now timeout = (gone, s')"
  shows "set gone = {n. \<exists>e. map_of (registry s) n = Some e \<and> timeout < now - last_seen e} \<and> distinct gone \<and>
    (\<forall>n \<in> set gone. node_view s' n = (None, None, None, None) \<and> (\<forall>i. \<not> holds (catalog s') i n)) \<and>
    (\<forall>n. n \<notin> set gone \<longrightarrow> node_view s' n = node_view s n \<and> (\<forall>i. holds (catalog s') i n = holds (catalog s) i n)) \<and>
    mesh_inv s' \<and> nodes_evicted (counters s') = nodes_evicted (counters s) + length gone"
proof -
  have gone: "gone = stale_nodes (registry s) now timeout" and
    s': "s' = bump (\<lambda>m. record_evictions m (length gone)) (fold evict_one gone s)"
    using assms(2) by (auto simp: evict_stale_nodes_def Let_def)
  have r: "registry_inv (registry s)" using assms(1) by (simp add: mesh_inv_def)
  have view: "node_view (bump f t) n = node_view t n" "mesh_inv (bump f t) = mesh_inv t" for f t n
    by (simp_all add: node_view_def mesh_inv_def)
  have "map (\<lambda>(_, e). info_id (e_info e)) xs = map fst xs" if "list_all (\<lambda>(n, e). info_id (e_info e) = n) xs"
      for xs :: "(node_id \<times> node_entry) list"
    using that by (induction xs) auto
  then have "gone = map fst (filter (\<lambda>(_, e). timeout < saturating_duration_since now (last_seen e)) (registry s))"
    using r by (auto simp: gone stale_nodes_def registry_inv_def list_all_iff)
  then have "distinct gone" using r by (simp add: registry_inv_def distinct_map_filter)
  moreover have "set gone = {n. \<exists>e. map_of (registry s) n = Some e \<and> timeout < now - last_seen e}"
    using stale_nodes_iff [OF r] unfolding gone by blast
  ultimately show ?thesis
    using evict_fold [OF assms(1), of gone] view by (auto simp: s' record_evictions_def)
qed

definition silent_mesh :: mesh_state where
  "silent_mesh = mesh_state_new\<lparr>registry := snd (register registry_new 3
     (node_info_new (NodeId 7) ''host'' ''addr'' 4))\<rparr>"

theorem eviction_exact_witness:
  "set (fst (evict_stale_nodes silent_mesh 14 10)) = {NodeId 7} \<and>
   node_view (snd (evict_stale_nodes silent_mesh 14 10)) (NodeId 7) = (None, None, None, None)"
proof -
  have inv: "mesh_inv silent_mesh"
    by (simp add: mesh_inv_def silent_mesh_def mesh_state_new_def inv_intros)
  have "set (fst (evict_stale_nodes silent_mesh 14 10)) =
      {n. \<exists>e. map_of (registry silent_mesh) n = Some e \<and> 10 < 14 - last_seen e}"
    using eviction_exact [OF inv prod.collapse [symmetric], of 14 10] by blast
  also have "\<dots> = {NodeId 7}"
    by (auto simp: silent_mesh_def register_def registry_new_def node_info_new_def)
  finally show ?thesis
    using eviction_exact [OF inv prod.collapse [symmetric], of 14 10] by blast
qed

section \<open>Where trust comes from\<close>

text \<open>
  The history contains a registration of the node on the connection that carried a valid
  token, and respectively one for which the controller generated the channel token.
\<close>

definition authorised :: "security_config \<Rightarrow> server_event list \<Rightarrow> conn \<Rightarrow> node_id \<Rightarrow> bool" where
  "authorised security evs k n =
     (\<exists>now fresh info token. Receive k now fresh (RegisterNode PROTOCOL_VERSION info token) \<in> set evs \<and>
        authorize security token = Inr () \<and> info_id info = n)"

definition issued :: "security_config \<Rightarrow> server_event list \<Rightarrow> node_id \<Rightarrow> string \<Rightarrow> bool" where
  "issued security evs n t =
     (\<exists>k now info token. Receive k now t (RegisterNode PROTOCOL_VERSION info token) \<in> set evs \<and>
        authorize security token = Inr () \<and> info_id info = n)"

definition channel_proved :: "security_config \<Rightarrow> server_event list \<Rightarrow> conn \<Rightarrow> node_id \<Rightarrow> bool" where
  "channel_proved security evs k n =
     (\<exists>now fresh t. Receive k now fresh (RegisterDataChannel PROTOCOL_VERSION n (Some t)) \<in> set evs \<and>
        issued security evs n t)"

definition trusted_conns :: "security_config \<Rightarrow> server_event list \<Rightarrow> connections \<Rightarrow> bool" where
  "trusted_conns security evs c =
     ((\<forall>n t. map_of (channel_tokens c) n = Some t \<longrightarrow> issued security evs n t) \<and>
      (\<forall>n k. map_of (senders c) n = Some k \<longrightarrow> authorised security evs k n) \<and>
      (\<forall>n ks k. map_of (data_channels c) n = Some ks \<longrightarrow> k \<in> set ks \<longrightarrow> channel_proved security evs k n) \<and>
      (\<forall>(w, r) \<in> set (delivered c).
         \<exists>k now fresh. Receive k now fresh (TaskCompleted r) \<in> set evs \<and> authorised security evs k (res_node_id r)))"

definition trusted_session :: "security_config \<Rightarrow> server_event list \<Rightarrow> conn \<Rightarrow> session \<Rightarrow> bool" where
  "trusted_session security evs k l =
     ((\<forall>n. registered_id l = Some n \<longrightarrow> authorised security evs k n) \<and>
      (\<forall>n. channel_for l = Some n \<longrightarrow> channel_proved security evs k n))"

definition trust_inv :: "security_config \<Rightarrow> server_event list \<Rightarrow> server \<Rightarrow> bool" where
  "trust_inv security evs v =
     (trusted_conns security evs (conns (mesh v)) \<and>
      (\<forall>k l. map_of (sessions v) k = Some l \<longrightarrow> trusted_session security evs k l))"

lemma authorised_later: "authorised security evs k n \<Longrightarrow> authorised security (evs @ [e]) k n"
  unfolding authorised_def set_append by blast

lemma issued_later: "issued security evs n t \<Longrightarrow> issued security (evs @ [e]) n t"
  unfolding issued_def set_append by blast

lemma channel_proved_later: "channel_proved security evs k n \<Longrightarrow> channel_proved security (evs @ [e]) k n"
  unfolding channel_proved_def set_append using issued_later by blast

lemma trusted_conns_later: "trusted_conns security evs c \<Longrightarrow> trusted_conns security (evs @ [e]) c"
  unfolding trusted_conns_def using authorised_later issued_later channel_proved_later by fastforce

lemma trusted_session_later: "trusted_session security evs k l \<Longrightarrow> trusted_session security (evs @ [e]) k l"
  unfolding trusted_session_def using authorised_later channel_proved_later by blast

text \<open>Closing a connection and evicting nodes only take connections away.\<close>

lemma trusted_detach: "trusted_conns security evs c \<Longrightarrow> trusted_conns security evs (detach c n)"
  unfolding trusted_conns_def detach_def by (simp add: delete_conv')

lemma trusted_close: "trusted_conns security evs (conns s) \<Longrightarrow> trusted_conns security evs (conns (close_connection s l))"
  by (simp add: close_connection_def trusted_detach split: option.splits)

lemma trusted_evict:
  "trusted_conns security evs (conns s) \<Longrightarrow> trusted_conns security evs (conns (fold evict_one ns s))"
  by (induction ns arbitrary: s) (simp_all add: evict_one_def trusted_detach)

lemma claim_channel_token_iff:
  "claim_channel_token c n p \<longleftrightarrow> (\<exists>t. p = Some t \<and> map_of (channel_tokens c) n = Some t)"
  by (auto simp: claim_channel_token_def constant_time_eq_iff str_bytes_inject split: option.splits)

lemma trusted_conns_cong:
  "channel_tokens c' = channel_tokens c \<Longrightarrow> senders c' = senders c \<Longrightarrow> data_channels c' = data_channels c \<Longrightarrow>
     delivered c' = delivered c \<Longrightarrow> trusted_conns security evs c' = trusted_conns security evs c"
  by (simp add: trusted_conns_def)

lemma trusted_attach:
  assumes "trusted_conns security evs c" "authorised security evs k n" "issued security evs n t"
  shows "trusted_conns security evs (snd (attach c n k t))"
  using assms unfolding trusted_conns_def attach_def by (simp add: update_conv')

lemma trusted_attach_data_channel:
  assumes "trusted_conns security evs c" "channel_proved security evs k n"
  shows "trusted_conns security evs (attach_data_channel c n k)"
  using assms unfolding trusted_conns_def attach_data_channel_def
  by (cases "map_of (data_channels c) n") (auto simp: update_conv' split: if_splits)

lemma trusted_complete:
  assumes "trusted_conns security evs c" "authorised security evs k (res_node_id r)"
    and "Receive k now fresh (TaskCompleted r) \<in> set evs"
  shows "trusted_conns security evs (complete c r)"
  using assms unfolding trusted_conns_def complete_def by (auto split: option.splits)

lemma trusted_push_out:
  "trusted_conns security evs (conns (snd (push_out s k m))) = trusted_conns security evs (conns s)"
  by (rule trusted_conns_cong) simp_all

lemma trusted_woken:
  "trusted_conns security evs (complete_data c n i) = trusted_conns security evs c"
  "trusted_conns security evs (complete_pong c n x) = trusted_conns security evs c"
  by (rule trusted_conns_cong; simp)+

lemma on_register_trusted:
  assumes "trusted_conns security evs (conns s)" "trusted_session security evs k l"
    and "Receive k now fresh (RegisterNode version info token) \<in> set evs"
  shows "trusted_conns security evs (conns (fst (snd (on_register security now fresh k version info token s l)))) \<and>
    trusted_session security evs k (snd (snd (on_register security now fresh k version info token s l)))"
proof (cases "version = PROTOCOL_VERSION \<and> authorize security token = Inr ()")
  case True
  then have a: "authorised security evs k (info_id info)" "issued security evs (info_id info) fresh"
    using assms(3) by (auto simp: authorised_def issued_def)
  then show ?thesis
    using True assms(2) trusted_attach [OF assms(1) a]
    by (auto simp: on_register_def Let_def attach_def trusted_push_out trusted_session_def push_out_def channel_send_def
        trusted_conns_def split: prod.splits)
next
  case False
  then show ?thesis
    using assms(1,2) by (auto simp: on_register_def trusted_push_out split: sum.splits)
qed

lemma handle_message_trusted:
  assumes "trusted_conns security evs (conns s)" "trusted_session security evs k l"
    and e: "Receive k now fresh m \<in> set evs"
  shows "trusted_conns security evs (conns (after_message security now fresh k m s l)) \<and>
    trusted_session security evs k (session_after security now fresh k m s l)"
proof (cases m)
  case (RegisterNode version info token)
  then show ?thesis
    using on_register_trusted [of security evs "bump record_message s" k l] assms by (simp add: handle_message_def)
next
  case (RegisterDataChannel version n token)
  have "channel_proved security evs k n" if v: "version = PROTOCOL_VERSION" "claim_channel_token (conns s) n token"
  proof -
    obtain t where t: "token = Some t" "map_of (channel_tokens (conns s)) n = Some t"
      using v(2) claim_channel_token_iff by blast
    then have "issued security evs n t" using assms(1) by (simp add: trusted_conns_def)
    then show ?thesis using e t v(1) RegisterDataChannel unfolding channel_proved_def by blast
  qed
  then show ?thesis
    using assms RegisterDataChannel
    by (auto simp: handle_message_def Let_def on_register_data_channel_def trusted_session_def trusted_attach_data_channel)
next
  case (TaskCompleted r)
  then show ?thesis
    using assms trusted_complete [of security evs "conns s" k r now fresh]
    by (auto simp: handle_message_def Let_def on_task_completed_def trusted_session_def split: option.splits)
qed (use assms in \<open>auto simp: handle_message_def Let_def trusted_woken split: option.splits\<close>)

lemma server_step_trusted:
  assumes "trust_inv security evs v"
  shows "trust_inv security (evs @ [e]) (server_step security e v)"
proof (cases e)
  case (Receive k now fresh m)
  show ?thesis
  proof (cases "map_of (sessions v) k")
    case None
    then show ?thesis
      using assms Receive by (auto simp: trust_inv_def trusted_conns_later trusted_session_later)
  next
    case (Some l)
    let ?h = "handle_message security now fresh k m (mesh v) l"
    have t: "trusted_conns security (evs @ [e]) (conns (fst (snd ?h))) \<and> trusted_session security (evs @ [e]) k (snd (snd ?h))"
      using assms Some Receive
      by (intro handle_message_trusted) (auto simp: trust_inv_def trusted_conns_later trusted_session_later)
    then show ?thesis
      using assms Some Receive trusted_close
      by (cases ?h; cases "fst ?h")
        (auto simp: trust_inv_def end_session_def update_conv' delete_conv' trusted_session_later split: if_splits)
  qed
next
  case (HangUp k)
  then show ?thesis
    using assms
    by (auto simp: trust_inv_def end_session_def delete_conv' trusted_conns_later trusted_session_later trusted_close
        split: option.splits if_splits)
next
  case (WriteFails k)
  have "trusted_conns security evs' (c\<lparr>closed := x\<rparr>) = trusted_conns security evs' c" for evs' c x
    by (rule trusted_conns_cong) simp_all
  then show ?thesis
    using assms WriteFails by (auto simp: trust_inv_def trusted_conns_later trusted_session_later)
qed (use assms in \<open>auto simp: trust_inv_def update_conv' evict_stale_nodes_def Let_def trusted_conns_later
      trusted_session_later trusted_evict session_new_def trusted_session_def [of _ _ _ "\<lparr>registered_id = None, channel_for = None\<rparr>"] split: if_splits\<close>)

lemma server_run_snoc: "server_run security (evs @ [e]) v = server_step security e (server_run security evs v)"
  by (simp add: server_run_def)

lemma server_run_trusted:
  assumes "trust_inv security [] v"
  shows "trust_inv security evs (server_run security evs v)"
proof (induction evs rule: rev_induct)
  case Nil
  then show ?case using assms by (simp add: server_run_def)
next
  case (snoc e evs)
  then show ?case by (simp add: server_run_snoc server_step_trusted)
qed

lemma trust_inv_new: "trust_inv security [] (server_new mesh_state_new)"
  by (simp add: trust_inv_def server_new_def mesh_state_new_def connections_new_def trusted_conns_def)

section \<open>Properties of histories\<close>

text \<open>
  C26. Nothing the controller trusts appears without proof, in any interleaving of any number
  of connections: a node's control connection has presented a valid mesh token in a
  registration of that node; a data channel has presented a channel token that the
  controller generated for an authorised registration of that very node; and every task
  result handed to a submitter arrived on a connection authorised as the node the result
  names.
\<close>

theorem controller_trust_is_earned:
  assumes "server_run security evs (server_new mesh_state_new) = v"
  shows "(\<forall>n k. map_of (senders (conns (mesh v))) n = Some k \<longrightarrow> authorised security evs k n) \<and>
    (\<forall>n ks. map_of (data_channels (conns (mesh v))) n = Some ks \<longrightarrow> (\<forall>k \<in> set ks. channel_proved security evs k n)) \<and>
    (\<forall>(w, r) \<in> set (delivered (conns (mesh v))).
       \<exists>k now fresh. Receive k now fresh (TaskCompleted r) \<in> set evs \<and> authorised security evs k (res_node_id r))"
  using server_run_trusted [OF trust_inv_new, of security evs] assms
  unfolding trust_inv_def trusted_conns_def by blast

definition sample_node :: node_info where
  "sample_node = node_info_new (NodeId 7) ''host'' ''addr'' 4"

definition sample_history :: "server_event list" where
  "sample_history =
     [Accept, Receive 0 1 ''secret'' (RegisterNode 1 sample_node (Some ''mesh'')),
      Accept, Receive 1 2 ''x'' (RegisterDataChannel 1 (NodeId 7) (Some ''wrong'')),
      Accept, Receive 2 3 ''x'' (RegisterDataChannel 1 (NodeId 7) (Some ''secret''))]"

lemma sample_history_conns:
  "map_of (data_channels (conns (mesh (server_run (with_token ''mesh'') sample_history (server_new mesh_state_new))))) (NodeId 7)
     = Some [2]"
  "map_of (senders (conns (mesh (server_run (with_token ''mesh'') sample_history (server_new mesh_state_new))))) (NodeId 7)
     = Some 0"
  by code_simp+

theorem controller_trust_is_earned_witness:
  "authorised (with_token ''mesh'') sample_history 0 (NodeId 7) \<and>
   channel_proved (with_token ''mesh'') sample_history 2 (NodeId 7)"
  using controller_trust_is_earned [OF refl, of "with_token ''mesh''" sample_history] sample_history_conns by auto

text \<open>
  When an agent reconnects before the controller notices that the old connection is dead, the
  end of the old connection detaches the node although its new connection is live: the node
  stays registered and its session goes on, but nothing can be sent to it any more.
\<close>

definition reconnect_history :: "server_event list" where
  "reconnect_history =
     [Accept, Receive 0 1 ''a'' (RegisterNode 1 sample_node None),
      Accept, Receive 1 2 ''b'' (RegisterNode 1 sample_node None), HangUp 0]"

lemma old_connection_detaches_new:
  "let v = server_run security_open reconnect_history (server_new mesh_state_new)
   in map_option registered_id (map_of (sessions v) 1) = Some (Some (NodeId 7)) \<and>
      registry_contains (registry (mesh v)) (NodeId 7) \<and> \<not> is_connected (conns (mesh v)) (NodeId 7) \<and>
      fst (send (conns (mesh v)) (NodeId 7) (Ping 1 [])) = Inl (Unreachable (NodeId 7) ''no live connection'')"
  by code_simp

text \<open>
  The end of a data channel does not take it out of the rotation: once its writer has failed,
  the bulk messages that fall on it are refused although the control connection is live.
\<close>

definition dead_channel_history :: "server_event list" where
  "dead_channel_history =
     [Accept, Receive 0 1 ''a'' (RegisterNode 1 sample_node None),
      Accept, Receive 1 2 ''x'' (RegisterDataChannel 1 (NodeId 7) (Some ''a'')), HangUp 1, WriteFails 1]"

lemma dead_data_channel_stays:
  "let v = server_run security_open dead_channel_history (server_new mesh_state_new)
   in is_connected (conns (mesh v)) (NodeId 7) \<and> data_channel_count (conns (mesh v)) (NodeId 7) = 1 \<and>
      fst (send_bulk (conns (mesh v)) (NodeId 7) (Ping 1 [])) =
        Inl (Unreachable (NodeId 7) ''data channel is shutting down'')"
  by code_simp

end
