(* ===== verification/Scheduler.thy ===== *)
theory Scheduler
  imports Catalog
begin

text \<open>
  Node selection (crates/aether-scheduler/src/lib.rs and advanced.rs): the filter on
  constraints and the three schedulers. The locale \<^verbatim>\<open>scheduler\<close> is the contract of the
  trait: a chosen node is one of the eligible ones, and nothing is chosen only when there
  is none. The dispatcher is verified against that contract, and each scheduler of the
  code is an instance of it.
\<close>

definition eligible :: "node_info list \<Rightarrow> task \<Rightarrow> node_info list" where
  "eligible nodes t = filter (\<lambda>n. satisfies_all (node_labels n) (constraints t)) nodes"

definition load_order :: "node_info \<Rightarrow> node_info \<Rightarrow> ordering" where
  "load_order a b =
     then_with (total_cmp (cpu_usage (metrics a)) (cpu_usage (metrics b)))
               (total_cmp (memory_usage (metrics a)) (memory_usage (metrics b)))"

section \<open>Least loaded\<close>

definition least_loaded_select :: "node_info list \<Rightarrow> task \<Rightarrow> node_id option" where
  "least_loaded_select nodes t = map_option info_id (min_by load_order (eligible nodes t))"

section \<open>Locality\<close>

definition locality_order :: "catalog \<Rightarrow> task \<Rightarrow> node_info \<Rightarrow> node_info \<Rightarrow> ordering" where
  "locality_order c t a b =
     then_with (compare (local_bytes c (info_id a) (inputs t)) (local_bytes c (info_id b) (inputs t)))
               (load_order b a)"

definition locality_select :: "catalog \<Rightarrow> node_info list \<Rightarrow> task \<Rightarrow> node_id option" where
  "locality_select c nodes t = map_option info_id (max_by (locality_order c t) (eligible nodes t))"

section \<open>Scores\<close>

definition DEFAULT_BANDWIDTH_BYTES_PER_SEC :: nat where
  "DEFAULT_BANDWIDTH_BYTES_PER_SEC = 12500000"

definition DEFAULT_LATENCY_MS :: fl where
  "DEFAULT_LATENCY_MS = fconst f32 50"

record score_weights =
  w_cpu :: fl
  w_memory :: fl
  w_transfer :: fl
  w_latency :: fl
  w_locality :: fl

definition weights_default :: score_weights where
  "weights_default = \<lparr>w_cpu = fconst f32 1, w_memory = fconst f32 (1 / 2), w_transfer = fconst f32 1,
     w_latency = fconst f32 1, w_locality = fconst f32 1\<rparr>"

record score =
  compute_cost :: fl
  transfer_cost :: fl
  latency_penalty :: fl
  locality_bonus :: fl

definition score_total :: "score \<Rightarrow> fl" where
  "score_total s =
     fsub f32 (fadd f32 (fadd f32 (compute_cost s) (transfer_cost s)) (latency_penalty s)) (locality_bonus s)"

definition score_of :: "catalog \<Rightarrow> score_weights \<Rightarrow> node_info \<Rightarrow> task \<Rightarrow> score" where
  "score_of c w n t =
     (let total_bytes = sum_list (map size_bytes (List.map_filter (catalog_descriptor c) (inputs t)));
          local = local_bytes c (info_id n) (inputs t);
          missing = (total_bytes - local) + payload_len t;
          bandwidth = max (case bandwidth_bytes_per_sec n of
                             Some b \<Rightarrow> b | None \<Rightarrow> DEFAULT_BANDWIDTH_BYTES_PER_SEC) 1
      in \<lparr>compute_cost = fadd f32 (fmul f32 (cpu_usage (metrics n)) (w_cpu w))
                                 (fmul f32 (memory_usage (metrics n)) (w_memory w)),
          transfer_cost = fmul f32 (fdiv f32 (of_nat_f f32 missing) (of_nat_f f32 bandwidth)) (w_transfer w),
          latency_penalty =
            fmul f32 (fdiv f32 (case latency_ms n of Some l \<Rightarrow> l | None \<Rightarrow> DEFAULT_LATENCY_MS)
                               (fconst f32 1000)) (w_latency w),
          locality_bonus =
            (if total_bytes = 0 then Num False 0
             else fmul f32 (fdiv f32 (of_nat_f f32 local) (of_nat_f f32 total_bytes)) (w_locality w))\<rparr>)"

definition advanced_order :: "catalog \<Rightarrow> score_weights \<Rightarrow> task \<Rightarrow> node_info \<Rightarrow> node_info \<Rightarrow> ordering" where
  "advanced_order c w t a b =
     then_with (total_cmp (score_total (score_of c w a t)) (score_total (score_of c w b t)))
               (load_order a b)"

definition advanced_select ::
    "catalog \<Rightarrow> score_weights \<Rightarrow> node_info list \<Rightarrow> task \<Rightarrow> node_id option" where
  "advanced_select c w nodes t = map_option info_id (min_by (advanced_order c w t) (eligible nodes t))"

section \<open>Eligibility\<close>

lemma set_eligible:
  "set (eligible nodes t) = {n \<in> set nodes. satisfies_all (node_labels n) (constraints t)}"
  by (simp add: eligible_def)

lemma satisfies_all_iff:
  "satisfies_all ls cs \<longleftrightarrow> (\<forall>c \<in> set cs. is_satisfied_by c ls)"
  by (simp add: satisfies_all_def list_all_iff)

section \<open>The orders are total preorders\<close>

lemma comparator_load_order: "comparator load_order"
  unfolding load_order_def
  by (intro comparator_then comparator_key [OF total.comparator_axioms])

lemma comparator_locality_order: "comparator (locality_order c t)"
  unfolding locality_order_def
  by (intro comparator_then comparator_by_key comparator_flip [OF comparator_load_order])

lemma comparator_advanced_order: "comparator (advanced_order c w t)"
  unfolding advanced_order_def
  by (intro comparator_then comparator_load_order
      comparator_key [OF total.comparator_axioms, of "\<lambda>n. score_total (score_of c w n t)"])

interpretation load: comparator load_order
  by (rule comparator_load_order)

interpretation local_first: comparator "locality_order c t"
  by (rule comparator_locality_order)

interpretation cheapest: comparator "advanced_order c w t"
  by (rule comparator_advanced_order)

section \<open>The contract of a scheduler\<close>

locale scheduler =
  fixes select :: "node_info list \<Rightarrow> task \<Rightarrow> node_id option"
  assumes select_eligible: "select nodes t = Some i \<Longrightarrow> i \<in> info_id ` set (eligible nodes t)"
    and select_None: "select nodes t = None \<longleftrightarrow> eligible nodes t = []"
begin

lemma select_known: "select nodes t = Some i \<Longrightarrow> i \<in> info_id ` set nodes"
  using select_eligible [of nodes t i] by (auto simp: set_eligible)

lemma select_constraints:
  "select nodes t = Some i \<Longrightarrow>
     \<exists>n \<in> set nodes. info_id n = i \<and> satisfies_all (node_labels n) (constraints t)"
  using select_eligible [of nodes t i] by (auto simp: set_eligible)

lemma select_avoids: "select (filter (\<lambda>n. info_id n \<notin> tried) nodes) t = Some i \<Longrightarrow> i \<notin> tried"
  using select_known [of "filter (\<lambda>n. info_id n \<notin> tried) nodes" t i] by auto

lemma select_total: "eligible nodes t \<noteq> [] \<Longrightarrow> \<exists>i. select nodes t = Some i"
  using select_None [of nodes t] by auto

end

interpretation least_loaded: scheduler least_loaded_select
  by unfold_locales (auto simp: least_loaded_select_def dest: load.min_by_Some(1))

interpretation locality: scheduler "locality_select c"
  by unfold_locales (auto simp: locality_select_def dest: local_first.max_by_Some(1))

interpretation advanced: scheduler "advanced_select c w"
  by unfold_locales (auto simp: advanced_select_def dest: cheapest.min_by_Some(1))

section \<open>Optimality\<close>

text \<open>
  C20. The scoring scheduler returns no node exactly when no node satisfies the task's
  constraints; otherwise the returned node satisfies all of them, and no node that does
  has a smaller total score, or an equal score and a smaller load.
\<close>

theorem advanced_select_optimal:
  "case advanced_select c w nodes t of
     None \<Rightarrow> \<forall>n \<in> set nodes. \<not> satisfies_all (node_labels n) (constraints t)
   | Some i \<Rightarrow> \<exists>n \<in> set nodes. info_id n = i \<and> satisfies_all (node_labels n) (constraints t) \<and>
       (\<forall>m \<in> set nodes. satisfies_all (node_labels m) (constraints t) \<longrightarrow>
          total_cmp (score_total (score_of c w n t)) (score_total (score_of c w m t)) = Less \<or>
          total_cmp (score_total (score_of c w n t)) (score_total (score_of c w m t)) = Equal \<and>
          load_order n m \<noteq> Greater)"
proof (cases "min_by (advanced_order c w t) (eligible nodes t)")
  case None
  then show ?thesis by (auto simp: advanced_select_def eligible_def filter_empty_conv)
next
  case (Some n)
  have "advanced_order c w t n m \<noteq> Greater" if "m \<in> set nodes" "satisfies_all (node_labels m) (constraints t)" for m
    using cheapest.min_by_Some(2) [OF Some] that by (simp add: set_eligible)
  then have "total_cmp (score_total (score_of c w n t)) (score_total (score_of c w m t)) = Less \<or>
      total_cmp (score_total (score_of c w n t)) (score_total (score_of c w m t)) = Equal \<and> load_order n m \<noteq> Greater"
    if "m \<in> set nodes" "satisfies_all (node_labels m) (constraints t)" for m
    using that unfolding advanced_order_def by (metis ordering.exhaust then_with_simps(3))
  then show ?thesis
    using cheapest.min_by_Some(1) [OF Some] Some by (auto simp: advanced_select_def set_eligible)
qed

theorem advanced_select_optimal_witness:
  "(let plain = node_info_new (NodeId 1) ''a'' ''a:1'' 4;
        gpu = with_label (node_info_new (NodeId 2) ''b'' ''b:1'' 4) ''gpu'' ''true'';
        t = requiring (task_new (TaskId 7) ''render'' []) (Equals ''gpu'' ''true'')
    in advanced_select catalog_new weights_default [plain, gpu] t = Some (NodeId 2))"
proof -
  define plain where "plain = node_info_new (NodeId 1) ''a'' ''a:1'' 4"
  define gpu where "gpu = with_label (node_info_new (NodeId 2) ''b'' ''b:1'' 4) ''gpu'' ''true''"
  define t where "t = requiring (task_new (TaskId 7) ''render'' []) (Equals ''gpu'' ''true'')"
  have sat: "\<not> satisfies_all (node_labels plain) (constraints t)" "satisfies_all (node_labels gpu) (constraints t)"
    "info_id gpu = NodeId 2"
    by (simp_all add: plain_def gpu_def t_def node_info_new_def with_label_def requiring_def task_new_def
        satisfies_all_def)
  then have "advanced_select catalog_new weights_default [plain, gpu] t = Some (NodeId 2)"
    using advanced_select_optimal [where c = catalog_new and w = weights_default and nodes = "[plain, gpu]" and t = t]
    by (auto split: option.splits)
  then show ?thesis by (simp add: plain_def gpu_def t_def Let_def)
qed

text \<open>
  The locality scheduler picks, among the nodes that satisfy the constraints, one that
  holds the most input bytes, and among those one with the least load.
\<close>

lemma locality_select_optimal:
  assumes "locality_select c nodes t = Some i"
  shows "\<exists>n \<in> set nodes. info_id n = i \<and> satisfies_all (node_labels n) (constraints t) \<and>
    (\<forall>m \<in> set nodes. satisfies_all (node_labels m) (constraints t) \<longrightarrow>
       local_bytes c (info_id m) (inputs t) \<le> local_bytes c i (inputs t) \<and>
       (local_bytes c (info_id m) (inputs t) = local_bytes c i (inputs t) \<longrightarrow> load_order n m \<noteq> Greater))"
proof -
  from assms obtain n where n: "max_by (locality_order c t) (eligible nodes t) = Some n" "info_id n = i"
    by (auto simp: locality_select_def)
  have "locality_order c t m n \<noteq> Greater" if "m \<in> set nodes" "satisfies_all (node_labels m) (constraints t)" for m
    using local_first.max_by_Some(2) [OF n(1)] that by (simp add: set_eligible)
  then have "local_bytes c (info_id m) (inputs t) \<le> local_bytes c i (inputs t) \<and>
      (local_bytes c (info_id m) (inputs t) = local_bytes c i (inputs t) \<longrightarrow> load_order n m \<noteq> Greater)"
    if "m \<in> set nodes" "satisfies_all (node_labels m) (constraints t)" for m
    using that n(2) unfolding locality_order_def by force
  then show ?thesis
    using local_first.max_by_Some(1) [OF n(1)] n(2) by (auto simp: set_eligible)
qed

end
