(* ===== verification/Ledger.thy ===== *)
theory Ledger
  imports Task
begin

text \<open>
  What the controller remembers of finished work: the result cache
  (crates/aether-controller/src/cache.rs) and the ring of recent tasks
  (crates/aether-controller/src/history.rs). The clock is an argument of every operation
  that reads it.
\<close>

section \<open>Result cache\<close>

record work_key =
  wk_kind :: string
  wk_payload :: data_id
  wk_module :: "data_id option"
  wk_inputs :: "data_id list"

definition work_key_of :: "digest \<Rightarrow> task \<Rightarrow> work_key" where
  "work_key_of hash t = \<lparr>wk_kind = task_kind t, wk_payload = hash (payload t), wk_module = module t,
     wk_inputs = inputs t\<rparr>"

record cache_entry =
  ce_result :: task_result
  stored :: instant

record cache =
  c_entries :: "(work_key, cache_entry) hashmap"
  hits :: nat
  misses :: nat
  capacity :: nat
  ttl :: "duration option"

definition cache_new :: "nat \<Rightarrow> cache" where
  "cache_new n = \<lparr>c_entries = [], hits = 0, misses = 0, capacity = n, ttl = None\<rparr>"

definition with_ttl :: "cache \<Rightarrow> duration \<Rightarrow> cache" where
  "with_ttl c d = c\<lparr>ttl := Some d\<rparr>"

definition cache_get :: "digest \<Rightarrow> cache \<Rightarrow> instant \<Rightarrow> task \<Rightarrow> task_result option \<times> cache" where
  "cache_get hash c now t =
     (let c1 = (case ttl c of
                  None \<Rightarrow> c
                | Some d \<Rightarrow> c\<lparr>c_entries :=
                    filter (\<lambda>(_, e). saturating_duration_since now (stored e) < d) (c_entries c)\<rparr>)
      in case map_of (c_entries c1) (work_key_of hash t) of
           Some e \<Rightarrow> (Some ((ce_result e)\<lparr>res_task_id := task_id t\<rparr>), c1\<lparr>hits := hits c1 + 1\<rparr>)
         | None \<Rightarrow> (None, c1\<lparr>misses := misses c1 + 1\<rparr>))"

definition cache_put :: "digest \<Rightarrow> cache \<Rightarrow> instant \<Rightarrow> task \<Rightarrow> task_result \<Rightarrow> cache" where
  "cache_put hash c now t r =
     (if \<not> is_success r \<or> capacity c = 0 then c
      else let es = (if capacity c \<le> length (c_entries c)
                     then case min_by (\<lambda>a b. compare (stored (snd a)) (stored (snd b))) (c_entries c) of
                            None \<Rightarrow> c_entries c
                          | Some (k, _) \<Rightarrow> AList.delete k (c_entries c)
                     else c_entries c)
           in c\<lparr>c_entries := AList.update (work_key_of hash t) \<lparr>ce_result = r, stored = now\<rparr> es\<rparr>)"

definition cache_stats :: "cache \<Rightarrow> nat \<times> nat" where
  "cache_stats c = (hits c, misses c)"

definition cache_clear :: "cache \<Rightarrow> cache" where
  "cache_clear c = c\<lparr>c_entries := []\<rparr>"

section \<open>History\<close>

definition DEFAULT_HISTORY :: nat where
  "DEFAULT_HISTORY = 64"

definition PREVIEW_BYTES :: nat where
  "PREVIEW_BYTES = 48"

text \<open>A preview is its printable characters and whether an ellipsis follows them.\<close>

definition preview :: "bytes \<Rightarrow> string \<times> bool" where
  "preview out =
     (map (\<lambda>b. if 32 \<le> unat b \<and> unat b \<le> 126 then char_of (unat b) else CHR ''.'') (take PREVIEW_BYTES out),
      PREVIEW_BYTES < length out)"

record finished =
  fin_task_id :: task_id
  fin_kind :: string
  fin_node_id :: node_id
  fin_success :: bool
  fin_duration :: duration
  fin_output_bytes :: nat
  fin_preview :: "string \<times> bool"
  fin_at :: instant

record history =
  h_entries :: "finished list"
  limit :: nat

definition history_new :: "nat \<Rightarrow> history" where
  "history_new n = \<lparr>h_entries = [], limit = max n 1\<rparr>"

text \<open>The \<^verbatim>\<open>while\<close> loop pops from the back until the limit is met.\<close>

fun pop_back_to :: "nat \<Rightarrow> 'a list \<Rightarrow> 'a list" where
  "pop_back_to n [] = []"
| "pop_back_to n (x # xs) = (if n < length (x # xs) then pop_back_to n (butlast (x # xs)) else x # xs)"

definition history_record :: "history \<Rightarrow> instant \<Rightarrow> task \<Rightarrow> task_result \<Rightarrow> history" where
  "history_record h now t r =
     (let out = (case result_output r of None \<Rightarrow> [] | Some o1 \<Rightarrow> o1);
          e = \<lparr>fin_task_id = res_task_id r, fin_kind = task_kind t, fin_node_id = res_node_id r,
               fin_success = is_success r, fin_duration = res_duration r, fin_output_bytes = length out,
               fin_preview = preview out, fin_at = now\<rparr>
      in h\<lparr>h_entries := pop_back_to (limit h) (e # h_entries h)\<rparr>)"

definition recent :: "history \<Rightarrow> nat \<Rightarrow> finished list" where
  "recent h n = take n (h_entries h)"

section \<open>The ring\<close>

lemma pop_back_to_take: "pop_back_to n xs = take n xs"
proof (induction n xs rule: pop_back_to.induct)
  case (2 n x xs)
  show ?case
  proof (cases "n < length (x # xs)")
    case True
    then have "take n (butlast (x # xs)) = take n (x # xs)"
      by (simp add: butlast_conv_take min_def)
    then show ?thesis using 2 True by simp
  qed simp
qed simp

fun record_all :: "history \<Rightarrow> (instant \<times> task \<times> task_result) list \<Rightarrow> history" where
  "record_all h [] = h"
| "record_all h ((now, t, r) # es) = record_all (history_record h now t r) es"

lemma record_all_entries:
  "limit (record_all h es) = limit h \<and>
   map fin_task_id (h_entries (record_all h es)) =
     take (limit h) (rev (map (\<lambda>(_, _, r). res_task_id r) es) @ map fin_task_id (h_entries h))"
  if "length (h_entries h) \<le> limit h"
  using that
proof (induction h es rule: record_all.induct)
  case (2 h now t r es)
  let ?h = "history_record h now t r"
  have h: "limit ?h = limit h" "map fin_task_id (h_entries ?h) = take (limit h) (res_task_id r # map fin_task_id (h_entries h))"
    by (cases "limit h"; simp add: history_record_def pop_back_to_take take_map Let_def)+
  have "length (h_entries ?h) \<le> limit ?h"
    by (simp add: history_record_def pop_back_to_take Let_def)
  from 2(1) [OF this] show ?case by (simp add: h)
qed simp

text \<open>
  The ring of finished tasks holds exactly the last ones recorded, newest first, and
  never more than its limit.
\<close>

lemma history_keeps_latest:
  "map fin_task_id (h_entries (record_all (history_new n) es)) =
     take (max n 1) (rev (map (\<lambda>(_, _, r). res_task_id r) es))"
  using record_all_entries [of "history_new n" es] by (simp add: history_new_def)

section \<open>The cache\<close>

interpretation by_age: comparator "\<lambda>a b :: work_key \<times> cache_entry. compare (stored (snd a)) (stored (snd b))"
  by (rule comparator_by_key)

definition cache_inv :: "digest \<Rightarrow> (task \<times> task_result) set \<Rightarrow> cache \<Rightarrow> bool" where
  "cache_inv hash seen c = (distinct (map fst (c_entries c)) \<and> length (c_entries c) \<le> capacity c \<and>
     (\<forall>(k, e) \<in> set (c_entries c). is_success (ce_result e) \<and>
        (\<exists>t. (t, ce_result e) \<in> seen \<and> work_key_of hash t = k)))"

lemma cache_inv_mono: "cache_inv hash seen c \<Longrightarrow> seen \<subseteq> seen' \<Longrightarrow> cache_inv hash seen' c"
  unfolding cache_inv_def by (intro conjI) (simp, simp, blast)

lemma length_update_le: "length (AList.update k v al) \<le> Suc (length al)"
  by (induction al) auto

lemma length_delete_key: "(k, v) \<in> set al \<Longrightarrow> Suc (length (AList.delete k al)) \<le> length al"
  unfolding Suc_le_eq by (force simp: AList.delete_eq intro!: length_filter_less)

lemma set_update_pairs: "set (AList.update k v al) \<subseteq> insert (k, v) (set al)"
  by (induction al) auto

lemma cache_put_inv:
  assumes inv: "cache_inv hash seen c"
  shows "cache_inv hash (insert (t, r) seen) (cache_put hash c now t r)"
proof (cases "is_success r \<and> capacity c \<noteq> 0")
  case False
  then have "cache_put hash c now t r = c" by (auto simp: cache_put_def)
  then show ?thesis using cache_inv_mono [OF inv] by auto
next
  case True
  define es where "es = (if capacity c \<le> length (c_entries c)
      then case min_by (\<lambda>a b. compare (stored (snd a)) (stored (snd b))) (c_entries c) of
             None \<Rightarrow> c_entries c | Some (k, _) \<Rightarrow> AList.delete k (c_entries c)
      else c_entries c)"
  have put: "c_entries (cache_put hash c now t r) = AList.update (work_key_of hash t) \<lparr>ce_result = r, stored = now\<rparr> es"
      "capacity (cache_put hash c now t r) = capacity c"
    using True by (simp_all add: cache_put_def es_def)
  have sub: "set es \<subseteq> set (c_entries c)" and dist: "distinct (map fst es)"
    using inv by (auto simp: es_def cache_inv_def AList.delete_eq intro: distinct_map_filter split: option.splits)
  have room: "Suc (length es) \<le> capacity c"
  proof (cases "capacity c \<le> length (c_entries c)")
    case full: True
    then have "c_entries c \<noteq> []" using True by auto
    then obtain k v where m: "min_by (\<lambda>a b. compare (stored (snd a)) (stored (snd b))) (c_entries c) = Some (k, v)"
      by (cases "min_by (\<lambda>a b. compare (stored (snd a)) (stored (snd b))) (c_entries c)") auto
    then show ?thesis
      using length_delete_key [OF by_age.min_by_Some(1) [OF m]] inv full by (simp add: es_def cache_inv_def)
  qed (simp add: es_def)
  show ?thesis
    using inv True put sub dist room set_update_pairs [of "work_key_of hash t" "\<lparr>ce_result = r, stored = now\<rparr>" es]
      length_update_le [of "work_key_of hash t" "\<lparr>ce_result = r, stored = now\<rparr>" es]
    by (fastforce simp: cache_inv_def distinct_update)
qed

lemma cache_get_inv: "cache_inv hash seen c \<Longrightarrow> cache_inv hash seen (snd (cache_get hash c now t))"
proof -
  assume inv: "cache_inv hash seen c"
  define c1 where "c1 = (case ttl c of None \<Rightarrow> c
      | Some d \<Rightarrow> c\<lparr>c_entries := filter (\<lambda>(_, e). saturating_duration_since now (stored e) < d) (c_entries c)\<rparr>)"
  have "length (filter P (c_entries c)) \<le> capacity c" for P
    using inv le_trans [OF length_filter_le [of P "c_entries c"]] unfolding cache_inv_def by blast
  then have "cache_inv hash seen c1"
    using inv by (auto simp: c1_def cache_inv_def intro: distinct_map_filter split: option.splits)
  then have "cache_inv hash seen (c1\<lparr>hits := a\<rparr>)" "cache_inv hash seen (c1\<lparr>misses := b\<rparr>)" for a b
    by (simp_all add: cache_inv_def)
  then show ?thesis by (simp add: cache_get_def Let_def c1_def [symmetric] split: option.splits)
qed

lemma cache_get_hit:
  assumes "cache_inv hash seen c" "fst (cache_get hash c now t) = Some r"
  obtains t' r' where "(t', r') \<in> seen" "work_key_of hash t' = work_key_of hash t" "is_success r'"
    "r = r'\<lparr>res_task_id := task_id t\<rparr>"
proof -
  define c1 where "c1 = (case ttl c of None \<Rightarrow> c
      | Some d \<Rightarrow> c\<lparr>c_entries := filter (\<lambda>(_, e). saturating_duration_since now (stored e) < d) (c_entries c)\<rparr>)"
  have sub: "set (c_entries c1) \<subseteq> set (c_entries c)" by (auto simp: c1_def split: option.splits)
  from assms(2) obtain e where e: "map_of (c_entries c1) (work_key_of hash t) = Some e"
      "r = (ce_result e)\<lparr>res_task_id := task_id t\<rparr>"
    by (auto simp: cache_get_def Let_def c1_def [symmetric] split: option.splits)
  have "(work_key_of hash t, e) \<in> set (c_entries c)" using map_of_SomeD [OF e(1)] sub by blast
  then show thesis using assms(1) e(2) that by (fastforce simp: cache_inv_def)
qed

datatype cache_op = OpStore instant task task_result | OpAsk instant task | OpClear

fun cache_step :: "digest \<Rightarrow> cache \<Rightarrow> cache_op \<Rightarrow> cache" where
  "cache_step hash c (OpStore now t r) = cache_put hash c now t r"
| "cache_step hash c (OpAsk now t) = snd (cache_get hash c now t)"
| "cache_step hash c OpClear = cache_clear c"

lemma cache_run_inv:
  "cache_inv hash seen c \<Longrightarrow>
     cache_inv hash (seen \<union> {(t, r). \<exists>now. OpStore now t r \<in> set ops}) (foldl (cache_step hash) c ops)"
proof (induction ops arbitrary: c seen)
  case (Cons op ops)
  let ?seen = "seen \<union> {(t, r). \<exists>now. OpStore now t r = op}"
  have "cache_inv hash ?seen (cache_step hash c op)"
  proof (cases op)
    case (OpStore now t r)
    then have "?seen = insert (t, r) seen" by auto
    then show ?thesis using OpStore cache_put_inv [OF Cons.prems] by simp
  qed (use Cons.prems cache_get_inv in \<open>auto simp: cache_inv_def cache_clear_def\<close>)
  from Cons.IH [OF this] show ?case
    unfolding foldl_Cons by (rule cache_inv_mono) auto
qed simp

text \<open>
  The cache never exceeds its capacity, and a hit is the answer of the same work: over
  any history, what a lookup returns is a successful result stored earlier for a task with
  the same kind, payload digest, module and inputs, relabelled with the asking task's id.
\<close>

lemma cache_hits_are_same_work:
  assumes "c = foldl (cache_step hash) (cache_new n) ops"
  shows "length (c_entries c) \<le> n \<and>
    (\<forall>now t r. fst (cache_get hash c now t) = Some r \<longrightarrow>
       (\<exists>at t' r'. OpStore at t' r' \<in> set ops \<and> work_key_of hash t' = work_key_of hash t \<and>
          is_success r' \<and> r = r'\<lparr>res_task_id := task_id t\<rparr>))"
proof -
  have "cache_inv hash {} (cache_new n)" by (simp add: cache_inv_def cache_new_def)
  from cache_run_inv [OF this, of ops] have inv: "cache_inv hash {(t, r). \<exists>now. OpStore now t r \<in> set ops} c"
    using assms by simp
  have "capacity (cache_step hash c' op) = capacity c'" for c' op
    by (cases op) (auto simp: cache_put_def cache_get_def cache_clear_def Let_def split: option.splits)
  then have "capacity (foldl (cache_step hash) c' os) = capacity c'" for c' os
    by (induction os arbitrary: c') simp_all
  then have "capacity c = n" using assms by (simp add: cache_new_def)
  then have "length (c_entries c) \<le> n" using inv by (simp add: cache_inv_def)
  moreover have "\<exists>at t' r'. OpStore at t' r' \<in> set ops \<and> work_key_of hash t' = work_key_of hash t \<and>
      is_success r' \<and> r = r'\<lparr>res_task_id := task_id t\<rparr>" if "fst (cache_get hash c now t) = Some r" for now t r
    using inv that by (rule cache_get_hit) blast
  ultimately show ?thesis by blast
qed

text \<open>Storing a result for work that is already cached still evicts the oldest other entry.\<close>

lemma cache_put_evicts_needlessly:
  "(let t1 = task_new (TaskId 1) ''a'' []; t2 = task_new (TaskId 2) ''b'' [];
        r = result_success (TaskId 1) (NodeId 1) [] 0;
        c = cache_put DataId (cache_put DataId (cache_new 2) 0 t1 r) 1 t2 r
    in length (c_entries (cache_put DataId c 2 t2 r)) = 1)"
  by code_simp

end
