(* ===== verification/Workflow.thy ===== *)
theory Workflow
  imports Task "HOL-Library.Multiset"
begin

text \<open>
  Workflows (crates/aether-core/src/workflow.rs): steps with dependencies, validation,
  Kahn's algorithm with a ready list kept in index order, and the grouping into waves. An
  index out of range and a subtraction below zero are panics of the model; they are shown
  not to happen.
\<close>

record step =
  step_task :: task
  depends_on :: "nat list"

definition step_new :: "task \<Rightarrow> step" where
  "step_new t = \<lparr>step_task = t, depends_on = []\<rparr>"

definition step_after :: "task \<Rightarrow> nat list \<Rightarrow> step" where
  "step_after t ds = \<lparr>step_task = t, depends_on = ds\<rparr>"

datatype workflow_error =
    Empty
  | UnknownDependency nat nat
  | SelfDependency nat
  | Cycle "nat list"
  | UnknownStep nat

record workflow =
  wf_id :: workflow_id
  steps :: "step list"

section \<open>Order\<close>

text \<open>The table of dependents: one entry for every occurrence of a dependency in range.\<close>

fun note_dependencies :: "nat \<Rightarrow> nat list \<Rightarrow> nat list list \<Rightarrow> nat list list" where
  "note_dependencies i [] table = table"
| "note_dependencies i (d # ds) table =
     note_dependencies i ds (if d < length table then table[d := table ! d @ [i]] else table)"

fun dependents_from :: "nat \<Rightarrow> step list \<Rightarrow> nat list list \<Rightarrow> nat list list" where
  "dependents_from i [] table = table"
| "dependents_from i (s # ss) table = dependents_from (Suc i) ss (note_dependencies i (depends_on s) table)"

definition dependents_table :: "step list \<Rightarrow> nat list list" where
  "dependents_table ss = dependents_from 0 ss (replicate (length ss) [])"

text \<open>\<^verbatim>\<open>partition_point\<close> and \<^verbatim>\<open>insert\<close> on the sorted ready list.\<close>

definition insert_ready :: "nat \<Rightarrow> nat list \<Rightarrow> nat list" where
  "insert_ready d ready = takeWhile (\<lambda>w. w < d) ready @ d # dropWhile (\<lambda>w. w < d) ready"

fun relax :: "nat list \<Rightarrow> nat list \<Rightarrow> nat list \<Rightarrow> (nat list \<times> nat list) exec" where
  "relax remaining ready [] = Ret (remaining, ready)"
| "relax remaining ready (d # ds) =
     (if length remaining \<le> d \<or> remaining ! d = 0 then Panic
      else let r = remaining ! d - 1
           in relax (remaining[d := r]) (if r = 0 then insert_ready d ready else ready) ds)"

lemma length_insert_ready [simp]: "length (insert_ready d ready) = Suc (length ready)"
  unfolding insert_ready_def
  by (metis add_Suc_right length_Cons length_append takeWhile_dropWhile_id)

lemma set_insert_ready [simp]: "set (insert_ready d ready) = insert d (set ready)"
proof -
  have "set (takeWhile (\<lambda>w. w < d) ready @ dropWhile (\<lambda>w. w < d) ready) = set ready" by simp
  then show ?thesis unfolding insert_ready_def by (simp del: takeWhile_dropWhile_id)
qed

lemma distinct_insert_ready [simp]: "distinct (insert_ready d ready) \<longleftrightarrow> d \<notin> set ready \<and> distinct ready"
proof -
  have "distinct (xs @ d # ys) \<longleftrightarrow> distinct (d # xs @ ys)" for xs ys by auto
  then show ?thesis unfolding insert_ready_def by (simp only: takeWhile_dropWhile_id distinct.simps)
qed

lemma relax_weight:
  "relax remaining ready ds = Ret (remaining', ready') \<Longrightarrow>
     sum_list remaining' + length ready' \<le> sum_list remaining + length ready"
proof (induction remaining ready ds rule: relax.induct)
  case (2 remaining ready d ds)
  then have ok: "d < length remaining" "remaining ! d \<noteq> 0" by (auto split: if_splits)
  then have "sum_list (remaining[d := remaining ! d - 1]) + 1 = sum_list remaining"
    using elem_le_sum_list [of d remaining] by (simp add: sum_list_update)
  then show ?case using 2 ok by (fastforce simp: Let_def split: if_splits)
qed simp

function kahn :: "nat list list \<Rightarrow> nat list \<Rightarrow> nat list \<Rightarrow> nat list \<Rightarrow> nat list exec" where
  "kahn dependents remaining ready order =
     (case ready of
        [] \<Rightarrow> Ret order
      | i # rest \<Rightarrow>
          (if length dependents \<le> i then Panic
           else case relax remaining rest (dependents ! i) of
                  Panic \<Rightarrow> Panic
                | Ret (remaining', ready') \<Rightarrow> kahn dependents remaining' ready' (order @ [i])))"
  by pat_completeness auto
termination
  by (relation "measure (\<lambda>(_, remaining, ready, _). sum_list remaining + length ready)")
    (auto dest!: relax_weight)

declare kahn.simps [simp del]

definition workflow_order :: "workflow \<Rightarrow> (workflow_error + nat list) exec" where
  "workflow_order w =
     (let n = length (steps w);
          remaining = map (\<lambda>s. length (depends_on s)) (steps w);
          ready = filter (\<lambda>i. remaining ! i = 0) [0 ..< n]
      in case kahn (dependents_table (steps w)) remaining ready [] of
           Panic \<Rightarrow> Panic
         | Ret order \<Rightarrow>
             (if length order \<noteq> n
              then Ret (Inl (Cycle (filter (\<lambda>i. i \<notin> set order) [0 ..< n])))
              else Ret (Inr order)))"

section \<open>Validation and construction\<close>

fun check_dependencies :: "nat \<Rightarrow> nat \<Rightarrow> nat list \<Rightarrow> workflow_error option" where
  "check_dependencies n i [] = None"
| "check_dependencies n i (d # ds) =
     (if d = i then Some (SelfDependency i)
      else if n \<le> d then Some (UnknownDependency i d)
      else check_dependencies n i ds)"

fun check_steps :: "nat \<Rightarrow> nat \<Rightarrow> step list \<Rightarrow> workflow_error option" where
  "check_steps n i [] = None"
| "check_steps n i (s # ss) =
     (case check_dependencies n i (depends_on s) of
        Some e \<Rightarrow> Some e
      | None \<Rightarrow> check_steps n (Suc i) ss)"

definition validate :: "workflow \<Rightarrow> (workflow_error + unit) exec" where
  "validate w =
     (if steps w = [] then Ret (Inl Empty)
      else case check_steps (length (steps w)) 0 (steps w) of
             Some e \<Rightarrow> Ret (Inl e)
           | None \<Rightarrow>
               (case workflow_order w of
                  Panic \<Rightarrow> Panic
                | Ret (Inl e) \<Rightarrow> Ret (Inl e)
                | Ret (Inr _) \<Rightarrow> Ret (Inr ())))"

definition workflow_new :: "workflow_id \<Rightarrow> step list \<Rightarrow> (workflow_error + workflow) exec" where
  "workflow_new i ss =
     (let w = \<lparr>wf_id = i, steps = ss\<rparr> in
      case validate w of
        Panic \<Rightarrow> Panic
      | Ret (Inl e) \<Rightarrow> Ret (Inl e)
      | Ret (Inr _) \<Rightarrow> Ret (Inr w))"

definition parallel :: "workflow_id \<Rightarrow> task list \<Rightarrow> (workflow_error + workflow) exec" where
  "parallel i ts = workflow_new i (map step_new ts)"

definition chain :: "workflow_id \<Rightarrow> task list \<Rightarrow> (workflow_error + workflow) exec" where
  "chain i ts =
     workflow_new i (map (\<lambda>(k, t). if k = 0 then step_new t else step_after t [k - 1]) (enumerated ts))"

definition roots :: "workflow \<Rightarrow> nat list" where
  "roots w = filter (\<lambda>i. depends_on (steps w ! i) = []) [0 ..< length (steps w)]"

definition dependents_of :: "workflow \<Rightarrow> nat \<Rightarrow> nat list" where
  "dependents_of w s = filter (\<lambda>i. s \<in> set (depends_on (steps w ! i))) [0 ..< length (steps w)]"

section \<open>Waves\<close>

definition depth_step :: "workflow \<Rightarrow> nat list \<Rightarrow> nat \<Rightarrow> nat list" where
  "depth_step w depth i =
     depth[i := fold max (map (\<lambda>d. depth ! d + 1) (depends_on (steps w ! i))) 0]"

fun place :: "nat \<Rightarrow> nat list \<Rightarrow> nat list list \<Rightarrow> nat list list" where
  "place i [] waves = waves"
| "place i (l # ls) waves = place (Suc i) ls (waves[l := waves ! l @ [i]])"

definition workflow_waves :: "workflow \<Rightarrow> (workflow_error + nat list list) exec" where
  "workflow_waves w =
     (case workflow_order w of
        Panic \<Rightarrow> Panic
      | Ret (Inl e) \<Rightarrow> Ret (Inl e)
      | Ret (Inr order) \<Rightarrow>
          (let depth = foldl (depth_step w) (replicate (length (steps w)) 0) order
           in Ret (Inr (place 0 depth
                (replicate (if depth = [] then 0 else fold max depth 0 + 1) [])))))"

section \<open>The table of dependents\<close>

lemma length_note [simp]: "length (note_dependencies i ds table) = length table"
  by (induction i ds table rule: note_dependencies.induct) auto

lemma count_note:
  "d < length table \<Longrightarrow>
     count_list (note_dependencies i ds table ! d) k = count_list (table ! d) k + (if k = i then count_list ds d else 0)"
  by (induction i ds table rule: note_dependencies.induct) (auto simp: nth_list_update)

lemma set_note: "d < length table \<Longrightarrow> set (note_dependencies i ds table ! d) \<subseteq> insert i (set (table ! d))"
  by (induction i ds table rule: note_dependencies.induct) (fastforce simp: nth_list_update split: if_splits)+

lemma length_dependents_from [simp]: "length (dependents_from i ss table) = length table"
  by (induction i ss table rule: dependents_from.induct) auto

lemma count_dependents_from:
  "d < length table \<Longrightarrow>
     count_list (dependents_from i ss table ! d) k =
       count_list (table ! d) k +
       (if i \<le> k \<and> k < i + length ss then count_list (depends_on (ss ! (k - i))) d else 0)"
proof (induction i ss table rule: dependents_from.induct)
  case (2 i s ss table)
  then show ?case by (auto simp: count_note nth_Cons' Suc_diff_Suc)
qed simp

lemma set_dependents_from:
  "d < length table \<Longrightarrow> set (dependents_from i ss table ! d) \<subseteq> set (table ! d) \<union> {i ..< i + length ss}"
proof (induction i ss table rule: dependents_from.induct)
  case (2 i s ss table)
  then show ?case using set_note [of d table i "depends_on s"] by fastforce
qed simp

lemma length_dependents_table [simp]: "length (dependents_table ss) = length ss"
  by (simp add: dependents_table_def)

lemma count_dependents_table:
  "d < length ss \<Longrightarrow> count_list (dependents_table ss ! d) k = (if k < length ss then count_list (depends_on (ss ! k)) d else 0)"
  by (simp add: dependents_table_def count_dependents_from)

lemma set_dependents_table: "d < length ss \<Longrightarrow> set (dependents_table ss ! d) \<subseteq> {..< length ss}"
  using set_dependents_from [of d "replicate (length ss) []" 0 ss] by (auto simp: dependents_table_def)

section \<open>Kahn's algorithm\<close>

lemma relax_spec:
  assumes "\<And>i. count_list ds i \<le> (if i < length remaining then remaining ! i else 0)"
    and "distinct ready" "set ready \<inter> set ds = {}"
  shows "\<exists>remaining' ready'. relax remaining ready ds = Ret (remaining', ready') \<and>
    length remaining' = length remaining \<and>
    (\<forall>i < length remaining. remaining' ! i = remaining ! i - count_list ds i) \<and>
    distinct ready' \<and> set ready' = set ready \<union> {i \<in> set ds. remaining ! i = count_list ds i}"
  using assms
proof (induction ds arbitrary: remaining ready)
  case (Cons d ds)
  have d: "d < length remaining" "remaining ! d \<noteq> 0"
    using Cons.prems(1) [of d] by (auto split: if_splits)
  let ?rem = "remaining[d := remaining ! d - 1]"
  let ?ready = "if remaining ! d - 1 = 0 then insert_ready d ready else ready"
  have c: "count_list ds i \<le> (if i < length ?rem then ?rem ! i else 0)" for i
    using Cons.prems(1) [of i] d by (auto simp: nth_list_update split: if_splits)
  have last: "d \<notin> set ds" if "remaining ! d - 1 = 0"
  proof -
    have "count_list ds d = 0" using c [of d] d(1) that by simp
    then show ?thesis by (simp add: count_list_0_iff)
  qed
  have "distinct ?ready" "set ?ready \<inter> set ds = {}"
    using Cons.prems(2,3) last by auto
  from Cons.IH [OF c this] obtain remaining' ready' where r:
    "relax ?rem ?ready ds = Ret (remaining', ready')" "length remaining' = length remaining"
    "\<forall>i < length remaining. remaining' ! i = ?rem ! i - count_list ds i"
    "distinct ready'" "set ready' = set ?ready \<union> {i \<in> set ds. ?rem ! i = count_list ds i}"
    by auto
  have "relax remaining ready (d # ds) = Ret (remaining', ready')"
    using d r(1) by (simp add: Let_def)
  moreover have "set ready' = set ready \<union> {i \<in> set (d # ds). remaining ! i = count_list (d # ds) i}"
  proof (rule set_eqI)
    fix i
    have at_d: "?rem ! d = remaining ! d - 1" and off_d: "i \<noteq> d \<Longrightarrow> ?rem ! i = remaining ! i"
      using d(1) by simp_all
    have pos: "d \<in> set ds \<longleftrightarrow> count_list ds d \<noteq> 0" by (simp add: count_list_0_iff)
    show "i \<in> set ready' \<longleftrightarrow> i \<in> set ready \<union> {i \<in> set (d # ds). remaining ! i = count_list (d # ds) i}"
    proof (cases "i = d")
      case True
      show ?thesis
        unfolding r(5) True using d(2) at_d pos last by (cases "remaining ! d - 1 = 0") auto
    next
      case False
      then show ?thesis unfolding r(5) using off_d by auto
    qed
  qed
  ultimately show ?case using r d by (auto simp: nth_list_update)
qed simp

text \<open>
  The loop invariant. The counter of a step is the number of its dependencies that have
  not run; a step is placed or ready exactly when that number is zero; and everything
  placed comes after all it depends on.
\<close>

definition open_deps :: "step list \<Rightarrow> nat list \<Rightarrow> nat \<Rightarrow> nat" where
  "open_deps ss order i = length (filter (\<lambda>d. d \<notin> set order) (depends_on (ss ! i)))"

definition topological :: "step list \<Rightarrow> nat list \<Rightarrow> bool" where
  "topological ss order = (\<forall>k < length order. set (depends_on (ss ! (order ! k))) \<subseteq> set (take k order))"

definition kahn_inv :: "step list \<Rightarrow> nat list \<Rightarrow> nat list \<Rightarrow> nat list \<Rightarrow> bool" where
  "kahn_inv ss remaining ready order =
     (length remaining = length ss \<and> distinct (order @ ready) \<and> set (order @ ready) \<subseteq> {..< length ss} \<and>
      (\<forall>i < length ss. remaining ! i = open_deps ss order i) \<and>
      (\<forall>i < length ss. i \<in> set (order @ ready) \<longleftrightarrow> remaining ! i = 0) \<and> topological ss order)"

lemma open_deps_append:
  "x \<notin> set order \<Longrightarrow> open_deps ss (order @ [x]) i = open_deps ss order i - count_list (depends_on (ss ! i)) x \<and>
     count_list (depends_on (ss ! i)) x \<le> open_deps ss order i"
proof -
  assume "x \<notin> set order"
  then have "length (filter (\<lambda>d. d \<notin> set (order @ [x])) ds) + count_list ds x = length (filter (\<lambda>d. d \<notin> set order) ds)" for ds
    by (induction ds) auto
  then show ?thesis unfolding open_deps_def by (metis add_diff_cancel_right' le_add2)
qed

lemma topological_snoc:
  "topological ss (order @ [x]) \<longleftrightarrow> topological ss order \<and> set (depends_on (ss ! x)) \<subseteq> set order"
  unfolding topological_def length_append_singleton All_less_Suc by (auto simp: nth_append)

lemma open_deps_0: "open_deps ss order i = 0 \<longleftrightarrow> set (depends_on (ss ! i)) \<subseteq> set order"
  by (auto simp: open_deps_def filter_empty_conv)

text \<open>
  One step of any execution that follows the dependencies: a ready step is moved to the
  order, the counters of its dependents go down, and those that reach zero become ready.
\<close>

lemma kahn_inv_advance:
  assumes inv: "kahn_inv ss remaining ready order" and i: "i \<in> set ready"
    and len': "length remaining' = length remaining"
    and rem': "\<And>k. k < length ss \<Longrightarrow> remaining' ! k = remaining ! k - count_list (depends_on (ss ! k)) i"
    and dist': "distinct ready'"
    and set': "set ready' = set ready - {i} \<union>
      {k. k < length ss \<and> i \<in> set (depends_on (ss ! k)) \<and> remaining' ! k = 0}"
  shows "kahn_inv ss remaining' ready' (order @ [i])"
proof -
  let ?order = "order @ [i]"
  have il: "i < length ss" "i \<notin> set order"
    and len: "length remaining = length ss"
    and rem: "\<And>k. k < length ss \<Longrightarrow> remaining ! k = open_deps ss order k"
    and zero: "\<And>k. k < length ss \<Longrightarrow> k \<in> set order \<or> k \<in> set ready \<longleftrightarrow> remaining ! k = 0"
    using inv i by (auto simp: kahn_inv_def)
  note step = open_deps_append [OF il(2), of ss]
  have now: "remaining' ! k = open_deps ss ?order k" if "k < length ss" for k
    using rem' [OF that] step [of k] rem [OF that] by simp
  have hit: "i \<notin> set (depends_on (ss ! k))" if "k < length ss" "remaining ! k = 0" for k
    using step [of k] rem [OF that(1)] that(2) by (simp add: count_list_0_iff)
  have same: "remaining' ! k = remaining ! k" if "k < length ss" "i \<notin> set (depends_on (ss ! k))" for k
    using rem' [OF that(1)] that(2) by (simp add: count_list_0_iff)
  have "k \<in> set (?order @ ready') \<longleftrightarrow> remaining' ! k = 0" if k: "k < length ss" for k
    using zero [OF k] hit [OF k] same [OF k] k i unfolding set_append set'
    by (cases "i \<in> set (depends_on (ss ! k))") auto
  moreover have "set (?order @ ready') \<subseteq> {..< length ss}"
    using inv i unfolding set_append set' by (auto simp: kahn_inv_def)
  moreover have "k \<notin> set order" if "k < length ss" "i \<in> set (depends_on (ss ! k))" for k
    using zero [OF that(1)] hit [OF that(1)] that(2) by auto
  then have "distinct (?order @ ready')"
    using inv il dist' hit [OF il(1)] zero [OF il(1)] i unfolding distinct_append set_append set'
    by (auto simp: kahn_inv_def)
  moreover have "topological ss ?order"
    unfolding topological_snoc
  proof
    show "topological ss order" using inv by (simp add: kahn_inv_def)
    have "remaining ! i = 0" using zero [OF il(1)] i by simp
    then show "set (depends_on (ss ! i)) \<subseteq> set order" using rem [OF il(1)] open_deps_0 by metis
  qed
  ultimately show ?thesis using now len' len by (simp add: kahn_inv_def)
qed

lemma kahn_inv_count:
  "kahn_inv ss remaining ready order \<Longrightarrow> i \<in> set ready \<Longrightarrow> k < length ss \<Longrightarrow>
     count_list (depends_on (ss ! k)) i \<le> remaining ! k"
  using open_deps_append [of i order ss k] by (auto simp: kahn_inv_def)

lemma kahn_inv_ready:
  "kahn_inv ss remaining ready order \<Longrightarrow> i \<in> set ready \<Longrightarrow> k \<in> set ready \<or> k \<in> set order \<Longrightarrow>
     k < length ss \<and> remaining ! k = 0 \<and> i \<notin> set (depends_on (ss ! k))"
proof -
  assume inv: "kahn_inv ss remaining ready order" and i: "i \<in> set ready" and "k \<in> set ready \<or> k \<in> set order"
  then have k: "k < length ss" "remaining ! k = 0" by (auto simp: kahn_inv_def)
  with kahn_inv_count [OF inv i, of k] have "count_list (depends_on (ss ! k)) i = 0" by simp
  then show ?thesis using k by (simp add: count_list_0_iff)
qed

lemma kahn_step:
  assumes inv: "kahn_inv ss remaining (i # rest) order"
  obtains remaining' ready' where
    "relax remaining rest (dependents_table ss ! i) = Ret (remaining', ready')"
    "kahn_inv ss remaining' ready' (order @ [i])"
proof -
  let ?ds = "dependents_table ss ! i"
  have i: "i < length ss" "i \<notin> set rest" "distinct rest" and len: "length remaining = length ss"
    using inv by (auto simp: kahn_inv_def)
  have cnt: "count_list ?ds k = (if k < length ss then count_list (depends_on (ss ! k)) i else 0)" for k
    by (rule count_dependents_table [OF i(1)])
  then have le: "count_list ?ds k \<le> (if k < length remaining then remaining ! k else 0)" for k
    using kahn_inv_count [OF inv, of i k] len by simp
  have mem: "k \<in> set ?ds \<longleftrightarrow> k < length ss \<and> i \<in> set (depends_on (ss ! k))" for k
    using cnt [of k] count_list_0_iff [of ?ds k] count_list_0_iff [of "depends_on (ss ! k)" i] by (auto split: if_splits)
  then have disj: "set rest \<inter> set ?ds = {}" using kahn_inv_ready [OF inv, of i] by auto
  from relax_spec [OF le i(3) disj] obtain remaining' ready' where r:
    "relax remaining rest ?ds = Ret (remaining', ready')" "length remaining' = length remaining"
    "\<forall>k < length remaining. remaining' ! k = remaining ! k - count_list ?ds k"
    "distinct ready'" "set ready' = set rest \<union> {k \<in> set ?ds. remaining ! k = count_list ?ds k}"
    by auto
  have "kahn_inv ss remaining' ready' (order @ [i])"
  proof (rule kahn_inv_advance [OF inv _ r(2) _ r(4)])
    show "remaining' ! k = remaining ! k - count_list (depends_on (ss ! k)) i" if "k < length ss" for k
      using r(3) that by (simp add: len cnt)
    have "remaining ! k = count_list ?ds k \<longleftrightarrow> remaining' ! k = 0" if "k < length ss" for k
      using r(3) le [of k] that len by auto
    then show "set ready' = set (i # rest) - {i} \<union>
        {k. k < length ss \<and> i \<in> set (depends_on (ss ! k)) \<and> remaining' ! k = 0}"
      unfolding r(5) using mem i(2) by auto
  qed simp
  with r(1) show thesis by (rule that)
qed

lemma kahn_result:
  "kahn_inv ss remaining ready order \<Longrightarrow>
     \<exists>remaining' order'. kahn (dependents_table ss) remaining ready order = Ret order' \<and> kahn_inv ss remaining' [] order'"
proof (induction "dependents_table ss" remaining ready order rule: kahn.induct)
  case (1 remaining ready order)
  show ?case
  proof (cases ready)
    case Nil
    then show ?thesis using 1(2) by (auto simp: kahn.simps)
  next
    case (Cons i rest)
    obtain remaining' ready' where r: "relax remaining rest (dependents_table ss ! i) = Ret (remaining', ready')"
        "kahn_inv ss remaining' ready' (order @ [i])"
      using kahn_step 1(2) unfolding Cons by blast
    have "i < length ss" using 1(2) Cons by (simp add: kahn_inv_def)
    then show ?thesis
      using 1(1) [OF Cons _ r(1) refl r(2)] Cons r(1) by (simp add: kahn.simps [of _ remaining "i # rest"])
  qed
qed

lemma kahn_inv_initial:
  "kahn_inv ss (map (\<lambda>s. length (depends_on s)) ss)
     (filter (\<lambda>i. map (\<lambda>s. length (depends_on s)) ss ! i = 0) [0 ..< length ss]) []"
  by (auto simp: kahn_inv_def open_deps_def topological_def)

section \<open>The dependency relation\<close>

text \<open>A step must run before every step that lists it.\<close>

definition before :: "step list \<Rightarrow> (nat \<times> nat) set" where
  "before ss = {(d, i). i < length ss \<and> d \<in> set (depends_on (ss ! i))}"

definition in_range :: "step list \<Rightarrow> bool" where
  "in_range ss = (\<forall>s \<in> set ss. \<forall>d \<in> set (depends_on s). d < length ss)"

lemma in_range_iff:
  "in_range ss \<longleftrightarrow> (\<forall>k < length ss. \<forall>d \<in> set (depends_on (ss ! k)). d < length ss)"
  by (metis in_range_def in_set_conv_nth)

lemma in_range_nth: "in_range ss \<Longrightarrow> i < length ss \<Longrightarrow> d \<in> set (depends_on (ss ! i)) \<Longrightarrow> d < length ss"
  by (auto simp: in_range_def)

text \<open>Every outcome of the ordering, by what is left when no step is ready.\<close>

lemma order_cases:
  obtains (ok) order where "workflow_order w = Ret (Inr order)" "mset order = mset [0 ..< length (steps w)]"
      "topological (steps w) order"
  | (stuck) left where "workflow_order w = Ret (Inl (Cycle left))" "left \<noteq> []" "set left \<subseteq> {..< length (steps w)}"
      "\<And>i. i \<in> set left \<Longrightarrow> \<exists>d \<in> set (depends_on (steps w ! i)). length (steps w) \<le> d \<or> d \<in> set left"
proof -
  let ?ss = "steps w"
  obtain remaining order where k: "kahn (dependents_table ?ss) (map (\<lambda>s. length (depends_on s)) ?ss)
      (filter (\<lambda>i. map (\<lambda>s. length (depends_on s)) ?ss ! i = 0) [0 ..< length ?ss]) [] = Ret order"
    and inv: "kahn_inv ?ss remaining [] order"
    using kahn_result [OF kahn_inv_initial] by blast
  have o: "distinct order" "set order \<subseteq> {..< length ?ss}" "topological ?ss order"
    "\<And>i. i < length ?ss \<Longrightarrow> i \<notin> set order \<Longrightarrow> open_deps ?ss order i \<noteq> 0"
    using inv by (auto simp: kahn_inv_def)
  show thesis
  proof (cases "length order = length ?ss")
    case True
    then have "card (set order) = card {..< length ?ss}" using distinct_card [OF o(1)] by simp
    then have "set order = {..< length ?ss}" using o(2) by (intro card_subset_eq) auto
    then have "mset order = mset [0 ..< length ?ss]"
      using mset_set_set [OF o(1)] by (simp add: lessThan_atLeast0)
    then show thesis using k True o(3) by (intro ok) (auto simp: workflow_order_def Let_def)
  next
    case False
    define left where "left = filter (\<lambda>i. i \<notin> set order) [0 ..< length ?ss]"
    have "left \<noteq> []"
    proof
      assume "left = []"
      then have "set order = {..< length ?ss}" using o(2) by (auto simp: left_def filter_empty_conv)
      then show False using distinct_card [OF o(1)] False by simp
    qed
    moreover have "\<exists>d \<in> set (depends_on (?ss ! i)). length ?ss \<le> d \<or> d \<in> set left" if "i \<in> set left" for i
    proof -
      have "\<not> set (depends_on (?ss ! i)) \<subseteq> set order"
        using o(4) [of i] that open_deps_0 [of ?ss order i] by (auto simp: left_def)
      then show ?thesis by (auto simp: left_def not_le)
    qed
    ultimately show thesis
      using k False by (intro stuck [of left]) (auto simp: workflow_order_def Let_def left_def)
  qed
qed

lemma stuck_not_acyclic:
  assumes "xs \<noteq> []" "\<And>i. i \<in> set xs \<Longrightarrow> \<exists>d. (d, i) \<in> r \<and> d \<in> set xs"
  shows "\<not> acyclic r"
proof
  assume "acyclic r"
  then have "acyclic (r \<inter> set xs \<times> set xs)" by (rule acyclic_subset) auto
  then have w: "wf (r \<inter> set xs \<times> set xs)" by (intro finite_acyclic_wf) auto
  obtain x where "x \<in> set xs" using assms(1) by (cases xs) auto
  then obtain m where m: "m \<in> set xs" "\<And>y. (y, m) \<in> r \<inter> set xs \<times> set xs \<Longrightarrow> y \<notin> set xs"
    using wfE_min [OF w, of x "set xs"] by blast
  obtain d where d: "(d, m) \<in> r" "d \<in> set xs" using assms(2) [OF m(1)] by blast
  then have "(d, m) \<in> r \<inter> set xs \<times> set xs" using m(1) by blast
  then show False using m(2) d(2) by blast
qed

lemma topological_acyclic:
  assumes "topological ss order" "distinct order" "set order = {..< length ss}"
  shows "acyclic (before ss)"
proof -
  define pos where "pos i = (THE k. k < length order \<and> order ! k = i)" for i
  have pos: "pos (order ! k) = k" if "k < length order" for k
    unfolding pos_def using that assms(2) by (auto intro!: the_equality simp: nth_eq_iff_index_eq)
  have "pos d < pos i" if "(d, i) \<in> before ss" for d i
  proof -
    from that have i: "i \<in> set order" "d \<in> set (depends_on (ss ! i))" using assms(3) by (auto simp: before_def)
    then obtain k where k: "k < length order" "order ! k = i" by (auto simp: in_set_conv_nth)
    then have "d \<in> set (take k order)" using assms(1) i(2) by (auto simp: topological_def)
    then obtain j where "j < k" "order ! j = d" using k(1) by (auto simp: in_set_conv_nth)
    then show ?thesis using pos k by (metis less_trans)
  qed
  then have "before ss \<subseteq> inv_image less_than pos" by auto
  then show ?thesis by (meson acyclic_subset wf_acyclic wf_inv_image wf_less_than)
qed

lemma kahn_inv_done:
  assumes "kahn_inv ss remaining [] order" "in_range ss" "acyclic (before ss)"
  shows "set order = {..< length ss}"
proof (rule ccontr)
  let ?left = "filter (\<lambda>i. i \<notin> set order) [0 ..< length ss]"
  assume "set order \<noteq> {..< length ss}"
  then have "?left \<noteq> []" using assms(1) by (auto simp: kahn_inv_def filter_empty_conv)
  moreover have "\<exists>d. (d, i) \<in> before ss \<and> d \<in> set ?left" if "i \<in> set ?left" for i
  proof -
    have "i < length ss" "\<not> set (depends_on (ss ! i)) \<subseteq> set order"
      using that assms(1) open_deps_0 [of ss order i] by (auto simp: kahn_inv_def)
    then show ?thesis using in_range_nth [OF assms(2)] by (auto simp: before_def)
  qed
  ultimately show False using stuck_not_acyclic [of ?left "before ss"] assms(3) by blast
qed

section \<open>Properties\<close>

text \<open>
  C9. When all dependencies are in range, ordering succeeds exactly when the dependency
  relation is acyclic; the order then contains every step exactly once and each step after
  everything it depends on. It never panics, and otherwise reports a nonempty set of steps,
  each of which waits for another of them.
\<close>

theorem order_correct:
  assumes "in_range (steps w)"
  shows "case workflow_order w of
      Panic \<Rightarrow> False
    | Ret (Inr order) \<Rightarrow> acyclic (before (steps w)) \<and> mset order = mset [0 ..< length (steps w)] \<and>
        (\<forall>k < length order. set (depends_on (steps w ! (order ! k))) \<subseteq> set (take k order))
    | Ret (Inl e) \<Rightarrow> \<not> acyclic (before (steps w)) \<and>
        (\<exists>left. e = Cycle left \<and> left \<noteq> [] \<and>
           (\<forall>i \<in> set left. \<exists>d \<in> set left. (d, i) \<in> before (steps w)))"
proof (cases rule: order_cases [of w])
  case (ok order)
  have "distinct order" using mset_eq_imp_distinct_iff [OF ok(2)] by simp
  moreover have "set order = {..< length (steps w)}"
    using mset_eq_setD [OF ok(2)] by (simp only: set_upt lessThan_atLeast0)
  ultimately show ?thesis
    using ok(1) ok(2) ok(3) topological_acyclic [OF ok(3)] unfolding topological_def by (simp del: mset_upt)
next
  case (stuck left)
  have waits: "\<exists>d \<in> set left. (d, i) \<in> before (steps w)" if "i \<in> set left" for i
    using stuck(3,4) that in_range_nth [OF assms, of i] by (fastforce simp: before_def)
  have "\<not> acyclic (before (steps w))"
    by (rule stuck_not_acyclic [OF stuck(2)]) (use waits in \<open>blast\<close>)
  then show ?thesis using stuck(1,2) waits by simp
qed

theorem order_correct_witness:
  "(let t = task_new (TaskId 1) ''k'' [];
        w = \<lparr>wf_id = WorkflowId 1, steps = [step_after t [1, 2], step_after t [2], step_new t]\<rparr>
    in workflow_order w = Ret (Inr [2, 1, 0]) \<and> acyclic (before (steps w)))"
proof -
  define t where "t = task_new (TaskId 1) ''k'' []"
  define w where "w = \<lparr>wf_id = WorkflowId 1, steps = [step_after t [1, 2], step_after t [2], step_new t]\<rparr>"
  have "workflow_order w = Ret (Inr [2, 1, 0])" unfolding w_def t_def by code_simp
  moreover have "in_range (steps w)" unfolding w_def t_def by code_simp
  ultimately show ?thesis
    using order_correct [of w] by (simp add: Let_def w_def t_def)
qed

lemma check_dependencies_None:
  "check_dependencies n i ds = None \<longleftrightarrow> (\<forall>d \<in> set ds. d \<noteq> i \<and> d < n)"
  by (induction ds) auto

lemma check_steps_None:
  "check_steps n i ss = None \<longleftrightarrow> (\<forall>k < length ss. \<forall>d \<in> set (depends_on (ss ! k)). d \<noteq> i + k \<and> d < n)"
proof (induction ss arbitrary: i)
  case (Cons s ss)
  show ?case
    unfolding length_Cons All_less_Suc2 using Cons [of "Suc i"]
    by (cases "check_dependencies n i (depends_on s)")
      (simp_all add: check_dependencies_None [symmetric])
qed simp

lemma validate_accepts:
  "validate w = Ret (Inr ()) \<longleftrightarrow>
     steps w \<noteq> [] \<and> in_range (steps w) \<and> acyclic (before (steps w))"
  (is "?l \<longleftrightarrow> ?r")
proof -
  have none: "check_steps (length (steps w)) 0 (steps w) = None \<longleftrightarrow>
      in_range (steps w) \<and> (\<forall>i. (i, i) \<notin> before (steps w))"
    unfolding check_steps_None in_range_iff by (auto simp: before_def)
  have self: "(i, i) \<notin> before (steps w)" if "acyclic (before (steps w))" for i
    using that by (auto simp: acyclic_def)
  show ?thesis
  proof (cases "steps w \<noteq> [] \<and> check_steps (length (steps w)) 0 (steps w) = None")
    case True
    then have ir: "in_range (steps w)" using none by blast
    have "?l \<longleftrightarrow> (\<exists>order. workflow_order w = Ret (Inr order))"
      using True by (auto simp: validate_def split: exec.splits sum.splits)
    also have "\<dots> \<longleftrightarrow> acyclic (before (steps w))"
    proof (cases rule: order_cases [of w])
      case (ok order)
      have "distinct order" using mset_eq_imp_distinct_iff [OF ok(2)] by simp
      moreover have "set order = {..< length (steps w)}"
        using mset_eq_setD [OF ok(2)] by (simp only: set_upt lessThan_atLeast0)
      ultimately show ?thesis using ok(1) topological_acyclic [OF ok(3)] by simp
    next
      case (stuck left)
      have "\<not> acyclic (before (steps w))"
        by (rule stuck_not_acyclic [OF stuck(2)])
          (use stuck(3,4) in_range_nth [OF ir] in \<open>fastforce simp: before_def\<close>)
      then show ?thesis using stuck(1) by simp
    qed
    finally show ?thesis using True ir by blast
  next
    case False
    then show ?thesis using none self by (auto simp: validate_def split: option.splits)
  qed
qed

text \<open>
  A workflow is accepted exactly when it has a step, every dependency exists and the
  dependency relation is acyclic; construction then returns it unchanged.
\<close>

lemma workflow_new_accepts:
  "(\<exists>w. workflow_new i ss = Ret (Inr w)) \<longleftrightarrow>
     ss \<noteq> [] \<and> (\<forall>s \<in> set ss. \<forall>d \<in> set (depends_on s). d < length ss) \<and>
     acyclic {(d, k). k < length ss \<and> d \<in> set (depends_on (ss ! k))}"
  using validate_accepts [of "\<lparr>wf_id = i, steps = ss\<rparr>"]
  by (auto simp: workflow_new_def Let_def in_range_def before_def split: exec.splits sum.splits)

lemma chain_accepted: "ts \<noteq> [] \<Longrightarrow> \<exists>w. chain i ts = Ret (Inr w)"
proof -
  assume ne: "ts \<noteq> []"
  let ?ss = "map (\<lambda>(k, t). if k = 0 then step_new t else step_after t [k - 1]) (enumerated ts)"
  have nth: "depends_on (?ss ! k) = (if k = 0 then [] else [k - 1])" if "k < length ts" for k
    using that by (simp add: enumerated_def step_new_def step_after_def)
  have len: "length ?ss = length ts" by (simp add: enumerated_def)
  have "before ?ss \<subseteq> less_than" using nth unfolding before_def len by (auto split: if_splits)
  then have "acyclic (before ?ss)" by (meson acyclic_subset wf_acyclic wf_less_than)
  moreover have "in_range ?ss"
    unfolding in_range_iff len using nth by (auto split: if_splits)
  ultimately have "validate \<lparr>wf_id = i, steps = ?ss\<rparr> = Ret (Inr ())"
    using validate_accepts [of "\<lparr>wf_id = i, steps = ?ss\<rparr>"] ne len by auto
  then show ?thesis by (simp add: chain_def workflow_new_def)
qed

text \<open>
  The report of a cycle also names steps that only wait for one: here the last step is in
  no cycle.
\<close>

lemma cycle_names_bystanders:
  "(let t = task_new (TaskId 1) ''k'' [];
        w = \<lparr>wf_id = WorkflowId 1, steps = [step_after t [1], step_after t [0], step_after t [1]]\<rparr>
    in workflow_order w = Ret (Inl (Cycle [0, 1, 2])))"
  by code_simp

section \<open>Waves\<close>

lemma fold_max_ge: "x \<in> set xs \<or> x \<le> a \<Longrightarrow> x \<le> fold max xs (a :: nat)"
proof (induction xs arbitrary: a)
  case (Cons y xs)
  show ?case using Cons.IH [of "max y a"] Cons.prems by (auto simp: le_max_iff_disj)
qed simp

lemma length_depths [simp]: "length (foldl (depth_step w) depth order) = length depth"
  by (induction order arbitrary: depth) (simp_all add: depth_step_def)

lemma depth_respects:
  assumes "topological (steps w) order" "distinct order" "set order \<subseteq> {..< length depth}"
    and "i \<in> set order" "d \<in> set (depends_on (steps w ! i))"
  shows "foldl (depth_step w) depth order ! d < foldl (depth_step w) depth order ! i"
  using assms
proof (induction order arbitrary: i d rule: rev_induct)
  case (snoc x order)
  define D where "D = foldl (depth_step w) depth order"
  define v where "v = fold max (map (\<lambda>d. D ! d + 1) (depends_on (steps w ! x))) 0"
  have final: "foldl (depth_step w) depth (order @ [x]) = D[x := v]"
    by (simp add: D_def v_def depth_step_def)
  have x: "x < length D" "x \<notin> set order" using snoc.prems(2,3) by (auto simp: D_def)
  have top: "topological (steps w) order" "set (depends_on (steps w ! x)) \<subseteq> set order"
    using snoc.prems(1) by (auto simp: topological_snoc)
  show ?case
  proof (cases "i = x")
    case True
    then have d: "d \<in> set (depends_on (steps w ! x))" "d \<noteq> x" using snoc.prems(5) top(2) x(2) by auto
    then have "D ! d + 1 \<le> v" unfolding v_def by (intro fold_max_ge) auto
    then show ?thesis unfolding final using True d(2) x(1) by simp
  next
    case False
    then have i: "i \<in> set order" using snoc.prems(4) by simp
    then obtain k where k: "k < length order" "order ! k = i" by (auto simp: in_set_conv_nth)
    then have "d \<in> set (take k order)" using top(1) snoc.prems(5) by (auto simp: topological_def)
    then have "d \<noteq> x" using x(2) by (auto dest: in_set_takeD)
    moreover have "D ! d < D ! i"
      unfolding D_def using snoc.prems(2,3) by (intro snoc.IH [OF top(1) _ _ i snoc.prems(5)]) auto
    ultimately show ?thesis unfolding final using False by simp
  qed
qed simp

lemma length_place [simp]: "length (place i ls waves) = length waves"
  by (induction i ls waves rule: place.induct) simp_all

lemma set_place:
  "l < length waves \<Longrightarrow>
     set (place i ls waves ! l) = set (waves ! l) \<union> {x. i \<le> x \<and> x < i + length ls \<and> ls ! (x - i) = l}"
proof (induction i ls waves rule: place.induct)
  case (2 i m ls waves)
  have "{x. i \<le> x \<and> x < i + length (m # ls) \<and> (m # ls) ! (x - i) = l} =
      (if m = l then {i} else {}) \<union> {x. Suc i \<le> x \<and> x < Suc i + length ls \<and> ls ! (x - Suc i) = l}"
    by (auto simp: nth_Cons' Suc_diff_Suc le_eq_less_or_eq)
  then show ?case using 2 by (auto simp: nth_list_update)
qed auto

text \<open>
  The waves of a workflow contain every step exactly where it belongs: each step is in
  some wave, and everything it depends on is in a strictly earlier one.
\<close>

lemma waves_respect_dependencies:
  assumes "workflow_waves w = Ret (Inr ws)"
  shows "(\<Union>l < length ws. set (ws ! l)) = {..< length (steps w)} \<and>
    (\<forall>l < length ws. \<forall>i \<in> set (ws ! l). \<forall>d \<in> set (depends_on (steps w ! i)). \<exists>e < l. d \<in> set (ws ! e))"
proof (cases rule: order_cases [of w])
  case (ok order)
  let ?n = "length (steps w)"
  have dist: "distinct order" using mset_eq_imp_distinct_iff [OF ok(2)] by simp
  have set: "set order = {..< ?n}"
    using mset_eq_setD [OF ok(2)] by (simp only: set_upt lessThan_atLeast0)
  define D where "D = foldl (depth_step w) (replicate ?n 0) order"
  have len: "length D = ?n" by (simp add: D_def)
  define m where "m = (if D = [] then 0 else fold max D 0 + 1)"
  have "workflow_waves w = Ret (Inr (place 0 D (replicate m [])))"
    unfolding workflow_waves_def ok(1) D_def m_def Let_def by simp
  then have ws: "ws = place 0 D (replicate m [])" using assms by simp
  have lim: "D ! i < m" if "i < ?n" for i
    using fold_max_ge [of "D ! i" D 0] that len by (auto simp: m_def less_Suc_eq_le)
  have mem: "set (ws ! l) = {i. i < ?n \<and> D ! i = l}" if "l < m" for l
    using set_place [of l "replicate m []" 0 D] that len unfolding ws by auto
  have lower: "D ! d < D ! i \<and> d < ?n" if "i < ?n" "d \<in> set (depends_on (steps w ! i))" for i d
  proof -
    have i: "i \<in> set order" using that(1) set by simp
    then obtain k where "k < length order" "order ! k = i" by (auto simp: in_set_conv_nth)
    then have "d \<in> set order" using ok(3) that(2) by (auto simp: topological_def dest: in_set_takeD)
    then show ?thesis
      using depth_respects [OF ok(3) dist _ i that(2), of "replicate ?n 0"] set by (auto simp: D_def)
  qed
  have lw: "length ws = m" by (simp add: ws)
  show ?thesis
  proof (intro conjI allI impI ballI)
    have "(\<Union>l < m. set (ws ! l)) = (\<Union>l < m. {i. i < ?n \<and> D ! i = l})" using mem by simp
    also have "\<dots> = {..< ?n}" using lim by auto
    finally show "(\<Union>l < length ws. set (ws ! l)) = {..< ?n}" unfolding lw .
    fix l i d assume a: "l < length ws" "i \<in> set (ws ! l)" "d \<in> set (depends_on (steps w ! i))"
    then have i: "i < ?n" "D ! i = l" using mem lw by simp_all
    with lower [OF i(1) a(3)] show "\<exists>e < l. d \<in> set (ws ! e)"
      using mem [of "D ! d"] lim [of d] by auto
  qed
qed (use assms in \<open>simp add: workflow_waves_def\<close>)

end
