(* ===== verification/Checkpoint.thy ===== *)
theory Checkpoint
  imports Workflow
begin

text \<open>
  The journal of finished workflow steps (crates/aether-controller/src/checkpoint.rs). The
  file is its content, or nothing when it cannot be opened. The JSON printer and parser are
  parameters; the theorems use that a printed record has no line break, is not blank and
  parses back, which is what \<^verbatim>\<open>serde_json\<close> documents. The digest is a parameter too.
\<close>

record record_line =
  cp_run :: string
  cp_fingerprint :: string
  cp_step :: nat
  cp_task_id :: task_id
  cp_node_id :: node_id
  cp_output_id :: data_id
  duration_ms :: nat

datatype checkpoint_error = Io | Fingerprint string string string

definition to_le_bytes :: "nat \<Rightarrow> bytes" where
  "to_le_bytes n = map (\<lambda>i. of_nat (n div 256 ^ i)) [0 ..< 8]"

definition step_bytes :: "step \<Rightarrow> bytes" where
  "step_bytes s =
     str_bytes (task_kind (step_task s)) @ [0] @ payload (step_task s) @ [0] @
     concat (map id_bytes (inputs (step_task s))) @ [0] @
     concat (map to_le_bytes (depends_on s)) @ [0]"

definition fingerprint :: "digest \<Rightarrow> workflow \<Rightarrow> string" where
  "fingerprint hash w = data_id_display (hash (concat (map step_bytes (steps w))))"

section \<open>The journal\<close>

type_synonym journal = "string option"

definition newline :: char where
  "newline = char_of (10 :: nat)"

definition append_record :: "(record_line \<Rightarrow> string) \<Rightarrow> journal \<Rightarrow> record_line \<Rightarrow> (checkpoint_error + unit) \<times> journal" where
  "append_record print j r =
     (case j of
        None \<Rightarrow> (Inl Io, None)
      | Some content \<Rightarrow> (Inr (), Some (content @ print r @ [newline])))"

text \<open>\<^verbatim>\<open>BufRead::lines\<close>: the pieces between line breaks, a trailing carriage return dropped.\<close>

definition strip_cr :: "string \<Rightarrow> string" where
  "strip_cr l = (if l \<noteq> [] \<and> last l = char_of (13 :: nat) then butlast l else l)"

fun split_lines :: "string \<Rightarrow> string \<Rightarrow> string list" where
  "split_lines acc [] = (if acc = [] then [] else [acc])"
| "split_lines acc (c # cs) =
     (if c = newline then strip_cr acc # split_lines [] cs else split_lines (acc @ [c]) cs)"

definition journal_records :: "(string \<Rightarrow> record_line option) \<Rightarrow> journal \<Rightarrow> checkpoint_error + record_line list" where
  "journal_records parse j =
     (case j of
        None \<Rightarrow> Inl Io
      | Some content \<Rightarrow> Inr (List.map_filter parse (filter (\<lambda>l. trim l \<noteq> []) (split_lines [] content))))"

fun completed_from ::
    "string \<Rightarrow> string \<Rightarrow> (nat, record_line) hashmap \<Rightarrow> record_line list \<Rightarrow>
       checkpoint_error + (nat, record_line) hashmap" where
  "completed_from run fp fin [] = Inr fin"
| "completed_from run fp fin (r # rs) =
     (if cp_run r \<noteq> run then completed_from run fp fin rs
      else if cp_fingerprint r \<noteq> fp then Inl (Fingerprint run (cp_fingerprint r) fp)
      else completed_from run fp (AList.update (cp_step r) r fin) rs)"

definition completed ::
    "(string \<Rightarrow> record_line option) \<Rightarrow> journal \<Rightarrow> string \<Rightarrow> string \<Rightarrow>
       checkpoint_error + (nat, record_line) hashmap" where
  "completed parse j run fp =
     (case journal_records parse j of Inl e \<Rightarrow> Inl e | Inr rs \<Rightarrow> completed_from run fp [] rs)"

section \<open>What is completed\<close>

lemma completed_from_Inr:
  "completed_from run fp fin rs = Inr m \<Longrightarrow>
     (\<forall>r \<in> set rs. cp_run r = run \<longrightarrow> cp_fingerprint r = fp) \<and>
     map_of m = fold (\<lambda>r m. if cp_run r = run then m(cp_step r \<mapsto> r) else m) rs (map_of fin)"
proof (induction run fp fin rs rule: completed_from.induct)
  case (2 run fp fin r rs)
  show ?case
  proof (cases "cp_run r = run")
    case True
    with 2(3) have "cp_fingerprint r = fp" by (auto split: if_splits)
    with True 2(3) have "completed_from run fp (AList.update (cp_step r) r fin) rs = Inr m" by simp
    from 2(2) [OF _ _ this] True \<open>cp_fingerprint r = fp\<close> show ?thesis
      by (simp add: fun_upd_def update_conv')
  next
    case False
    with 2(3) have "completed_from run fp fin rs = Inr m" by simp
    from 2(1) [OF False this] False show ?thesis by simp
  qed
qed simp

lemma fold_last_wins:
  assumes "fold (\<lambda>r m. if cp_run r = run then m(cp_step r \<mapsto> r) else m) rs m0 k = Some r"
  shows "m0 k = Some r \<or> (r \<in> set rs \<and> cp_run r = run \<and> cp_step r = k)"
  using assms by (induction rs arbitrary: m0) (fastforce split: if_splits)+

lemma completed_sound:
  assumes "completed parse j run fp = Inr m" "map_of m k = Some r"
  shows "cp_run r = run \<and> cp_fingerprint r = fp \<and> cp_step r = k"
proof -
  from assms(1) obtain rs where rs: "completed_from run fp [] rs = Inr m"
    by (auto simp: completed_def split: sum.splits)
  from completed_from_Inr [OF rs] have "\<forall>r \<in> set rs. cp_run r = run \<longrightarrow> cp_fingerprint r = fp"
    and m: "fold (\<lambda>r m. if cp_run r = run then m(cp_step r \<mapsto> r) else m) rs Map.empty k = Some r"
    using assms(2) by auto
  then show ?thesis using fold_last_wins [OF m] by auto
qed

section \<open>Appending and reading back\<close>

lemma split_lines_append:
  "newline \<notin> set l \<Longrightarrow> split_lines acc (l @ newline # rest) = strip_cr (acc @ l) # split_lines [] rest"
  by (induction l arbitrary: acc) auto

lemma split_lines_complete:
  "content = [] \<or> last content = newline \<Longrightarrow>
     split_lines acc (content @ rest) = (if content = [] then split_lines acc rest else split_lines acc content @ split_lines [] rest)"
proof (induction content arbitrary: acc)
  case (Cons c cs)
  show ?case
  proof (cases "cs = []")
    case True
    then show ?thesis using Cons.prems by simp
  next
    case False
    then show ?thesis using Cons by simp
  qed
qed simp

text \<open>
  What is appended to a journal whose last line is complete is read back: the records
  afterwards are those before followed by the new one, whenever the printed record parses
  back and stays on one line.
\<close>

lemma journal_append_reads_back:
  assumes rt: "parse (print r) = Some r"
    and line: "newline \<notin> set (print r) \<and> trim (print r) \<noteq> [] \<and> strip_cr (print r) = print r"
    and "content = [] \<or> last content = newline" "journal_records parse (Some content) = Inr rs"
  shows "journal_records parse (snd (append_record print (Some content) r)) = Inr (rs @ [r])"
proof -
  have "split_lines [] (content @ print r @ [newline]) = split_lines [] content @ [print r]"
    using split_lines_complete [OF assms(3), of "[]" "print r @ [newline]"]
      split_lines_append [of "print r" "[]" "[]"] line by simp
  then show ?thesis
    using assms(4) rt line by (simp add: append_record_def journal_records_def map_filter_def)
qed

definition sample_record :: record_line where
  "sample_record = \<lparr>cp_run = ''nightly'', cp_fingerprint = ''f'', cp_step = 0, cp_task_id = TaskId 1,
     cp_node_id = NodeId 1, cp_output_id = DataId [], duration_ms = 5\<rparr>"

definition sample_print :: "record_line \<Rightarrow> string" where
  "sample_print r = ''r''"

definition sample_parse :: "string \<Rightarrow> record_line option" where
  "sample_parse l = (if l = ''r'' then Some sample_record else None)"

text \<open>
  A line torn by a crash has no line break, so the next record is written behind it: both
  are one unreadable line and the second record is lost as well.
\<close>

lemma torn_line_swallows_next:
  "journal_records sample_parse (snd (append_record sample_print (Some ''{'') sample_record)) = Inr []"
  by code_simp

text \<open>
  Resuming is restricted to the recorded run: every step reported as completed was
  recorded under that run name and that fingerprint, under its own index; and one record of
  the run with another fingerprint refuses the whole journal.
\<close>

lemma completed_matches_run:
  assumes "journal_records parse j = Inr rs"
  shows "case completed parse j run fp of
      Inr m \<Rightarrow> (\<forall>k r. map_of m k = Some r \<longrightarrow> cp_run r = run \<and> cp_fingerprint r = fp \<and> cp_step r = k) \<and>
        (\<forall>r \<in> set rs. cp_run r = run \<longrightarrow> cp_fingerprint r = fp)
    | Inl e \<Rightarrow> \<exists>r \<in> set rs. cp_run r = run \<and> cp_fingerprint r \<noteq> fp \<and> e = Fingerprint run (cp_fingerprint r) fp"
proof -
  have err: "completed_from run fp m rs = Inl e \<Longrightarrow>
      \<exists>r \<in> set rs. cp_run r = run \<and> cp_fingerprint r \<noteq> fp \<and> e = Fingerprint run (cp_fingerprint r) fp" for m e
    by (induction run fp m rs rule: completed_from.induct) (auto split: if_splits)
  show ?thesis
  proof (cases "completed parse j run fp")
    case (Inl e)
    then show ?thesis using assms err by (simp add: completed_def)
  next
    case (Inr m)
    then have "completed_from run fp [] rs = Inr m" using assms by (simp add: completed_def)
    then show ?thesis using completed_from_Inr completed_sound [OF Inr] Inr by simp
  qed
qed

text \<open>
  The fingerprint runs the fields together with separators the fields may contain, so two
  different workflows can share it.
\<close>

lemma fingerprint_collides:
  assumes "t1 = task_new (TaskId 1) (''a'' @ [char_of (0::nat)] @ ''b'') []" "t2 = task_new (TaskId 1) ''a'' [98, 0]"
  shows "fingerprint hash \<lparr>wf_id = i, steps = [step_new t1]\<rparr> = fingerprint hash \<lparr>wf_id = i, steps = [step_new t2]\<rparr>"
    "task_kind t1 \<noteq> task_kind t2"
  by (simp_all add: assms fingerprint_def step_bytes_def step_new_def task_new_def utf8_def)

end
