(* ===== verification/Dispatch.thy ===== *)
theory Dispatch
  imports Server Scheduler Ledger Checkpoint
begin

text \<open>
  Placing a task on a node (crates/aether-controller/src/dispatch.rs). The trait
  \<^verbatim>\<open>TaskTransport\<close> is a record of functions on a state of its own, so the in-process mesh
  and the real connections are both values of it; the scheduler is a function of the
  catalogue it reads. A submission is one function of the controller's state; its waits are
  the transport's business. What several submissions share, the count of outstanding tasks
  per node, is also stated for any interleaving.
\<close>

section \<open>Transport\<close>

record 't transport =
  t_dispatch :: "'t \<Rightarrow> node_id \<Rightarrow> task \<Rightarrow> (dispatch_error + task_result) \<times> 't"
  t_send_data :: "'t \<Rightarrow> node_id \<Rightarrow> data_descriptor \<Rightarrow> codec \<Rightarrow> bytes \<Rightarrow> (dispatch_error + unit) \<times> 't"
  t_send_manifest :: "'t \<Rightarrow> node_id \<Rightarrow> chunk_manifest \<Rightarrow> (dispatch_error + unit) \<times> 't"
  t_send_chunks ::
    "'t \<Rightarrow> node_id \<Rightarrow> data_id \<Rightarrow> (nat \<times> codec \<times> bytes) list \<Rightarrow> (dispatch_error + unit) \<times> 't"
  t_available :: "'t \<Rightarrow> node_id \<Rightarrow> bool"

text \<open>The default of \<^verbatim>\<open>send_chunks\<close>: one after the other, up to the first failure.\<close>

fun send_chunks_default ::
    "('t \<Rightarrow> node_id \<Rightarrow> data_id \<Rightarrow> nat \<Rightarrow> codec \<Rightarrow> bytes \<Rightarrow> (dispatch_error + unit) \<times> 't) \<Rightarrow>
     't \<Rightarrow> node_id \<Rightarrow> data_id \<Rightarrow> (nat \<times> codec \<times> bytes) list \<Rightarrow> (dispatch_error + unit) \<times> 't" where
  "send_chunks_default send_chunk t n i [] = (Inr (), t)"
| "send_chunks_default send_chunk t n i ((idx, codec, bs) # rest) =
     (case send_chunk t n i idx codec bs of
        (Inl e, t1) \<Rightarrow> (Inl e, t1)
      | (Inr _, t1) \<Rightarrow> send_chunks_default send_chunk t1 n i rest)"

fun is_retryable :: "dispatch_error \<Rightarrow> bool" where
  "is_retryable (Unreachable _ _) = True"
| "is_retryable (Timeout _ _) = True"
| "is_retryable _ = False"

section \<open>State\<close>

record retry_policy =
  max_attempts :: nat
  backoff :: duration

definition retry_default :: retry_policy where
  "retry_default = \<lparr>max_attempts = 3, backoff = from_millis 100\<rparr>"

definition retry_none :: retry_policy where
  "retry_none = \<lparr>max_attempts = 1, backoff = 0\<rparr>"

text \<open>
  \<^verbatim>\<open>transfers\<close> maps a transfer to the number of submissions that hold or await its lock.
\<close>

record controller =
  c_registry :: registry
  c_catalog :: catalog
  c_store :: store
  manifests :: "(data_id, chunk_manifest) hashmap"
  in_flight :: "(node_id, nat) hashmap"
  publish_chunk_size :: nat
  compression :: compression_policy
  reuse_data :: bool
  retry :: retry_policy
  result_cache :: "cache option"
  c_traffic :: traffic
  c_history :: history
  transfers :: "(node_id \<times> data_id, nat) hashmap"
  checkpoint :: "journal option"

definition controller_new :: "catalog \<Rightarrow> controller" where
  "controller_new cat = \<lparr>c_registry = registry_new, c_catalog = cat, c_store = store_new, manifests = [],
     in_flight = [], publish_chunk_size = DEFAULT_CHUNK_SIZE, compression = policy_default, reuse_data = True,
     retry = retry_default, result_cache = None, c_traffic = traffic_new,
     c_history = history_new DEFAULT_HISTORY, transfers = [], checkpoint = None\<rparr>"

definition with_history :: "controller \<Rightarrow> history \<Rightarrow> controller" where
  "with_history c h = c\<lparr>c_history := h\<rparr>"

definition with_checkpoint :: "controller \<Rightarrow> journal \<Rightarrow> controller" where
  "with_checkpoint c j = c\<lparr>checkpoint := Some j\<rparr>"

definition with_compression :: "controller \<Rightarrow> compression_policy \<Rightarrow> controller" where
  "with_compression c p = c\<lparr>compression := p\<rparr>"

definition with_data_reuse :: "controller \<Rightarrow> bool \<Rightarrow> controller" where
  "with_data_reuse c b = c\<lparr>reuse_data := b\<rparr>"

definition with_traffic_stats :: "controller \<Rightarrow> traffic \<Rightarrow> controller" where
  "with_traffic_stats c t = c\<lparr>c_traffic := t\<rparr>"

definition with_retry :: "controller \<Rightarrow> retry_policy \<Rightarrow> controller" where
  "with_retry c r = c\<lparr>retry := r\<rparr>"

definition with_result_cache :: "controller \<Rightarrow> cache \<Rightarrow> controller" where
  "with_result_cache c rc = c\<lparr>result_cache := Some rc\<rparr>"

definition with_chunk_size :: "controller \<Rightarrow> nat \<Rightarrow> controller" where
  "with_chunk_size c n = c\<lparr>publish_chunk_size := if n = 0 then DEFAULT_CHUNK_SIZE else n\<rparr>"

definition register_node :: "controller \<Rightarrow> instant \<Rightarrow> node_info \<Rightarrow> controller" where
  "register_node c now info = c\<lparr>c_registry := snd (register (c_registry c) now info)\<rparr>"

definition sync_registry :: "controller \<Rightarrow> instant \<Rightarrow> node_info list \<Rightarrow> controller" where
  "sync_registry c now nodes =
     c\<lparr>c_registry := fold (\<lambda>info g. snd (register g now info)) nodes registry_new\<rparr>"

definition count_traffic :: "(traffic \<Rightarrow> traffic) \<Rightarrow> controller \<Rightarrow> controller" where
  "count_traffic f c = c\<lparr>c_traffic := f (c_traffic c)\<rparr>"

section \<open>Publishing\<close>

definition publish :: "digest \<Rightarrow> controller \<Rightarrow> bytes \<Rightarrow> data_descriptor \<times> controller" where
  "publish hash c bs =
     (let (d, s1) = put hash (c_store c) bs in
      if publish_chunk_size c < size_bytes d
      then case get s1 (desc_id d) of
             (None, s2) \<Rightarrow> (d, c\<lparr>c_store := s2\<rparr>)
           | (Some b, s2) \<Rightarrow>
               (d, c\<lparr>c_store := s2,
                     manifests := (case map_of (manifests c) (desc_id d) of
                        Some _ \<Rightarrow> manifests c
                      | None \<Rightarrow> AList.update (desc_id d) (manifest_split hash b (publish_chunk_size c)) (manifests c))\<rparr>)
      else (d, c\<lparr>c_store := s1\<rparr>))"

section \<open>Outstanding work\<close>

definition begin_on :: "controller \<Rightarrow> node_id \<Rightarrow> controller" where
  "begin_on c n = c\<lparr>in_flight := AList.update n
     ((case map_of (in_flight c) n of None \<Rightarrow> 0 | Some k \<Rightarrow> k) + 1) (in_flight c)\<rparr>"

definition finished_on :: "controller \<Rightarrow> node_id \<Rightarrow> controller" where
  "finished_on c n =
     (case map_of (in_flight c) n of
        None \<Rightarrow> c
      | Some k \<Rightarrow>
          (if k - 1 = 0 then c\<lparr>in_flight := AList.delete n (in_flight c)\<rparr>
           else c\<lparr>in_flight := AList.update n (k - 1) (in_flight c)\<rparr>))"

definition nodes_with_pending_work :: "controller \<Rightarrow> node_info list" where
  "nodes_with_pending_work c =
     map (\<lambda>node.
       let pending = (case map_of (in_flight c) (info_id node) of None \<Rightarrow> 0 | Some k \<Rightarrow> k) in
       if 0 < pending
       then let share = fdiv f32 (of_nat_f f32 pending) (of_nat_f f32 (max (cpu_cores node) 1))
            in node\<lparr>metrics := metrics_new (fadd f32 (cpu_usage (metrics node)) share)
                 (memory_usage (metrics node)) (memory_total_bytes (metrics node))\<rparr>
       else node) (registry_nodes (c_registry c))"

section \<open>Transfers\<close>

definition transfer_refs :: "controller \<Rightarrow> node_id \<Rightarrow> data_id \<Rightarrow> nat" where
  "transfer_refs c n i = (case map_of (transfers c) (n, i) of None \<Rightarrow> 0 | Some k \<Rightarrow> k)"

definition transfer_lock :: "controller \<Rightarrow> node_id \<Rightarrow> data_id \<Rightarrow> controller" where
  "transfer_lock c n i = c\<lparr>transfers := AList.update (n, i) (transfer_refs c n i + 1) (transfers c)\<rparr>"

text \<open>
  \<^verbatim>\<open>release_transfer\<close> forgets the lock when only the map and this submission refer to it;
  an early return drops the reference without forgetting the lock.
\<close>

definition release_transfer :: "controller \<Rightarrow> node_id \<Rightarrow> data_id \<Rightarrow> controller" where
  "release_transfer c n i =
     (if transfer_refs c n i \<le> 1 then c\<lparr>transfers := AList.delete (n, i) (transfers c)\<rparr>
      else c\<lparr>transfers := AList.update (n, i) (transfer_refs c n i - 1) (transfers c)\<rparr>)"

definition drop_transfer :: "controller \<Rightarrow> node_id \<Rightarrow> data_id \<Rightarrow> controller" where
  "drop_transfer c n i = c\<lparr>transfers := AList.update (n, i) (transfer_refs c n i - 1) (transfers c)\<rparr>"

definition bandwidth_to :: "controller \<Rightarrow> node_id \<Rightarrow> nat option" where
  "bandwidth_to c n =
     (case registry_get (c_registry c) n of None \<Rightarrow> None | Some e \<Rightarrow> bandwidth_bytes_per_sec (e_info e))"

text \<open>The loop of \<^verbatim>\<open>send_chunked\<close> that fills the batch; a slice out of range panics.\<close>

fun chunk_batch ::
    "(bytes \<Rightarrow> bytes) \<Rightarrow> node_id \<Rightarrow> chunk_manifest \<Rightarrow> bytes \<Rightarrow> nat option \<Rightarrow> (nat \<times> data_descriptor) list \<Rightarrow>
     controller \<Rightarrow> (nat \<times> codec \<times> bytes) list exec \<times> controller" where
  "chunk_batch lz4 n m bs bandwidth [] c = (Ret [], c)"
| "chunk_batch lz4 n m bs bandwidth ((idx, d) # rest) c =
     (if reuse_data c \<and> holds (c_catalog c) (desc_id d) n
      then chunk_batch lz4 n m bs bandwidth rest (count_traffic record_chunk_skipped c)
      else case chunk_range m idx of
             None \<Rightarrow> (Panic, c)
           | Some (lo, hi) \<Rightarrow>
               (if hi < lo \<or> length bs < hi then (Panic, c)
                else let (codec, wire) = encode lz4 (compression c) (take (hi - lo) (drop lo bs)) bandwidth;
                         c1 = count_traffic (\<lambda>t. record_sent t (length wire) (size_bytes d))
                                (c\<lparr>c_catalog := record_data (c_catalog c) d n\<rparr>)
                     in (case chunk_batch lz4 n m bs bandwidth rest c1 of
                           (Panic, c2) \<Rightarrow> (Panic, c2)
                         | (Ret batch, c2) \<Rightarrow> (Ret ((idx, codec, wire) # batch), c2))))"

definition send_chunked ::
    "(bytes \<Rightarrow> bytes) \<Rightarrow> 't transport \<Rightarrow> node_id \<Rightarrow> chunk_manifest \<Rightarrow> bytes \<Rightarrow> nat option \<Rightarrow>
     controller \<Rightarrow> 't \<Rightarrow> (dispatch_error + unit) exec \<times> controller \<times> 't" where
  "send_chunked lz4 tr n m bs bandwidth c t =
     (case t_send_manifest tr t n m of
        (Inl e, t1) \<Rightarrow> (Ret (Inl e), c, t1)
      | (Inr _, t1) \<Rightarrow>
          (case chunk_batch lz4 n m bs bandwidth (indexed m) c of
             (Panic, c1) \<Rightarrow> (Panic, c1, t1)
           | (Ret batch, c1) \<Rightarrow>
               if batch = [] then (Ret (Inr ()), c1, t1)
               else let (r, t2) = t_send_chunks tr t1 n (desc_id (m_data m)) batch in (Ret r, c1, t2)))"

text \<open>The transfer of one input the node does not hold, up to crediting it.\<close>

definition send_input ::
    "(bytes \<Rightarrow> bytes) \<Rightarrow> 't transport \<Rightarrow> node_id \<Rightarrow> data_id \<Rightarrow> controller \<Rightarrow> 't \<Rightarrow>
     (dispatch_error + data_descriptor) exec \<times> controller \<times> 't" where
  "send_input lz4 tr n i c t =
     (case get (c_store c) i of
        (None, s) \<Rightarrow> (Ret (Inl (UnknownInput i)), c\<lparr>c_store := s\<rparr>, t)
      | (Some bs, s) \<Rightarrow>
          (let c1 = c\<lparr>c_store := s\<rparr>;
               d = descriptor_new i (length bs);
               bandwidth = bandwidth_to c1 n
           in case map_of (manifests c1) i of
                Some m \<Rightarrow>
                  (case send_chunked lz4 tr n m bs bandwidth c1 t of
                     (Panic, c2, t1) \<Rightarrow> (Panic, c2, t1)
                   | (Ret (Inl e), c2, t1) \<Rightarrow> (Ret (Inl e), c2, t1)
                   | (Ret (Inr _), c2, t1) \<Rightarrow> (Ret (Inr d), c2, t1))
              | None \<Rightarrow>
                  (let (codec, wire) = encode lz4 (compression c1) bs bandwidth in
                   case t_send_data tr t n d codec wire of
                     (Inl e, t1) \<Rightarrow> (Ret (Inl e), c1, t1)
                   | (Inr _, t1) \<Rightarrow>
                       (Ret (Inr d), count_traffic (\<lambda>x. record_sent x (length wire) (size_bytes d)) c1, t1))))"

fun ensure_inputs ::
    "(bytes \<Rightarrow> bytes) \<Rightarrow> 't transport \<Rightarrow> node_id \<Rightarrow> data_id list \<Rightarrow> controller \<Rightarrow> 't \<Rightarrow>
     (dispatch_error + unit) exec \<times> controller \<times> 't" where
  "ensure_inputs lz4 tr n [] c t = (Ret (Inr ()), c, t)"
| "ensure_inputs lz4 tr n (i # rest) c t =
     (let c1 = transfer_lock c n i in
      if reuse_data c1 \<and> holds (c_catalog c1) i n
      then ensure_inputs lz4 tr n rest (release_transfer (count_traffic record_transfer_skipped c1) n i) t
      else case send_input lz4 tr n i c1 t of
             (Panic, c2, t1) \<Rightarrow> (Panic, drop_transfer c2 n i, t1)
           | (Ret (Inl e), c2, t1) \<Rightarrow> (Ret (Inl e), drop_transfer c2 n i, t1)
           | (Ret (Inr d), c2, t1) \<Rightarrow>
               ensure_inputs lz4 tr n rest
                 (release_transfer (c2\<lparr>c_catalog := record_data (c_catalog c2) d n\<rparr>) n i) t1)"

section \<open>Submitting\<close>

definition try_once ::
    "(bytes \<Rightarrow> bytes) \<Rightarrow> 't transport \<Rightarrow> node_id \<Rightarrow> task \<Rightarrow> controller \<Rightarrow> 't \<Rightarrow>
     (dispatch_error + task_result) exec \<times> controller \<times> 't" where
  "try_once lz4 tr n task c t =
     (case ensure_inputs lz4 tr n (inputs task) c t of
        (Panic, c1, t1) \<Rightarrow> (Panic, c1, t1)
      | (Ret (Inl e), c1, t1) \<Rightarrow> (Ret (Inl e), c1, t1)
      | (Ret (Inr _), c1, t1) \<Rightarrow> (let (r, t2) = t_dispatch tr t1 n task in (Ret r, c1, t2)))"

definition record_output :: "digest \<Rightarrow> controller \<Rightarrow> task_result \<Rightarrow> controller" where
  "record_output hash c r =
     (case output_id r of
        None \<Rightarrow> c
      | Some i \<Rightarrow>
          (case result_output r of
             None \<Rightarrow> c
           | Some out \<Rightarrow>
               (let d = descriptor_new i (length out) in
                case insert_data hash (c_store c) d out of
                  (Inl _, s) \<Rightarrow> c\<lparr>c_store := s\<rparr>
                | (Inr _, s) \<Rightarrow> c\<lparr>c_store := s, c_catalog := record_data (c_catalog c) d (res_node_id r)\<rparr>)))"

text \<open>What a returned result leaves behind: history, output, cache.\<close>

definition record_success :: "digest \<Rightarrow> instant \<Rightarrow> controller \<Rightarrow> task \<Rightarrow> task_result \<Rightarrow> controller" where
  "record_success hash now c task r =
     (let c1 = c\<lparr>c_history := history_record (c_history c) now task r\<rparr>;
          c2 = record_output hash c1 r
      in case result_cache c2 of
           None \<Rightarrow> c2
         | Some rc \<Rightarrow> c2\<lparr>result_cache := Some (cache_put hash rc now task r)\<rparr>)"

definition candidates :: "'t transport \<Rightarrow> node_id list \<Rightarrow> controller \<Rightarrow> 't \<Rightarrow> node_info list" where
  "candidates tr unusable c t =
     filter (\<lambda>node. info_id node \<notin> set unusable \<and> t_available tr t (info_id node)) (nodes_with_pending_work c)"

text \<open>
  The loop over the attempts. \<^verbatim>\<open>left\<close> counts the attempts that remain, and the clock gives
  the time at which an attempt returns.
\<close>

fun submit_loop ::
    "digest \<Rightarrow> (bytes \<Rightarrow> bytes) \<Rightarrow> (catalog \<Rightarrow> node_info list \<Rightarrow> task \<Rightarrow> node_id option) \<Rightarrow> 't transport \<Rightarrow>
     (nat \<Rightarrow> instant) \<Rightarrow> task \<Rightarrow> nat \<Rightarrow> node_id list \<Rightarrow> controller \<Rightarrow> 't \<Rightarrow>
     (dispatch_error + task_result) exec \<times> controller \<times> 't" where
  "submit_loop hash lz4 select tr ticks task 0 unusable c t = (Ret (Inl (NoNodeAvailable (task_id task))), c, t)"
| "submit_loop hash lz4 select tr ticks task (Suc left) unusable c t =
     (case select (c_catalog c) (candidates tr unusable c t) task of
        None \<Rightarrow> (Ret (Inl (NoNodeAvailable (task_id task))), c, t)
      | Some n \<Rightarrow>
          (case try_once lz4 tr n task (begin_on c n) t of
             (Panic, c1, t1) \<Rightarrow> (Panic, c1, t1)
           | (Ret (Inr r), c1, t1) \<Rightarrow>
               (Ret (Inr r), record_success hash (ticks left) (finished_on c1 n) task r, t1)
           | (Ret (Inl e), c1, t1) \<Rightarrow>
               (let c2 = finished_on c1 n in
                if 0 < left \<and> is_retryable e
                then submit_loop hash lz4 select tr ticks task left (n # unusable)
                       (count_traffic record_retry (c2\<lparr>c_catalog := forget_node (c_catalog c2) n\<rparr>)) t1
                else (Ret (Inl e), c2, t1))))"

definition submit ::
    "digest \<Rightarrow> (bytes \<Rightarrow> bytes) \<Rightarrow> (catalog \<Rightarrow> node_info list \<Rightarrow> task \<Rightarrow> node_id option) \<Rightarrow> 't transport \<Rightarrow>
     (nat \<Rightarrow> instant) \<Rightarrow> instant \<Rightarrow> task \<Rightarrow> controller \<Rightarrow> 't \<Rightarrow>
     (dispatch_error + task_result) exec \<times> controller \<times> 't" where
  "submit hash lz4 select tr ticks now task c t =
     (let loop = (\<lambda>c. submit_loop hash lz4 select tr ticks task (max_attempts (retry c)) [] c t) in
      case result_cache c of
        None \<Rightarrow> loop c
      | Some rc \<Rightarrow>
          (case cache_get hash rc now task of
             (Some r, rc1) \<Rightarrow> (Ret (Inr r), c\<lparr>result_cache := Some rc1\<rparr>, t)
           | (None, rc1) \<Rightarrow> loop (c\<lparr>result_cache := Some rc1\<rparr>)))"

section \<open>What an attempt leaves alone\<close>

text \<open>
  An attempt touches the catalogue, the counters, the transfer locks and the store's clock;
  the rest of the controller is its frame.
\<close>

definition frame where
  "frame c = (c_registry c, in_flight c, manifests c, retry c, compression c, reuse_data c, publish_chunk_size c)"

definition stored_bytes :: "controller \<Rightarrow> data_id \<Rightarrow> bytes option" where
  "stored_bytes c i = map_option blob_bytes (map_of (blobs (c_store c)) i)"

lemma count_traffic_frame [simp]:
  "frame (count_traffic f c) = frame c" "c_store (count_traffic f c) = c_store c"
  "c_catalog (count_traffic f c) = c_catalog c" "stored_bytes (count_traffic f c) = stored_bytes c"
  "c_registry (count_traffic f c) = c_registry c" "manifests (count_traffic f c) = manifests c"
  "reuse_data (count_traffic f c) = reuse_data c"
  by (simp_all add: count_traffic_def frame_def stored_bytes_def fun_eq_iff)

lemma lock_frame [simp]:
  "frame (transfer_lock c n i) = frame c" "frame (release_transfer c n i) = frame c"
  "frame (drop_transfer c n i) = frame c" "c_store (transfer_lock c n i) = c_store c"
  "c_store (release_transfer c n i) = c_store c" "c_store (drop_transfer c n i) = c_store c"
  "c_catalog (transfer_lock c n i) = c_catalog c" "c_catalog (release_transfer c n i) = c_catalog c"
  "c_catalog (drop_transfer c n i) = c_catalog c" "reuse_data (transfer_lock c n i) = reuse_data c"
  by (simp_all add: frame_def transfer_lock_def release_transfer_def drop_transfer_def)

lemma catalog_update_frame [simp]: "frame (c\<lparr>c_catalog := x\<rparr>) = frame c" "frame (c\<lparr>c_store := s\<rparr>) = frame c"
  by (simp_all add: frame_def)

lemma stored_bytes_store: "c_store c = c_store c' \<Longrightarrow> stored_bytes c = stored_bytes c'"
  by (simp add: stored_bytes_def fun_eq_iff)

lemma chunk_batch_frame:
  "chunk_batch lz4 n m bs bw ks c = (r, c') \<Longrightarrow> frame c' = frame c \<and> c_store c' = c_store c"
proof (induction ks arbitrary: c r c')
  case (Cons k ks)
  from Cons.prems show ?case
    by (cases k) (auto simp: Let_def dest!: Cons.IH split: if_splits option.splits prod.splits exec.splits)
qed simp

lemma get_same: "map_option blob_bytes (map_of (blobs (snd (get s i))) j) = map_option blob_bytes (map_of (blobs s) j)"
  by (simp add: get_def Let_def map_of_touch)

lemma get_budget: "budget (snd (get s i)) = budget s"
  by (simp add: get_def Let_def touch_def split: option.splits)

text \<open>The contract of the store, as the attempt sees it: contents, budget and
  well-formedness do not change.\<close>

definition same_store :: "controller \<Rightarrow> controller \<Rightarrow> bool" where
  "same_store c c' = (stored_bytes c' = stored_bytes c \<and> budget (c_store c') = budget (c_store c) \<and>
     (\<forall>hash. store_inv hash (c_store c) \<longrightarrow> store_inv hash (c_store c')))"

lemma same_store_refl [simp]: "same_store c c"
  by (simp add: same_store_def)

lemma same_store_trans: "same_store a b \<Longrightarrow> same_store b c \<Longrightarrow> same_store a c"
  by (simp add: same_store_def)

lemma same_store_eq: "c_store c' = c_store c \<Longrightarrow> same_store c c'"
  by (simp add: same_store_def stored_bytes_def fun_eq_iff)

lemma get_same_store:
  "get (c_store c) i = (r, s) \<Longrightarrow> r = stored_bytes c i \<and> same_store c (c\<lparr>c_store := s\<rparr>)"
  using get_same [of "c_store c" i] get_budget [of "c_store c" i] fst_get [of "c_store c" i]
    get_inv [of _ "c_store c" i]
  by (auto simp: same_store_def stored_bytes_def fun_eq_iff)

lemma send_chunked_frame:
  "send_chunked lz4 tr n m bs bw c t = (r, c', t') \<Longrightarrow> frame c' = frame c \<and> c_store c' = c_store c"
  by (auto simp: send_chunked_def Let_def dest!: chunk_batch_frame split: prod.splits sum.splits exec.splits if_splits)

lemma same_store_then: "same_store c c' \<Longrightarrow> c_store c'' = c_store c' \<Longrightarrow> same_store c c''"
  using same_store_trans [OF _ same_store_eq] by blast

lemma send_input_frame:
  assumes "send_input lz4 tr n i c t = (r, c', t')"
  shows "frame c' = frame c \<and> same_store c c'"
proof -
  obtain b s where g: "get (c_store c) i = (b, s)" by fastforce
  note st = conjunct2 [OF get_same_store [OF g]]
  show ?thesis
    using assms g st
    by (auto simp: send_input_def Let_def dest!: send_chunked_frame intro: same_store_then
        split: option.splits prod.splits sum.splits exec.splits)
qed

lemma ensure_inputs_frame:
  "ensure_inputs lz4 tr n ins c t = (r, c', t') \<Longrightarrow> frame c' = frame c \<and> same_store c c'"
proof (induction ins arbitrary: c t)
  case (Cons i ins)
  have lock: "same_store c (transfer_lock c n i)" by (rule same_store_eq) simp
  have IH: "frame c' = frame d \<and> same_store c c'"
    if "ensure_inputs lz4 tr n ins d u = (r, c', t')" "same_store c d" for d u
    using Cons.IH [OF that(1)] same_store_trans [OF that(2)] by blast
  have sent: "frame d = frame c \<and> same_store c d"
    if "send_input lz4 tr n i (transfer_lock c n i) t = (q, d, u)" for q d u
    using send_input_frame [OF that] same_store_trans [OF lock] by simp
  show ?case
    using Cons.prems lock
    by (auto simp: Let_def dest!: IH sent intro: same_store_then [of c]
        split: prod.splits exec.splits sum.splits if_splits)
qed simp

lemma try_once_frame:
  "try_once lz4 tr n task c t = (r, c', t') \<Longrightarrow> frame c' = frame c \<and> same_store c c'"
  by (auto simp: try_once_def Let_def dest!: ensure_inputs_frame split: prod.splits exec.splits sum.splits)

section \<open>Which nodes a submission talks to\<close>

text \<open>A transport that also notes the node of every call.\<close>

definition logged :: "'t transport \<Rightarrow> ('t \<times> node_id list) transport" where
  "logged tr =
     \<lparr>t_dispatch = (\<lambda>(t, calls) n task. let (r, t1) = t_dispatch tr t n task in (r, (t1, calls @ [n]))),
      t_send_data = (\<lambda>(t, calls) n d codec bs. let (r, t1) = t_send_data tr t n d codec bs in (r, (t1, calls @ [n]))),
      t_send_manifest = (\<lambda>(t, calls) n m. let (r, t1) = t_send_manifest tr t n m in (r, (t1, calls @ [n]))),
      t_send_chunks = (\<lambda>(t, calls) n i batch. let (r, t1) = t_send_chunks tr t n i batch in (r, (t1, calls @ [n]))),
      t_available = (\<lambda>(t, calls) n. t_available tr t n)\<rparr>"

definition only_calls :: "node_id \<Rightarrow> 't \<times> node_id list \<Rightarrow> 't \<times> node_id list \<Rightarrow> bool" where
  "only_calls n t t' = (\<exists>k. snd t' = snd t @ replicate k n)"

lemma only_calls_refl [simp]: "only_calls n t t"
  by (auto simp: only_calls_def intro: exI [of _ 0])

lemma only_calls_trans: "only_calls n a b \<Longrightarrow> only_calls n b c \<Longrightarrow> only_calls n a c"
  by (auto simp: only_calls_def replicate_add [symmetric])

lemma logged_calls:
  "t_dispatch (logged tr) t n task = (r1, t1) \<Longrightarrow> only_calls n t t1"
  "t_send_data (logged tr) t n d codec bs = (r2, t2) \<Longrightarrow> only_calls n t t2"
  "t_send_manifest (logged tr) t n m = (r2, t2) \<Longrightarrow> only_calls n t t2"
  "t_send_chunks (logged tr) t n i batch = (r2, t2) \<Longrightarrow> only_calls n t t2"
  by (auto simp: logged_def only_calls_def Let_def intro!: exI [of _ "Suc 0"] split: prod.splits)

lemma send_chunked_calls: "send_chunked lz4 (logged tr) n m bs bw c t = (r, c', t') \<Longrightarrow> only_calls n t t'"
  unfolding send_chunked_def Let_def
  by (auto dest!: logged_calls intro: only_calls_trans split: prod.splits sum.splits exec.splits if_splits)

lemma send_input_calls: "send_input lz4 (logged tr) n i c t = (r, c', t') \<Longrightarrow> only_calls n t t'"
  unfolding send_input_def Let_def
  by (auto dest!: logged_calls send_chunked_calls split: prod.splits option.splits sum.splits exec.splits)

lemma ensure_inputs_calls: "ensure_inputs lz4 (logged tr) n ins c t = (r, c', t') \<Longrightarrow> only_calls n t t'"
proof (induction ins arbitrary: c t)
  case (Cons i ins)
  show ?case
    using Cons.prems
    by (auto simp: Let_def dest!: Cons.IH send_input_calls intro: only_calls_trans
        split: prod.splits exec.splits sum.splits if_splits)
qed simp

lemma try_once_calls: "try_once lz4 (logged tr) n task c t = (r, c', t') \<Longrightarrow> only_calls n t t'"
  unfolding try_once_def Let_def
  by (auto dest!: ensure_inputs_calls logged_calls intro: only_calls_trans split: prod.splits exec.splits sum.splits)

section \<open>Counting outstanding work\<close>

text \<open>No node is listed with nothing outstanding, and no node twice.\<close>

definition in_flight_inv :: "controller \<Rightarrow> bool" where
  "in_flight_inv c = (distinct (map fst (in_flight c)) \<and> (\<forall>n. map_of (in_flight c) n \<noteq> Some 0))"

definition outstanding :: "controller \<Rightarrow> node_id \<Rightarrow> nat" where
  "outstanding c n = (case map_of (in_flight c) n of None \<Rightarrow> 0 | Some k \<Rightarrow> k)"

lemma begin_on_inv [inv_intros]: "in_flight_inv c \<Longrightarrow> in_flight_inv (begin_on c n)"
  by (auto simp: in_flight_inv_def begin_on_def distinct_update update_conv')

lemma finished_on_inv [inv_intros]: "in_flight_inv c \<Longrightarrow> in_flight_inv (finished_on c n)"
  by (auto simp: in_flight_inv_def finished_on_def distinct_update distinct_delete update_conv' delete_conv'
      simp del: map_of_eq_Some_iff split: option.splits)

lemma outstanding_begin: "outstanding (begin_on c n) m = (if m = n then Suc (outstanding c n) else outstanding c m)"
  by (simp add: outstanding_def begin_on_def update_conv')

lemma outstanding_finished: "outstanding (finished_on c n) m = (if m = n then outstanding c n - 1 else outstanding c m)"
  by (auto simp: outstanding_def finished_on_def update_conv' delete_conv' split: option.splits)

datatype flight_event = Begins node_id | Ends node_id

fun flight_step :: "controller \<Rightarrow> flight_event \<Rightarrow> controller" where
  "flight_step c (Begins n) = begin_on c n"
| "flight_step c (Ends n) = finished_on c n"

definition begun :: "flight_event list \<Rightarrow> node_id \<Rightarrow> nat" where
  "begun evs n = count_list evs (Begins n)"

definition ended :: "flight_event list \<Rightarrow> node_id \<Rightarrow> nat" where
  "ended evs n = count_list evs (Ends n)"

lemma outstanding_run:
  assumes "\<forall>k \<le> length evs. \<forall>n. ended (take k evs) n \<le> begun (take k evs) n" "in_flight_inv c" "in_flight c = []"
  shows "in_flight_inv (foldl flight_step c evs) \<and>
    outstanding (foldl flight_step c evs) n = begun evs n - ended evs n"
  using assms
proof (induction evs arbitrary: n rule: rev_induct)
  case Nil
  then show ?case by (simp add: outstanding_def begun_def ended_def)
next
  case (snoc e evs)
  have all: "\<forall>k \<le> length evs. \<forall>n. ended (take k evs) n \<le> begun (take k evs) n"
    using snoc.prems(1) by (auto simp: le_Suc_eq dest!: spec)
  have now: "ended (evs @ [e]) m \<le> begun (evs @ [e]) m" for m
    using snoc.prems(1) [rule_format, of "length (evs @ [e])" m] by simp
  have before: "ended evs m \<le> begun evs m" for m
    using all [rule_format, of "length evs" m] by simp
  show ?case
    using snoc.IH [OF all snoc.prems(2,3)] now [of n] before [of n]
    by (cases e) (auto simp: inv_intros outstanding_begin outstanding_finished begun_def ended_def Suc_diff_le)
qed

text \<open>
  Submissions that overlap in any way leave the right count: as long as an attempt ends
  only after it began, the outstanding work of a node is exactly the attempts begun and not
  ended there, and a node with none is not listed at all.
\<close>

lemma in_flight_is_exact:
  assumes "\<forall>k \<le> length evs. \<forall>n. ended (take k evs) n \<le> begun (take k evs) n"
  shows "outstanding (foldl flight_step (controller_new cat) evs) n = begun evs n - ended evs n \<and>
    map_of (in_flight (foldl flight_step (controller_new cat) evs)) n \<noteq> Some 0"
  using outstanding_run [OF assms, of "controller_new cat" n]
  by (auto simp: controller_new_def in_flight_inv_def)

section \<open>Submitting, against the contract of a scheduler\<close>

definition placeable :: "registry \<Rightarrow> task \<Rightarrow> node_id set" where
  "placeable g task =
     {n. \<exists>node \<in> set (registry_nodes g). info_id node = n \<and> satisfies_all (node_labels node) (constraints task)}"

lemma pending_work_nodes:
  "(\<lambda>node. (info_id node, node_labels node)) ` set (nodes_with_pending_work c) =
   (\<lambda>node. (info_id node, node_labels node)) ` set (registry_nodes (c_registry c))"
proof -
  have keep: "(info_id (f node), node_labels (f node)) = (info_id node, node_labels node)"
    if "f = (\<lambda>node. let pending = (case map_of (in_flight c) (info_id node) of None \<Rightarrow> 0 | Some k \<Rightarrow> k) in
       if 0 < pending
       then let share = fdiv f32 (of_nat_f f32 pending) (of_nat_f f32 (max (cpu_cores node) 1))
            in node\<lparr>metrics := metrics_new (fadd f32 (cpu_usage (metrics node)) share)
                 (memory_usage (metrics node)) (memory_total_bytes (metrics node))\<rparr>
       else node)" for f and node :: node_info
    unfolding that Let_def by (simp split: option.splits)
  show ?thesis unfolding nodes_with_pending_work_def set_map image_image keep [OF refl] ..
qed

lemma eligible_candidates:
  "info_id ` set (eligible (candidates tr unusable c t) task) =
   {n \<in> placeable (c_registry c) task. n \<notin> set unusable \<and> t_available tr t n}"
proof -
  have "(\<exists>node \<in> set (nodes_with_pending_work c). info_id node = n \<and> satisfies_all (node_labels node) (constraints task)) \<longleftrightarrow>
      n \<in> placeable (c_registry c) task" for n
    using arg_cong [OF pending_work_nodes [of c], of "\<lambda>S. \<exists>l. (n, l) \<in> S \<and> satisfies_all l (constraints task)"]
    by (auto simp: placeable_def image_iff)
  then have "placeable (c_registry c) task =
      {n. \<exists>node \<in> set (nodes_with_pending_work c). info_id node = n \<and> satisfies_all (node_labels node) (constraints task)}"
    by blast
  then show ?thesis by (auto simp: set_eligible candidates_def image_iff)
qed

lemma frame_parts:
  "frame c' = frame c \<Longrightarrow> c_registry c' = c_registry c" "frame c' = frame c \<Longrightarrow> in_flight c' = in_flight c"
  "frame c' = frame c \<Longrightarrow> outstanding c' n = outstanding c n" "frame c' = frame c \<Longrightarrow> manifests c' = manifests c"
  "frame c' = frame c \<Longrightarrow> retry c' = retry c"
  by (simp_all add: frame_def outstanding_def)

lemma flight_registry [simp]:
  "c_registry (begin_on c n) = c_registry c" "c_registry (finished_on c n) = c_registry c"
  "c_store (begin_on c n) = c_store c" "c_store (finished_on c n) = c_store c"
  "manifests (begin_on c n) = manifests c" "manifests (finished_on c n) = manifests c"
  "c_catalog (begin_on c n) = c_catalog c" "c_catalog (finished_on c n) = c_catalog c"
  by (simp_all add: begin_on_def finished_on_def split: option.splits)

lemma record_success_parts [simp]:
  "c_registry (record_success hash now c task r) = c_registry c"
  "in_flight (record_success hash now c task r) = in_flight c"
  "manifests (record_success hash now c task r) = manifests c"
  by (auto simp: record_success_def record_output_def Let_def split: option.splits prod.splits sum.splits)

text \<open>After an attempt that returned, the outstanding work is as before it.\<close>

lemma attempt_outstanding:
  assumes "try_once lz4 tr n task (begin_on c n) t = (r, c', t')"
  shows "outstanding (finished_on c' n) m = outstanding c m"
  using frame_parts(3) [of c' "begin_on c n"] try_once_frame [OF assms]
  by (simp add: outstanding_finished outstanding_begin)

locale dispatching =
  fixes select :: "catalog \<Rightarrow> node_info list \<Rightarrow> task \<Rightarrow> node_id option"
  assumes select_contract: "scheduler (select cat)"
begin

lemma chosen:
  assumes "select cat (candidates tr unusable c t) task = Some n"
  shows "n \<in> placeable (c_registry c) task" "n \<notin> set unusable" "t_available tr t n"
  using scheduler.select_eligible [OF select_contract assms] unfolding eligible_candidates by auto

lemma chosen_None:
  assumes "select cat (candidates tr unusable c t) task = None" "n \<in> placeable (c_registry c) task" "n \<notin> set unusable"
  shows "\<not> t_available tr t n"
  using scheduler.select_None [OF select_contract, of cat "candidates tr unusable c t" task] assms
    eligible_candidates [of tr unusable c t task] by auto

lemma submit_loop_calls:
  assumes "submit_loop hash lz4 select (logged tr) ticks task left unusable c t = (r, c', t')"
  shows "\<exists>runs. snd t' = snd t @ concat (map (\<lambda>(n, k). replicate k n) runs) \<and> distinct (map fst runs) \<and>
    fst ` set runs \<inter> set unusable = {} \<and> length runs \<le> left \<and> fst ` set runs \<subseteq> placeable (c_registry c) task"
  using assms
proof (induction left arbitrary: unusable c t)
  case (Suc left)
  show ?case
  proof (cases "select (c_catalog c) (candidates (logged tr) unusable c t) task")
    case None
    then show ?thesis using Suc.prems by (auto intro!: exI [of _ "[]"])
  next
    case (Some n)
    obtain q c1 t1 where o: "try_once lz4 (logged tr) n task (begin_on c n) t = (q, c1, t1)"
      by (metis prod_cases3)
    obtain k where k: "snd t1 = snd t @ replicate k n"
      using try_once_calls [OF o] by (auto simp: only_calls_def)
    have reg: "c_registry c1 = c_registry c" using frame_parts(1) [of c1 "begin_on c n"] try_once_frame [OF o] by simp
    note ch = chosen [OF Some]
    show ?thesis
    proof (cases "\<exists>e. q = Ret (Inl e) \<and> 0 < left \<and> is_retryable e")
      case True
      let ?c = "count_traffic record_retry ((finished_on c1 n)\<lparr>c_catalog := forget_node (c_catalog (finished_on c1 n)) n\<rparr>)"
      have "submit_loop hash lz4 select (logged tr) ticks task left (n # unusable) ?c t1 = (r, c', t')"
        using Suc.prems Some o True by (auto simp: Let_def)
      from Suc.IH [OF this] reg obtain runs where "snd t' = snd t1 @ concat (map (\<lambda>(n, k). replicate k n) runs)" "distinct (map fst runs)"
          "fst ` set runs \<inter> set (n # unusable) = {}" "length runs \<le> left" "fst ` set runs \<subseteq> placeable (c_registry c) task"
        by auto
      then show ?thesis using k ch by (intro exI [of _ "(n, k) # runs"]) auto
    next
      case False
      then have "t' = t1"
        using Suc.prems Some o by (auto simp: Let_def split: exec.splits sum.splits if_splits)
      then show ?thesis using k ch by (intro exI [of _ "[(n, k)]"]) auto
    qed
  qed
qed auto

lemma submit_loop_outstanding:
  assumes "submit_loop hash lz4 select tr ticks task left unusable c t = (Ret r, c', t')"
  shows "outstanding c' m = outstanding c m"
  using assms
proof (induction left arbitrary: unusable c t)
  case (Suc left)
  show ?case
  proof (cases "select (c_catalog c) (candidates tr unusable c t) task")
    case (Some n)
    obtain q c1 t1 where o: "try_once lz4 tr n task (begin_on c n) t = (q, c1, t1)" by (metis prod_cases3)
    have "outstanding (finished_on c1 n) m = outstanding c m" by (rule attempt_outstanding [OF o])
    moreover have "outstanding (count_traffic f (d\<lparr>c_catalog := x\<rparr>)) m = outstanding d m"
        "outstanding (record_success hash now d task res) m = outstanding d m" for f x d res now
      by (simp_all add: outstanding_def count_traffic_def)
    ultimately show ?thesis
      using Suc.IH Suc.prems Some o by (auto simp: Let_def split: exec.splits sum.splits if_splits)
  qed (use Suc.prems in auto)
qed auto

end

text \<open>The schedulers an operator can choose, and that each meets the contract.\<close>

datatype scheduler_kind = LeastLoaded | ByLocality | ByScore score_weights

fun select_node :: "scheduler_kind \<Rightarrow> catalog \<Rightarrow> node_info list \<Rightarrow> task \<Rightarrow> node_id option" where
  "select_node LeastLoaded cat = least_loaded_select"
| "select_node ByLocality cat = locality_select cat"
| "select_node (ByScore w) cat = advanced_select cat w"

lemma scheduler_select_node: "scheduler (select_node kind cat)"
  by (cases kind) (simp_all add: least_loaded.scheduler_axioms locality.scheduler_axioms advanced.scheduler_axioms)

interpretation placing: dispatching "select_node kind"
  by (rule dispatching.intro) (rule scheduler_select_node)


section \<open>No submission panics\<close>

text \<open>
  The controller's store has no budget, so what was published stays, and the manifest of a
  dataset was cut from the bytes the store holds.
\<close>

definition controller_inv :: "digest \<Rightarrow> controller \<Rightarrow> bool" where
  "controller_inv hash c =
     (store_inv hash (c_store c) \<and> budget (c_store c) = None \<and>
      (\<forall>i m. map_of (manifests c) i = Some m \<longrightarrow>
         (\<exists>bs n. stored_bytes c i = Some bs \<and> m = manifest_split hash bs n)))"

lemma part_in_bounds:
  assumes "i < length (slice_chunks n bs)" "0 < n"
  shows "i * n + length (slice_chunks n bs ! i) \<le> length bs"
proof -
  have part: "slice_chunks n bs ! i = take n (drop (i * n) bs)" by (rule nth_slice_chunks [OF assms(2,1)])
  have "[] \<notin> set (slice_chunks k xs)" for k and xs :: bytes
    by (induction k xs rule: slice_chunks.induct) (auto simp: slice_chunks.simps)
  then have "slice_chunks n bs ! i \<noteq> []" using assms(1) nth_mem by metis
  then show ?thesis using part by (auto simp: min_def not_le)
qed

lemma chunk_range_in_bounds:
  assumes "(idx, d) \<in> set (indexed (manifest_split hash bs n))"
  shows "\<exists>lo hi. chunk_range (manifest_split hash bs n) idx = Some (lo, hi) \<and> lo \<le> hi \<and> hi \<le> length bs"
proof -
  let ?n = "effective_chunk_size n" let ?parts = "slice_chunks ?n bs"
  from assms obtain i where i: "i < length ?parts" "idx = as_u32 i"
    by (auto simp: indexed_def enumerated_def manifest_split_def Let_def in_set_zip)
  then have lt: "idx < length ?parts" using mod_less_eq_dividend [of i "2 ^ 32"] unfolding as_u32_def by linarith
  have "idx * as_u32 ?n \<le> idx * ?n" by (simp add: as_u32_def)
  then have "idx * as_u32 ?n + length (?parts ! idx) \<le> length bs"
    using part_in_bounds [OF lt effective_chunk_size_pos] by linarith
  then show ?thesis
    using lt by (simp add: chunk_range_def manifest_split_def Let_def descriptor_of_def descriptor_new_def)
qed

lemma chunk_batch_no_panic:
  assumes "set ks \<subseteq> set (indexed m)" "m = manifest_split hash bs k"
  shows "\<exists>batch c'. chunk_batch lz4 n m bs bw ks c = (Ret batch, c')"
  using assms(1)
proof (induction ks arbitrary: c)
  case (Cons a ks)
  obtain idx d where a: "a = (idx, d)" by fastforce
  obtain lo hi where r: "chunk_range m idx = Some (lo, hi)" "lo \<le> hi" "hi \<le> length bs"
    using chunk_range_in_bounds [of idx d hash bs k] Cons.prems a assms(2) by auto
  have IH: "\<exists>batch c'. chunk_batch lz4 n m bs bw ks c = (Ret batch, c')" for c
    using Cons by simp
  obtain codec wire where e: "encode lz4 (compression c) (take (hi - lo) (drop lo bs)) bw = (codec, wire)" by fastforce
  obtain batch c2 where "chunk_batch lz4 n m bs bw ks (count_traffic (\<lambda>t. record_sent t (length wire) (size_bytes d))
      (c\<lparr>c_catalog := record_data (c_catalog c) d n\<rparr>)) = (Ret batch, c2)"
    using IH by blast
  then show ?case using IH r e by (simp add: a)
qed simp

lemma controller_inv_step:
  "controller_inv hash c \<Longrightarrow> frame c' = frame c \<and> same_store c c' \<Longrightarrow> controller_inv hash c'"
  by (auto simp: controller_inv_def same_store_def dest: frame_parts(4))

lemma controller_inv_same: "frame c' = frame c \<Longrightarrow> c_store c' = c_store c \<Longrightarrow> controller_inv hash c \<Longrightarrow> controller_inv hash c'"
  using controller_inv_step same_store_eq by blast

lemma send_input_no_panic:
  assumes "controller_inv hash c"
  shows "\<exists>r c' t'. send_input lz4 tr n i c t = (Ret r, c', t')"
proof -
  obtain b s where g: "get (c_store c) i = (b, s)" by fastforce
  note b = conjunct1 [OF get_same_store [OF g]]
  have sc: "\<exists>r c' t'. send_chunked lz4 tr n m bs bw c1 t = (Ret r, c', t')"
    if bm: "b = Some bs" "map_of (manifests c) i = Some m" for bs m bw c1
  proof -
    obtain bs' k where "stored_bytes c i = Some bs'" "m = manifest_split hash bs' k"
      using assms bm(2) unfolding controller_inv_def by blast
    then have "m = manifest_split hash bs k" using bm(1) b by simp
    then obtain batch c2 where "chunk_batch lz4 n m bs bw (indexed m) c1 = (Ret batch, c2)"
      using chunk_batch_no_panic [OF order_refl] by blast
    then show ?thesis by (auto simp: send_chunked_def Let_def split: prod.splits sum.splits)
  qed
  show ?thesis
  proof (cases "b = None \<or> map_of (manifests c) i = None")
    case True
    then show ?thesis using g by (auto simp: send_input_def Let_def split: option.splits prod.splits sum.splits)
  next
    case False
    then obtain bs m where bm: "b = Some bs" "map_of (manifests c) i = Some m" by auto
    obtain r c2 t2 where "send_chunked lz4 tr n m bs (bandwidth_to (c\<lparr>c_store := s\<rparr>) n) (c\<lparr>c_store := s\<rparr>) t = (Ret r, c2, t2)"
      using sc [OF bm] by blast
    then show ?thesis using g bm by (cases r) (simp_all add: send_input_def)
  qed
qed

lemma ensure_inputs_no_panic:
  "controller_inv hash c \<Longrightarrow> \<exists>r c' t'. ensure_inputs lz4 tr n ins c t = (Ret r, c', t')"
proof (induction ins arbitrary: c t)
  case (Cons i ins)
  have inv: "controller_inv hash (transfer_lock c n i)"
    by (rule controller_inv_same [OF _ _ Cons.prems]) simp_all
  obtain r c2 t1 where s: "send_input lz4 tr n i (transfer_lock c n i) t = (Ret r, c2, t1)"
    using send_input_no_panic [OF inv, of lz4 tr n i t] by blast
  have "controller_inv hash c2"
    using controller_inv_step [OF inv] send_input_frame [OF s] by blast
  then have "controller_inv hash (release_transfer (c2\<lparr>c_catalog := x\<rparr>) n i)" for x
    by (rule controller_inv_same [rotated 2]) simp_all
  moreover have "controller_inv hash (release_transfer (count_traffic f (transfer_lock c n i)) n i)" for f
    by (rule controller_inv_same [OF _ _ inv]) simp_all
  ultimately show ?case
    using Cons.IH s by (cases r) (auto simp: Let_def)
qed simp

lemma try_once_no_panic:
  "controller_inv hash c \<Longrightarrow> \<exists>r c' t'. try_once lz4 tr n task c t = (Ret r, c', t')"
  using ensure_inputs_no_panic [of hash c lz4 tr n "inputs task" t]
  by (fastforce simp: try_once_def Let_def split: prod.splits sum.splits)

text \<open>Storing without a budget keeps every blob that is there.\<close>

lemma store_blob_keeps:
  assumes "budget s = None"
  shows "budget (snd (store_blob s i bs)) = None"
    "map_of (blobs s) j = Some e \<Longrightarrow>
       map_option blob_bytes (map_of (blobs (snd (store_blob s i bs))) j) = Some (blob_bytes e)"
  using assms map_of_touch [of s i j]
  by (auto simp: store_blob_def evict_over_budget_def contains_def Let_def update_conv' touch_def split: option.splits)

lemma insert_data_store:
  "snd (insert_data hash s d bs) = s \<or> hash bs = desc_id d \<and> snd (insert_data hash s d bs) = snd (store_blob s (desc_id d) bs)"
  by (auto simp: insert_data_def insert_evicting_def store_blob_def Let_def descriptor_of_def descriptor_new_def split: prod.splits)

lemma record_output_inv:
  assumes "controller_inv hash c"
  shows "controller_inv hash (record_output hash c r)"
proof -
  have keeps: "controller_inv hash (c\<lparr>c_store := s', c_catalog := x\<rparr>)" if s': "s' = snd (insert_data hash (c_store c) d bs)" for d bs s' x
  proof (cases "s' = c_store c")
    case True
    then show ?thesis using assms by (intro controller_inv_same [OF _ _ assms]) (simp_all add: frame_def)
  next
    case False
    then have b: "hash bs = desc_id d" "s' = snd (store_blob (c_store c) (desc_id d) bs)"
      using insert_data_store [of hash "c_store c" d bs] s' by auto
    have none: "budget (c_store c) = None" and si: "store_inv hash (c_store c)" using assms by (simp_all add: controller_inv_def)
    have "stored_bytes (c\<lparr>c_store := s', c_catalog := x\<rparr>) j = Some z" if "stored_bytes c j = Some z" for j z
      using that store_blob_keeps(2) [OF none, of j _ "desc_id d" bs] b by (auto simp: stored_bytes_def)
    then show ?thesis
      using assms store_blob_keeps(1) [OF none] store_blob_inv [OF si b(1)] b(2)
      by (fastforce simp: controller_inv_def)
  qed
  have keeps1: "controller_inv hash (c\<lparr>c_store := s'\<rparr>)" if "s' = snd (insert_data hash (c_store c) d bs)" for d bs s'
    using keeps [OF that, of "c_catalog c"] by simp
  show ?thesis
    using assms keeps keeps1
    by (auto simp: record_output_def Let_def split: option.splits prod.splits sum.splits) (metis snd_conv)+
qed

lemma record_success_inv:
  assumes "controller_inv hash c"
  shows "controller_inv hash (record_success hash now c task r)"
proof -
  have "controller_inv hash (c\<lparr>c_history := h\<rparr>)" for h
    by (rule controller_inv_same [OF _ _ assms]) (simp_all add: frame_def)
  then have o: "controller_inv hash (record_output hash (c\<lparr>c_history := h\<rparr>) r)" for h
    by (rule record_output_inv)
  have "controller_inv hash (d\<lparr>result_cache := x\<rparr>)" if "controller_inv hash d" for d x
    by (rule controller_inv_same [OF _ _ that]) (simp_all add: frame_def)
  then show ?thesis using o by (simp add: record_success_def Let_def split: option.splits)
qed

lemma flight_inv:
  assumes "controller_inv hash c"
  shows "controller_inv hash (begin_on c n)" "controller_inv hash (finished_on c n)"
  using assms same_store_eq [of "begin_on c n" c] same_store_eq [of "finished_on c n" c]
  by (auto simp: controller_inv_def same_store_def)

lemma submit_loop_safe:
  "controller_inv hash c \<Longrightarrow>
     \<exists>r c' t'. submit_loop hash lz4 select tr ticks task left unusable c t = (Ret r, c', t') \<and> controller_inv hash c'"
proof (induction left arbitrary: unusable c t)
  case (Suc left)
  show ?case
  proof (cases "select (c_catalog c) (candidates tr unusable c t) task")
    case (Some n)
    note b = flight_inv(1) [OF Suc.prems, of n]
    obtain q c1 t1 where o: "try_once lz4 tr n task (begin_on c n) t = (Ret q, c1, t1)"
      using try_once_no_panic [OF b, of lz4 tr n task t] by blast
    have f: "controller_inv hash (finished_on c1 n)"
      using flight_inv(2) [OF controller_inv_step [OF b try_once_frame [OF o]]] .
    let ?c = "count_traffic record_retry ((finished_on c1 n)\<lparr>c_catalog := forget_node (c_catalog (finished_on c1 n)) n\<rparr>)"
    have "controller_inv hash ?c" by (rule controller_inv_same [OF _ _ f]) simp_all
    note next_try = Suc.IH [OF this, of "n # unusable" t1]
    show ?thesis
      using Some o f record_success_inv [OF f] next_try
      by (cases q) (auto simp: Let_def)
  qed (use Suc.prems in auto)
qed auto

section \<open>A working node is found\<close>

text \<open>
  Hypotheses on the transport: it always gets through to one node, and when it fails on
  another it reports that node as unreachable or timed out.
\<close>

definition reliable :: "'t transport \<Rightarrow> node_id \<Rightarrow> bool" where
  "reliable tr g =
     ((\<forall>t. t_available tr t g) \<and> (\<forall>t task. \<exists>r t'. t_dispatch tr t g task = (Inr r, t')) \<and>
      (\<forall>t d codec bs. \<exists>t'. t_send_data tr t g d codec bs = (Inr (), t')) \<and>
      (\<forall>t m. \<exists>t'. t_send_manifest tr t g m = (Inr (), t')) \<and>
      (\<forall>t i batch. \<exists>t'. t_send_chunks tr t g i batch = (Inr (), t')))"

definition fails_retryably :: "'t transport \<Rightarrow> bool" where
  "fails_retryably tr =
     ((\<forall>t n task e t'. t_dispatch tr t n task = (Inl e, t') \<longrightarrow> is_retryable e) \<and>
      (\<forall>t n d codec bs e t'. t_send_data tr t n d codec bs = (Inl e, t') \<longrightarrow> is_retryable e) \<and>
      (\<forall>t n m e t'. t_send_manifest tr t n m = (Inl e, t') \<longrightarrow> is_retryable e) \<and>
      (\<forall>t n i batch e t'. t_send_chunks tr t n i batch = (Inl e, t') \<longrightarrow> is_retryable e))"

lemma fails_retryablyD:
  assumes "fails_retryably tr"
  shows "t_dispatch tr t n task = (Inl e, t') \<Longrightarrow> is_retryable e"
    "t_send_data tr t n d codec bs = (Inl e, t') \<Longrightarrow> is_retryable e"
    "t_send_manifest tr t n m = (Inl e, t') \<Longrightarrow> is_retryable e"
    "t_send_chunks tr t n i batch = (Inl e, t') \<Longrightarrow> is_retryable e"
  using assms unfolding fails_retryably_def by metis+

lemma reliableD:
  assumes "reliable tr n"
  shows "t_available tr t n" "t_dispatch tr t n task \<noteq> (Inl e, t')" "t_send_data tr t n d codec bs \<noteq> (Inl e, t')"
    "t_send_manifest tr t n m \<noteq> (Inl e, t')" "t_send_chunks tr t n i batch \<noteq> (Inl e, t')"
  using assms unfolding reliable_def by (blast, (metis Pair_inject sum.distinct(1))+)

lemma send_chunked_outcome:
  assumes "send_chunked lz4 tr n m bs bw c t = (Ret (Inl e), c', t')"
  shows "fails_retryably tr \<Longrightarrow> is_retryable e" "\<not> reliable tr n"
  using assms unfolding send_chunked_def Let_def
  by (auto dest: fails_retryablyD reliableD split: prod.splits sum.splits exec.splits if_splits)

lemma send_input_outcome:
  assumes "send_input lz4 tr n i c t = (Ret (Inl e), c', t')" "stored_bytes c i \<noteq> None"
  shows "fails_retryably tr \<Longrightarrow> is_retryable e" "\<not> reliable tr n"
proof -
  obtain b s where g: "get (c_store c) i = (b, s)" by fastforce
  then have b: "b \<noteq> None" using get_same_store [OF g] assms(2) by simp
  consider (whole) d codec wire t1 where "t_send_data tr t n d codec wire = (Inl e, t1)"
    | (chunked) m bs bw c1 c2 t1 where "send_chunked lz4 tr n m bs bw c1 t = (Ret (Inl e), c2, t1)"
    using assms(1) g b
    by (auto simp: send_input_def Let_def split: option.splits prod.splits sum.splits exec.splits)
  note sent = this
  show "fails_retryably tr \<Longrightarrow> is_retryable e"
    using sent by cases (auto dest: send_chunked_outcome(1) fails_retryablyD)
  show "\<not> reliable tr n"
    using sent by cases (auto dest: send_chunked_outcome(2) reliableD)
qed

lemma ensure_inputs_outcome:
  assumes "ensure_inputs lz4 tr n ins c t = (Ret (Inl e), c', t')" "\<forall>i \<in> set ins. stored_bytes c i \<noteq> None"
  shows "(fails_retryably tr \<longrightarrow> is_retryable e) \<and> \<not> reliable tr n"
  using assms
proof (induction ins arbitrary: c t)
  case (Cons i ins)
  have lock: "stored_bytes (transfer_lock c n i) = stored_bytes c" by (rule stored_bytes_store) simp
  show ?case
  proof (cases "reuse_data c \<and> holds (c_catalog c) i n")
    case True
    have "stored_bytes (release_transfer (count_traffic f (transfer_lock c n i)) n i) = stored_bytes c" for f
      by (rule stored_bytes_store) simp
    then show ?thesis using Cons True by (simp add: Let_def)
  next
    case False
    obtain q c2 t1 where s: "send_input lz4 tr n i (transfer_lock c n i) t = (q, c2, t1)" by (metis prod_cases3)
    have "stored_bytes (release_transfer (c2\<lparr>c_catalog := x\<rparr>) n i) = stored_bytes c2" for x
      by (rule stored_bytes_store) simp
    moreover have "stored_bytes c2 = stored_bytes c"
      using send_input_frame [OF s] lock by (simp add: same_store_def)
    ultimately have IH: "(fails_retryably tr \<longrightarrow> is_retryable e) \<and> \<not> reliable tr n"
      if "ensure_inputs lz4 tr n ins (release_transfer (c2\<lparr>c_catalog := x\<rparr>) n i) t1 = (Ret (Inl e), c', t')" for x
      using Cons.IH [OF that] Cons.prems(2) by simp
    have "(fails_retryably tr \<longrightarrow> is_retryable e) \<and> \<not> reliable tr n" if "q = Ret (Inl e)"
      using send_input_outcome [OF s [unfolded that]] lock Cons.prems(2) by auto
    then show ?thesis
      using Cons.prems(1) False s IH by (auto simp: Let_def split: exec.splits sum.splits)
  qed
qed simp

lemma try_once_outcome:
  assumes "try_once lz4 tr n task c t = (Ret (Inl e), c', t')" "\<forall>i \<in> set (inputs task). stored_bytes c i \<noteq> None"
  shows "(fails_retryably tr \<longrightarrow> is_retryable e) \<and> \<not> reliable tr n"
  using assms unfolding try_once_def Let_def
  by (auto dest: ensure_inputs_outcome fails_retryablyD reliableD split: prod.splits exec.splits sum.splits)

lemma finite_placeable: "finite (placeable g task)"
  by (rule finite_subset [of _ "info_id ` set (registry_nodes g)"]) (auto simp: placeable_def)

text \<open>While a working node has not been tried, the attempts do not run out.\<close>

lemma attempts_remain:
  assumes "g \<in> placeable reg task" "g \<notin> set unusable" "set unusable \<subseteq> placeable reg task" "distinct unusable"
  shows "length unusable < card (placeable reg task)"
proof -
  have "card (set unusable) < card (placeable reg task)"
    using assms by (intro psubset_card_mono finite_placeable) auto
  then show ?thesis using distinct_card [OF assms(4)] by simp
qed

context dispatching
begin

lemma submit_loop_finds:
  assumes "controller_inv hash c" "reliable tr g" "fails_retryably tr" "g \<in> placeable (c_registry c) task"
    and "g \<notin> set unusable" "distinct unusable" "set unusable \<subseteq> placeable (c_registry c) task"
    and "card (placeable (c_registry c) task) \<le> left + length unusable"
    and "\<forall>i \<in> set (inputs task). stored_bytes c i \<noteq> None"
  shows "\<exists>r c' t'. submit_loop hash lz4 select tr ticks task left unusable c t = (Ret (Inr r), c', t')"
  using assms
proof (induction left arbitrary: unusable c t)
  case 0
  then show ?case using attempts_remain [of g "c_registry c" task unusable] by simp
next
  case (Suc left)
  obtain n where n: "select (c_catalog c) (candidates tr unusable c t) task = Some n"
    using chosen_None Suc.prems reliableD(1) by (metis not_Some_eq)
  note ch = chosen [OF n] and b = flight_inv(1) [OF Suc.prems(1), of n]
  obtain q c1 t1 where o: "try_once lz4 tr n task (begin_on c n) t = (Ret q, c1, t1)"
    using try_once_no_panic [OF b, of lz4 tr n task t] by blast
  have fr: "frame c1 = frame (begin_on c n)" "same_store (begin_on c n) c1"
    using try_once_frame [OF o] by simp_all
  have reg: "c_registry c1 = c_registry c" using frame_parts(1) [OF fr(1)] by simp
  have st: "stored_bytes c1 = stored_bytes c"
    using fr(2) stored_bytes_store [of "begin_on c n" c] by (simp add: same_store_def)
  have inputs: "\<forall>i \<in> set (inputs task). stored_bytes (begin_on c n) i \<noteq> None"
    using Suc.prems(9) stored_bytes_store [of "begin_on c n" c] by simp
  show ?case
  proof (cases q)
    case (Inr r)
    then show ?thesis using n o by simp
  next
    case (Inl e)
    then have e: "is_retryable e" "n \<noteq> g"
      using try_once_outcome [OF o [unfolded Inl] inputs] Suc.prems(2,3) by auto
    define d where
      "d = count_traffic record_retry ((finished_on c1 n)\<lparr>c_catalog := forget_node (c_catalog (finished_on c1 n)) n\<rparr>)"
    have "stored_bytes d = stored_bytes c1" by (rule stored_bytes_store) (simp add: d_def)
    then have s: "stored_bytes d = stored_bytes c" and r: "c_registry d = c_registry c"
      using st reg by (simp_all add: d_def)
    have more: "Suc (length unusable) < card (placeable (c_registry c) task)"
      using attempts_remain [of g "c_registry c" task "n # unusable"] ch e Suc.prems by simp
    have f: "controller_inv hash (finished_on c1 n)"
      using flight_inv(2) [OF controller_inv_step [OF b try_once_frame [OF o]]] .
    have "controller_inv hash d"
      unfolding d_def by (rule controller_inv_same [OF _ _ f]) simp_all
    then have "\<exists>r c' t'. submit_loop hash lz4 select tr ticks task left (n # unusable) d t1 = (Ret (Inr r), c', t')"
      using Suc.prems ch e by (intro Suc.IH) (simp_all add: r s)
    then show ?thesis using n o Inl e more Suc.prems(8) by (simp add: d_def)
  qed
qed

end


section \<open>Histories of the controller\<close>

text \<open>
  What happens to a controller over its life: data is published, tasks are submitted, the
  registry is refreshed, and the server changes the shared catalogue.
\<close>

datatype controller_op =
    CtlPublish bytes
  | CtlSubmit "nat \<Rightarrow> instant" instant task
  | CtlSync instant "node_info list"
  | CtlCatalog holding_op

fun controller_step ::
    "digest \<Rightarrow> (bytes \<Rightarrow> bytes) \<Rightarrow> scheduler_kind \<Rightarrow> 't transport \<Rightarrow> controller_op \<Rightarrow> controller \<times> 't \<Rightarrow>
     (controller \<times> 't) exec" where
  "controller_step hash lz4 kind tr (CtlPublish bs) (c, t) = Ret (snd (publish hash c bs), t)"
| "controller_step hash lz4 kind tr (CtlSubmit ticks now task) (c, t) =
     (case submit hash lz4 (select_node kind) tr ticks now task c t of
        (Panic, _) \<Rightarrow> Panic
      | (Ret _, c1, t1) \<Rightarrow> Ret (c1, t1))"
| "controller_step hash lz4 kind tr (CtlSync now nodes) (c, t) = Ret (sync_registry c now nodes, t)"
| "controller_step hash lz4 kind tr (CtlCatalog op) (c, t) =
     Ret (c\<lparr>c_catalog := catalog_run [op] (c_catalog c)\<rparr>, t)"

fun controller_run ::
    "digest \<Rightarrow> (bytes \<Rightarrow> bytes) \<Rightarrow> scheduler_kind \<Rightarrow> 't transport \<Rightarrow> controller_op list \<Rightarrow> controller \<times> 't \<Rightarrow>
     (controller \<times> 't) exec" where
  "controller_run hash lz4 kind tr [] s = Ret s"
| "controller_run hash lz4 kind tr (op # ops) s =
     (case controller_step hash lz4 kind tr op s of Panic \<Rightarrow> Panic | Ret s1 \<Rightarrow> controller_run hash lz4 kind tr ops s1)"

lemma submit_safe:
  assumes "controller_inv hash c"
  shows "\<exists>r c' t'. submit hash lz4 select tr ticks now task c t = (Ret r, c', t') \<and> controller_inv hash c'"
proof -
  have inv: "controller_inv hash (c\<lparr>result_cache := x\<rparr>)" for x
    by (rule controller_inv_same [OF _ _ assms]) (simp_all add: frame_def)
  show ?thesis
    using submit_loop_safe [OF assms] submit_loop_safe [OF inv] inv
    by (cases "result_cache c") (auto simp: submit_def Let_def split: option.splits prod.splits)
qed

lemma manifest_add:
  assumes "controller_inv hash c" "stored_bytes c i = Some z"
  shows "controller_inv hash (c\<lparr>manifests := AList.update i (manifest_split hash z k) (manifests c)\<rparr>)"
proof -
  have "stored_bytes (c\<lparr>manifests := x\<rparr>) = stored_bytes c" for x by (rule stored_bytes_store) simp
  then show ?thesis using assms by (auto simp: controller_inv_def update_conv')
qed

lemma publish_inv:
  assumes "controller_inv hash c"
  shows "controller_inv hash (snd (publish hash c bs))"
proof -
  let ?s = "snd (store_blob (c_store c) (hash bs) bs)"
  have none: "budget (c_store c) = None" and si: "store_inv hash (c_store c)" using assms by (simp_all add: controller_inv_def)
  have put: "put hash (c_store c) bs = (descriptor_of hash bs, ?s)"
    by (simp add: put_def put_evicting_def Let_def descriptor_of_def descriptor_new_def split: prod.splits)
  have keep: "stored_bytes (c\<lparr>c_store := ?s\<rparr>) j = Some z" if "stored_bytes c j = Some z" for j z
    using that store_blob_keeps(2) [OF none, of j _ "hash bs" bs] by (auto simp: stored_bytes_def)
  have s1: "controller_inv hash (c\<lparr>c_store := ?s\<rparr>)"
    using assms keep store_blob_keeps(1) [OF none] store_blob_inv [OF si refl] by (fastforce simp: controller_inv_def)
  obtain b s2 where g: "get ?s (hash bs) = (b, s2)" by fastforce
  then have "b = stored_bytes (c\<lparr>c_store := ?s\<rparr>) (hash bs)"
    using get_same_store [of "c\<lparr>c_store := ?s\<rparr>" "hash bs"] by simp
  note g = g this
  have ss: "same_store (c\<lparr>c_store := ?s\<rparr>) (c\<lparr>c_store := s2\<rparr>)"
    using get_same_store [of "c\<lparr>c_store := ?s\<rparr>" "hash bs"] g(1) by simp
  then have i2: "controller_inv hash (c\<lparr>c_store := s2\<rparr>)"
    using controller_inv_step [OF s1, of "c\<lparr>c_store := s2\<rparr>"] by simp
  have "controller_inv hash (c\<lparr>c_store := s2, manifests := AList.update (hash bs) (manifest_split hash z k) (manifests c)\<rparr>)"
    if "b = Some z" for z k
    using manifest_add [OF i2, of "hash bs" z k] g(2) that ss by (simp add: same_store_def)
  moreover have "desc_id (descriptor_of hash bs) = hash bs" by (simp add: descriptor_of_def descriptor_new_def)
  ultimately show ?thesis
    using s1 i2 g(1) by (auto simp: publish_def put Let_def split: option.splits)
qed

lemma controller_run_safe:
  "controller_inv hash c \<Longrightarrow> \<exists>c' t'. controller_run hash lz4 kind tr ops (c, t) = Ret (c', t') \<and> controller_inv hash c'"
proof (induction ops arbitrary: c t)
  case (Cons op ops)
  have "\<exists>c1 t1. controller_step hash lz4 kind tr op (c, t) = Ret (c1, t1) \<and> controller_inv hash c1"
  proof (cases op)
    case (CtlSubmit ticks now task)
    then show ?thesis
      using submit_safe [OF Cons.prems, of lz4 "select_node kind" tr ticks now task t] by auto
  next
    case (CtlSync now nodes)
    have "same_store c (sync_registry c now nodes)" by (rule same_store_eq) (simp add: sync_registry_def)
    then show ?thesis
      using CtlSync Cons.prems by (auto simp: controller_inv_def same_store_def sync_registry_def)
  next
    case (CtlCatalog h)
    have "controller_inv hash (c\<lparr>c_catalog := catalog_run [h] (c_catalog c)\<rparr>)"
      by (rule controller_inv_same [OF _ _ Cons.prems]) simp_all
    then show ?thesis using CtlCatalog by simp
  qed (simp add: publish_inv Cons.prems)
  then show ?case using Cons.IH by auto
qed simp


section \<open>Inputs before the task\<close>

lemma chunk_batch_holds:
  "chunk_batch lz4 n m bs bw ks c = (r, c') \<Longrightarrow> holds (c_catalog c) i j \<Longrightarrow> holds (c_catalog c') i j"
proof (induction ks arbitrary: c r c')
  case (Cons k ks)
  from Cons.prems show ?case
    by (cases k) (auto simp: Let_def holds_record dest!: Cons.IH split: if_splits option.splits prod.splits exec.splits)
qed simp

lemma send_input_holds:
  "send_input lz4 tr n x c t = (r, c', t') \<Longrightarrow> holds (c_catalog c) i j \<Longrightarrow> holds (c_catalog c') i j"
  by (auto simp: send_input_def send_chunked_def Let_def dest!: chunk_batch_holds
      split: option.splits prod.splits sum.splits exec.splits if_splits)

lemma send_input_descriptor:
  "send_input lz4 tr n x c t = (Ret (Inr d), c', t') \<Longrightarrow> desc_id d = x"
  by (auto simp: send_input_def Let_def descriptor_new_def split: option.splits prod.splits sum.splits exec.splits)

lemma ensure_inputs_holds:
  "ensure_inputs lz4 tr n ins c t = (r, c', t') \<Longrightarrow> holds (c_catalog c) i j \<Longrightarrow> holds (c_catalog c') i j"
proof (induction ins arbitrary: c t)
  case (Cons x ins)
  from Cons.prems show ?case
    by (auto simp: Let_def holds_record dest!: Cons.IH dest: send_input_holds split: if_splits prod.splits exec.splits sum.splits)
qed simp

lemma inputs_credited:
  "ensure_inputs lz4 tr n ins c t = (Ret (Inr ()), c', t') \<Longrightarrow> i \<in> set ins \<Longrightarrow> holds (c_catalog c') i n"
proof (induction ins arbitrary: c t)
  case (Cons x ins)
  from Cons.prems show ?case
    by (auto simp: Let_def holds_record send_input_descriptor dest: Cons.IH ensure_inputs_holds
        split: if_splits prod.splits exec.splits sum.splits)
qed simp

section \<open>Concrete submissions\<close>

text \<open>A mesh of two nodes of which only the second answers.\<close>

definition half_dead :: "unit transport" where
  "half_dead =
     (let answer = (\<lambda>n. if n = NodeId 2 then Inr () else Inl (Unreachable n ''gone'')) in
      \<lparr>t_dispatch = (\<lambda>t n task. (if n = NodeId 2 then Inr (result_success (task_id task) n [7] 1)
                                   else Inl (Unreachable n ''gone''), t)),
       t_send_data = (\<lambda>t n d codec bs. (answer n, t)), t_send_manifest = (\<lambda>t n m. (answer n, t)),
       t_send_chunks = (\<lambda>t n i batch. (answer n, t)), t_available = (\<lambda>t n. True)\<rparr>)"

definition two_nodes :: "node_info list" where
  "two_nodes = [node_info_new (NodeId 1) ''a'' ''a:1'' 4, node_info_new (NodeId 2) ''b'' ''b:1'' 4]"

definition two_node_controller :: controller where
  "two_node_controller =
     \<lparr>c_registry = fold (\<lambda>info g. snd (register g 0 info)) two_nodes registry_new, c_catalog = catalog_new,
      c_store = store_new, manifests = [], in_flight = [], publish_chunk_size = 1,
      compression = \<lparr>min_size_bytes = 9, fast_link_bytes_per_sec = 1, min_saving = Num False 0\<rparr>,
      reuse_data = True, retry = \<lparr>max_attempts = 3, backoff = 0\<rparr>, result_cache = None, c_traffic = traffic_new,
      c_history = history_new 2, transfers = [], checkpoint = None\<rparr>"

definition small_task :: task where
  "small_task = task_new (TaskId 5) ''sum'' []"

abbreviation retried where
  "retried \<equiv> submit DataId id (select_node LeastLoaded) (logged half_dead) (\<lambda>_. 9) 3 small_task two_node_controller ((), [])"

lemma submit_retries:
  "fst retried = Ret (Inr (result_success (TaskId 5) (NodeId 2) [7] 1))"
  "snd (snd retried) = ((), [NodeId 1, NodeId 2])"
  by code_simp+


lemma two_node_placeable: "placeable (c_registry two_node_controller) small_task = {NodeId 1, NodeId 2}"
  by (auto simp: placeable_def two_node_controller_def two_nodes_def registry_nodes_def register_def
      registry_new_def node_info_new_def small_task_def task_new_def satisfies_all_def)


text \<open>
  A failure that is not retried leaves what \<^verbatim>\<open>send_chunked\<close> recorded before the chunks were
  sent: the catalogue credits the node with chunks that never arrived, so a later
  submission to that node skips them. It also leaves the transfer lock in the map.
\<close>

lemma chunk_batch_credits:
  "chunk_batch lz4 n m bs bw ks c = (Ret batch, c') \<Longrightarrow> (idx, d) \<in> set ks \<Longrightarrow> reuse_data c \<Longrightarrow> holds (c_catalog c') (desc_id d) n"
proof (induction ks arbitrary: c batch)
  case (Cons k ks)
  obtain j x where k: "k = (j, x)" by fastforce
  have "holds (c_catalog c') (desc_id x) n"
    using Cons.prems k chunk_batch_holds
    by (auto simp: Let_def holds_record split: if_splits option.splits prod.splits exec.splits)
  then show ?case
    using Cons.prems k
    by (auto simp: Let_def dest!: Cons.IH split: if_splits option.splits prod.splits exec.splits)
qed simp

lemma failed_send_leaves_credits:
  assumes "send_chunked lz4 tr n m bs bw c t = (Ret (Inl e), c', t')" "t_send_manifest tr t n m = (Inr (), t1)"
    "(idx, d) \<in> set (indexed m)" "reuse_data c"
  shows "holds (c_catalog c') (desc_id d) n"
  using assms chunk_batch_credits [of lz4 n m bs bw "indexed m" c _ c']
  by (auto simp: send_chunked_def split: prod.splits exec.splits if_splits)

lemma failed_submission_leaves_lock:
  "ensure_inputs lz4 tr n ins c t = (Ret (Inl e), c', t') \<Longrightarrow> \<exists>i \<in> set ins. map_of (transfers c') (n, i) \<noteq> None"
proof (induction ins arbitrary: c t)
  case (Cons i ins)
  from Cons.prems show ?case
    by (auto simp: Let_def drop_transfer_def update_conv' dest!: Cons.IH split: if_splits prod.splits exec.splits sum.splits)
qed simp

end
