(* ===== verification/Network.thy ===== *)
theory Network
  imports Dispatch
begin

text \<open>
  The transport over live connections (crates/aether-controller/src/network.rs). While a
  call waits, the rest of the program runs: what it does is a parameter, a function of the
  connections and a state of its own. The outcome of a wait is then read off the connections:
  the waiter was served, it is still registered (the timeout fires), or it was replaced, so
  that its sender is gone. Trace contexts are those of a build without tracing.
\<close>

definition DEFAULT_TASK_TIMEOUT :: duration where
  "DEFAULT_TASK_TIMEOUT = from_secs 30"

definition traceparent :: "string option" where
  "traceparent = None"

record 'w network =
  net_conns :: connections
  net_timeout :: duration
  next_waiter :: waiter
  world_state :: 'w

type_synonym 'w world = "connections \<Rightarrow> 'w \<Rightarrow> connections \<times> 'w"

definition network_new :: "connections \<Rightarrow> 'w \<Rightarrow> 'w network" where
  "network_new c w = \<lparr>net_conns = c, net_timeout = DEFAULT_TASK_TIMEOUT, next_waiter = 0, world_state = w\<rparr>"

definition with_timeout :: "'w network \<Rightarrow> duration \<Rightarrow> 'w network" where
  "with_timeout t d = t\<lparr>net_timeout := d\<rparr>"

section \<open>Printing a duration\<close>

text \<open>The standard library's \<^verbatim>\<open>Debug\<close> of a duration, without a precision.\<close>

fun fraction_digits :: "nat \<Rightarrow> nat \<Rightarrow> string" where
  "fraction_digits 0 fr = []"
| "fraction_digits (Suc k) fr =
     (if fr = 0 then [] else nat_to_string (fr div 10 ^ k) @ fraction_digits k (fr mod 10 ^ k))"

definition fmt_decimal :: "nat \<Rightarrow> nat \<Rightarrow> nat \<Rightarrow> string \<Rightarrow> string" where
  "fmt_decimal whole fr k suffix =
     nat_to_string whole @ (if fr = 0 then [] else ''.'' @ fraction_digits k fr) @ suffix"

definition duration_debug :: "duration \<Rightarrow> string" where
  "duration_debug d =
     (let secs = d div nanos_per_sec; nanos = d mod nanos_per_sec in
      if 0 < secs then fmt_decimal secs nanos 9 ''s''
      else if 1000000 \<le> nanos then fmt_decimal (nanos div 1000000) (nanos mod 1000000) 6 ''ms''
      else if 1000 \<le> nanos then fmt_decimal (nanos div 1000) (nanos mod 1000) 3 (CHR 0xB5 # ''s'')
      else fmt_decimal nanos 0 1 ''ns'')"

section \<open>Operations\<close>

definition net_available :: "'w network \<Rightarrow> node_id \<Rightarrow> bool" where
  "net_available t n = is_connected (net_conns t) n"

definition net_wait :: "'w world \<Rightarrow> 'w network \<Rightarrow> 'w network" where
  "net_wait world t =
     (let (c, w) = world (net_conns t) (world_state t) in t\<lparr>net_conns := c, world_state := w\<rparr>)"

definition net_dispatch ::
    "'w world \<Rightarrow> 'w network \<Rightarrow> node_id \<Rightarrow> task \<Rightarrow> (dispatch_error + task_result) \<times> 'w network" where
  "net_dispatch world t n task =
     (let i = task_id task; w = next_waiter t;
          t1 = t\<lparr>net_conns := expect_result (net_conns t) i w, next_waiter := w + 1\<rparr>
      in case send (net_conns t1) n (TaskAssignment n task traceparent) of
           (Inl e, c) \<Rightarrow> (Inl e, t1\<lparr>net_conns := forget_result c i\<rparr>)
         | (Inr _, c) \<Rightarrow>
             (let t2 = net_wait world (t1\<lparr>net_conns := c\<rparr>) in
              case map_of (delivered (net_conns t2)) w of
                Some r \<Rightarrow> (Inr r, t2)
              | None \<Rightarrow>
                  (if map_of (pending_results (net_conns t2)) i = Some w
                   then (Inl (Timeout n i), t2\<lparr>net_conns := forget_result (net_conns t2) i\<rparr>)
                   else (Inl (Unreachable n ''connection closed before the result arrived''), t2))))"

definition net_send :: "'w network \<Rightarrow> node_id \<Rightarrow> message \<Rightarrow> (dispatch_error + unit) \<times> 'w network" where
  "net_send t n m = (case send (net_conns t) n m of (r, c) \<Rightarrow> (r, t\<lparr>net_conns := c\<rparr>))"

definition net_send_data ::
    "'w network \<Rightarrow> node_id \<Rightarrow> data_descriptor \<Rightarrow> codec \<Rightarrow> bytes \<Rightarrow> (dispatch_error + unit) \<times> 'w network" where
  "net_send_data t n d codec bs = net_send t n (DataTransfer n d codec bs)"

definition net_send_manifest ::
    "'w network \<Rightarrow> node_id \<Rightarrow> chunk_manifest \<Rightarrow> (dispatch_error + unit) \<times> 'w network" where
  "net_send_manifest t n m = net_send t n (DataManifest n m)"

definition net_send_chunk ::
    "'w network \<Rightarrow> node_id \<Rightarrow> data_id \<Rightarrow> nat \<Rightarrow> codec \<Rightarrow> bytes \<Rightarrow> (dispatch_error + unit) \<times> 'w network" where
  "net_send_chunk t n i idx codec bs = net_send t n (DataChunk n i idx codec bs)"

text \<open>The loop that queues the chunks of a batch, up to the first refusal.\<close>

fun queue_chunks ::
    "connections \<Rightarrow> node_id \<Rightarrow> data_id \<Rightarrow> (nat \<times> codec \<times> bytes) list \<Rightarrow> (dispatch_error + unit) \<times> connections" where
  "queue_chunks c n i [] = (Inr (), c)"
| "queue_chunks c n i ((idx, codec, bs) # rest) =
     (case send_bulk c n (DataChunk n i idx codec bs) of
        (Inl e, c1) \<Rightarrow> (Inl e, forget_data c1 n i)
      | (Inr _, c1) \<Rightarrow> queue_chunks c1 n i rest)"

definition not_assembled :: "data_id \<Rightarrow> duration \<Rightarrow> string" where
  "not_assembled i timeout = ''data '' @ data_id_display i @ '' was not assembled within '' @ duration_debug timeout"

definition net_send_chunks ::
    "'w world \<Rightarrow> 'w network \<Rightarrow> node_id \<Rightarrow> data_id \<Rightarrow> (nat \<times> codec \<times> bytes) list \<Rightarrow>
     (dispatch_error + unit) \<times> 'w network" where
  "net_send_chunks world t n i chunks =
     (let w = next_waiter t;
          t1 = t\<lparr>net_conns := expect_data (net_conns t) n i w, next_waiter := w + 1\<rparr>
      in case queue_chunks (net_conns t1) n i chunks of
           (Inl e, c) \<Rightarrow> (Inl e, t1\<lparr>net_conns := c\<rparr>)
         | (Inr _, c) \<Rightarrow>
             (let t2 = net_wait world (t1\<lparr>net_conns := c\<rparr>) in
              if w \<in> set (woken (net_conns t2)) then (Inr (), t2)
              else if map_of (pending_data (net_conns t2)) (n, i) = Some w
              then (Inl (Unreachable n (not_assembled i (net_timeout t))),
                    t2\<lparr>net_conns := forget_data (net_conns t2) n i\<rparr>)
              else (Inl (Unreachable n ''connection closed before the data was assembled''), t2)))"

definition network_transport :: "'w world \<Rightarrow> 'w network transport" where
  "network_transport world =
     \<lparr>t_dispatch = net_dispatch world, t_send_data = net_send_data, t_send_manifest = net_send_manifest,
      t_send_chunks = net_send_chunks world, t_available = net_available\<rparr>"

section \<open>Waiting in vain\<close>

text \<open>
  The end of a connection keeps the waiters of its tasks: with nothing but the connection's
  end happening while the call waits, the call reports a timeout, not an unreachable node.
\<close>

lemma disconnect_is_seen_as_timeout:
  assumes "map_of (senders (net_conns t)) n = Some k" "k \<notin> set (closed (net_conns t))"
    and "next_waiter t \<notin> fst ` set (delivered (net_conns t))"
  shows "fst (net_dispatch (\<lambda>c w. (detach c n, w)) t n task) = Inl (Timeout n (task_id task))"
proof -
  have "map_of (delivered (net_conns t)) (next_waiter t) = None"
    using assms(3) by (simp add: map_of_eq_None_iff)
  then show ?thesis
    using assms(1,2)
    by (simp add: net_dispatch_def Let_def send_def expect_result_def channel_send_def net_wait_def detach_def
        update_conv' del: AList.update.simps)
qed

end
