(* ===== verification/Executor.thy ===== *)
theory Executor
  imports Store Task
begin

text \<open>
  Running a task on a node (crates/aether-agent/src/executor.rs). The sandbox that runs
  WebAssembly modules is a parameter, absent in a build without that feature; the elapsed
  time is an argument. BLAKE3 is incremental, so hashing piece by piece is hashing the
  concatenation.
\<close>

definition MAX_CPU_ITERATIONS :: nat where
  "MAX_CPU_ITERATIONS = 50000000"

definition ECHO :: string where "ECHO = ''echo''"
definition HASH :: string where "HASH = ''hash''"
definition CPU :: string where "CPU = ''cpu''"
definition WASM :: string where "WASM = ''wasm''"

type_synonym sandbox = "bytes \<Rightarrow> bytes \<Rightarrow> bytes list \<Rightarrow> string + bytes"

definition not_present :: "data_id \<Rightarrow> string" where
  "not_present i = ''input '' @ data_id_display i @ '' is not present on this node''"

text \<open>Reading the inputs one after the other, up to the first that is missing.\<close>

fun read_inputs :: "store \<Rightarrow> data_id list \<Rightarrow> (string + bytes list) \<times> store" where
  "read_inputs s [] = (Inr [], s)"
| "read_inputs s (i # rest) =
     (case get s i of
        (None, s1) \<Rightarrow> (Inl (not_present i), s1)
      | (Some bs, s1) \<Rightarrow>
          (case read_inputs s1 rest of
             (Inl e, s2) \<Rightarrow> (Inl e, s2)
           | (Inr found, s2) \<Rightarrow> (Inr (bs # found), s2)))"

definition hash_task :: "digest \<Rightarrow> task \<Rightarrow> store \<Rightarrow> (string + bytes) \<times> store" where
  "hash_task hash t s =
     (case read_inputs s (inputs t) of
        (Inl e, s1) \<Rightarrow> (Inl e, s1)
      | (Inr found, s1) \<Rightarrow> (Inr (id_bytes (hash (payload t @ concat found))), s1))"

definition wasm_task :: "sandbox \<Rightarrow> task \<Rightarrow> store \<Rightarrow> (string + bytes) \<times> store" where
  "wasm_task run t s =
     (case module t of
        None \<Rightarrow> (Inl ''wasm task has no module'', s)
      | Some m \<Rightarrow>
          (case get s m of
             (None, s1) \<Rightarrow> (Inl (''module '' @ data_id_display m @ '' is not present on this node''), s1)
           | (Some code, s1) \<Rightarrow>
               (case read_inputs s1 (filter (\<lambda>i. i \<noteq> m) (inputs t)) of
                  (Inl e, s2) \<Rightarrow> (Inl e, s2)
                | (Inr found, s2) \<Rightarrow> (run code (payload t) found, s2))))"

definition from_le_bytes :: "bytes \<Rightarrow> 64 word" where
  "from_le_bytes bs = foldr (\<lambda>b acc. acc * 256 + of_nat (unat b)) bs 0"

definition word_to_le_bytes :: "64 word \<Rightarrow> bytes" where
  "word_to_le_bytes w = map (\<lambda>i. of_nat (unat w div 256 ^ i)) [0 ..< 8]"

definition cpu_step :: "64 word \<Rightarrow> nat \<Rightarrow> 64 word" where
  "cpu_step acc i = acc * 6364136223846793005 + of_nat i"

fun cpu_loop :: "nat \<Rightarrow> 64 word" where
  "cpu_loop 0 = 0"
| "cpu_loop (Suc i) = cpu_step (cpu_loop i) i"

definition cpu_task :: "bytes \<Rightarrow> string + bytes" where
  "cpu_task p =
     (if length p \<noteq> 8
      then Inl (''cpu task expects an 8 byte iteration count, got '' @ nat_to_string (length p))
      else let iterations = unat (from_le_bytes p) in
        if MAX_CPU_ITERATIONS < iterations
        then Inl (''iteration count '' @ nat_to_string iterations @ '' exceeds the limit of '' @
                  nat_to_string MAX_CPU_ITERATIONS)
        else Inr (word_to_le_bytes (cpu_loop iterations)))"

definition run_kind :: "digest \<Rightarrow> sandbox option \<Rightarrow> task \<Rightarrow> store \<Rightarrow> (string + bytes) \<times> store" where
  "run_kind hash wasm t s =
     (if task_kind t = ECHO then (Inr (payload t), s)
      else if task_kind t = HASH then hash_task hash t s
      else if task_kind t = CPU then (cpu_task (payload t), s)
      else case wasm of
             Some run \<Rightarrow>
               (if task_kind t = WASM then wasm_task run t s
                else (Inl (''unknown task kind: '' @ task_kind t), s))
           | None \<Rightarrow> (Inl (''unknown task kind: '' @ task_kind t), s))"

definition execute ::
    "digest \<Rightarrow> sandbox option \<Rightarrow> node_id \<Rightarrow> task \<Rightarrow> duration \<Rightarrow> store \<Rightarrow> task_result \<times> store" where
  "execute hash wasm n t elapsed s =
     (case run_kind hash wasm t s of
        (Inr out, s1) \<Rightarrow>
          (let (d, s2) = put hash s1 out in (result_produced (task_id t) n out elapsed (desc_id d), s2))
      | (Inl msg, s1) \<Rightarrow> (result_failure (task_id t) n msg elapsed, s1))"

section \<open>What an execution promises\<close>

lemma read_inputs_inv: "store_inv hash s \<Longrightarrow> store_inv hash (snd (read_inputs s ins))"
proof (induction ins arbitrary: s)
  case (Cons i ins)
  then have IH: "read_inputs s' ins = (r, s2) \<Longrightarrow> store_inv hash s' \<Longrightarrow> store_inv hash s2" for s' r s2
    by (metis snd_conv)
  show ?case
    using Cons.prems get_inv [OF Cons.prems, of i]
    by (auto dest: IH split: prod.splits option.splits sum.splits)
qed simp

lemma run_kind_inv: "store_inv hash s \<Longrightarrow> store_inv hash (snd (run_kind hash wasm t s))"
  using read_inputs_inv [of hash s "inputs t"] get_inv [of hash s]
  by (auto simp: run_kind_def hash_task_def wasm_task_def split: prod.splits option.splits sum.splits)
    (metis read_inputs_inv snd_conv)+

lemma read_inputs_missing:
  "fst (read_inputs s ins) = Inl e \<Longrightarrow> \<exists>i \<in> set ins. map_of (blobs s) i = None"
proof (induction ins arbitrary: s)
  case (Cons i ins)
  obtain r s1 where g: "get s i = (r, s1)" by fastforce
  have "r = map_option blob_bytes (map_of (blobs s) i)" using fst_get [of s i] g by simp
  moreover have "map_of (blobs s1) j = None \<longleftrightarrow> map_of (blobs s) j = None" for j
    using map_of_touch [of s i j] g by (auto simp: get_def Let_def)
  ultimately show ?case
    using Cons.prems g Cons.IH [of s1] by (cases "read_inputs s1 ins") (auto split: option.splits sum.splits)
qed simp

section \<open>Little-endian numbers\<close>

lemma le_digits: "foldr (\<lambda>b acc. acc * 256 + unat b) (map (\<lambda>i. of_nat (n div 256 ^ i) :: byte) [0 ..< k]) 0 = n mod 256 ^ k"
proof (induction k arbitrary: n)
  case (Suc k)
  have u: "unat (of_nat m :: byte) = m mod 256" for m by (simp add: unat_of_nat)
  have "map (\<lambda>i. of_nat (n div 256 ^ i) :: byte) [0 ..< Suc k] =
      of_nat n # map (\<lambda>i. of_nat ((n div 256) div 256 ^ i)) [0 ..< k]"
    by (simp add: upt_conv_Cons map_Suc_upt [symmetric] div_mult2_eq del: upt_Suc)
  then have "foldr (\<lambda>b acc. acc * 256 + unat b) (map (\<lambda>i. of_nat (n div 256 ^ i) :: byte) [0 ..< Suc k]) 0 =
      (n div 256) mod 256 ^ k * 256 + n mod 256"
    using Suc [of "n div 256"] by (simp add: u)
  also have "\<dots> = n mod 256 ^ Suc k"
    using mod_mult2_eq [of n 256 "256 ^ k"] by simp
  finally show ?case .
qed simp

lemma from_le_bytes_eq: "from_le_bytes bs = of_nat (foldr (\<lambda>b acc. acc * 256 + unat b) bs 0)"
  by (induction bs) (simp_all add: from_le_bytes_def)

lemma le_bytes_round_trip: "from_le_bytes (word_to_le_bytes w) = w"
proof -
  have "unat w mod 256 ^ 8 = unat w" using unsigned_less [where 'a = nat, of w] by simp
  then show ?thesis unfolding from_le_bytes_eq word_to_le_bytes_def le_digits by simp
qed

section \<open>Properties\<close>

lemma cpu_loop_closed: "cpu_loop n = (\<Sum>i < n. of_nat i * 6364136223846793005 ^ (n - Suc i))"
proof (induction n)
  case (Suc n)
  have "(\<Sum>i < n. of_nat i * 6364136223846793005 ^ (n - Suc i)) * 6364136223846793005 =
      (\<Sum>i < n. of_nat i * 6364136223846793005 ^ (Suc n - Suc i) :: 64 word)"
    unfolding sum_distrib_right by (intro sum.cong) (auto simp: Suc_diff_Suc power_Suc2 mult.assoc simp flip: power_Suc2)
  then show ?case using Suc by (simp add: cpu_step_def)
qed simp

text \<open>
  The arithmetic task computes what it says: for an eight-byte count within the limit
  the result is the polynomial of the loop, modulo two to the 64, written in little-endian
  order so that reading it back gives the number; every other payload is refused.
\<close>

lemma cpu_task_computes:
  "cpu_task p =
     (if length p = 8 \<and> unat (from_le_bytes p) \<le> MAX_CPU_ITERATIONS
      then Inr (word_to_le_bytes (\<Sum>i < unat (from_le_bytes p). of_nat i * 6364136223846793005 ^ (unat (from_le_bytes p) - Suc i)))
      else Inl (if length p \<noteq> 8 then ''cpu task expects an 8 byte iteration count, got '' @ nat_to_string (length p)
                else ''iteration count '' @ nat_to_string (unat (from_le_bytes p)) @ '' exceeds the limit of '' @
                  nat_to_string MAX_CPU_ITERATIONS)) \<and>
   from_le_bytes (word_to_le_bytes w) = w"
  by (auto simp: cpu_task_def Let_def cpu_loop_closed le_bytes_round_trip)

text \<open>
  An execution answers for its task and node, keeps the store well formed, and what it
  reports as produced is in the store under its content address.
\<close>

lemma execute_reports:
  assumes "store_inv hash s" "execute hash wasm n t elapsed s = (r, s')"
  shows "res_task_id r = task_id t \<and> res_node_id r = n \<and> store_inv hash s' \<and>
    (\<forall>out. outcome r = Success out \<longrightarrow> output_id r = Some (hash out) \<and> contains s' (hash out))"
proof -
  obtain q s1 where k: "run_kind hash wasm t s = (q, s1)" by fastforce
  have i1: "store_inv hash s1" using run_kind_inv [OF assms(1), of wasm t] k by simp
  have p: "put hash s1 out = (d, s2) \<Longrightarrow> desc_id d = hash out \<and> contains s2 (hash out) \<and> store_inv hash s2" for out d s2
    using store_blob_kept [of s1 "hash out" out] put_inv [OF i1, of out]
    by (auto simp: put_def put_evicting_def Let_def descriptor_of_def descriptor_new_def contains_def split: prod.splits)
  show ?thesis
    using assms(2) k i1
    by (cases q) (auto simp: execute_def Let_def result_produced_def result_success_def result_failure_def dest!: p split: prod.splits)
qed

end
