(* ===== verification/Pacing.thy ===== *)
theory Pacing
  imports Server
begin

text \<open>
  When an agent speaks up: the gap between heartbeats (crates/aether-agent/src/heartbeat.rs)
  and between attempts to reconnect (crates/aether-agent/src/reconnect.rs), and that the
  pace fits the eviction of the controller.
\<close>

section \<open>Heartbeats\<close>

definition SIGNIFICANT_CHANGE :: fl where
  "SIGNIFICANT_CHANGE = fconst f32 (1 / 20)"

record pacer =
  base :: duration
  ceiling :: duration
  current :: duration
  last_sample :: "node_metrics option"

definition pacer_new :: "duration \<Rightarrow> duration \<Rightarrow> pacer" where
  "pacer_new b c = \<lparr>base = b, ceiling = max c b, current = b, last_sample = None\<rparr>"

definition ceiling_for_timeout :: "duration \<Rightarrow> duration \<Rightarrow> duration" where
  "ceiling_for_timeout b timeout = (if timeout = 0 then b else max (timeout div 2) b)"

definition changed :: "node_metrics \<Rightarrow> node_metrics \<Rightarrow> bool" where
  "changed x y =
     (fle SIGNIFICANT_CHANGE (fabs (fsub f32 (cpu_usage x) (cpu_usage y))) \<or>
      fle SIGNIFICANT_CHANGE (fabs (fsub f32 (memory_usage x) (memory_usage y))))"

definition pacer_record :: "pacer \<Rightarrow> node_metrics \<Rightarrow> bool \<Rightarrow> duration \<times> pacer" where
  "pacer_record p m did_work =
     (let moved = (case last_sample p of None \<Rightarrow> False | Some x \<Rightarrow> changed x m);
          gap = (if did_work \<or> moved then base p else min (current p * 2) (ceiling p))
      in (gap, p\<lparr>last_sample := Some m, current := gap\<rparr>))"

text \<open>The gaps an agent waits: before each heartbeat the current one.\<close>

fun gaps :: "pacer \<Rightarrow> (node_metrics \<times> bool) list \<Rightarrow> duration list" where
  "gaps p [] = [current p]"
| "gaps p ((m, did_work) # rest) = current p # gaps (snd (pacer_record p m did_work)) rest"

lemma gaps_bounds:
  "base p \<le> current p \<Longrightarrow> current p \<le> ceiling p \<Longrightarrow> g \<in> set (gaps p samples) \<Longrightarrow> base p \<le> g \<and> g \<le> ceiling p"
proof (induction p samples rule: gaps.induct)
  case (2 p m did_work rest)
  show ?case
    using "2.prems" "2.IH" by (auto simp: pacer_record_def Let_def split: if_splits)
qed simp

section \<open>Reconnecting\<close>

definition FIRST_DELAY :: duration where
  "FIRST_DELAY = from_secs 1"

text \<open>
  \<^verbatim>\<open>with_reconnect\<close> over the outcomes of the attempts: the waits it made and, once it
  returns, what it returned. Without a return it would go on with the next attempt.
\<close>

fun reconnect_from :: "duration \<Rightarrow> duration \<Rightarrow> ('e + unit) list \<Rightarrow> duration list \<times> ('e + unit) option" where
  "reconnect_from limit delay [] = ([], None)"
| "reconnect_from limit delay (o1 # rest) =
     (if limit = 0 then ([], Some o1)
      else let (waits, r) = reconnect_from limit (min (delay * 2) limit) rest in (delay # waits, r))"

definition with_reconnect :: "duration \<Rightarrow> ('e + unit) list \<Rightarrow> duration list \<times> ('e + unit) option" where
  "with_reconnect limit outcomes = reconnect_from limit FIRST_DELAY outcomes"

lemma capped_doubling: "min (min (d * 2) limit * 2 ^ k) limit = min (d * 2 ^ Suc k) (limit :: nat)"
proof (cases "d * 2 \<le> limit")
  case False
  have "d * 2 \<le> d * 2 * 2 ^ k" and l: "limit \<le> limit * 2 ^ k" by simp_all
  then have "limit \<le> d * 2 * 2 ^ k" using False by linarith
  then have "min (d * 2 ^ Suc k) limit = limit" by (simp add: mult.assoc)
  moreover have "min (d * 2) limit = limit" using False by simp
  ultimately show ?thesis using l by (simp only: min_absorb2)
qed (simp add: min_def mult.assoc)

lemma reconnect_from_waits:
  "0 < limit \<Longrightarrow> reconnect_from limit d outcomes =
     (map (\<lambda>k. if k = 0 then d else min (d * 2 ^ k) limit) [0 ..< length outcomes], None)"
proof (induction outcomes arbitrary: d)
  case (Cons a outcomes)
  have "(if k = 0 then min (d * 2) limit else min (min (d * 2) limit * 2 ^ k) limit) = min (d * 2 ^ Suc k) limit" for k
    using capped_doubling [of d limit k] by simp
  then have "map (\<lambda>k. if k = 0 then min (d * 2) limit else min (min (d * 2) limit * 2 ^ k) limit) [0 ..< length outcomes] =
      map (\<lambda>k. if k = 0 then d else min (d * 2 ^ k) limit) (map Suc [0 ..< length outcomes])"
    by (simp add: comp_def)
  then show ?case
    using Cons.IH [OF Cons.prems, of "min (d * 2) limit"] Cons.prems
    by (simp add: map_Suc_upt upt_conv_Cons del: upt_Suc)
qed simp

text \<open>The first wait is a second even where the operator set a smaller ceiling.\<close>

lemma first_wait_ignores_ceiling: "fst (with_reconnect 1 [Inr (), Inr ()]) = [from_secs 1, 1]"
  by (simp add: with_reconnect_def FIRST_DELAY_def from_secs_def nanos_per_sec_def)

section \<open>The pace fits the eviction\<close>

text \<open>
  Heartbeats are never slower than the controller allows: with the timeout the
  controller announces at registration (in whole seconds) and a base rate of at most half
  of it, every gap an agent ever waits, whatever its load does, lies between the base and
  half the timeout; so a node one of whose heartbeats is lost is not evicted before the
  next one is due.
\<close>

lemma one_lost_heartbeat_is_survived:
  assumes "registry_inv g" "map_of g n = Some e"
    and "reported = from_secs (as_secs timeout)" "2 * b \<le> reported"
    and "p = pacer_new b (ceiling_for_timeout b reported)" "Suc i < length (gaps p samples)"
    and "now \<le> last_seen e + gaps p samples ! i + gaps p samples ! Suc i"
  shows "b \<le> gaps p samples ! i \<and> 2 * (gaps p samples ! i) \<le> timeout \<and> n \<notin> set (stale_nodes g now timeout)"
proof -
  have rep: "reported \<le> timeout"
    using assms(3) by (simp add: from_secs_def as_secs_def)
  have p: "base p = b" "current p = b" "ceiling p = max (ceiling_for_timeout b reported) b" "base p \<le> current p"
      "current p \<le> ceiling p"
    by (simp_all add: assms(5) pacer_new_def)
  have "2 * ceiling p \<le> reported"
    using assms(4) by (auto simp: p ceiling_for_timeout_def)
  moreover have "b \<le> gaps p samples ! k \<and> gaps p samples ! k \<le> ceiling p" if "k < length (gaps p samples)" for k
    using gaps_bounds [OF p(4,5) nth_mem [OF that]] p(1) by simp
  ultimately have "2 * (gaps p samples ! k) \<le> timeout \<and> b \<le> gaps p samples ! k" if "k < length (gaps p samples)" for k
    using that rep by (meson le_trans mult_le_mono2)
  then have "b \<le> gaps p samples ! i" "2 * (gaps p samples ! i) \<le> timeout" "2 * (gaps p samples ! Suc i) \<le> timeout"
    using assms(6) by auto
  moreover from this have "now - last_seen e \<le> timeout" using assms(7) by linarith
  ultimately show ?thesis using stale_nodes_iff [OF assms(1)] assms(2) by auto
qed

end
