(* ===== verification/Agent.thy ===== *)
theory Agent
  imports Connections Executor Pacing
begin

text \<open>
  The agent's side of the connection (crates/aether-agent/src/client.rs): registration, one
  function per message of the controller, the reader of a data channel, and the end of a
  running task. What the agent sends is queued in its outbox; tasks that hold a permit are
  listed as running and finish in any order. Decompression is a parameter.
\<close>

datatype client_error =
    NetFailure
  | UnexpectedReply string
  | NodeIdMismatch node_id
  | Rejected string
  | Disconnected

record agent =
  agent_id :: node_id
  a_store :: store
  a_assembler :: assembler
  a_channel_token :: "string option"
  a_timeout :: duration
  activity :: "64 word"
  permits :: nat
  running :: "(node_id \<times> task) list"
  a_outbox :: "message list"
  a_closed :: bool

section \<open>Registration\<close>

text \<open>
  The reply to a registration. The number of permits, one per logical CPU, is an argument.
\<close>

definition agent_register :: "nat \<Rightarrow> node_info \<Rightarrow> message \<Rightarrow> client_error + agent" where
  "agent_register cpus info reply =
     (case reply of
        RegisterAccepted got token secs \<Rightarrow>
          (if got = info_id info
           then Inr \<lparr>agent_id = info_id info, a_store = store_new, a_assembler = assembler_new,
                     a_channel_token = token, a_timeout = from_secs secs, activity = 0, permits = cpus,
                     running = [], a_outbox = [], a_closed = False\<rparr>
           else Inl (NodeIdMismatch got))
      | RegisterRejected reason \<Rightarrow> Inl (Rejected reason)
      | other \<Rightarrow> Inl (UnexpectedReply (message_kind other)))"

definition with_storage_budget :: "agent \<Rightarrow> nat \<Rightarrow> agent" where
  "with_storage_budget a b = a\<lparr>a_store := with_budget b\<rparr>"

definition with_store :: "agent \<Rightarrow> store \<Rightarrow> agent" where
  "with_store a s = a\<lparr>a_store := s\<rparr>"

definition with_max_concurrent_tasks :: "agent \<Rightarrow> nat \<Rightarrow> agent" where
  "with_max_concurrent_tasks a n = a\<lparr>permits := max n 1\<rparr>"

definition max_concurrent_tasks :: "agent \<Rightarrow> nat" where
  "max_concurrent_tasks a = permits a + length (running a)"

definition emit :: "agent \<Rightarrow> message \<Rightarrow> (client_error + unit) \<times> agent" where
  "emit a m = (if a_closed a then (Inl Disconnected, a) else (Inr (), a\<lparr>a_outbox := a_outbox a @ [m]\<rparr>))"

definition announce_holdings :: "agent \<Rightarrow> (client_error + unit) \<times> agent" where
  "announce_holdings a =
     (let datasets = descriptors (a_store a) in
      if datasets = [] then (Inr (), a) else emit a (DataHeld (agent_id a) datasets))"

definition send_heartbeat :: "agent \<Rightarrow> node_metrics \<Rightarrow> (client_error + unit) \<times> agent" where
  "send_heartbeat a m = emit a (Heartbeat (agent_id a) m)"

section \<open>Messages\<close>

definition report_evictions :: "agent \<Rightarrow> data_id list \<Rightarrow> agent" where
  "report_evictions a ids = (if ids = [] then a else snd (emit a (DataEvicted (agent_id a) ids)))"

definition finish_data :: "digest \<Rightarrow> agent \<Rightarrow> data_id \<Rightarrow> bytes option \<Rightarrow> agent" where
  "finish_data hash a i assembled =
     (case assembled of
        None \<Rightarrow> a
      | Some bs \<Rightarrow>
          (let ((_, evicted), s) = put_evicting hash (a_store a) bs;
               a1 = snd (emit (a\<lparr>a_store := s\<rparr>) (DataReady (agent_id a) i))
           in report_evictions a1 evicted))"

definition on_data_transfer ::
    "digest \<Rightarrow> (bytes \<Rightarrow> bytes option) \<Rightarrow> data_descriptor \<Rightarrow> codec \<Rightarrow> bytes \<Rightarrow> agent \<Rightarrow> agent" where
  "on_data_transfer hash unlz4 d codec wire a =
     (case decompress_with unlz4 codec wire of
        None \<Rightarrow> a
      | Some bs \<Rightarrow>
          (case insert_evicting hash (a_store a) d bs of
             (Inr (True, evicted), s) \<Rightarrow> report_evictions (a\<lparr>a_store := s\<rparr>) evicted
           | (Inr (False, _), s) \<Rightarrow> a\<lparr>a_store := s\<rparr>
           | (Inl _, s) \<Rightarrow> a\<lparr>a_store := s\<rparr>))"

definition on_manifest :: "digest \<Rightarrow> chunk_manifest \<Rightarrow> agent \<Rightarrow> agent exec" where
  "on_manifest hash m a =
     (case begin_with hash (a_assembler a) m (a_store a) of
        (Panic, _) \<Rightarrow> Panic
      | (Ret (Inr assembled), asm, s) \<Rightarrow>
          Ret (finish_data hash (a\<lparr>a_assembler := asm, a_store := s\<rparr>) (desc_id (m_data m)) assembled)
      | (Ret (Inl _), asm, s) \<Rightarrow> Ret (a\<lparr>a_assembler := asm, a_store := s\<rparr>))"

definition on_chunk ::
    "digest \<Rightarrow> (bytes \<Rightarrow> bytes option) \<Rightarrow> data_id \<Rightarrow> nat \<Rightarrow> codec \<Rightarrow> bytes \<Rightarrow> agent \<Rightarrow> agent exec" where
  "on_chunk hash unlz4 i idx codec wire a =
     (case decompress_with unlz4 codec wire of
        None \<Rightarrow> Ret a
      | Some bs \<Rightarrow>
          (case add_stored hash (a_assembler a) (a_store a) i idx bs of
             (Panic, _) \<Rightarrow> Panic
           | (Ret (Inr assembled), asm, s) \<Rightarrow>
               Ret (finish_data hash (a\<lparr>a_assembler := asm, a_store := s\<rparr>) i assembled)
           | (Ret (Inl _), asm, s) \<Rightarrow> Ret (a\<lparr>a_assembler := asm, a_store := s\<rparr>)))"

text \<open>
  One turn of \<^verbatim>\<open>handle_next\<close>. A task assignment waits while no permit is free: that is the
  outcome None, and the message is not consumed.
\<close>

definition handle_next ::
    "digest \<Rightarrow> (bytes \<Rightarrow> bytes option) \<Rightarrow> message \<Rightarrow> agent \<Rightarrow> ((client_error + unit) \<times> agent) option exec" where
  "handle_next hash unlz4 m a0 =
     (let a = a0\<lparr>activity := activity a0 + 1\<rparr> in
      case m of
        DataTransfer _ d codec wire \<Rightarrow> Ret (Some (Inr (), on_data_transfer hash unlz4 d codec wire a))
      | DataManifest _ mf \<Rightarrow>
          (case on_manifest hash mf a of Panic \<Rightarrow> Panic | Ret a1 \<Rightarrow> Ret (Some (Inr (), a1)))
      | DataChunk _ i idx codec wire \<Rightarrow>
          (case on_chunk hash unlz4 i idx codec wire a of Panic \<Rightarrow> Panic | Ret a1 \<Rightarrow> Ret (Some (Inr (), a1)))
      | Ping nonce _ \<Rightarrow> Ret (Some (emit a (Pong nonce)))
      | TaskAssignment n t _ \<Rightarrow>
          (if permits a = 0 then Ret None
           else Ret (Some (Inr (), a\<lparr>permits := permits a - 1, running := running a @ [(n, t)]\<rparr>)))
      | _ \<Rightarrow> Ret (Some (Inr (), a)))"

text \<open>A running task ends: it executes, gives its permit back and reports.\<close>

definition finish_task :: "digest \<Rightarrow> sandbox option \<Rightarrow> nat \<Rightarrow> duration \<Rightarrow> agent \<Rightarrow> agent" where
  "finish_task hash wasm k elapsed a =
     (if k < length (running a)
      then let (n, t) = running a ! k;
               (r, s) = execute hash wasm n t elapsed (a_store a)
           in snd (emit (a\<lparr>a_store := s, permits := permits a + 1, running := vec_remove k (running a)\<rparr>) (TaskCompleted r))
      else a)"

text \<open>One message on a data channel: only chunks are taken.\<close>

definition data_channel_message ::
    "digest \<Rightarrow> (bytes \<Rightarrow> bytes option) \<Rightarrow> message \<Rightarrow> agent \<Rightarrow> agent exec" where
  "data_channel_message hash unlz4 m a =
     (case m of
        DataChunk _ i idx codec wire \<Rightarrow>
          (case decompress_with unlz4 codec wire of
             None \<Rightarrow> Ret a
           | Some bs \<Rightarrow>
               (case add_stored hash (a_assembler a) (a_store a) i idx bs of
                  (Panic, _) \<Rightarrow> Panic
                | (Ret (Inr (Some whole)), asm, s) \<Rightarrow>
                    Ret (snd (emit (a\<lparr>a_assembler := asm, a_store := snd (put hash s whole)\<rparr>) (DataReady (agent_id a) i)))
                | (Ret (Inr None), asm, s) \<Rightarrow> Ret (a\<lparr>a_assembler := asm, a_store := s\<rparr>)
                | (Ret (Inl _), asm, s) \<Rightarrow> Ret (a\<lparr>a_assembler := asm, a_store := s\<rparr>)))
      | _ \<Rightarrow> Ret a)"

text \<open>What \<^verbatim>\<open>open_data_channels\<close> sends on each new connection.\<close>

definition open_data_channels :: "agent \<Rightarrow> nat \<Rightarrow> client_error + message list" where
  "open_data_channels a count =
     (if 0 < count \<and> a_channel_token a = None then Inl (Rejected ''controller issued no data channel token'')
      else Inr (replicate count (register_data_channel (agent_id a) (a_channel_token a))))"

section \<open>Invariant\<close>

definition small_manifests :: "assembler \<Rightarrow> bool" where
  "small_manifests asm = (\<forall>i p. map_of asm i = Some p \<longrightarrow> manifest_len (p_manifest p) < 2 ^ 32)"

definition agent_inv :: "digest \<Rightarrow> agent \<Rightarrow> bool" where
  "agent_inv hash a =
     (store_inv hash (a_store a) \<and> assembler_inv hash (a_assembler a) \<and> small_manifests (a_assembler a))"

lemma add_chunk_small: "small_manifests asm \<Longrightarrow> small_manifests (snd (add_chunk hash asm i idx bs))"
  by (auto simp: add_chunk_def small_manifests_def Let_def update_conv' delete_conv' split: option.splits)

lemma add_chunk_safe:
  assumes "assembler_inv hash asm" "small_manifests asm" "add_chunk hash asm i idx bs = (r, asm')"
  shows "r \<noteq> Panic \<and> assembler_inv hash asm' \<and> small_manifests asm'"
  using add_chunk_no_panic [OF assms(1), of i idx bs] add_chunk_inv [OF assms(1), of i idx bs]
    add_chunk_small [OF assms(2), of hash i idx bs] assms(2,3) by (auto simp: small_manifests_def)

lemma add_all_safe:
  assumes "assembler_inv hash asm" "small_manifests asm" "add_all hash asm i q ks = (r, asm')"
  shows "r \<noteq> Panic \<and> assembler_inv hash asm' \<and> small_manifests asm'"
  using assms
proof (induction ks arbitrary: asm q)
  case (Cons k ks)
  obtain idx bs where k: "k = (idx, bs)" by fastforce
  obtain x asm1 where c: "add_chunk hash asm i idx bs = (x, asm1)" by fastforce
  note s = add_chunk_safe [OF Cons.prems(1,2) c]
  show ?case
    using Cons.prems(3) Cons.IH [of asm1] s by (auto simp: k c split: exec.splits sum.splits)
qed auto

lemma fill_safe:
  assumes "assembler_inv hash asm" "small_manifests asm" "store_inv hash s" "fill_from_store hash asm s i = (r, asm', s')"
  shows "r \<noteq> Panic \<and> assembler_inv hash asm' \<and> small_manifests asm' \<and> store_inv hash s'"
proof (cases "map_of asm i")
  case None
  then show ?thesis using assms by (auto simp: fill_from_store_def)
next
  case (Some p)
  let ?keys = "filter (\<lambda>(idx, _). map_of (p_chunks p) idx = None) (indexed (p_manifest p))"
  obtain known s1 where k: "known_chunks s ?keys = (known, s1)" by fastforce
  have "store_inv hash s1" using known_chunks_sound(1) [OF assms(3), of ?keys] k by simp
  then show ?thesis
    using Some k assms(4) add_all_safe [OF assms(1,2), of i None known]
    by (auto simp: fill_from_store_def split: prod.splits)
qed

lemma begin_with_safe:
  assumes "assembler_inv hash asm" "small_manifests asm" "store_inv hash s" "manifest_len m < 2 ^ 32"
    "begin_with hash asm m s = (r, asm', s')"
  shows "r \<noteq> Panic \<and> assembler_inv hash asm' \<and> small_manifests asm' \<and> store_inv hash s'"
proof -
  have "small_manifests (begin_dataset asm m)"
    using assms(2,4) by (auto simp: small_manifests_def begin_dataset_def update_conv')
  from fill_safe [OF begin_dataset_inv [OF assms(1)] this assms(3) assms(5) [unfolded begin_with_def]]
  show ?thesis .
qed

lemma add_stored_safe:
  assumes "assembler_inv hash asm" "small_manifests asm" "store_inv hash s" "add_stored hash asm s i idx bs = (r, asm', s')"
  shows "r \<noteq> Panic \<and> assembler_inv hash asm' \<and> small_manifests asm' \<and> store_inv hash s'"
proof -
  obtain x asm1 where c: "add_chunk hash asm i idx bs = (x, asm1)" by fastforce
  note s = add_chunk_safe [OF assms(1,2) c] and p = put_inv [OF assms(3), of bs]
  show ?thesis
    using assms(4) s p fill_safe [of hash asm1 "snd (put hash s bs)" i]
    by (auto simp: add_stored_def Let_def c split: exec.splits sum.splits option.splits)
qed

section \<open>One event at the agent\<close>

datatype agent_event =
    FromController message
  | FromDataChannel message
  | TaskEnds nat duration
  | Announces
  | Beats node_metrics
  | WriterDies

fun agent_step ::
    "digest \<Rightarrow> (bytes \<Rightarrow> bytes option) \<Rightarrow> sandbox option \<Rightarrow> agent_event \<Rightarrow> agent \<Rightarrow> agent exec" where
  "agent_step hash unlz4 wasm (FromController m) a =
     (case handle_next hash unlz4 m a of
        Panic \<Rightarrow> Panic
      | Ret None \<Rightarrow> Ret a
      | Ret (Some (_, a1)) \<Rightarrow> Ret a1)"
| "agent_step hash unlz4 wasm (FromDataChannel m) a = data_channel_message hash unlz4 m a"
| "agent_step hash unlz4 wasm (TaskEnds k elapsed) a = Ret (finish_task hash wasm k elapsed a)"
| "agent_step hash unlz4 wasm Announces a = Ret (snd (announce_holdings a))"
| "agent_step hash unlz4 wasm (Beats m) a = Ret (snd (send_heartbeat a m))"
| "agent_step hash unlz4 wasm WriterDies a = Ret (a\<lparr>a_closed := True\<rparr>)"

text \<open>
  An honest message: what the agent tells the controller is true of its store when it is
  sent, and under its own name.
\<close>

fun honest :: "digest \<Rightarrow> agent \<Rightarrow> message \<Rightarrow> bool" where
  "honest hash a (DataReady n i) = (n = agent_id a \<and> contains (a_store a) i)"
| "honest hash a (DataEvicted n ids) = (n = agent_id a \<and> (\<forall>i \<in> set ids. \<not> contains (a_store a) i))"
| "honest hash a (DataHeld n ds) = (n = agent_id a \<and> (\<forall>d \<in> set ds. contains (a_store a) (desc_id d)))"
| "honest hash a (Heartbeat n m) = (n = agent_id a)"
| "honest hash a (TaskCompleted r) =
     (\<forall>out. outcome r = Success out \<longrightarrow> output_id r = Some (hash out) \<and> contains (a_store a) (hash out))"
| "honest hash a m = True"

text \<open>How an agent may change in a step.\<close>

definition sound_step :: "digest \<Rightarrow> agent \<Rightarrow> agent \<Rightarrow> bool" where
  "sound_step hash a a' =
     (agent_inv hash a' \<and> agent_id a' = agent_id a \<and> max_concurrent_tasks a' = max_concurrent_tasks a \<and>
      (\<exists>out. a_outbox a' = a_outbox a @ out \<and> (\<forall>m \<in> set out. honest hash a' m)))"

lemma sound_quiet:
  "agent_inv hash a' \<Longrightarrow> agent_id a' = agent_id a \<Longrightarrow> max_concurrent_tasks a' = max_concurrent_tasks a \<Longrightarrow>
     a_outbox a' = a_outbox a \<Longrightarrow> sound_step hash a a'"
  by (simp add: sound_step_def)

lemma honest_cong: "agent_id a' = agent_id a \<Longrightarrow> a_store a' = a_store a \<Longrightarrow> honest hash a' m = honest hash a m"
  by (cases m) simp_all

lemma emit_parts [simp]:
  "agent_id (snd (emit a m)) = agent_id a" "a_store (snd (emit a m)) = a_store a"
  "a_assembler (snd (emit a m)) = a_assembler a" "permits (snd (emit a m)) = permits a"
  "running (snd (emit a m)) = running a" "agent_inv hash (snd (emit a m)) = agent_inv hash a"
  "max_concurrent_tasks (snd (emit a m)) = max_concurrent_tasks a"
  by (simp_all add: emit_def agent_inv_def max_concurrent_tasks_def)

lemma sound_emit:
  assumes "sound_step hash a a1" "honest hash a1 m"
  shows "sound_step hash a (snd (emit a1 m))"
proof -
  obtain out where o: "a_outbox a1 = a_outbox a @ out" "\<forall>m \<in> set out. honest hash a1 m"
    using assms(1) by (auto simp: sound_step_def)
  have "honest hash (snd (emit a1 m)) x = honest hash a1 x" for x by (rule honest_cong) simp_all
  then show ?thesis
    using assms o by (auto simp: sound_step_def) (auto simp: emit_def)
qed

lemma store_blob_evicted:
  assumes "store_blob s i bs = (evicted, s')"
  shows "contains s' i" "j \<in> set evicted \<Longrightarrow> \<not> contains s' j"
proof -
  show "contains s' i" using store_blob_kept [of s i bs] assms by (simp add: contains_def)
  show "\<not> contains s' j" if "j \<in> set evicted"
    using assms that
    by (auto simp: store_blob_def evict_over_budget_def contains_def Let_def dest!: evict_loop_map_of
        split: if_splits option.splits)
qed

lemma sound_report:
  "sound_step hash a a1 \<Longrightarrow> \<forall>i \<in> set ids. \<not> contains (a_store a1) i \<Longrightarrow> sound_step hash a (report_evictions a1 ids)"
  using sound_step_def [of hash a a1] by (auto simp: report_evictions_def intro: sound_emit)

text \<open>The agent changed its data but has not said anything about it yet.\<close>

definition quiet :: "digest \<Rightarrow> agent \<Rightarrow> agent \<Rightarrow> bool" where
  "quiet hash a a' =
     (agent_inv hash a' \<and> agent_id a' = agent_id a \<and> max_concurrent_tasks a' = max_concurrent_tasks a \<and>
      a_outbox a' = a_outbox a)"

lemma quiet_sound: "quiet hash a a' \<Longrightarrow> sound_step hash a a'"
  by (simp add: quiet_def sound_quiet)

lemma quiet_store:
  "quiet hash a a1 \<Longrightarrow> store_inv hash s \<Longrightarrow> quiet hash a (a1\<lparr>a_store := s\<rparr>)"
  by (simp add: quiet_def agent_inv_def max_concurrent_tasks_def)

lemma quiet_data:
  "agent_inv hash a \<Longrightarrow> store_inv hash s \<Longrightarrow> assembler_inv hash asm \<Longrightarrow> small_manifests asm \<Longrightarrow>
     quiet hash a (a\<lparr>a_assembler := asm, a_store := s\<rparr>)"
  by (simp add: quiet_def agent_inv_def max_concurrent_tasks_def)

lemma finish_data_sound:
  assumes "quiet hash a a1" "\<forall>whole. assembled = Some whole \<longrightarrow> hash whole = i"
  shows "sound_step hash a (finish_data hash a1 i assembled)"
proof (cases assembled)
  case None
  then show ?thesis using quiet_sound [OF assms(1)] by (simp add: finish_data_def)
next
  case (Some bs)
  then have h: "hash bs = i" using assms(2) by simp
  obtain evicted s where b: "store_blob (a_store a1) i bs = (evicted, s)" by fastforce
  have p: "put_evicting hash (a_store a1) bs = ((descriptor_of hash bs, evicted), s)"
    using b h by (simp add: put_evicting_def descriptor_of_def descriptor_new_def)
  have "store_inv hash s"
    using store_blob_inv [of hash "a_store a1" bs i] h assms(1) b by (simp add: quiet_def agent_inv_def)
  then have q: "sound_step hash a (a1\<lparr>a_store := s\<rparr>)" by (rule quiet_sound [OF quiet_store [OF assms(1)]])
  have "sound_step hash a (snd (emit (a1\<lparr>a_store := s\<rparr>) (DataReady (agent_id a1) i)))"
    by (rule sound_emit [OF q]) (simp add: store_blob_evicted(1) [OF b])
  then have "sound_step hash a (report_evictions (snd (emit (a1\<lparr>a_store := s\<rparr>) (DataReady (agent_id a1) i))) evicted)"
    by (rule sound_report) (simp add: store_blob_evicted(2) [OF b])
  then show ?thesis using Some p by (simp add: finish_data_def)
qed

lemma on_data_transfer_sound:
  assumes "agent_inv hash a"
  shows "sound_step hash a (on_data_transfer hash unlz4 d codec wire a)"
proof (cases "decompress_with unlz4 codec wire")
  case None
  then show ?thesis using assms by (simp add: on_data_transfer_def sound_quiet)
next
  case (Some bs)
  have self: "quiet hash a a" using assms by (simp add: quiet_def)
  obtain r s where i: "insert_evicting hash (a_store a) d bs = (r, s)" by fastforce
  have "store_inv hash s"
    using insert_evicting_inv [of hash "a_store a" d bs] assms i by (simp add: agent_inv_def)
  then have q: "sound_step hash a (a\<lparr>a_store := s\<rparr>)" by (rule quiet_sound [OF quiet_store [OF self]])
  have "\<forall>j \<in> set evicted. \<not> contains s j" if "r = Inr (True, evicted)" for evicted
    using i that by (auto simp: insert_evicting_def Let_def dest: store_blob_evicted(2) split: if_splits prod.splits)
  then have "sound_step hash a (report_evictions (a\<lparr>a_store := s\<rparr>) evicted)" if "r = Inr (True, evicted)" for evicted
    using sound_report [OF q] that by simp
  then show ?thesis using Some i q by (auto simp: on_data_transfer_def split: sum.splits prod.splits bool.splits)
qed

lemma fill_whole: "fill_from_store hash asm s i = (Ret (Inr (Some whole)), x) \<Longrightarrow> hash whole = i"
  using fill_Some [of hash asm s i whole] by simp

lemma on_manifest_sound:
  assumes "agent_inv hash a" "manifest_len m < 2 ^ 32"
  shows "\<exists>a'. on_manifest hash m a = Ret a' \<and> sound_step hash a a'"
proof -
  obtain r asm s where b: "begin_with hash (a_assembler a) m (a_store a) = (r, asm, s)" by (metis prod_cases3)
  have safe: "r \<noteq> Panic \<and> assembler_inv hash asm \<and> small_manifests asm \<and> store_inv hash s"
    using begin_with_safe [OF _ _ _ assms(2) b] assms(1) by (simp add: agent_inv_def)
  then have q: "quiet hash a (a\<lparr>a_assembler := asm, a_store := s\<rparr>)" using quiet_data [OF assms(1)] by blast
  have "hash whole = desc_id (m_data m)" if "r = Ret (Inr (Some whole))" for whole
    using b that by (auto simp: begin_with_def dest: fill_whole)
  then show ?thesis
    using b safe finish_data_sound [OF q] quiet_sound [OF q]
    by (cases r) (auto simp: on_manifest_def split: sum.splits)
qed

lemma add_stored_effect:
  assumes "agent_inv hash a" "add_stored hash (a_assembler a) (a_store a) i idx bs = (r, asm, s)"
  shows "r \<noteq> Panic" "quiet hash a (a\<lparr>a_assembler := asm, a_store := s\<rparr>)"
    "r = Ret (Inr (Some whole)) \<Longrightarrow> hash whole = i"
proof -
  have inv: "assembler_inv hash (a_assembler a)" "small_manifests (a_assembler a)" "store_inv hash (a_store a)"
    using assms(1) by (simp_all add: agent_inv_def)
  have safe: "r \<noteq> Panic \<and> assembler_inv hash asm \<and> small_manifests asm \<and> store_inv hash s"
    by (rule add_stored_safe [OF inv assms(2)])
  then show "r \<noteq> Panic" "quiet hash a (a\<lparr>a_assembler := asm, a_store := s\<rparr>)" using quiet_data [OF assms(1)] by blast+
  show "hash whole = i" if "r = Ret (Inr (Some whole))"
    using assms(2) that add_chunk_Some [of hash "a_assembler a" i idx bs whole]
    by (cases "add_chunk hash (a_assembler a) i idx bs")
      (auto simp: add_stored_def Let_def dest: fill_whole split: exec.splits sum.splits option.splits)
qed

lemma on_chunk_sound:
  assumes "agent_inv hash a"
  shows "\<exists>a'. on_chunk hash unlz4 i idx codec wire a = Ret a' \<and> sound_step hash a a'"
proof (cases "decompress_with unlz4 codec wire")
  case None
  then show ?thesis using assms by (simp add: on_chunk_def sound_quiet)
next
  case (Some bs)
  obtain r asm s where b: "add_stored hash (a_assembler a) (a_store a) i idx bs = (r, asm, s)" by (metis prod_cases3)
  note e = add_stored_effect [OF assms b]
  show ?thesis
    using Some b e(1,3) finish_data_sound [OF e(2)] quiet_sound [OF e(2)]
    by (cases r) (auto simp: on_chunk_def split: sum.splits)
qed

lemma data_channel_sound:
  assumes "agent_inv hash a"
  shows "\<exists>a'. data_channel_message hash unlz4 m a = Ret a' \<and> sound_step hash a a'"
proof (cases "\<exists>n i idx codec wire bs. m = DataChunk n i idx codec wire \<and> decompress_with unlz4 codec wire = Some bs")
  case True
  then obtain n i idx codec wire bs where m: "m = DataChunk n i idx codec wire" "decompress_with unlz4 codec wire = Some bs"
    by blast
  obtain r asm s where b: "add_stored hash (a_assembler a) (a_store a) i idx bs = (r, asm, s)" by (metis prod_cases3)
  note e = add_stored_effect [OF assms b]
  have "sound_step hash a (snd (emit (a\<lparr>a_assembler := asm, a_store := snd (put hash s whole)\<rparr>) (DataReady (agent_id a) i)))"
    if "r = Ret (Inr (Some whole))" for whole
  proof (rule sound_emit)
    have si: "store_inv hash s" using e(2) by (simp add: quiet_def agent_inv_def)
    have "quiet hash a (a\<lparr>a_assembler := asm, a_store := snd (put hash s whole)\<rparr>)"
      using quiet_store [OF e(2) put_inv [OF si, of whole]] by simp
    then show "sound_step hash a (a\<lparr>a_assembler := asm, a_store := snd (put hash s whole)\<rparr>)" by (rule quiet_sound)
    show "honest hash (a\<lparr>a_assembler := asm, a_store := snd (put hash s whole)\<rparr>) (DataReady (agent_id a) i)"
      using store_blob_kept [of s i whole] e(3) [OF that] by (simp add: snd_put contains_def)
  qed
  then show ?thesis
    using m b e(1) quiet_sound [OF e(2)]
    by (cases r) (auto simp: data_channel_message_def split: sum.splits option.splits)
next
  case False
  then show ?thesis
    using assms by (auto simp: data_channel_message_def sound_quiet split: message.splits option.splits)
qed

lemma descriptors_held: "d \<in> set (descriptors s) \<Longrightarrow> contains s (desc_id d)"
proof -
  have "set (insert_descriptor x xs) = insert x (set xs)" for x xs by (induction xs) auto
  then have set_sorted: "set (foldr insert_descriptor xs []) = set xs" for xs by (induction xs) simp_all
  assume "d \<in> set (descriptors s)"
  then obtain i e where "(i, e) \<in> set (blobs s)" "desc_id d = i"
    by (auto simp: descriptors_def set_sorted descriptor_new_def)
  then show ?thesis by (auto simp: contains_def map_of_eq_None_iff rev_image_eqI)
qed

lemma finish_task_sound:
  assumes "agent_inv hash a"
  shows "sound_step hash a (finish_task hash wasm k elapsed a)"
proof (cases "k < length (running a)")
  case True
  obtain n t where k: "running a ! k = (n, t)" by fastforce
  obtain r s where x: "execute hash wasm n t elapsed (a_store a) = (r, s)" by fastforce
  have rep: "store_inv hash s \<and> (\<forall>out. outcome r = Success out \<longrightarrow> output_id r = Some (hash out) \<and> contains s (hash out))"
    using execute_reports [OF _ x] assms by (simp add: agent_inv_def)
  have len: "Suc (length (vec_remove k (running a))) = length (running a)" using True by (simp add: vec_remove_def)
  let ?a = "a\<lparr>a_store := s, permits := permits a + 1, running := vec_remove k (running a)\<rparr>"
  have "quiet hash a ?a"
    using assms rep len by (simp add: quiet_def agent_inv_def max_concurrent_tasks_def)
  then have "sound_step hash a (snd (emit ?a (TaskCompleted r)))"
    by (intro sound_emit quiet_sound) (simp_all add: rep)
  then show ?thesis using True k x by (simp add: finish_task_def)
qed (simp add: finish_task_def sound_quiet assms)

lemma handle_next_sound:
  assumes "agent_inv hash a" "\<forall>n mf. m = DataManifest n mf \<longrightarrow> manifest_len mf < 2 ^ 32"
  shows "\<exists>a'. agent_step hash unlz4 wasm (FromController m) a = Ret a' \<and> sound_step hash a a'"
proof -
  let ?a = "a\<lparr>activity := activity a + 1\<rparr>"
  have inv: "agent_inv hash ?a" using assms(1) by (simp add: agent_inv_def)
  have lift: "sound_step hash ?a a' \<Longrightarrow> sound_step hash a a'" for a'
    by (simp add: sound_step_def max_concurrent_tasks_def)
  have self: "sound_step hash a ?a" using inv by (simp add: sound_quiet max_concurrent_tasks_def)
  show ?thesis
  proof (cases m)
    case (DataManifest n mf)
    then show ?thesis using on_manifest_sound [OF inv, of mf] assms(2) lift by (auto simp: handle_next_def Let_def)
  next
    case (DataChunk n i idx codec wire)
    then show ?thesis using on_chunk_sound [OF inv, of unlz4 i idx codec wire] lift by (auto simp: handle_next_def Let_def)
  next
    case (TaskAssignment n t tp)
    have "sound_step hash a (?a\<lparr>permits := permits a - 1, running := running a @ [(n, t)]\<rparr>)" if "0 < permits a"
      using inv that by (intro sound_quiet) (simp_all add: agent_inv_def max_concurrent_tasks_def)
    then show ?thesis
      using TaskAssignment assms(1) by (auto simp: handle_next_def Let_def sound_quiet)
  next
    case (Ping x b)
    have "sound_step hash a (snd (emit ?a (Pong x)))" by (rule sound_emit [OF self]) simp
    then show ?thesis using Ping by (auto simp: handle_next_def Let_def split: prod.splits)
  next
    case (DataTransfer n d codec wire)
    then show ?thesis using lift [OF on_data_transfer_sound [OF inv]] by (simp add: handle_next_def Let_def)
  qed (use self in \<open>simp_all add: handle_next_def Let_def\<close>)
qed


definition small_agent :: agent where
  "small_agent = \<lparr>agent_id = NodeId 7, a_store = snd (put DataId (with_budget 2) [1, 2]), a_assembler = assembler_new,
     a_channel_token = None, a_timeout = 0, activity = 0, permits = 1,
     running = [(NodeId 7, task_new (TaskId 5) ''echo'' [3, 4])], a_outbox = [], a_closed = False\<rparr>"

lemma small_agent_inv: "agent_inv DataId small_agent"
  by (simp add: agent_inv_def small_agent_def small_manifests_def assembler_new_def inv_intros)
    (simp add: assembler_inv_def)


text \<open>
  Storing the output of a task can evict other data, and that is not reported: after the
  task the store no longer holds what the catalogue credits the node with.
\<close>

lemma task_output_evicts_silently:
  "let a = finish_task DataId None 0 1 small_agent
   in contains (a_store small_agent) (DataId [1, 2]) \<and> \<not> contains (a_store a) (DataId [1, 2]) \<and>
      map message_kind (a_outbox a) = [''task_completed'']"
  by code_simp

lemma agent_register_inv:
  "agent_register cpus info reply = Inr a \<Longrightarrow> agent_inv hash a \<and> agent_id a = info_id info \<and> max_concurrent_tasks a = cpus"
  by (auto simp: agent_register_def agent_inv_def small_manifests_def assembler_new_def max_concurrent_tasks_def inv_intros
      assembler_inv_def split: message.splits if_splits)

end
