(* ===== verification/Delivery.thy ===== *)
theory Delivery
  imports Network Agent "HOL-Library.Code_Target_Nat"
begin

text \<open>
  The controller, its live connections, the server's handler and an agent put together: what
  happens while the transport waits is that the agent reads the messages queued on its
  connection, runs the tasks it is assigned, and the server handles the answers. The main
  result is that a task placed on such an agent runs on exactly the inputs that were
  published, whether they travel whole, in chunks, compressed or not at all because the
  agent holds them already.
\<close>

section \<open>The agent behind a connection\<close>

record site =
  s_server :: server
  s_agent :: "agent option"

text \<open>
  The agent reads queued messages in order and finishes a task right after it was assigned.
  A panic or an error ends its loop; without a free permit the message stays queued.
\<close>

fun agent_reads ::
    "digest \<Rightarrow> (bytes \<Rightarrow> bytes option) \<Rightarrow> sandbox option \<Rightarrow> duration \<Rightarrow> message list \<Rightarrow> agent \<Rightarrow>
     message list \<times> agent option" where
  "agent_reads hash unlz4 wasm el [] a = ([], Some a)"
| "agent_reads hash unlz4 wasm el (m # ms) a =
     (case handle_next hash unlz4 m a of
        Panic \<Rightarrow> (ms, None)
      | Ret None \<Rightarrow> (m # ms, Some a)
      | Ret (Some (Inl e, a1)) \<Rightarrow> (ms, None)
      | Ret (Some (Inr _, a1)) \<Rightarrow> agent_reads hash unlz4 wasm el ms (finish_task hash wasm 0 el a1))"

definition queued :: "conn \<Rightarrow> connections \<Rightarrow> message list" where
  "queued k c = map snd (filter (\<lambda>(j, _). j = k) (outbox c))"

definition server_reads :: "security_config \<Rightarrow> conn \<Rightarrow> instant \<Rightarrow> message list \<Rightarrow> server \<Rightarrow> server" where
  "server_reads security k now ms v = fold (\<lambda>m. server_step security (Receive k now [] m)) ms v"

definition agent_world ::
    "digest \<Rightarrow> (bytes \<Rightarrow> bytes option) \<Rightarrow> sandbox option \<Rightarrow> duration \<Rightarrow> security_config \<Rightarrow> instant \<Rightarrow> conn \<Rightarrow> site world" where
  "agent_world hash unlz4 wasm el security now k c st =
     (case s_agent st of
        None \<Rightarrow> (c, st)
      | Some a \<Rightarrow>
          (let (rest, after) = agent_reads hash unlz4 wasm el (queued k c) a;
               c1 = c\<lparr>outbox := filter (\<lambda>(j, _). j \<noteq> k) (outbox c) @ map (Pair k) rest\<rparr>;
               v = (s_server st)\<lparr>mesh := (mesh (s_server st))\<lparr>conns := c1\<rparr>\<rparr>
           in case after of
                None \<Rightarrow>
                  (let v1 = server_step security (HangUp k) v in (conns (mesh v1), \<lparr>s_server = v1, s_agent = None\<rparr>))
              | Some b \<Rightarrow>
                  (let v1 = server_reads security k now (a_outbox b) v
                   in (conns (mesh v1), \<lparr>s_server = v1, s_agent = Some (b\<lparr>a_outbox := []\<rparr>)\<rparr>))))"

definition mesh_transport ::
    "digest \<Rightarrow> (bytes \<Rightarrow> bytes option) \<Rightarrow> sandbox option \<Rightarrow> duration \<Rightarrow> security_config \<Rightarrow> instant \<Rightarrow> conn \<Rightarrow>
     site network transport" where
  "mesh_transport hash unlz4 wasm el security now k = network_transport (agent_world hash unlz4 wasm el security now k)"

lemma mesh_transport_simps [simp]:
  "t_dispatch (mesh_transport hash unlz4 wasm el security now k) = net_dispatch (agent_world hash unlz4 wasm el security now k)"
  "t_send_data (mesh_transport hash unlz4 wasm el security now k) = net_send_data"
  "t_send_manifest (mesh_transport hash unlz4 wasm el security now k) = net_send_manifest"
  "t_send_chunks (mesh_transport hash unlz4 wasm el security now k) = net_send_chunks (agent_world hash unlz4 wasm el security now k)"
  "t_available (mesh_transport hash unlz4 wasm el security now k) = net_available"
  by (simp_all add: mesh_transport_def network_transport_def)

section \<open>A store without a budget only grows\<close>

definition grows :: "store \<Rightarrow> store \<Rightarrow> bool" where
  "grows s s' = (budget s = None \<longrightarrow> budget s' = None \<and> (\<forall>i. contains s i \<longrightarrow> contains s' i))"

lemma grows_refl [simp]: "grows s s"
  by (simp add: grows_def)

lemma grows_trans: "grows a b \<Longrightarrow> grows b c \<Longrightarrow> grows a c"
  by (simp add: grows_def)

lemma grows_touch [simp]: "grows s (touch s i)"
  by (auto simp: grows_def contains_def touch_def Let_def update_conv' split: option.splits)

lemma grows_get: "get s i = (r, s') \<Longrightarrow> grows s s'"
  by (auto simp: get_def Let_def)

lemma grows_store_blob: "grows s (snd (store_blob s i bs))"
  by (auto simp: grows_def contains_def store_blob_def evict_over_budget_def Let_def update_conv' touch_def split: option.splits)

lemma store_blob_no_eviction: "budget s = None \<Longrightarrow> fst (store_blob s i bs) = []"
  by (simp add: store_blob_def evict_over_budget_def Let_def)

lemma grows_put: "put hash s bs = (d, s') \<Longrightarrow> grows s s' \<and> contains s' (hash bs)"
  using grows_store_blob [of s "hash bs" bs] store_blob_kept [of s "hash bs" bs] snd_put [of hash s bs]
  by (simp add: contains_def)

lemma grows_known: "grows s (snd (known_chunks s keys))"
proof (induction s keys rule: known_chunks.induct)
  case (2 s idx d rest)
  then show ?case
    using grows_trans [OF grows_get] by (auto simp: Let_def split: prod.splits)
qed simp

lemma grows_fill: "fill_from_store hash asm s i = (r, asm', s') \<Longrightarrow> grows s s'"
  by (auto simp: fill_from_store_def split: option.splits prod.splits) (metis grows_known snd_conv)

lemma grows_add_stored:
  assumes "add_stored hash asm s i idx bs = (r, asm', s')"
  shows "grows s s' \<and> (budget s = None \<longrightarrow> contains s' (hash bs))"
proof -
  obtain d s1 where p: "put hash s bs = (d, s1)" by fastforce
  note g = grows_put [OF p]
  have "s' = s1 \<or> (\<exists>asm1 x. fill_from_store hash asm1 s1 i = (r, asm', s'))"
    using assms p by (auto simp: add_stored_def Let_def split: prod.splits exec.splits sum.splits option.splits)
  then have "grows s1 s'" by (auto intro: grows_fill)
  then show ?thesis using g grows_trans by (auto simp: grows_def)
qed

section \<open>Filling in what is held\<close>

text \<open>A dataset of which \<^verbatim>\<open>parts\<close> are the chunks; the manifest describes them.\<close>

definition describes :: "digest \<Rightarrow> chunk_manifest \<Rightarrow> data_id \<Rightarrow> bytes list \<Rightarrow> bool" where
  "describes hash m i parts =
     (m_chunks m = map (descriptor_of hash) parts \<and> desc_id (m_data m) = i \<and> hash (concat parts) = i \<and>
      parts \<noteq> [] \<and> length parts < 2 ^ 32)"

definition held :: "digest \<Rightarrow> store \<Rightarrow> bytes list \<Rightarrow> nat set" where
  "held hash s parts = {k. k < length parts \<and> contains s (hash (parts ! k))}"

lemma add_all_progress:
  assumes "arrived hash asm i m parts S" "describes hash m i parts"
    and "S \<union> set ks \<subseteq> {..< length parts}" "S \<noteq> {..< length parts}" "distinct ks" "S \<inter> set ks = {}"
  shows "if S \<union> set ks = {..< length parts}
    then fst (add_all hash asm i None (map (\<lambda>k. (k, parts ! k)) ks)) = Ret (Inr (Some (concat parts)))
    else \<exists>asm'. add_all hash asm i None (map (\<lambda>k. (k, parts ! k)) ks) = (Ret (Inr None), asm') \<and>
           arrived hash asm' i m parts (S \<union> set ks)"
proof (cases "S \<union> set ks = {..< length parts}")
  case True
  then show ?thesis
    using add_all_arrived [OF assms(1) True assms(4) _ _ _ assms(5,6)] assms(2) by (simp add: describes_def)
next
  case False
  have "\<exists>asm'. add_all hash asm i None (map (\<lambda>k. (k, parts ! k)) ks) = (Ret (Inr None), asm') \<and>
      arrived hash asm' i m parts (S \<union> set ks)"
    using assms(1,3) False
  proof (induction ks arbitrary: asm S)
    case (Cons k ks)
    have "insert k S \<noteq> {..< length parts}" using Cons.prems by auto
    then obtain asm1 where "add_chunk hash asm i k (parts ! k) = (Ret (Inr None), asm1)"
        "arrived hash asm1 i m parts (insert k S)"
      using add_chunk_arrived [OF Cons.prems(1), of k] Cons.prems(2) assms(2) by (auto simp: describes_def)
    then show ?case using Cons.IH [of asm1 "insert k S"] Cons.prems by simp
  qed auto
  then show ?thesis using False by simp
qed

lemma contains_get: "get s i = (r, s') \<Longrightarrow> contains s' j = contains s j"
  using map_of_touch [of s i j] unfolding contains_def get_def Let_def
  by (cases "map_of (blobs s) j"; cases "map_of (blobs (touch s i)) j") auto

lemma known_chunks_held:
  assumes "store_inv hash s" "inj hash" "\<forall>(k, d) \<in> set keys. d = descriptor_of hash (parts ! k)"
  shows "fst (known_chunks s keys) =
    map (\<lambda>(k, _). (k, parts ! k)) (filter (\<lambda>(k, _). contains s (hash (parts ! k))) keys)"
  using assms(1,3)
proof (induction s keys rule: known_chunks.induct)
  case (2 s k d rest)
  have d: "desc_id d = hash (parts ! k)"
    using "2.prems"(2) by (auto simp: descriptor_of_def descriptor_new_def)
  obtain r s1 where g: "get s (desc_id d) = (r, s1)" by fastforce
  have r: "r = (if contains s (hash (parts ! k)) then Some (parts ! k) else None)"
  proof (cases "map_of (blobs s) (desc_id d)")
    case None
    then show ?thesis using fst_get [of s "desc_id d"] g d by (simp add: contains_def)
  next
    case (Some e)
    then have "hash (blob_bytes e) = hash (parts ! k)" using store_inv_blob [OF "2.prems"(1) Some] d by simp
    then have "blob_bytes e = parts ! k" by (rule injD [OF assms(2)])
    then show ?thesis using fst_get [of s "desc_id d"] g d Some by (simp add: contains_def)
  qed
  obtain found s2 where kn: "known_chunks s1 rest = (found, s2)" by fastforce
  have "store_inv hash s1" using get_inv [OF "2.prems"(1), of "desc_id d"] g by simp
  then have "found = map (\<lambda>(k, _). (k, parts ! k)) (filter (\<lambda>(k, _). contains s (hash (parts ! k))) rest)"
    using "2.IH" [OF g [symmetric] refl] "2.prems"(2) by (simp add: kn contains_get [OF g])
  then show ?case by (simp add: g kn r)
qed simp

lemma describes_indexed:
  "describes hash m i parts \<Longrightarrow> indexed m = map (\<lambda>k. (k, descriptor_of hash (parts ! k))) [0 ..< length parts]"
  by (auto simp: describes_def indexed_def enumerated_def as_u32_def intro!: nth_equalityI)

lemma fill_progress:
  assumes "arrived hash asm i m parts S" "describes hash m i parts" "S \<subset> {..< length parts}"
    and "inj hash" "store_inv hash s" "fill_from_store hash asm s i = (r, asm', s')"
  shows "if S \<union> held hash s parts = {..< length parts} then r = Ret (Inr (Some (concat parts)))
    else r = Ret (Inr None) \<and> arrived hash asm' i m parts (S \<union> held hash s parts)"
proof -
  from assms(1) obtain p where p: "map_of asm i = Some p" "p_manifest p = m" "distinct (map fst (p_chunks p))"
    "set (p_chunks p) = (\<lambda>k. (k, parts ! k)) ` S" by (auto simp: arrived_def)
  have none: "map_of (p_chunks p) k = None \<longleftrightarrow> k \<notin> S" for k
    using length_arrived(3) [OF p(3,4)] by (simp add: map_of_eq_None_iff)
  define keys where "keys = filter (\<lambda>(idx, _). map_of (p_chunks p) idx = None) (indexed m)"
  define ks where "ks = filter (\<lambda>k. k \<notin> S \<and> contains s (hash (parts ! k))) [0 ..< length parts]"
  have keys: "keys = map (\<lambda>k. (k, descriptor_of hash (parts ! k))) (filter (\<lambda>k. k \<notin> S) [0 ..< length parts])"
    unfolding keys_def describes_indexed [OF assms(2)] by (simp add: filter_map comp_def none)
  have "fst (known_chunks s keys) =
      map (\<lambda>(k, _). (k, parts ! k)) (filter (\<lambda>(k, _). contains s (hash (parts ! k))) keys)"
    by (rule known_chunks_held [OF assms(5,4)]) (auto simp: keys)
  also have "\<dots> = map (\<lambda>k. (k, parts ! k)) ks"
    unfolding keys ks_def by (simp add: filter_map comp_def conj_commute)
  finally have known: "fst (known_chunks s keys) = map (\<lambda>k. (k, parts ! k)) ks" .
  have ks: "distinct ks" "S \<inter> set ks = {}" "S \<union> set ks = S \<union> held hash s parts" "S \<union> set ks \<subseteq> {..< length parts}"
    using assms(3) by (auto simp: ks_def held_def)
  have "(r, asm') = add_all hash asm i None (fst (known_chunks s keys))"
    using assms(6) p(1,2) by (auto simp: fill_from_store_def keys_def split: prod.splits)
  then have r: "add_all hash asm i None (map (\<lambda>k. (k, parts ! k)) ks) = (r, asm')" by (simp add: known)
  have "S \<noteq> {..< length parts}" using assms(3) by blast
  from add_all_progress [OF assms(1,2) ks(4) this ks(1,2)] show ?thesis
    unfolding r ks(3) by (simp split: if_splits)
qed

section \<open>An agent that takes what it is sent\<close>

definition ready_agent :: "digest \<Rightarrow> node_id \<Rightarrow> agent \<Rightarrow> bool" where
  "ready_agent hash n a =
     (agent_id a = n \<and> agent_inv hash a \<and> budget (a_store a) = None \<and> running a = [] \<and> 0 < permits a \<and>
      \<not> a_closed a \<and> (\<forall>m \<in> set (a_outbox a). \<exists>i. m = DataReady n i))"

definition advances :: "digest \<Rightarrow> node_id \<Rightarrow> agent \<Rightarrow> agent \<Rightarrow> bool" where
  "advances hash n a a' =
     (ready_agent hash n a' \<and> grows (a_store a) (a_store a') \<and> set (a_outbox a) \<subseteq> set (a_outbox a'))"

fun is_transfer :: "message \<Rightarrow> bool" where
  "is_transfer (DataTransfer _ _ _ _) = True"
| "is_transfer (DataManifest _ m) = (manifest_len m < 2 ^ 32)"
| "is_transfer (DataChunk _ _ _ _ _) = True"
| "is_transfer _ = False"

lemma advances_trans: "advances hash n a b \<Longrightarrow> advances hash n b c \<Longrightarrow> advances hash n a c"
  by (auto simp: advances_def intro: grows_trans)

lemma advances_refl: "ready_agent hash n a \<Longrightarrow> advances hash n a a"
  by (simp add: advances_def)

lemma finish_data_calm:
  assumes "budget (a_store a) = None" "\<not> a_closed a" "a' = finish_data hash a i x"
  shows "grows (a_store a) (a_store a')" "running a' = running a" "permits a' = permits a" "\<not> a_closed a'"
    "a_outbox a' = a_outbox a @ (case x of None \<Rightarrow> [] | Some _ \<Rightarrow> [DataReady (agent_id a) i])"
    "x = Some bs \<Longrightarrow> contains (a_store a') (hash bs)"
  using assms store_blob_no_eviction [OF assms(1)] grows_store_blob [of "a_store a"] store_blob_kept [of "a_store a"]
  by (auto simp: finish_data_def put_evicting_def Let_def report_evictions_def emit_def contains_def descriptor_of_def
      descriptor_new_def split: option.splits prod.splits) (metis fst_conv snd_conv)+

lemma transfer_turn:
  assumes "ready_agent hash n a" "is_transfer m"
  obtains a' where "handle_next hash unlz4 m a = Ret (Some (Inr (), a'))" "advances hash n a a'"
proof -
  have inv: "agent_inv hash a" and none: "budget (a_store a) = None" "\<not> a_closed a" "running a = []" "agent_id a = n"
    using assms(1) by (simp_all add: ready_agent_def)
  obtain a' where s: "agent_step hash unlz4 None (FromController m) a = Ret a'" "sound_step hash a a'"
    using handle_next_sound [OF inv, of m unlz4 None] assms(2) by (cases m) auto
  have h: "handle_next hash unlz4 m a = Ret (Some (Inr (), a'))"
    using s(1) assms(2) by (cases m) (auto simp: handle_next_def Let_def split: exec.splits)
  have "grows (a_store a) (a_store a') \<and> running a' = running a \<and> permits a' = permits a \<and> \<not> a_closed a' \<and>
      (\<exists>out. a_outbox a' = a_outbox a @ out \<and> (\<forall>m \<in> set out. \<exists>i. m = DataReady n i))"
  proof (cases m)
    case (DataTransfer n' d codec wire)
    then show ?thesis
      using h none store_blob_no_eviction [OF none(1)] grows_store_blob [of "a_store a"]
      by (auto simp: handle_next_def Let_def on_data_transfer_def insert_evicting_def report_evictions_def
          split: option.splits prod.splits sum.splits if_splits bool.splits) (metis fst_conv snd_conv list.distinct(1))+
  next
    case (DataManifest n' mf)
    obtain r asm s1 where b: "begin_with hash (a_assembler a) mf (a_store a) = (r, asm, s1)" by (metis prod_cases3)
    then have g: "grows (a_store a) s1" by (auto simp: begin_with_def intro: grows_fill)
    then have "budget s1 = None" using none(1) by (simp add: grows_def)
    then show ?thesis
      using DataManifest h none b g finish_data_calm [where a = "a\<lparr>activity := activity a + 1, a_assembler := asm, a_store := s1\<rparr>" and hash = hash, OF _ _ refl]
      by (auto simp: handle_next_def Let_def on_manifest_def split: exec.splits sum.splits option.splits intro: grows_trans)
  next
    case (DataChunk n' i idx codec wire)
    show ?thesis
    proof (cases "decompress_with unlz4 codec wire")
      case (Some bs)
      obtain r asm s1 where b: "add_stored hash (a_assembler a) (a_store a) i idx bs = (r, asm, s1)" by (metis prod_cases3)
      then have g: "grows (a_store a) s1" using grows_add_stored by blast
      then have "budget s1 = None" using none(1) by (simp add: grows_def)
      then show ?thesis
        using DataChunk Some h none b g finish_data_calm [where a = "a\<lparr>activity := activity a + 1, a_assembler := asm, a_store := s1\<rparr>" and hash = hash, OF _ _ refl]
        by (auto simp: handle_next_def Let_def on_chunk_def split: exec.splits sum.splits option.splits intro: grows_trans)
    qed (use DataChunk h none in \<open>auto simp: handle_next_def Let_def on_chunk_def\<close>)
  qed (use assms(2) in simp_all)
  then have "advances hash n a a'"
    using s(2) assms(1) by (auto simp: advances_def ready_agent_def sound_step_def grows_def)
  then show thesis using h that by blast
qed

lemma contains_known: "contains (snd (known_chunks s keys)) j = contains s j"
proof (induction s keys rule: known_chunks.induct)
  case (2 s idx d rest)
  then show ?case using contains_get by (auto simp: Let_def split: prod.splits)
qed simp

lemma contains_fill: "fill_from_store hash asm s i = (r, asm', s') \<Longrightarrow> contains s' j = contains s j"
  by (auto simp: fill_from_store_def split: option.splits prod.splits) (metis contains_known snd_conv)+

section \<open>Receiving a dataset\<close>

text \<open>
  A dataset has been received, or it is being collected and everything the store holds of it
  has been counted in.
\<close>

definition received :: "node_id \<Rightarrow> data_id \<Rightarrow> agent \<Rightarrow> bool" where
  "received n i a = (contains (a_store a) i \<and> DataReady n i \<in> set (a_outbox a))"

definition collecting :: "digest \<Rightarrow> chunk_manifest \<Rightarrow> data_id \<Rightarrow> bytes list \<Rightarrow> agent \<Rightarrow> bool" where
  "collecting hash m i parts a =
     (\<exists>S. arrived hash (a_assembler a) i m parts S \<and> S \<subset> {..< length parts} \<and> held hash (a_store a) parts \<subseteq> S)"

lemma received_advances: "received n i a \<Longrightarrow> ready_agent hash n a \<Longrightarrow> advances hash n a a' \<Longrightarrow> received n i a'"
  by (auto simp: received_def advances_def grows_def ready_agent_def)

lemma collecting_incomplete: "collecting hash m i parts a \<Longrightarrow> \<exists>part \<in> set parts. \<not> contains (a_store a) (hash part)"
  by (auto simp: collecting_def held_def psubset_eq)

lemma whole_arrives:
  assumes "ready_agent hash n a" "decompress_with unlz4 codec wire = Some bs" "hash bs = desc_id d"
    and "handle_next hash unlz4 (DataTransfer n' d codec wire) a = Ret (Some (Inr (), a'))"
  shows "contains (a_store a') (desc_id d)"
  using assms store_blob_kept [of "a_store a" "desc_id d" bs] store_blob_no_eviction [of "a_store a"]
    grows_touch [of "a_store a" "desc_id d"]
  by (auto simp: handle_next_def Let_def on_data_transfer_def insert_evicting_def report_evictions_def contains_def
      descriptor_of_def descriptor_new_def ready_agent_def grows_def split: prod.splits if_splits)

lemma assembled_is_received:
  assumes "ready_agent hash n a" "grows (a_store a) s" "hash whole = i"
  shows "received n i (finish_data hash (a\<lparr>activity := q, a_assembler := asm, a_store := s\<rparr>) i (Some whole))"
proof -
  have "budget s = None" "\<not> a_closed a" "agent_id a = n"
    using assms(1,2) by (simp_all add: ready_agent_def grows_def)
  then show ?thesis
    using finish_data_calm(5,6) [where a = "a\<lparr>activity := q, a_assembler := asm, a_store := s\<rparr>" and hash = hash, OF _ _ refl]
      assms(3) by (auto simp: received_def)
qed

lemma manifest_starts:
  assumes "ready_agent hash n a" "describes hash m i parts" "inj hash"
    and "handle_next hash unlz4 (DataManifest n' m) a = Ret (Some (Inr (), a'))"
  shows "received n i a' \<or> collecting hash m i parts a'"
proof -
  obtain r asm s where b: "fill_from_store hash (begin_dataset (a_assembler a) m) (a_store a) i = (r, asm, s)" by (metis prod_cases3)
  have i: "desc_id (m_data m) = i" "parts \<noteq> []" "hash (concat parts) = i" using assms(2) by (simp_all add: describes_def)
  have "store_inv hash (a_store a)" using assms(1) by (simp add: ready_agent_def agent_inv_def)
  note fill = fill_progress [OF begin_arrived [OF i(1)] assms(2) _ assms(3) this b]
  have h: "held hash s parts = held hash (a_store a) parts" using contains_fill [OF b] by (simp add: held_def)
  have empty: "{} \<subset> {..< length parts}" using i(2) by auto
  show ?thesis
  proof (cases "held hash (a_store a) parts = {..< length parts}")
    case True
    then have "r = Ret (Inr (Some (concat parts)))" using fill [OF empty] by simp
    then show ?thesis
      using assms(4) b i assembled_is_received [OF assms(1) grows_fill [OF b] i(3)]
      by (auto simp: handle_next_def Let_def on_manifest_def begin_with_def)
  next
    case False
    then have "r = Ret (Inr None)" "arrived hash asm i m parts (held hash s parts)" using fill [OF empty] h by simp_all
    moreover have "held hash s parts \<subset> {..< length parts}" using False h by (auto simp: held_def)
    ultimately show ?thesis
      using assms(4) b i by (auto simp: handle_next_def Let_def on_manifest_def begin_with_def finish_data_def collecting_def)
  qed
qed

lemma chunk_continues:
  assumes "ready_agent hash n a" "describes hash m i parts" "inj hash" "k < length parts"
    and "decompress_with unlz4 codec wire = Some (parts ! k)"
    and "handle_next hash unlz4 (DataChunk n' i k codec wire) a = Ret (Some (Inr (), a'))"
    and "received n i a \<or> collecting hash m i parts a"
  shows "(received n i a' \<or> collecting hash m i parts a') \<and> contains (a_store a') (hash (parts ! k))"
proof -
  let ?a = "\<lambda>asm s. a\<lparr>activity := activity a + 1, a_assembler := asm, a_store := s\<rparr>"
  have none: "budget (a_store a) = None" "\<not> a_closed a" using assms(1) by (simp_all add: ready_agent_def)
  obtain r asm s where b: "add_stored hash (a_assembler a) (a_store a) i k (parts ! k) = (r, asm, s)" by (metis prod_cases3)
  note st = grows_add_stored [OF b]
  have a': "a' = (case r of Ret (Inr x) \<Rightarrow> finish_data hash (?a asm s) i x | _ \<Rightarrow> ?a asm s)"
    using assms(5,6) b by (auto simp: handle_next_def Let_def on_chunk_def split: exec.splits sum.splits)
  have adv: "advances hash n a a'"
    using transfer_turn [OF assms(1), of "DataChunk n' i k codec wire" unlz4] assms(6) by auto
  have "budget s = None" using st none(1) by (simp add: grows_def)
  then have "grows s (a_store a')"
    using a' finish_data_calm(1) [OF _ _ refl, of "?a asm s" hash i] none(2) by (auto split: exec.splits sum.splits)
  then have there: "contains (a_store a') (hash (parts ! k))"
    using st none(1) \<open>budget s = None\<close> by (simp add: grows_def)
  show ?thesis
  proof (cases "received n i a")
    case True
    then show ?thesis using received_advances [OF True assms(1) adv] there by simp
  next
    case False
    then obtain S where S: "arrived hash (a_assembler a) i m parts S" "S \<subset> {..< length parts}" "held hash (a_store a) parts \<subseteq> S"
      using assms(7) by (auto simp: collecting_def)
    have d: "m_chunks m = map (descriptor_of hash) parts" "length parts < 2 ^ 32" "hash (concat parts) = i"
      using assms(2) by (simp_all add: describes_def)
    note add = add_chunk_arrived [OF S(1) psubset_imp_subset [OF S(2)] assms(4) d]
    have done_: "received n i a'" if "r = Ret (Inr (Some (concat parts)))"
      using assembled_is_received [OF assms(1) _ d(3), of s] st a' that by simp
    show ?thesis
    proof (cases "insert k S = {..< length parts}")
      case True
      then have "r = Ret (Inr (Some (concat parts)))" using add b by (auto simp: add_stored_def Let_def)
      then show ?thesis using done_ there by simp
    next
      case more: False
      define s1 where "s1 = snd (put hash (a_store a) (parts ! k))"
      obtain asm1 where asm1: "add_chunk hash (a_assembler a) i k (parts ! k) = (Ret (Inr None), asm1)"
          "arrived hash asm1 i m parts (insert k S)" using add more by auto
      then have f: "fill_from_store hash asm1 s1 i = (r, asm, s)" using b by (simp add: add_stored_def s1_def)
      have "store_inv hash s1"
        using assms(1) put_inv [of hash "a_store a"] by (simp add: s1_def ready_agent_def agent_inv_def)
      note fill = fill_progress [OF asm1(2) assms(2) _ assms(3) this f]
      have sub: "insert k S \<subset> {..< length parts}" using more S(2) assms(4) by auto
      show ?thesis
      proof (cases "insert k S \<union> held hash s1 parts = {..< length parts}")
        case True
        then have "r = Ret (Inr (Some (concat parts)))" using fill sub by simp
        then show ?thesis using done_ there by simp
      next
        case False
        then have r: "r = Ret (Inr None)" "arrived hash asm i m parts (insert k S \<union> held hash s1 parts)"
          using fill sub by simp_all
        have "held hash s parts = held hash s1 parts" using contains_fill [OF f] by (simp add: held_def)
        moreover have "insert k S \<union> held hash s1 parts \<subset> {..< length parts}" using False sub by (auto simp: held_def)
        moreover have "a' = ?a asm s" using a' r(1) by (simp add: finish_data_def)
        ultimately have "collecting hash m i parts a'"
          using r(2) by (auto simp: collecting_def)
        then show ?thesis using there by simp
      qed
    qed
  qed
qed

section \<open>What the controller sends of a dataset\<close>

lemma encode_lossless:
  "unlz4 (lz4 bs) = Some bs \<Longrightarrow> encode lz4 p bs bandwidth = (c, wire) \<Longrightarrow> decompress_with unlz4 c wire = Some bs"
  by (cases "choose_codec p (length bs) bandwidth")
    (auto simp: encode_def compress_with_def decompress_with_def Let_def split: if_splits)

text \<open>The manifest of published bytes, with a chunk size and a number of chunks that fit 32 bits.\<close>

definition cut_from :: "digest \<Rightarrow> chunk_manifest \<Rightarrow> bytes \<Rightarrow> bool" where
  "cut_from hash m bs =
     (bs \<noteq> [] \<and> (\<exists>size. m = manifest_split hash bs size \<and> effective_chunk_size size < 2 ^ 32 \<and>
        length (slice_chunks (effective_chunk_size size) bs) < 2 ^ 32))"

definition parts_of :: "chunk_manifest \<Rightarrow> bytes \<Rightarrow> bytes list" where
  "parts_of m bs = slice_chunks (chunk_size m) bs"

lemma cut_from_facts:
  assumes "cut_from hash m bs"
  shows "describes hash m (hash bs) (parts_of m bs)" "concat (parts_of m bs) = bs"
    "idx < length (parts_of m bs) \<Longrightarrow> \<exists>lo hi. chunk_range m idx = Some (lo, hi) \<and> lo \<le> hi \<and> hi \<le> length bs \<and>
       take (hi - lo) (drop lo bs) = parts_of m bs ! idx"
proof -
  from assms obtain size where m: "m = manifest_split hash bs size" "effective_chunk_size size < 2 ^ 32"
    "length (slice_chunks (effective_chunk_size size) bs) < 2 ^ 32" "bs \<noteq> []" by (auto simp: cut_from_def)
  let ?n = "effective_chunk_size size"
  have sz: "chunk_size m = ?n" using m(1,2) by (simp add: manifest_split_def Let_def as_u32_def)
  then have p: "parts_of m bs = slice_chunks ?n bs" by (simp add: parts_of_def)
  show c: "concat (parts_of m bs) = bs"
    unfolding p by (rule concat_slice_chunks [OF effective_chunk_size_pos])
  have "m_chunks m = map (descriptor_of hash) (slice_chunks ?n bs)" "desc_id (m_data m) = hash bs"
    by (simp_all add: m(1) manifest_split_def Let_def descriptor_of_def descriptor_new_def)
  then have mc: "m_chunks m = map (descriptor_of hash) (parts_of m bs)" "desc_id (m_data m) = hash bs"
    by (simp_all only: p)
  have "parts_of m bs \<noteq> []" using m(4) c by auto
  moreover have "length (parts_of m bs) < 2 ^ 32" unfolding p by (rule m(3))
  ultimately show "describes hash m (hash bs) (parts_of m bs)" using c mc by (simp add: describes_def)
  assume idx: "idx < length (parts_of m bs)"
  have "parts_of m bs ! idx = take ?n (drop (idx * ?n) bs)"
    using nth_slice_chunks [OF effective_chunk_size_pos] idx unfolding p by blast
  moreover have "idx * ?n + length (parts_of m bs ! idx) \<le> length bs"
    using part_in_bounds [OF _ effective_chunk_size_pos] idx unfolding p by blast
  moreover have "chunk_range m idx = Some (idx * ?n, idx * ?n + length (parts_of m bs ! idx))"
    using idx sz by (simp add: chunk_range_def mc Let_def descriptor_of_def descriptor_new_def)
  ultimately show "\<exists>lo hi. chunk_range m idx = Some (lo, hi) \<and> lo \<le> hi \<and> hi \<le> length bs \<and>
      take (hi - lo) (drop lo bs) = parts_of m bs ! idx" by (auto simp: min_def)
qed

lemma batch_covers:
  assumes "cut_from hash m bs" "\<forall>x. unlz4 (lz4 x) = Some x" "set keys \<subseteq> set (indexed m)"
    and "chunk_batch lz4 n m bs bw keys c = (Ret batch, c')"
  shows "(\<forall>(idx, codec, wire) \<in> set batch. idx < length (parts_of m bs) \<and>
      decompress_with unlz4 codec wire = Some (parts_of m bs ! idx)) \<and>
    (\<forall>(idx, d) \<in> set keys. holds (c_catalog c) (desc_id d) n \<or> (\<exists>(j, _) \<in> set batch. hash (parts_of m bs ! j) = desc_id d)) \<and>
    (\<forall>i j. holds (c_catalog c') i j \<longrightarrow> holds (c_catalog c) i j \<or>
      j = n \<and> (\<exists>(k, _) \<in> set batch. hash (parts_of m bs ! k) = i))"
  using assms(3,4)
proof (induction keys arbitrary: c batch)
  case (Cons key keys)
  note facts = cut_from_facts [OF assms(1)]
  obtain idx d where key: "key = (idx, d)" by fastforce
  have idx: "idx < length (parts_of m bs)" "d = descriptor_of hash (parts_of m bs ! idx)"
    using Cons.prems(1) key describes_indexed [OF facts(1)] by auto
  then have d: "desc_id d = hash (parts_of m bs ! idx)" by (simp add: descriptor_of_def descriptor_new_def)
  show ?case
  proof (cases "reuse_data c \<and> holds (c_catalog c) (desc_id d) n")
    case True
    then have "chunk_batch lz4 n m bs bw keys (count_traffic record_chunk_skipped c) = (Ret batch, c')"
      using Cons.prems(2) key by simp
    from Cons.IH [OF _ this] show ?thesis using Cons.prems(1) key True by (auto simp: count_traffic_def)
  next
    case False
    obtain lo hi where r: "chunk_range m idx = Some (lo, hi)" "lo \<le> hi" "hi \<le> length bs"
      "take (hi - lo) (drop lo bs) = parts_of m bs ! idx" using facts(3) [OF idx(1)] by blast
    obtain codec wire where e: "encode lz4 (compression c) (parts_of m bs ! idx) bw = (codec, wire)" by fastforce
    define c1 where "c1 = count_traffic (\<lambda>t. record_sent t (length wire) (size_bytes d)) (c\<lparr>c_catalog := record_data (c_catalog c) d n\<rparr>)"
    obtain batch1 where b: "chunk_batch lz4 n m bs bw keys c1 = (Ret batch1, c')" "batch = (idx, codec, wire) # batch1"
      using Cons.prems(2) False r e by (auto simp: key c1_def Let_def split: prod.splits exec.splits)
    have "decompress_with unlz4 codec wire = Some (parts_of m bs ! idx)"
      by (rule encode_lossless [OF _ e]) (simp add: assms(2))
    then show ?thesis
      using Cons.IH [OF _ b(1)] Cons.prems(1) idx(1) d by (auto simp: b(2) key c1_def count_traffic_def holds_record)
  qed
qed auto

section \<open>The server takes the answers\<close>

definition same_links :: "connections \<Rightarrow> connections \<Rightarrow> bool" where
  "same_links c c' =
     (senders c' = senders c \<and> closed c' = closed c \<and> data_channels c' = data_channels c \<and> outbox c' = outbox c \<and>
      delivered c' = delivered c \<and> pending_results c' = pending_results c)"

lemma ready_step:
  assumes "map_of (sessions v) k = Some l" "registered_id l = Some n" "v' = server_step security (Receive k now [] (DataReady x i)) v"
  shows "map_of (sessions v') k = Some l" "conns (mesh v') = complete_data (conns (mesh v)) n i"
  using assms by (simp_all add: handle_message_def speaks_for_def Let_def update_conv')

lemma completed_step:
  assumes "map_of (sessions v) k = Some l" "registered_id l = Some n" "res_node_id r = n"
    "v' = server_step security (Receive k now [] (TaskCompleted r)) v"
  shows "map_of (sessions v') k = Some l" "conns (mesh v') = complete (conns (mesh v)) r"
  using assms by (simp_all add: handle_message_def on_task_completed_def Let_def update_conv')

lemma readies_handled:
  assumes "map_of (sessions v) k = Some l" "registered_id l = Some n" "\<forall>m \<in> set ms. \<exists>i. m = DataReady n i"
  shows "map_of (sessions (server_reads security k now ms v)) k = Some l \<and>
    same_links (conns (mesh v)) (conns (mesh (server_reads security k now ms v))) \<and>
    set (woken (conns (mesh v))) \<subseteq> set (woken (conns (mesh (server_reads security k now ms v)))) \<and>
    (\<forall>i w. DataReady n i \<in> set ms \<longrightarrow> map_of (pending_data (conns (mesh v))) (n, i) = Some w \<longrightarrow>
       w \<in> set (woken (conns (mesh (server_reads security k now ms v)))))"
  using assms(1,3)
proof (induction ms arbitrary: v)
  case (Cons m ms)
  then obtain j where m: "m = DataReady n j" by auto
  define v1 where "v1 = server_step security (Receive k now [] m) v"
  note st = ready_step [OF Cons.prems(1) assms(2) v1_def [unfolded m]]
  have r: "server_reads security k now (m # ms) v = server_reads security k now ms v1"
    by (simp add: server_reads_def v1_def)
  have links: "same_links (conns (mesh v)) (conns (mesh v1))"
    unfolding st(2) by (simp add: same_links_def complete_data_def split: option.splits)
  have woke: "set (woken (conns (mesh v))) \<subseteq> set (woken (conns (mesh v1)))"
    unfolding st(2) by (simp add: complete_data_def subset_iff split: option.splits)
  have w1: "w \<in> set (woken (conns (mesh v1))) \<or> map_of (pending_data (conns (mesh v1))) (n, i) = Some w \<and> i \<noteq> j"
    if "map_of (pending_data (conns (mesh v))) (n, i) = Some w" for i w
    using that unfolding st(2) by (auto simp: complete_data_def delete_conv' split: option.splits)
  have IH: "map_of (sessions (server_reads security k now ms v1)) k = Some l \<and>
      same_links (conns (mesh v1)) (conns (mesh (server_reads security k now ms v1))) \<and>
      set (woken (conns (mesh v1))) \<subseteq> set (woken (conns (mesh (server_reads security k now ms v1)))) \<and>
      (\<forall>i w. DataReady n i \<in> set ms \<longrightarrow> map_of (pending_data (conns (mesh v1))) (n, i) = Some w \<longrightarrow>
         w \<in> set (woken (conns (mesh (server_reads security k now ms v1)))))"
    using Cons.IH [OF st(1)] Cons.prems(2) by simp
  then show ?case
    unfolding r using links woke w1 by (auto simp: m same_links_def) blast+
qed (simp add: server_reads_def same_links_def)

section \<open>Messages on their way\<close>

lemma reads_append:
  "agent_reads hash unlz4 wasm el xs a = ([], Some b) \<Longrightarrow>
     agent_reads hash unlz4 wasm el (xs @ ys) a = agent_reads hash unlz4 wasm el ys b"
  by (induction xs arbitrary: a) (auto split: exec.splits option.splits sum.splits prod.splits)

lemma idle_finish: "ready_agent hash n a \<Longrightarrow> finish_task hash wasm 0 el a = a"
  by (simp add: finish_task_def ready_agent_def)

lemma reads_transfer:
  assumes "ready_agent hash n a" "handle_next hash unlz4 m a = Ret (Some (Inr (), a'))" "advances hash n a a'"
  shows "agent_reads hash unlz4 wasm el (m # ms) a = agent_reads hash unlz4 wasm el ms a'"
  using assms(2,3) idle_finish [of hash n a'] by (simp add: advances_def)

lemma reads_transfers:
  "ready_agent hash n a \<Longrightarrow> list_all is_transfer ms \<Longrightarrow>
     \<exists>b. agent_reads hash unlz4 wasm el ms a = ([], Some b) \<and> advances hash n a b"
proof (induction ms arbitrary: a)
  case (Cons m ms)
  obtain a1 where a1: "handle_next hash unlz4 m a = Ret (Some (Inr (), a1))" "advances hash n a a1"
    using transfer_turn [OF Cons.prems(1), of m unlz4] Cons.prems(2) by auto
  moreover obtain b where "agent_reads hash unlz4 wasm el ms a1 = ([], Some b)" "advances hash n a1 b"
    using Cons.IH [of a1] Cons.prems(2) a1(2) by (auto simp: advances_def)
  ultimately show ?case
    using reads_transfer [OF Cons.prems(1) a1] advances_trans by metis
qed (simp add: advances_refl)

text \<open>
  The mesh at rest: the node is connected and registered, and once the agent has read what
  is queued for it, it is in the given state.
\<close>

definition connected_site :: "node_id \<Rightarrow> conn \<Rightarrow> connections \<Rightarrow> site \<Rightarrow> bool" where
  "connected_site n k c st =
     (map_of (senders c) n = Some k \<and> k \<notin> set (closed c) \<and> map_of (data_channels c) n = None \<and>
      (\<exists>l. map_of (sessions (s_server st)) k = Some l \<and> registered_id l = Some n))"

definition settled ::
    "digest \<Rightarrow> (bytes \<Rightarrow> bytes option) \<Rightarrow> sandbox option \<Rightarrow> duration \<Rightarrow> node_id \<Rightarrow> conn \<Rightarrow> site network \<Rightarrow> agent \<Rightarrow> bool" where
  "settled hash unlz4 wasm el n k t b =
     (connected_site n k (net_conns t) (world_state t) \<and>
      (\<forall>(w, _) \<in> set (delivered (net_conns t)). w < next_waiter t) \<and>
      (\<exists>a. s_agent (world_state t) = Some a \<and> ready_agent hash n a \<and> a_outbox a = [] \<and>
         list_all is_transfer (queued k (net_conns t)) \<and>
         agent_reads hash unlz4 wasm el (queued k (net_conns t)) a = ([], Some b)))"

lemma settled_ready:
  assumes "settled hash unlz4 wasm el n k t b"
  shows "ready_agent hash n b"
proof -
  obtain a where "ready_agent hash n a" "list_all is_transfer (queued k (net_conns t))"
    "agent_reads hash unlz4 wasm el (queued k (net_conns t)) a = ([], Some b)"
    using assms by (auto simp: settled_def)
  then show ?thesis
    using reads_transfers [of hash n a "queued k (net_conns t)" unlz4 wasm el] by (simp add: advances_def)
qed

lemma send_queues:
  assumes "connected_site n k c st"
  shows "\<exists>c'. send c n m = (Inr (), c') \<and> c' = c\<lparr>outbox := outbox c @ [(k, m)]\<rparr> \<and> queued k c' = queued k c @ [m] \<and>
    connected_site n k c' st"
  using assms by (auto simp: connected_site_def send_def channel_send_def queued_def)

lemma send_settled:
  assumes "settled hash unlz4 wasm el n k t b" "is_transfer m"
  obtains t' b' where "net_send t n m = (Inr (), t')" "handle_next hash unlz4 m b = Ret (Some (Inr (), b'))"
    "advances hash n b b'" "settled hash unlz4 wasm el n k t' b'"
proof -
  obtain b' where b': "handle_next hash unlz4 m b = Ret (Some (Inr (), b'))" "advances hash n b b'"
    using transfer_turn [OF settled_ready [OF assms(1)] assms(2)] .
  obtain c where c: "send (net_conns t) n m = (Inr (), c)" "c = (net_conns t)\<lparr>outbox := outbox (net_conns t) @ [(k, m)]\<rparr>"
      "queued k c = queued k (net_conns t) @ [m]" "connected_site n k c (world_state t)"
    using send_queues [of n k "net_conns t" "world_state t" m] assms(1) by (auto simp: settled_def)
  have "net_send t n m = (Inr (), t\<lparr>net_conns := c\<rparr>)" using c(1) by (simp add: net_send_def)
  moreover have "settled hash unlz4 wasm el n k (t\<lparr>net_conns := c\<rparr>) b'"
    using assms c(2-4) b' reads_transfer [OF settled_ready [OF assms(1)] b', of wasm el "[]"]
    by (auto simp: settled_def reads_append)
  ultimately show thesis using b' that by blast
qed

lemma world_reads:
  assumes "s_agent st = Some a" "agent_reads hash unlz4 wasm el (queued k c) a = ([], Some b)"
    and "v = (s_server st)\<lparr>mesh := (mesh (s_server st))\<lparr>conns := c\<lparr>outbox := filter (\<lambda>(j, _). j \<noteq> k) (outbox c)\<rparr>\<rparr>\<rparr>"
  shows "agent_world hash unlz4 wasm el security now k c st =
    (conns (mesh (server_reads security k now (a_outbox b) v)),
     \<lparr>s_server = server_reads security k now (a_outbox b) v, s_agent = Some (b\<lparr>a_outbox := []\<rparr>)\<rparr>)"
  using assms by (simp add: agent_world_def Let_def)

lemma queued_consumed: "outbox c = filter (\<lambda>(j, _). j \<noteq> k) qs \<Longrightarrow> queued k c = []"
  by (simp add: queued_def filter_empty_conv split_def)

lemma chunks_queued:
  assumes "connected_site n k c st"
  shows "queue_chunks c n i chunks =
    (Inr (), c\<lparr>outbox := outbox c @ map (\<lambda>(idx, codec, bs). (k, DataChunk n i idx codec bs)) chunks\<rparr>)"
  using assms
proof (induction chunks arbitrary: c)
  case (Cons x chunks)
  obtain idx codec bs where x: "x = (idx, codec, bs)" by (metis prod_cases3)
  obtain c1 where c1: "send c n (DataChunk n i idx codec bs) = (Inr (), c1)"
      "c1 = c\<lparr>outbox := outbox c @ [(k, DataChunk n i idx codec bs)]\<rparr>" "connected_site n k c1 st"
    using send_queues [OF Cons.prems] by blast
  have "send_bulk c n (DataChunk n i idx codec bs) = send c n (DataChunk n i idx codec bs)"
    using Cons.prems by (simp add: send_bulk_def connected_site_def)
  then show ?case using Cons.IH [OF c1(3)] c1(1) by (simp add: x c1(2))
qed simp

lemma emptied_ready: "ready_agent hash n b \<Longrightarrow> ready_agent hash n (b\<lparr>a_outbox := []\<rparr>)"
  by (simp add: ready_agent_def agent_inv_def)

lemma chunks_settled:
  assumes "settled hash unlz4 wasm el n k t a"
    and "agent_reads hash unlz4 wasm el (map (\<lambda>(idx, codec, bs). DataChunk n i idx codec bs) chunks) a = ([], Some b)"
    and "received n i b" "ready_agent hash n b"
  shows "\<exists>t'. net_send_chunks (agent_world hash unlz4 wasm el security now k) t n i chunks = (Inr (), t') \<and>
    settled hash unlz4 wasm el n k t' (b\<lparr>a_outbox := []\<rparr>)"
proof -
  let ?ms = "map (\<lambda>(idx, codec, bs). DataChunk n i idx codec bs) chunks"
  from assms(1) obtain a0 l where a0: "s_agent (world_state t) = Some a0"
      "agent_reads hash unlz4 wasm el (queued k (net_conns t)) a0 = ([], Some a)"
    and l: "map_of (sessions (s_server (world_state t))) k = Some l" "registered_id l = Some n"
    and site: "connected_site n k (net_conns t) (world_state t)"
    and fresh: "\<forall>(w, _) \<in> set (delivered (net_conns t)). w < next_waiter t"
    by (auto simp: settled_def connected_site_def)
  define c0 where "c0 = expect_data (net_conns t) n i (next_waiter t)"
  define c1 where "c1 = c0\<lparr>outbox := outbox c0 @ map (\<lambda>(idx, codec, bs). (k, DataChunk n i idx codec bs)) chunks\<rparr>"
  have "connected_site n k c0 (world_state t)" using site by (simp add: c0_def expect_data_def connected_site_def)
  then have q: "queue_chunks c0 n i chunks = (Inr (), c1)" unfolding c1_def by (rule chunks_queued)
  have "queued k c1 = queued k (net_conns t) @ ?ms"
    by (auto simp: c1_def c0_def expect_data_def queued_def filter_map comp_def split_def)
  then have rd: "agent_reads hash unlz4 wasm el (queued k c1) a0 = ([], Some b)" using reads_append [OF a0(2)] assms(2) by simp
  define v where "v = (s_server (world_state t))\<lparr>mesh := (mesh (s_server (world_state t)))\<lparr>conns := c1\<lparr>outbox := filter (\<lambda>(j, _). j \<noteq> k) (outbox c1)\<rparr>\<rparr>\<rparr>"
  define v1 where "v1 = server_reads security k now (a_outbox b) v"
  note w = world_reads [OF a0(1) rd v_def, of security now, folded v1_def]
  have vs: "map_of (sessions v) k = Some l" using l by (simp add: v_def)
  have "\<forall>m \<in> set (a_outbox b). \<exists>i. m = DataReady n i" using assms(4) by (simp add: ready_agent_def)
  note h = readies_handled [OF vs l(2) this, of security now, folded v1_def]
  have "map_of (pending_data (conns (mesh v))) (n, i) = Some (next_waiter t)"
    by (simp add: v_def c1_def c0_def expect_data_def update_conv')
  then have woke: "next_waiter t \<in> set (woken (conns (mesh v1)))" using h assms(3) unfolding received_def by blast
  define t' where "t' = t\<lparr>net_conns := conns (mesh v1), next_waiter := next_waiter t + 1,
    world_state := \<lparr>s_server = v1, s_agent = Some (b\<lparr>a_outbox := []\<rparr>)\<rparr>\<rparr>"
  have "net_send_chunks (agent_world hash unlz4 wasm el security now k) t n i chunks = (Inr (), t')"
    using q w woke by (simp add: net_send_chunks_def Let_def net_wait_def c0_def t'_def)
  moreover have "settled hash unlz4 wasm el n k t' (b\<lparr>a_outbox := []\<rparr>)"
  proof -
    have o: "outbox (conns (mesh v1)) = filter (\<lambda>(j, _). j \<noteq> k) (outbox c1)" and "delivered (conns (mesh v1)) = delivered (net_conns t)"
      using h by (simp_all add: same_links_def v_def c1_def c0_def expect_data_def)
    moreover have "connected_site n k (conns (mesh v1)) \<lparr>s_server = v1, s_agent = Some (b\<lparr>a_outbox := []\<rparr>)\<rparr>"
      using h site l(2) by (auto simp: connected_site_def same_links_def v_def c1_def c0_def expect_data_def)
    ultimately show ?thesis
      using fresh emptied_ready [OF assms(4)] queued_consumed [OF o] by (auto simp: settled_def t'_def)
  qed
  ultimately show ?thesis by blast
qed

section \<open>Running a task\<close>

lemma grows_read_inputs: "read_inputs s ins = (r, s') \<Longrightarrow> grows s s'"
proof (induction ins arbitrary: s r)
  case (Cons i ins)
  from Cons.prems show ?case
    by (auto dest!: grows_get Cons.IH intro: grows_trans split: prod.splits option.splits sum.splits)
qed simp

lemma grows_execute:
  assumes "execute hash wasm n task el s = (r, s')"
  shows "grows s s'"
proof -
  have "grows s s1" if "run_kind hash wasm task s = (q, s1)" for q s1
    using that
    by (auto simp: run_kind_def hash_task_def wasm_task_def dest!: grows_get grows_read_inputs intro: grows_trans
        split: if_splits prod.splits option.splits sum.splits)
  then show ?thesis
    using assms grows_put grows_trans by (fastforce simp: execute_def Let_def split: prod.splits sum.splits)
qed

lemma assignment_runs:
  assumes "ready_agent hash n a" "execute hash wasm n task el (a_store a) = (r, s)"
  shows "\<exists>b. agent_reads hash unlz4 wasm el [TaskAssignment n task tp] a = ([], Some b) \<and>
    a_store b = s \<and> a_outbox b = a_outbox a @ [TaskCompleted r] \<and> ready_agent hash n (b\<lparr>a_outbox := []\<rparr>)"
proof -
  have "store_inv hash s" using execute_reports [OF _ assms(2)] assms(1) by (simp add: ready_agent_def agent_inv_def)
  then show ?thesis
    using assms grows_execute [OF assms(2)]
    by (auto simp: handle_next_def Let_def finish_task_def emit_def ready_agent_def agent_inv_def grows_def vec_remove_def)
qed

lemma dispatch_settled:
  assumes "settled hash unlz4 wasm el n k t a" "execute hash wasm n task el (a_store a) = (r, s)"
  shows "\<exists>t' b. net_dispatch (agent_world hash unlz4 wasm el security now k) t n task = (Inr r, t') \<and>
    settled hash unlz4 wasm el n k t' b \<and> a_store b = s"
proof -
  from assms(1) obtain a0 l where a0: "s_agent (world_state t) = Some a0"
      "agent_reads hash unlz4 wasm el (queued k (net_conns t)) a0 = ([], Some a)"
    and l: "map_of (sessions (s_server (world_state t))) k = Some l" "registered_id l = Some n"
    and site: "connected_site n k (net_conns t) (world_state t)"
    and fresh: "\<forall>(w, _) \<in> set (delivered (net_conns t)). w < next_waiter t"
    by (auto simp: settled_def connected_site_def)
  note ra = settled_ready [OF assms(1)]
  obtain b where b: "agent_reads hash unlz4 wasm el [TaskAssignment n task traceparent] a = ([], Some b)"
    "a_store b = s" "a_outbox b = a_outbox a @ [TaskCompleted r]" "ready_agent hash n (b\<lparr>a_outbox := []\<rparr>)"
    using assignment_runs [OF ra assms(2)] by blast
  have rep: "res_task_id r = task_id task" "res_node_id r = n"
    using execute_reports [OF _ assms(2)] ra by (simp_all add: ready_agent_def agent_inv_def)
  define c0 where "c0 = expect_result (net_conns t) (task_id task) (next_waiter t)"
  have s0: "connected_site n k c0 (world_state t)" using site by (simp add: c0_def expect_result_def connected_site_def)
  obtain c1 where c1: "send c0 n (TaskAssignment n task traceparent) = (Inr (), c1)"
      "c1 = c0\<lparr>outbox := outbox c0 @ [(k, TaskAssignment n task traceparent)]\<rparr>"
      "queued k c1 = queued k c0 @ [TaskAssignment n task traceparent]"
    using send_queues [OF s0] by blast
  have "queued k c0 = queued k (net_conns t)" by (simp add: c0_def expect_result_def queued_def)
  then have rd: "agent_reads hash unlz4 wasm el (queued k c1) a0 = ([], Some b)" using reads_append [OF a0(2)] b(1) c1(3) by simp
  define v where "v = (s_server (world_state t))\<lparr>mesh := (mesh (s_server (world_state t)))\<lparr>conns := c1\<lparr>outbox := filter (\<lambda>(j, _). j \<noteq> k) (outbox c1)\<rparr>\<rparr>\<rparr>"
  define v1 where "v1 = server_reads security k now (a_outbox a) v"
  define v2 where "v2 = server_step security (Receive k now [] (TaskCompleted r)) v1"
  have v2: "server_reads security k now (a_outbox b) v = v2" by (simp add: b(3) server_reads_def v1_def v2_def)
  note w = world_reads [OF a0(1) rd v_def, of security now, unfolded v2]
  have vs: "map_of (sessions v) k = Some l" using l by (simp add: v_def)
  have "\<forall>m \<in> set (a_outbox a). \<exists>i. m = DataReady n i" using ra by (simp add: ready_agent_def)
  note h = readies_handled [OF vs l(2) this, of security now, folded v1_def]
  note st = completed_step [OF conjunct1 [OF h] l(2) rep(2) v2_def]
  have links: "senders (conns (mesh v1)) = senders (net_conns t)" "closed (conns (mesh v1)) = closed (net_conns t)"
      "data_channels (conns (mesh v1)) = data_channels (net_conns t)" "delivered (conns (mesh v1)) = delivered (net_conns t)"
      "outbox (conns (mesh v1)) = filter (\<lambda>(j, _). j \<noteq> k) (outbox c1)"
      "map_of (pending_results (conns (mesh v1))) (res_task_id r) = Some (next_waiter t)"
    using h by (simp_all add: same_links_def v_def c1(2) c0_def expect_result_def update_conv' rep)
  have c2: "conns (mesh v2) = (conns (mesh v1))\<lparr>pending_results := AList.delete (res_task_id r) (pending_results (conns (mesh v1))),
      delivered := delivered (net_conns t) @ [(next_waiter t, r)]\<rparr>"
    unfolding st(2) complete_def by (simp add: links)
  have "map_of (delivered (net_conns t)) (next_waiter t) = None"
    using fresh by (auto simp: map_of_eq_None_iff)
  then have got: "map_of (delivered (conns (mesh v2))) (next_waiter t) = Some r" by (simp add: c2 map_add_Some_iff)
  define t' where "t' = t\<lparr>net_conns := conns (mesh v2), next_waiter := next_waiter t + 1,
    world_state := \<lparr>s_server = v2, s_agent = Some (b\<lparr>a_outbox := []\<rparr>)\<rparr>\<rparr>"
  have "net_dispatch (agent_world hash unlz4 wasm el security now k) t n task = (Inr r, t')"
    using c1(1) w got by (simp add: net_dispatch_def Let_def net_wait_def c0_def t'_def)
  moreover have "settled hash unlz4 wasm el n k t' (b\<lparr>a_outbox := []\<rparr>)"
  proof -
    have "connected_site n k (conns (mesh v2)) \<lparr>s_server = v2, s_agent = Some (b\<lparr>a_outbox := []\<rparr>)\<rparr>"
      using site l(2) st(1) by (auto simp: connected_site_def c2 links)
    moreover have "queued k (conns (mesh v2)) = []" by (rule queued_consumed [of _ k "outbox c1"]) (simp add: c2 links)
    ultimately show ?thesis
      using fresh b(4) by (auto simp: settled_def t'_def c2)
  qed
  ultimately show ?thesis using b(2) by auto
qed

section \<open>Inputs arrive\<close>

lemma chunks_collect:
  assumes "describes hash m i parts" "inj hash"
    and "\<forall>(idx, codec, wire) \<in> set chunks. idx < length parts \<and> decompress_with unlz4 codec wire = Some (parts ! idx)"
    and "ready_agent hash n a" "received n i a \<or> collecting hash m i parts a"
  shows "\<exists>b. agent_reads hash unlz4 wasm el (map (\<lambda>(idx, codec, bs). DataChunk n i idx codec bs) chunks) a = ([], Some b) \<and>
    advances hash n a b \<and> (received n i b \<or> collecting hash m i parts b) \<and>
    (\<forall>(idx, _) \<in> set chunks. contains (a_store b) (hash (parts ! idx)))"
  using assms(3-5)
proof (induction chunks arbitrary: a)
  case (Cons x chunks)
  obtain idx codec wire where x: "x = (idx, codec, wire)" by (metis prod_cases3)
  obtain a1 where a1: "handle_next hash unlz4 (DataChunk n i idx codec wire) a = Ret (Some (Inr (), a1))" "advances hash n a a1"
    using transfer_turn [OF Cons.prems(2), of "DataChunk n i idx codec wire"] by auto
  have step: "(received n i a1 \<or> collecting hash m i parts a1) \<and> contains (a_store a1) (hash (parts ! idx))"
    using Cons.prems(1) x by (intro chunk_continues [OF Cons.prems(2) assms(1,2) _ _ a1(1) Cons.prems(3)]) auto
  have r1: "ready_agent hash n a1" using a1(2) by (simp add: advances_def)
  obtain b where b: "agent_reads hash unlz4 wasm el (map (\<lambda>(idx, codec, bs). DataChunk n i idx codec bs) chunks) a1 = ([], Some b)"
    "advances hash n a1 b" "received n i b \<or> collecting hash m i parts b"
    "\<forall>(idx, _) \<in> set chunks. contains (a_store b) (hash (parts ! idx))"
    using Cons.IH [OF _ r1] step Cons.prems(1) by auto
  have "contains (a_store b) (hash (parts ! idx))"
    using b(2) step r1 by (simp add: advances_def grows_def ready_agent_def)
  moreover have "agent_reads hash unlz4 wasm el (map (\<lambda>(idx, codec, bs). DataChunk n i idx codec bs) (x # chunks)) a = ([], Some b)"
    using reads_transfer [OF Cons.prems(2) a1, of wasm el] b(1) by (simp add: x)
  ultimately show ?case using b advances_trans [OF a1(2) b(2)] by (auto simp: x)
qed (simp add: advances_refl)

text \<open>
  A published input the controller can send, and a catalogue that credits the node only with
  what the agent will hold.
\<close>

definition sendable :: "digest \<Rightarrow> controller \<Rightarrow> data_id \<Rightarrow> bool" where
  "sendable hash c i =
     (\<exists>bs. stored_bytes c i = Some bs \<and> (\<forall>m. map_of (manifests c) i = Some m \<longrightarrow> cut_from hash m bs))"

definition credits_held :: "controller \<Rightarrow> node_id \<Rightarrow> agent \<Rightarrow> bool" where
  "credits_held c n a = (\<forall>i. holds (c_catalog c) i n \<longrightarrow> contains (a_store a) i)"

lemma all_held_received:
  assumes "describes hash m i parts" "\<forall>(idx, d) \<in> set (indexed m). contains (a_store b) (desc_id d)"
    and "received n i b \<or> collecting hash m i parts b"
  shows "received n i b"
  using assms(3)
proof
  assume "collecting hash m i parts b"
  then obtain part where "part \<in> set parts" "\<not> contains (a_store b) (hash part)" using collecting_incomplete by blast
  then show ?thesis
    using assms(2) by (auto simp: describes_indexed [OF assms(1)] in_set_conv_nth descriptor_of_def descriptor_new_def)
qed

lemma send_chunked_delivers:
  assumes tr: "tr = mesh_transport hash unlz4 wasm el security now k"
  assumes "settled hash unlz4 wasm el n k t a" "cut_from hash m bs" "credits_held c n a" "inj hash"
    and "\<forall>x. unlz4 (lz4 x) = Some x"
  shows "\<exists>c' t' a'. send_chunked lz4 tr n m bs bw c t = (Ret (Inr ()), c', t') \<and>
    settled hash unlz4 wasm el n k t' a' \<and> contains (a_store a') (hash bs) \<and> grows (a_store a) (a_store a') \<and> credits_held c' n a'"
proof -
  let ?parts = "parts_of m bs"
  note facts = cut_from_facts [OF assms(3)]
  have "is_transfer (DataManifest n m)" using facts(1) by (simp add: describes_def manifest_len_def)
  then obtain t1 a1 where t1: "net_send t n (DataManifest n m) = (Inr (), t1)"
      "handle_next hash unlz4 (DataManifest n m) a = Ret (Some (Inr (), a1))" "advances hash n a a1"
      "settled hash unlz4 wasm el n k t1 a1"
    by (rule send_settled [OF assms(2)])
  have ra: "ready_agent hash n a" "ready_agent hash n a1"
    using settled_ready [OF assms(2)] settled_ready [OF t1(4)] by simp_all
  have start: "received n (hash bs) a1 \<or> collecting hash m (hash bs) ?parts a1"
    by (rule manifest_starts [OF ra(1) facts(1) assms(5) t1(2)])
  obtain batch c1 where batch: "chunk_batch lz4 n m bs bw (indexed m) c = (Ret batch, c1)"
    using chunk_batch_no_panic [OF order_refl] assms(3) unfolding cut_from_def by blast
  note cov = batch_covers [OF assms(3,6) order_refl batch]
  obtain b where b: "agent_reads hash unlz4 wasm el (map (\<lambda>(idx, codec, bs'). DataChunk n (hash bs) idx codec bs') batch) a1 = ([], Some b)"
    "advances hash n a1 b" "received n (hash bs) b \<or> collecting hash m (hash bs) ?parts b"
    "\<forall>(idx, _) \<in> set batch. contains (a_store b) (hash (?parts ! idx))"
    using chunks_collect [OF facts(1) assms(5) _ ra(2) start] cov by blast
  have adv: "advances hash n a b" by (rule advances_trans [OF t1(3) b(2)])
  then have gr: "grows (a_store a) (a_store b)" by (simp add: advances_def)
  have none: "budget (a_store a) = None" using ra(1) by (simp add: ready_agent_def)
  have all: "\<forall>(idx, d) \<in> set (indexed m). contains (a_store b) (desc_id d)"
  proof clarify
    fix idx d assume "(idx, d) \<in> set (indexed m)"
    then have "holds (c_catalog c) (desc_id d) n \<or> (\<exists>(j, _) \<in> set batch. hash (?parts ! j) = desc_id d)" using cov by blast
    then show "contains (a_store b) (desc_id d)"
      using assms(4) gr none b(4) by (auto simp: credits_held_def grows_def)
  qed
  have rec: "received n (hash bs) b" by (rule all_held_received [OF facts(1) all b(3)])
  have cr: "credits_held c1 n b" if "a_store b' = a_store b" for b'
    using cov assms(4) gr none b(4) by (fastforce simp: credits_held_def grows_def)
  have id: "desc_id (m_data m) = hash bs" using facts(1) by (simp add: describes_def)
  show ?thesis
  proof (cases "batch = []")
    case True
    then have "b = a1" using b(1) by simp
    then show ?thesis
      using t1 rec gr cr [of b] True batch
      by (auto simp: send_chunked_def tr net_send_manifest_def received_def)
  next
    case False
    have rb: "ready_agent hash n b" using b(2) by (simp add: advances_def)
    obtain t2 where "net_send_chunks (agent_world hash unlz4 wasm el security now k) t1 n (hash bs) batch = (Inr (), t2)"
        "settled hash unlz4 wasm el n k t2 (b\<lparr>a_outbox := []\<rparr>)"
      using chunks_settled [OF t1(4) b(1) rec rb] by blast
    then show ?thesis
      using t1 rec gr cr [of b] False batch id
      by (auto simp: send_chunked_def tr net_send_manifest_def received_def credits_held_def Let_def)
  qed
qed

lemma published_hash: "controller_inv hash c \<Longrightarrow> stored_bytes c i = Some bs \<Longrightarrow> hash bs = i"
  by (auto simp: controller_inv_def stored_bytes_def dest: store_inv_blob)

lemma send_input_delivers:
  assumes tr: "tr = mesh_transport hash unlz4 wasm el security now k"
    and "settled hash unlz4 wasm el n k t a" "controller_inv hash c" "sendable hash c i" "credits_held c n a" "inj hash"
    and "\<forall>x. unlz4 (lz4 x) = Some x"
  shows "\<exists>d c' t' a'. send_input lz4 tr n i c t = (Ret (Inr d), c', t') \<and> settled hash unlz4 wasm el n k t' a' \<and>
    contains (a_store a') i \<and> grows (a_store a) (a_store a') \<and> credits_held c' n a'"
proof -
  obtain bs where bs: "stored_bytes c i = Some bs" "\<forall>m. map_of (manifests c) i = Some m \<longrightarrow> cut_from hash m bs"
    using assms(4) by (auto simp: sendable_def)
  obtain s where g: "get (c_store c) i = (Some bs, s)"
    using fst_get [of "c_store c" i] bs(1) by (metis prod.collapse stored_bytes_def)
  have h: "hash bs = i" by (rule published_hash [OF assms(3) bs(1)])
  define c1 where "c1 = c\<lparr>c_store := s\<rparr>"
  have cr: "credits_held c1 n a" using assms(5) by (simp add: c1_def credits_held_def)
  show ?thesis
  proof (cases "map_of (manifests c) i")
    case None
    let ?d = "descriptor_new i (length bs)"
    obtain codec wire where e: "encode lz4 (compression c1) bs (bandwidth_to c1 n) = (codec, wire)" by fastforce
    obtain t1 a1 where t1: "net_send t n (DataTransfer n ?d codec wire) = (Inr (), t1)"
        "handle_next hash unlz4 (DataTransfer n ?d codec wire) a = Ret (Some (Inr (), a1))" "advances hash n a a1"
        "settled hash unlz4 wasm el n k t1 a1"
      by (rule send_settled [OF assms(2), of "DataTransfer n ?d codec wire"]) simp
    have "contains (a_store a1) (desc_id ?d)"
      using assms(7) by (intro whole_arrives [OF settled_ready [OF assms(2)] encode_lossless [OF _ e] _ t1(2)])
        (simp_all add: h descriptor_new_def)
    moreover have "grows (a_store a) (a_store a1)" "budget (a_store a) = None"
      using t1(3) settled_ready [OF assms(2)] by (simp_all add: advances_def ready_agent_def)
    ultimately show ?thesis
      using t1(1,4) g e None cr
      by (auto simp: send_input_def Let_def tr c1_def net_send_data_def descriptor_new_def credits_held_def grows_def)
  next
    case (Some m)
    obtain c2 t1 a1 where "send_chunked lz4 tr n m bs (bandwidth_to c1 n) c1 t = (Ret (Inr ()), c2, t1)"
        "settled hash unlz4 wasm el n k t1 a1" "contains (a_store a1) (hash bs)" "grows (a_store a) (a_store a1)"
        "credits_held c2 n a1"
      using send_chunked_delivers [OF tr assms(2) _ cr assms(6,7)] bs(2) Some by blast
    then show ?thesis using g Some h by (auto simp: send_input_def Let_def c1_def)
  qed
qed

lemma sendable_same: "frame c' = frame c \<Longrightarrow> same_store c c' \<Longrightarrow> sendable hash c' i = sendable hash c i"
  using frame_parts(4) [of c' c] by (simp add: sendable_def same_store_def)

lemma ensure_inputs_delivers:
  assumes tr: "tr = mesh_transport hash unlz4 wasm el security now k"
    and "inj hash" "\<forall>x. unlz4 (lz4 x) = Some x"
    and "settled hash unlz4 wasm el n k t a" "controller_inv hash c" "\<forall>i \<in> set ins. sendable hash c i" "credits_held c n a"
  shows "\<exists>c' t' a'. ensure_inputs lz4 tr n ins c t = (Ret (Inr ()), c', t') \<and> settled hash unlz4 wasm el n k t' a' \<and>
    (\<forall>i \<in> set ins. contains (a_store a') i) \<and> grows (a_store a) (a_store a') \<and> credits_held c' n a'"
  using assms(4-7)
proof (induction ins arbitrary: c t a)
  case (Cons i ins)
  define c0 where "c0 = transfer_lock c n i"
  have c0: "frame c0 = frame c" "same_store c c0" "credits_held c0 n a"
    using Cons.prems(4) by (simp_all add: c0_def same_store_eq credits_held_def)
  have none: "budget (a_store a) = None" using settled_ready [OF Cons.prems(1)] by (simp add: ready_agent_def)
  have step: "\<exists>c' t' a'. ensure_inputs lz4 tr n ins d u = (Ret (Inr ()), c', t') \<and> settled hash unlz4 wasm el n k t' a' \<and>
      (\<forall>j \<in> set (i # ins). contains (a_store a') j) \<and> grows (a_store a) (a_store a') \<and> credits_held c' n a'"
    if hyp: "frame d = frame c" "same_store c d" "settled hash unlz4 wasm el n k u b" "credits_held d n b"
      "grows (a_store a) (a_store b)" "contains (a_store b) i" for d u b
  proof -
    have "controller_inv hash d" using controller_inv_step [OF Cons.prems(2)] hyp(1,2) by blast
    moreover have "\<forall>j \<in> set ins. sendable hash d j" using Cons.prems(3) sendable_same [OF hyp(1,2)] by simp
    ultimately obtain c' t' a' where IH: "ensure_inputs lz4 tr n ins d u = (Ret (Inr ()), c', t')" "settled hash unlz4 wasm el n k t' a'"
        "\<forall>j \<in> set ins. contains (a_store a') j" "grows (a_store b) (a_store a')" "credits_held c' n a'"
      using Cons.IH [OF hyp(3) _ _ hyp(4)] by blast
    have "contains (a_store a') i" using IH(4) hyp(5,6) none by (simp add: grows_def)
    then show ?thesis using IH grows_trans [OF hyp(5) IH(4)] by auto
  qed
  show ?case
  proof (cases "reuse_data c0 \<and> holds (c_catalog c0) i n")
    case True
    then have "contains (a_store a) i" using c0(3) by (simp add: credits_held_def)
    then show ?thesis
      using step [of "release_transfer (count_traffic record_transfer_skipped c0) n i" t a] c0 Cons.prems(1) True
      by (simp add: c0_def [symmetric] Let_def credits_held_def same_store_def stored_bytes_def fun_eq_iff)
  next
    case False
    have "controller_inv hash c0" using controller_inv_step [OF Cons.prems(2)] c0(1,2) by blast
    moreover have "sendable hash c0 i" using Cons.prems(3) sendable_same [OF c0(1,2)] by simp
    ultimately obtain d c1 t1 a1 where s: "send_input lz4 tr n i c0 t = (Ret (Inr d), c1, t1)"
        "settled hash unlz4 wasm el n k t1 a1" "contains (a_store a1) i" "grows (a_store a) (a_store a1)" "credits_held c1 n a1"
      using send_input_delivers [OF tr Cons.prems(1) _ _ c0(3) assms(2,3)] by blast
    have f: "frame c1 = frame c" "same_store c c1"
      using send_input_frame [OF s(1)] c0 same_store_trans by auto
    define c2 where "c2 = release_transfer (c1\<lparr>c_catalog := record_data (c_catalog c1) d n\<rparr>) n i"
    have "frame c2 = frame c" "same_store c c2" "credits_held c2 n a1"
      using f s(3,5) send_input_descriptor [OF s(1)]
      by (auto simp: c2_def same_store_def stored_bytes_def fun_eq_iff credits_held_def holds_record)
    note next_inputs = step [OF this(1,2) s(2) this(3) s(4,3)]
    have "ensure_inputs lz4 tr n (i # ins) c t = ensure_inputs lz4 tr n ins c2 t1"
      using False s(1) unfolding ensure_inputs.simps Let_def c0_def [symmetric] c2_def by auto
    then show ?thesis using next_inputs by simp
  qed
qed (auto intro: grows_refl)

section \<open>The whole way\<close>

text \<open>
  The mesh between two submissions: the controller is well formed, the agent is connected,
  and the catalogue credits it only with what it holds.
\<close>

definition mesh_ok ::
    "digest \<Rightarrow> (bytes \<Rightarrow> bytes option) \<Rightarrow> sandbox option \<Rightarrow> duration \<Rightarrow> node_id \<Rightarrow> conn \<Rightarrow> controller \<Rightarrow> site network \<Rightarrow> bool" where
  "mesh_ok hash unlz4 wasm el n k c t =
     (controller_inv hash c \<and> (\<exists>a. settled hash unlz4 wasm el n k t a \<and> credits_held c n a))"

lemma held_bytes_published:
  assumes "store_inv hash s" "contains s (hash bs)" "inj hash"
  shows "map_option blob_bytes (map_of (blobs s) (hash bs)) = Some bs"
  using assms store_inv_blob [OF assms(1)] by (auto simp: contains_def dest: injD)

lemma read_inputs_held:
  "\<forall>i \<in> set ins. map_option blob_bytes (map_of (blobs s) i) = Some (f i) \<Longrightarrow> fst (read_inputs s ins) = Inr (map f ins)"
proof (induction ins arbitrary: s)
  case (Cons i ins)
  obtain s1 where g: "get s i = (Some (f i), s1)"
    using fst_get [of s i] Cons.prems by (metis list.set_intros(1) prod.collapse)
  have "fst (read_inputs s1 ins) = Inr (map f ins)"
    using get_same [of s i] g Cons.prems by (intro Cons.IH) simp
  then show ?case by (cases "read_inputs s1 ins") (simp add: g)
qed simp

lemma record_success_credits:
  assumes "credits_held c n a" "grows (a_store a) (a_store b)" "budget (a_store a) = None" "res_node_id r = n"
    and "\<forall>out. outcome r = Success out \<longrightarrow> output_id r = Some (hash out) \<and> contains (a_store b) (hash out)"
  shows "credits_held (record_success hash now c task r) n b"
proof -
  have "credits_held c n b" using assms(1-3) by (auto simp: credits_held_def grows_def)
  then show ?thesis
    using assms(4,5)
    by (auto simp: record_success_def record_output_def Let_def credits_held_def result_output_def holds_record descriptor_new_def
        split: option.splits prod.splits sum.splits task_outcome.splits)
qed

lemma attempt_delivers:
  assumes tr: "tr = mesh_transport hash unlz4 wasm el security now k"
    and "inj hash" "\<forall>x. unlz4 (lz4 x) = Some x" "mesh_ok hash unlz4 wasm el n k c t"
    and "\<forall>i \<in> set (inputs task). sendable hash c i"
  shows "\<exists>r c1 t1 s a b. try_once lz4 tr n task (begin_on c n) t = (Ret (Inr r), c1, t1) \<and>
    settled hash unlz4 wasm el n k t1 b \<and> credits_held c1 n a \<and> s = a_store a \<and> budget s = None \<and> store_inv hash s \<and>
    (\<forall>i \<in> set (inputs task). map_option blob_bytes (map_of (blobs s) i) = stored_bytes c i) \<and>
    execute hash wasm n task el s = (r, a_store b)"
proof -
  from assms(4) obtain a where inv: "controller_inv hash c" and a: "settled hash unlz4 wasm el n k t a" "credits_held c n a"
    by (auto simp: mesh_ok_def)
  have same: "stored_bytes (begin_on c n) = stored_bytes c" by (rule stored_bytes_store) simp
  have ready: "controller_inv hash (begin_on c n)" "\<forall>i \<in> set (inputs task). sendable hash (begin_on c n) i"
      "credits_held (begin_on c n) n a"
    using flight_inv(1) [OF inv] assms(5) a(2) by (simp_all add: sendable_def credits_held_def same)
  obtain c1 t1 a1 where e: "ensure_inputs lz4 tr n (inputs task) (begin_on c n) t = (Ret (Inr ()), c1, t1)"
      "settled hash unlz4 wasm el n k t1 a1" "\<forall>i \<in> set (inputs task). contains (a_store a1) i" "credits_held c1 n a1"
    using ensure_inputs_delivers [OF tr assms(2,3) a(1) ready(1,2,3)] by blast
  have si: "store_inv hash (a_store a1)" "budget (a_store a1) = None"
    using settled_ready [OF e(2)] by (simp_all add: ready_agent_def agent_inv_def)
  have bytes: "map_option blob_bytes (map_of (blobs (a_store a1)) i) = stored_bytes c i" if i: "i \<in> set (inputs task)" for i
  proof -
    obtain bs where "stored_bytes c i = Some bs" using assms(5) i by (auto simp: sendable_def)
    moreover have "hash bs = i" by (rule published_hash [OF inv calculation])
    ultimately show ?thesis using held_bytes_published [OF si(1) _ assms(2), of bs] e(3) i by simp
  qed
  obtain r s where x: "execute hash wasm n task el (a_store a1) = (r, s)" by fastforce
  obtain t2 b where "net_dispatch (agent_world hash unlz4 wasm el security now k) t1 n task = (Inr r, t2)"
      "settled hash unlz4 wasm el n k t2 b" "a_store b = s"
    using dispatch_settled [OF e(2) x] by blast
  then show ?thesis
    using e si bytes x by (auto simp: try_once_def tr)
qed


section \<open>A mesh of one agent\<close>

definition lone_agent :: agent where
  "lone_agent = \<lparr>agent_id = NodeId 1, a_store = store_new, a_assembler = assembler_new, a_channel_token = None, a_timeout = 0,
     activity = 0, permits = 1, running = [], a_outbox = [], a_closed = False\<rparr>"

definition lone_network :: "agent \<Rightarrow> site network" where
  "lone_network a = \<lparr>net_conns = snd (attach connections_new (NodeId 1) 0 ''token''), net_timeout = 5, next_waiter = 0,
     world_state = \<lparr>s_server = \<lparr>mesh = mesh_state_new, sessions = [(0, \<lparr>registered_id = Some (NodeId 1), channel_for = None\<rparr>)],
                                accepted = 1\<rparr>, s_agent = Some a\<rparr>\<rparr>"

definition publishing_controller :: controller where
  "publishing_controller = snd (publish DataId two_node_controller [1, 2, 1])"

definition hashing_task :: task where
  "hashing_task = (task_new (TaskId 6) ''hash'' [9])\<lparr>inputs := [DataId [1, 2, 1]]\<rparr>"

abbreviation lone_transport :: "site network transport" where
  "lone_transport \<equiv> mesh_transport DataId Some None 1 security_open 2 0"

lemma lone_settled: "settled DataId unlz4 wasm el (NodeId 1) 0 (lone_network lone_agent) lone_agent"
proof -
  have "ready_agent DataId (NodeId 1) lone_agent"
    by (simp add: ready_agent_def lone_agent_def agent_inv_def inv_intros small_manifests_def assembler_new_def)
      (simp add: assembler_inv_def store_new_def)
  then show ?thesis
    by (simp add: settled_def lone_network_def connected_site_def attach_def connections_new_def queued_def lone_agent_def)
qed

lemma publishing_parts:
  "map_option blob_bytes (map_of (blobs (c_store publishing_controller)) (DataId [1, 2, 1])) = Some [1, 2, 1]"
  "manifests publishing_controller = [(DataId [1, 2, 1], manifest_split DataId [1, 2, 1] 1)]"
  "c_catalog publishing_controller = catalog_new" "result_cache publishing_controller = None"
  "max_attempts (retry publishing_controller) = 3"
  by code_simp+

lemma publishing_ok: "mesh_ok DataId Some None 1 (NodeId 1) 0 publishing_controller (lone_network lone_agent)"
proof -
  have "controller_inv DataId two_node_controller"
    by (simp add: controller_inv_def two_node_controller_def inv_intros) (simp add: store_new_def)
  then have "controller_inv DataId publishing_controller" unfolding publishing_controller_def by (rule publish_inv)
  moreover have "credits_held publishing_controller (NodeId 1) lone_agent"
    by (simp add: credits_held_def publishing_parts holds_new)
  ultimately show ?thesis unfolding mesh_ok_def using lone_settled by blast
qed

lemma publishing_sendable: "sendable DataId publishing_controller (DataId [1, 2, 1])"
proof -
  have "slice_chunks 1 [1, 2, 1 :: byte] = [[1], [2], [1]]" by (simp add: slice_chunks_step)
  then have "cut_from DataId (manifest_split DataId [1, 2, 1] 1) [1, 2, 1]"
    unfolding cut_from_def by (intro conjI exI [of _ 1]) (simp_all add: effective_chunk_size_def)
  then show ?thesis by (simp add: sendable_def stored_bytes_def publishing_parts)
qed


section \<open>A dataset the agent holds but is not credited with\<close>

text \<open>
  The chunks of such a dataset are refused: the manifest alone completes it. When the agent
  answers the manifest before the chunks are queued, its answer finds nobody waiting, no
  other answer comes, and the transfer is reported as failed after the timeout.
\<close>

definition holding_agent :: agent where
  "holding_agent = lone_agent\<lparr>a_store := snd (put DataId (snd (put DataId store_new [1])) [2])\<rparr>"

lemma early_answer_is_lost:
  "(let m = manifest_split DataId [1, 2, 1] 1;
        world = agent_world DataId Some None 1 security_open 2 0;
        (sent, t1) = net_send_manifest (lone_network holding_agent) (NodeId 1) m;
        early = net_send_chunks world (net_wait world t1) (NodeId 1) (DataId [1, 2, 1]) [(0, CodecNone, [1]), (1, CodecNone, [2])];
        late = net_send_chunks world t1 (NodeId 1) (DataId [1, 2, 1]) [(0, CodecNone, [1]), (1, CodecNone, [2])]
    in sent = Inr () \<and> fst late = Inr () \<and>
       (case s_agent (world_state (snd early)) of Some a \<Rightarrow> contains (a_store a) (DataId [1, 2, 1]) | None \<Rightarrow> False) \<and>
       (case fst early of Inl (Unreachable n _) \<Rightarrow> n = NodeId 1 | _ \<Rightarrow> False))"
  by code_simp

end
