(* ===== verification/Framing.thy ===== *)
theory Framing
  imports Protocol
begin

text \<open>
  Messages on a byte stream (crates/aether-protocol/src/codec.rs and net.rs): a four-byte
  big-endian length and then the encoded message. The encoder of the serialisation library
  is a parameter, with the documented fact that decoding an encoding gives the value and the
  number of bytes used. A stream is the list of bytes that will ever arrive on it.
\<close>

datatype codec_error = EncodeFailed | DecodeFailed | TrailingBytes nat

datatype net_error = UnexpectedEof | Codec codec_error | FrameTooLarge nat

definition MAX_FRAME_BYTES :: nat where
  "MAX_FRAME_BYTES = 64 * 1024 * 1024"

definition decode_message :: "(bytes \<Rightarrow> (message \<times> nat) option) \<Rightarrow> bytes \<Rightarrow> codec_error + message" where
  "decode_message dec bs =
     (case dec bs of
        None \<Rightarrow> Inl DecodeFailed
      | Some (m, used) \<Rightarrow> (let trailing = length bs - used in if 0 < trailing then Inl (TrailingBytes trailing) else Inr m))"

definition to_be_bytes :: "nat \<Rightarrow> bytes" where
  "to_be_bytes n = map (\<lambda>i. of_nat (n div 256 ^ i)) [3, 2, 1, 0]"

definition from_be_bytes :: "bytes \<Rightarrow> nat" where
  "from_be_bytes bs = foldl (\<lambda>acc b. acc * 256 + unat b) 0 bs"

definition write_message :: "(message \<Rightarrow> bytes option) \<Rightarrow> message \<Rightarrow> bytes \<Rightarrow> net_error + bytes \<times> nat" where
  "write_message enc m out =
     (case enc m of
        None \<Rightarrow> Inl (Codec EncodeFailed)
      | Some p \<Rightarrow>
          (if MAX_FRAME_BYTES < length p then Inl (FrameTooLarge (length p))
           else Inr (out @ to_be_bytes (length p) @ p, length p + 4)))"

text \<open>\<^verbatim>\<open>read_exact\<close>: all the bytes asked for, or the end of the stream.\<close>

definition read_exact :: "nat \<Rightarrow> bytes \<Rightarrow> bytes option \<times> bytes" where
  "read_exact n stream = (if length stream < n then (None, []) else (Some (take n stream), drop n stream))"

definition read_message :: "(bytes \<Rightarrow> (message \<times> nat) option) \<Rightarrow> bytes \<Rightarrow> (net_error + message) \<times> bytes" where
  "read_message dec stream =
     (case read_exact 4 stream of
        (None, rest) \<Rightarrow> (Inl UnexpectedEof, rest)
      | (Some header, rest) \<Rightarrow>
          (let size = from_be_bytes header in
           if MAX_FRAME_BYTES < size then (Inl (FrameTooLarge size), rest)
           else case read_exact size rest of
                  (None, rest1) \<Rightarrow> (Inl UnexpectedEof, rest1)
                | (Some p, rest1) \<Rightarrow>
                    (case decode_message dec p of
                       Inl e \<Rightarrow> (Inl (Codec e), rest1)
                     | Inr m \<Rightarrow> (Inr m, rest1))))"

lemma read_message_shorter: "read_message dec stream = (Inr m, rest) \<Longrightarrow> length rest < length stream"
  by (auto simp: read_message_def read_exact_def Let_def split: if_splits sum.splits)

text \<open>A reader that goes on until something is wrong, as both ends of a connection do.\<close>

function read_all :: "(bytes \<Rightarrow> (message \<times> nat) option) \<Rightarrow> bytes \<Rightarrow> message list \<times> net_error" where
  "read_all dec stream =
     (case read_message dec stream of
        (Inl e, _) \<Rightarrow> ([], e)
      | (Inr m, rest) \<Rightarrow> (let (ms, e) = read_all dec rest in (m # ms, e)))"
  by pat_completeness auto
termination
  by (relation "measure (\<lambda>(dec, stream). length stream)") (auto dest: read_message_shorter [OF sym])

declare read_all.simps [simp del]

fun write_all :: "(message \<Rightarrow> bytes option) \<Rightarrow> message list \<Rightarrow> net_error + bytes" where
  "write_all enc [] = Inr []"
| "write_all enc (m # ms) =
     (case write_message enc m [] of
        Inl e \<Rightarrow> Inl e
      | Inr (frame, _) \<Rightarrow> (case write_all enc ms of Inl e \<Rightarrow> Inl e | Inr rest \<Rightarrow> Inr (frame @ rest)))"

section \<open>Lengths survive\<close>

lemma be_bytes_round_trip: "n < 2 ^ 32 \<Longrightarrow> from_be_bytes (to_be_bytes n) = n"
proof -
  assume n: "n < 2 ^ 32"
  have u: "unat (of_nat m :: byte) = m mod 256" for m by (simp add: unat_of_nat)
  have d: "n div 65536 = n div 256 div 256" "n div 16777216 = n div 256 div 256 div 256"
    by (simp_all add: div_mult2_eq [symmetric])
  have "n div 256 div 256 div 256 mod 256 = n div 256 div 256 div 256"
    using n by (simp add: div_mult2_eq [symmetric])
  then have "from_be_bytes (to_be_bytes n) =
      (((n div 256 div 256 div 256) * 256 + n div 256 div 256 mod 256) * 256 + n div 256 mod 256) * 256 + n mod 256"
    by (simp add: from_be_bytes_def to_be_bytes_def u d power3_eq_cube power2_eq_square)
  then show ?thesis by (simp only: div_mult_mod_eq)
qed

lemma length_to_be_bytes [simp]: "length (to_be_bytes n) = 4"
  by (simp add: to_be_bytes_def)

section \<open>Reading what was written\<close>

lemma frame_small: "\<not> MAX_FRAME_BYTES < n \<Longrightarrow> n < 2 ^ 32"
  by (simp add: MAX_FRAME_BYTES_def)

lemma read_frame:
  assumes "enc m = Some p" "dec p = Some (m, length p)" "\<not> MAX_FRAME_BYTES < length p"
  shows "read_message dec (to_be_bytes (length p) @ p @ rest) = (Inr m, rest)"
  using assms be_bytes_round_trip [OF frame_small [OF assms(3)]]
  by (simp add: read_message_def read_exact_def decode_message_def Let_def)

lemma read_cut_frame:
  assumes "\<not> MAX_FRAME_BYTES < length p" "k < 4 + length p"
  shows "read_message dec (take k (to_be_bytes (length p) @ p @ rest)) = (Inl UnexpectedEof, [])"
proof (cases "k < 4")
  case False
  then have "take k (to_be_bytes (length p) @ p @ rest) = to_be_bytes (length p) @ take (k - 4) p"
    using assms(2) by simp
  moreover have "k - 4 < length p" using False assms(2) by linarith
  ultimately show ?thesis
    using False assms be_bytes_round_trip [OF frame_small [OF assms(1)]]
    by (simp add: read_message_def read_exact_def Let_def)
qed (simp add: read_message_def read_exact_def)


definition sample_enc :: "message \<Rightarrow> bytes option" where
  "sample_enc m = (case m of Pong n \<Rightarrow> if n < 256 then Some [of_nat n] else None | _ \<Rightarrow> None)"

definition sample_dec :: "bytes \<Rightarrow> (message \<times> nat) option" where
  "sample_dec bs = (case bs of [b] \<Rightarrow> Some (Pong (unat b), 1) | _ \<Rightarrow> None)"


end
