(* ===== verification/Autoscale.thy ===== *)
theory Autoscale
  imports Server "HOL-Library.Code_Target_Nat"
begin

text \<open>
  Recommending how many nodes the mesh should have
  (crates/aether-controller/src/autoscale.rs), with the arithmetic of the code in double and
  single precision. \<^verbatim>\<open>usize::clamp\<close> panics when its bounds are crossed, so a decision is
  an outcome that may be a panic. The times of the readings are arguments.
\<close>

section \<open>Printing a number\<close>

text \<open>A float with a fixed number of decimals: the exact value rounded to even.\<close>

definition pad_zeros :: "nat \<Rightarrow> string \<Rightarrow> string" where
  "pad_zeros k s = replicate (k - length s) (CHR ''0'') @ s"

fun fmt_fixed :: "nat \<Rightarrow> fl \<Rightarrow> string" where
  "fmt_fixed k NaN = ''NaN''"
| "fmt_fixed k (Inf s) = (if s then ''-inf'' else ''inf'')"
| "fmt_fixed k (Num s a) =
     (let n = nat (round_even (a * 10 ^ k)) in
      (if s then ''-'' else '''') @ nat_to_string (n div 10 ^ k) @
      (if k = 0 then '''' else ''.'' @ pad_zeros k (nat_to_string (n mod 10 ^ k))))"

section \<open>Readings, policy and decisions\<close>

record signals =
  sig_nodes :: nat
  queue_depth :: nat
  oldest_wait :: duration
  sig_cpu :: fl
  sig_memory :: fl

datatype target = QueueLength fl | CpuUtilization fl | Latency fl

definition target_default :: target where
  "target_default = QueueLength (fconst f64 2)"

record policy =
  scale_target :: target
  min_nodes :: nat
  max_nodes :: nat
  cooldown_secs :: nat
  tolerance :: fl

definition scale_policy_default :: policy where
  "scale_policy_default = \<lparr>scale_target = target_default, min_nodes = 1, max_nodes = 16, cooldown_secs = 120,
     tolerance = fconst f64 (25 / 100)\<rparr>"

definition cooldown :: "policy \<Rightarrow> duration" where
  "cooldown p = from_secs (cooldown_secs p)"

datatype decision = ScaleUp nat string | ScaleDown nat string | NoChange string

fun target_nodes :: "decision \<Rightarrow> nat option" where
  "target_nodes (ScaleUp n _) = Some n"
| "target_nodes (ScaleDown n _) = Some n"
| "target_nodes (NoChange _) = None"

fun why :: "decision \<Rightarrow> string" where
  "why (ScaleUp _ w) = w"
| "why (ScaleDown _ w) = w"
| "why (NoChange w) = w"

section \<open>The autoscaler\<close>

record autoscaler =
  scale_policy :: policy
  last_change :: "instant option"

definition autoscaler_new :: "policy \<Rightarrow> autoscaler" where
  "autoscaler_new p = \<lparr>scale_policy = p, last_change = None\<rparr>"

definition cooling_down :: "autoscaler \<Rightarrow> instant \<Rightarrow> bool" where
  "cooling_down a now =
     (case last_change a of None \<Rightarrow> False | Some before \<Rightarrow> now - before < cooldown (scale_policy a))"

text \<open>How far off target the mesh is, with the words for it.\<close>

definition off_target :: "target \<Rightarrow> signals \<Rightarrow> fl \<times> string" where
  "off_target t s =
     (case t of
        QueueLength per_node \<Rightarrow>
          (let want = fmul f64 (fmax per_node (fconst f64 (1 / 100))) (of_nat_f f64 (max (sig_nodes s) 1))
           in (fdiv f64 (of_nat_f f64 (queue_depth s)) want,
               nat_to_string (queue_depth s) @ '' queued against a target of '' @ fmt_fixed 0 want))
      | CpuUtilization fraction \<Rightarrow>
          (let want = fcast f64 (fmax fraction (fconst f32 (1 / 100)))
           in (fdiv f64 (fcast f64 (sig_cpu s)) want,
               fmt_fixed 0 (fmul f32 (sig_cpu s) (fconst f32 100)) @ ''% cpu against a target of '' @
               fmt_fixed 0 (fmul f32 fraction (fconst f32 100)) @ ''%''))
      | Latency max_wait \<Rightarrow>
          (let want = fmax max_wait (fconst f64 (1 / 1000))
           in (fdiv f64 (as_secs_f64 (oldest_wait s)) want,
               fmt_fixed 1 (as_secs_f64 (oldest_wait s)) @ ''s longest wait against a target of '' @
               fmt_fixed 1 want @ ''s'')))"

definition clamp_nodes :: "policy \<Rightarrow> nat \<Rightarrow> nat exec" where
  "clamp_nodes p n = (if max_nodes p < min_nodes p then Panic else Ret (min (max n (min_nodes p)) (max_nodes p)))"

definition evaluate :: "autoscaler \<Rightarrow> signals \<Rightarrow> instant \<Rightarrow> decision exec" where
  "evaluate a s now =
     (let p = scale_policy a in
      if cooling_down a now then Ret (NoChange ''waiting for the last change to take effect'')
      else if sig_nodes s < min_nodes p
      then Ret (ScaleUp (min_nodes p) (nat_to_string (sig_nodes s) @ '' node(s), below the minimum of '' @
             nat_to_string (min_nodes p)))
      else let (ratio, description) = off_target (scale_target p) s in
        if flt (fadd f64 (fconst f64 1) (tolerance p)) ratio
        then (case clamp_nodes p (to_uint 64 (fceil (fmul f64 (of_nat_f f64 (max (sig_nodes s) 1)) ratio))) of
                Panic \<Rightarrow> Panic
              | Ret n \<Rightarrow>
                  (if sig_nodes s < n then Ret (ScaleUp n (description @ ''; adding capacity''))
                   else Ret (NoChange (description @ '', but already at '' @ nat_to_string (max_nodes p) @ '' nodes''))))
        else if flt ratio (fsub f64 (fconst f64 1) (tolerance p))
        then (if 0 < queue_depth s
              then Ret (NoChange (description @ '', but '' @ nat_to_string (queue_depth s) @ '' task(s) are still waiting''))
              else case clamp_nodes p (to_uint 64 (fmax (ffloor (fmul f64 (of_nat_f f64 (sig_nodes s)) (fmax ratio (fconst f64 0))))
                          (fconst f64 1))) of
                     Panic \<Rightarrow> Panic
                   | Ret n \<Rightarrow>
                       (if n < sig_nodes s then Ret (ScaleDown n (description @ ''; releasing capacity''))
                        else Ret (NoChange (description @ '', but already at the minimum''))))
        else Ret (NoChange (description @ '', which is close enough'')))"

definition preview :: "autoscaler \<Rightarrow> signals \<Rightarrow> instant \<Rightarrow> decision exec" where
  "preview a s now = evaluate a s now"

definition decide :: "autoscaler \<Rightarrow> signals \<Rightarrow> instant \<Rightarrow> decision exec \<times> autoscaler" where
  "decide a s now =
     (case evaluate a s now of
        Panic \<Rightarrow> (Panic, a)
      | Ret d \<Rightarrow> (Ret d, if target_nodes d = None then a else a\<lparr>last_change := Some now\<rparr>))"

section \<open>Reading the mesh\<close>

definition float_sum :: "fl list \<Rightarrow> fl" where
  "float_sum xs = foldl (fadd f32) (Num True 0) xs"

definition signals_from :: "mesh_state \<Rightarrow> signals" where
  "signals_from st =
     (let nodes = mesh_nodes st;
          mean = (\<lambda>f. if nodes = [] then fconst f32 0
                      else fdiv f32 (float_sum (map (\<lambda>node. f (metrics node)) nodes)) (of_nat_f f32 (length nodes)))
      in \<lparr>sig_nodes = length (filter (\<lambda>node. is_connected (conns st) (info_id node)) nodes),
          queue_depth = qs_depth (queue_figures st),
          oldest_wait = from_millis (longest_wait_ms (queue_figures st)),
          sig_cpu = mean cpu_usage, sig_memory = mean memory_usage\<rparr>)"

text \<open>The readings of \<^verbatim>\<open>monitor\<close>, one per tick, with what each recommends.\<close>

fun monitor :: "autoscaler \<Rightarrow> (mesh_state \<times> instant) list \<Rightarrow> (instant \<times> decision exec) list" where
  "monitor a [] = []"
| "monitor a ((st, now) # rest) =
     (case decide a (signals_from st) now of
        (Panic, _) \<Rightarrow> [(now, Panic)]
      | (d, a1) \<Rightarrow> (now, d) # monitor a1 rest)"

section \<open>What is recommended\<close>

text \<open>A decision that respects the policy's bounds, the direction it names, and the backlog.\<close>

fun abides :: "policy \<Rightarrow> signals \<Rightarrow> decision \<Rightarrow> bool" where
  "abides p s (ScaleUp n _) = (sig_nodes s < n \<and> min_nodes p \<le> n \<and> n \<le> max_nodes p)"
| "abides p s (ScaleDown n _) = (n < sig_nodes s \<and> min_nodes p \<le> n \<and> n \<le> max_nodes p \<and> queue_depth s = 0)"
| "abides p s (NoChange _) = True"

lemma clamp_nodes_Ret: "min_nodes p \<le> max_nodes p \<Longrightarrow> \<exists>m. clamp_nodes p n = Ret m \<and> min_nodes p \<le> m \<and> m \<le> max_nodes p"
  by (simp add: clamp_nodes_def)

lemma evaluate_abides:
  assumes "min_nodes p \<le> max_nodes p" "scale_policy a = p"
  shows "\<exists>d. evaluate a s now = Ret d \<and> abides p s d \<and> (target_nodes d \<noteq> None \<longrightarrow> \<not> cooling_down a now)"
proof -
  obtain ratio words where o: "off_target (scale_target p) s = (ratio, words)" by fastforce
  define up where "up = to_uint 64 (fceil (fmul f64 (of_nat_f f64 (max (sig_nodes s) 1)) ratio))"
  define down where "down = to_uint 64 (fmax (ffloor (fmul f64 (of_nat_f f64 (sig_nodes s)) (fmax ratio (fconst f64 0)))) (fconst f64 1))"
  obtain m k where c: "clamp_nodes p up = Ret m" "min_nodes p \<le> m" "m \<le> max_nodes p"
      "clamp_nodes p down = Ret k" "min_nodes p \<le> k" "k \<le> max_nodes p"
    using clamp_nodes_Ret [OF assms(1)] by metis
  show ?thesis
    unfolding evaluate_def assms(2) Let_def o prod.case up_def [symmetric] down_def [symmetric] c exec.case
    using assms(1) c(2,3,5,6) by (auto simp: not_less)
qed

fun is_change :: "decision exec \<Rightarrow> bool" where
  "is_change (Ret d) = (target_nodes d \<noteq> None)"
| "is_change Panic = False"

definition changes :: "(instant \<times> decision exec) list \<Rightarrow> instant list" where
  "changes out = map fst (filter (\<lambda>(_, d). is_change d) out)"

lemma monitor_step:
  assumes "min_nodes p \<le> max_nodes p" "scale_policy a = p"
  obtains d where "monitor a ((st, now) # rest) =
      (now, Ret d) # monitor (if target_nodes d = None then a else a\<lparr>last_change := Some now\<rparr>) rest"
    "abides p (signals_from st) d" "target_nodes d \<noteq> None \<longrightarrow> \<not> cooling_down a now"
proof -
  obtain d where "evaluate a (signals_from st) now = Ret d" "abides p (signals_from st) d"
      "target_nodes d \<noteq> None \<longrightarrow> \<not> cooling_down a now"
    using evaluate_abides [OF assms] by blast
  then show thesis by (intro that [of d]) (simp_all add: decide_def)
qed

lemma monitor_abides:
  assumes "min_nodes p \<le> max_nodes p" "scale_policy a = p"
  shows "list_all2 (\<lambda>(st, now) (tick, d). tick = now \<and> (\<exists>x. d = Ret x \<and> abides p (signals_from st) x)) readings (monitor a readings)"
  using assms(2)
proof (induction readings arbitrary: a)
  case (Cons r readings)
  obtain st now where r: "r = (st, now)" by fastforce
  obtain d where d: "monitor a (r # readings) =
      (now, Ret d) # monitor (if target_nodes d = None then a else a\<lparr>last_change := Some now\<rparr>) readings"
      "abides p (signals_from st) d"
    using monitor_step [OF assms(1) Cons.prems] unfolding r by metis
  show ?case unfolding d(1) using Cons.IH Cons.prems d(2) by (simp add: r)
qed simp

lemma changes_after:
  assumes "min_nodes p \<le> max_nodes p" "scale_policy a = p" "last_change a = Some t0" "\<forall>(_, now) \<in> set readings. t0 \<le> now"
    and "sorted (map snd readings)" "c \<in> set (changes (monitor a readings))"
  shows "cooldown p \<le> c - t0"
  using assms(2-6)
proof (induction readings arbitrary: a t0)
  case (Cons r readings)
  obtain st now where r: "r = (st, now)" by fastforce
  obtain d where d: "monitor a (r # readings) =
      (now, Ret d) # monitor (if target_nodes d = None then a else a\<lparr>last_change := Some now\<rparr>) readings"
      "target_nodes d \<noteq> None \<longrightarrow> \<not> cooling_down a now"
    using monitor_step [OF assms(1) Cons.prems(1)] unfolding r by metis
  show ?case
  proof (cases "target_nodes d = None")
    case True
    then have "c \<in> set (changes (monitor a readings))" using Cons.prems(5) d(1) by (simp add: changes_def)
    then show ?thesis using Cons.IH [OF Cons.prems(1,2)] Cons.prems(3,4) by simp
  next
    case False
    have now: "cooldown p \<le> now - t0"
      using d(2) False Cons.prems(1,2) by (simp add: cooling_down_def)
    show ?thesis
    proof (cases "c = now")
      case False
      with Cons.prems(5) d(1) \<open>target_nodes d \<noteq> None\<close>
      have "c \<in> set (changes (monitor (a\<lparr>last_change := Some now\<rparr>) readings))" by (simp add: changes_def)
      then have "cooldown p \<le> c - now"
        using Cons.prems(1,4) by (intro Cons.IH [of "a\<lparr>last_change := Some now\<rparr>" now]) (auto simp: r)
      moreover have "t0 \<le> now" using Cons.prems(3) by (simp add: r)
      ultimately show ?thesis by linarith
    qed (use now in simp)
  qed
qed (simp add: changes_def)

lemma changes_spaced:
  assumes "min_nodes p \<le> max_nodes p" "scale_policy a = p" "sorted (map snd readings)"
  shows "sorted_wrt (\<lambda>x y. cooldown p \<le> y - x) (changes (monitor a readings))"
  using assms(2,3)
proof (induction readings arbitrary: a)
  case (Cons r readings)
  obtain st now where r: "r = (st, now)" by fastforce
  obtain d where d: "monitor a (r # readings) =
      (now, Ret d) # monitor (if target_nodes d = None then a else a\<lparr>last_change := Some now\<rparr>) readings"
    using monitor_step [OF assms(1) Cons.prems(1)] unfolding r by metis
  have IH: "sorted_wrt (\<lambda>x y. cooldown p \<le> y - x) (changes (monitor b readings))" if "scale_policy b = p" for b
    using Cons.IH [OF that] Cons.prems(2) by simp
  show ?case
  proof (cases "target_nodes d = None")
    case False
    have "\<forall>c \<in> set (changes (monitor (a\<lparr>last_change := Some now\<rparr>) readings)). cooldown p \<le> c - now"
      using changes_after [OF assms(1), of "a\<lparr>last_change := Some now\<rparr>" now readings] Cons.prems by (auto simp: r split_def)
    then show ?thesis using IH [of "a\<lparr>last_change := Some now\<rparr>"] d False Cons.prems(1) by (simp add: changes_def)
  qed (use IH [OF Cons.prems(1)] d in \<open>simp add: changes_def\<close>)
qed (simp add: changes_def)


definition sample_policy :: policy where
  "sample_policy = \<lparr>scale_target = QueueLength (Num False 2), min_nodes = 1, max_nodes = 16, cooldown_secs = 120, tolerance = Num False 0\<rparr>"


text \<open>
  Bounds that are crossed make the reading panic as soon as the mesh is off target: nothing
  checks the policy of a configuration file.
\<close>

lemma crossed_bounds_panic:
  assumes "max_nodes (scale_policy a) < min_nodes (scale_policy a)" "min_nodes (scale_policy a) \<le> sig_nodes s"
    and "\<not> cooling_down a now" "flt (fadd f64 (fconst f64 1) (tolerance (scale_policy a))) (fst (off_target (scale_target (scale_policy a)) s))"
  shows "fst (decide a s now) = Panic"
  using assms by (cases "off_target (scale_target (scale_policy a)) s") (simp add: decide_def evaluate_def clamp_nodes_def Let_def)

text \<open>
  The quotient is rounded before it is multiplied: 58 tasks at two per node need 29 nodes,
  and on seven nodes the recommendation is 30.
\<close>

lemma rounding_adds_a_node:
  assumes "s = \<lparr>sig_nodes = 7, queue_depth = 58, oldest_wait = 0, sig_cpu = Num False 0, sig_memory = Num False 0\<rparr>"
    and "(rt, words) = off_target (QueueLength (fconst f64 2)) s"
  shows "to_uint 64 (fceil (fmul f64 (of_nat_f f64 7) rt)) = 30"
proof -
  have small: "fconst f64 (1 / 100) = Num False (round_mag f64 (1 / 100))"
    unfolding fconst_def by (rule fround_f64_nonneg [of _ 1]) simp_all
  have two: "fconst f64 2 = Num False 2" using of_nat_f64 [of 2] by (simp add: fconst_def of_nat_f_def)
  have "round_mag f64 (1 / 100) < 2" by code_simp
  then have "fmax (fconst f64 2) (fconst f64 (1 / 100)) = Num False 2" by (simp add: fmax_def small two)
  moreover have "fround f64 False 14 = Num False 14" using of_nat_f64 [of 14] by (simp add: of_nat_f_def)
  moreover have "round_mag f64 (58 / 14) = 4664442471205157 / 1125899906842624" by code_simp
  then have "fround f64 False (58 / 14) = Num False (4664442471205157 / 1125899906842624)"
    using fround_f64_nonneg [of "58 / 14" 5] by simp
  ultimately have "rt = Num False (4664442471205157 / 1125899906842624)"
    using assms of_nat_f64 [of 58] of_nat_f64 [of 7] by (simp add: off_target_def Let_def)
  moreover have "round_mag f64 (7 * (4664442471205157 / 1125899906842624)) = 8162774324609025 / 281474976710656" by code_simp
  then have "fround f64 False (7 * (4664442471205157 / 1125899906842624)) = Num False (8162774324609025 / 281474976710656)"
    using fround_f64_nonneg [of "7 * (4664442471205157 / 1125899906842624)" 30] by simp
  moreover have "\<lceil>8162774324609025 / 281474976710656 :: rat\<rceil> = 30" by code_simp
  ultimately show ?thesis using of_nat_f64 [of 7] by (simp add: Let_def)
qed

text \<open>
  The longest wait is that of any task ever taken from the queue: it never falls again,
  whatever happens to the queue, so a latency target that was once exceeded stays exceeded.
\<close>

datatype figure_update = Depth nat | Dequeued duration | Refused | Expired

fun update_figures :: "figure_update \<Rightarrow> queue_stats \<Rightarrow> queue_stats" where
  "update_figures (Depth n) q = set_depth q n"
| "update_figures (Dequeued w) q = record_dequeued q w"
| "update_figures Refused q = record_refused q"
| "update_figures Expired q = record_expired q"

lemma oldest_wait_never_falls:
  "oldest_wait (signals_from st) \<le> oldest_wait (signals_from (st\<lparr>queue_figures := fold update_figures us (queue_figures st)\<rparr>))"
proof -
  have "longest_wait_ms q \<le> longest_wait_ms (fold update_figures us q)" for q
  proof (induction us arbitrary: q)
    case (Cons u us)
    have "longest_wait_ms q \<le> longest_wait_ms (update_figures u q)"
      by (cases u) (simp_all add: set_depth_def record_dequeued_def record_refused_def record_expired_def)
    then show ?case using Cons [of "update_figures u q"] by simp
  qed simp
  then show ?thesis by (simp add: signals_from_def Let_def from_millis_def)
qed

end
