(* ===== verification/Flow.thy ===== *)
theory Flow
  imports Checkpoint Catalog
begin

text \<open>
  Running a workflow (crates/aether-controller/src/flow.rs). The state is what the loop of
  \<^verbatim>\<open>run_inner\<close> keeps, plus the set of spawned submissions. Submissions finish in any order
  with any result, so the loop is a step relation: \<^verbatim>\<open>flow_next\<close> is one iteration for a given
  submission and result. The catalogue of the controller is an argument, since other work
  changes it meanwhile. Subtracting from a counter that is zero panics when overflow checks
  are compiled in and wraps around otherwise; \<^verbatim>\<open>checks\<close> says which.
\<close>

record placement =
  pl_step :: nat
  pl_node :: node_id
  output_bytes :: nat
  inputs_local :: nat
  inputs_moved :: nat

record flow =
  waiting :: "nat list"
  outputs :: "(nat, data_id) hashmap"
  results :: "(nat, task_result) hashmap"
  placements :: "placement list"
  abandoned :: "nat list"
  resumed :: "nat list"
  ready :: "nat list"
  running :: "(nat \<times> task) list"
  written :: "record_line list"

record flow_result =
  fr_results :: "task_result list"
  steps_run :: "nat list"
  skipped :: "nat list"
  fr_resumed :: "nat list"
  fr_placements :: "placement list"
  bytes_moved :: nat

definition task_for :: "workflow \<Rightarrow> nat \<Rightarrow> (nat, data_id) hashmap \<Rightarrow> task" where
  "task_for w s outs =
     fold (\<lambda>d t. case map_of outs d of
                   None \<Rightarrow> t
                 | Some o1 \<Rightarrow> (if o1 \<in> set (inputs t) then t else t\<lparr>inputs := inputs t @ [o1]\<rparr>))
       (depends_on (steps w ! s)) (step_task (steps w ! s))"

definition placement_for ::
    "catalog \<Rightarrow> workflow \<Rightarrow> nat \<Rightarrow> (nat, data_id) hashmap \<Rightarrow> task_result \<Rightarrow> placement" where
  "placement_for cat w s outs r =
     (let deps = List.map_filter (map_of outs) (depends_on (steps w ! s));
          local = length (filter (\<lambda>i. holds cat i (res_node_id r)) deps)
      in \<lparr>pl_step = s, pl_node = res_node_id r,
          output_bytes = (case result_output r of None \<Rightarrow> 0 | Some out \<Rightarrow> length out),
          inputs_local = local, inputs_moved = length deps - local\<rparr>)"

section \<open>Counters\<close>

definition dec :: "bool \<Rightarrow> nat list \<Rightarrow> nat \<Rightarrow> nat list exec" where
  "dec checks ws i =
     (if length ws \<le> i then Panic
      else if ws ! i = 0 then if checks then Panic else Ret (ws[i := 2 ^ 64 - 1])
      else Ret (ws[i := ws ! i - 1]))"

fun dec_all :: "bool \<Rightarrow> nat list \<Rightarrow> nat list \<Rightarrow> nat list exec" where
  "dec_all checks ws [] = Ret ws"
| "dec_all checks ws (i # is) =
     (case dec checks ws i of Panic \<Rightarrow> Panic | Ret ws1 \<Rightarrow> dec_all checks ws1 is)"

section \<open>Start\<close>

text \<open>The loop over the order that skips what an earlier run finished and is still held.\<close>

fun resume ::
    "bool \<Rightarrow> workflow \<Rightarrow> catalog \<Rightarrow> (nat, record_line) hashmap \<Rightarrow> nat list \<Rightarrow> flow \<Rightarrow> flow exec" where
  "resume checks w cat fin [] st = Ret st"
| "resume checks w cat fin (s # order) st =
     (case map_of fin s of
        None \<Rightarrow> resume checks w cat fin order st
      | Some r \<Rightarrow>
          (if catalog_locations cat (cp_output_id r) = [] then resume checks w cat fin order st
           else case dec_all checks (waiting st) (dependents_of w s) of
                  Panic \<Rightarrow> Panic
                | Ret ws \<Rightarrow>
                    resume checks w cat fin order
                      (st\<lparr>outputs := AList.update s (cp_output_id r) (outputs st),
                          resumed := resumed st @ [s], waiting := ws\<rparr>)))"

definition flow_empty :: "workflow \<Rightarrow> flow" where
  "flow_empty w = \<lparr>waiting = map (\<lambda>s. length (depends_on s)) (steps w), outputs = [], results = [],
     placements = [], abandoned = [], resumed = [], ready = [], running = [], written = []\<rparr>"

text \<open>Everything that is ready is spawned, with the outputs known at that moment.\<close>

definition flow_launch :: "workflow \<Rightarrow> flow \<Rightarrow> flow" where
  "flow_launch w st =
     st\<lparr>running := running st @ map (\<lambda>s. (s, task_for w s (outputs st))) (ready st), ready := []\<rparr>"

definition flow_start ::
    "bool \<Rightarrow> workflow \<Rightarrow> catalog \<Rightarrow> (nat, record_line) hashmap \<Rightarrow> (workflow_error + flow) exec" where
  "flow_start checks w cat fin =
     (case workflow_order w of
        Panic \<Rightarrow> Panic
      | Ret (Inl e) \<Rightarrow> Ret (Inl e)
      | Ret (Inr order) \<Rightarrow>
          (case resume checks w cat fin order (flow_empty w) of
             Panic \<Rightarrow> Panic
           | Ret st \<Rightarrow>
               Ret (Inr (flow_launch w (st\<lparr>ready :=
                 filter (\<lambda>s. waiting st ! s = 0 \<and> s \<notin> set (resumed st)) [0 ..< length (steps w)]\<rparr>)))))"

section \<open>One finished submission\<close>

fun abandon_further :: "bool \<Rightarrow> nat list \<Rightarrow> flow \<Rightarrow> flow exec" where
  "abandon_further checks [] st = Ret st"
| "abandon_further checks (f # fs) st =
     (case dec checks (waiting st) f of
        Panic \<Rightarrow> Panic
      | Ret ws \<Rightarrow>
          abandon_further checks fs
            (st\<lparr>waiting := ws, abandoned := (if ws ! f = 0 then abandoned st @ [f] else abandoned st)\<rparr>))"

fun release :: "bool \<Rightarrow> workflow \<Rightarrow> nat \<Rightarrow> bool \<Rightarrow> nat list \<Rightarrow> flow \<Rightarrow> flow exec" where
  "release checks w s succeeded [] st = Ret st"
| "release checks w s succeeded (d # ds) st =
     (case dec checks (waiting st) d of
        Panic \<Rightarrow> Panic
      | Ret ws \<Rightarrow>
          (let st1 = st\<lparr>waiting := ws\<rparr> in
           if ws ! d > 0 then release checks w s succeeded ds st1
           else if succeeded \<and> s \<notin> set (abandoned st1)
           then release checks w s succeeded ds (st1\<lparr>ready := ready st1 @ [d]\<rparr>)
           else case abandon_further checks (dependents_of w d) (st1\<lparr>abandoned := abandoned st1 @ [d]\<rparr>) of
                  Panic \<Rightarrow> Panic
                | Ret st2 \<Rightarrow> release checks w s succeeded ds st2))"

text \<open>
  \<^verbatim>\<open>journal\<close> is the run name and fingerprint when the run is recorded, and whether this
  append reaches the disk; a failed append only costs the record.
\<close>

definition flow_finish ::
    "bool \<Rightarrow> workflow \<Rightarrow> catalog \<Rightarrow> (string \<times> string \<times> bool) option \<Rightarrow> flow \<Rightarrow> nat \<Rightarrow> task_result \<Rightarrow> flow exec" where
  "flow_finish checks w cat journal st s r =
     (let st1 = st\<lparr>running := filter (\<lambda>(k, _). k \<noteq> s) (running st),
                   placements := placements st @ [placement_for cat w s (outputs st) r],
                   outputs := (case output_id r of None \<Rightarrow> outputs st | Some i \<Rightarrow> AList.update s i (outputs st)),
                   written := (case (journal, output_id r) of
                       (Some (run, fp, True), Some i) \<Rightarrow>
                         (if is_success r then written st @ [\<lparr>cp_run = run, cp_fingerprint = fp, cp_step = s,
                            cp_task_id = res_task_id r, cp_node_id = res_node_id r, cp_output_id = i,
                            duration_ms = as_millis (res_duration r)\<rparr>] else written st)
                     | _ \<Rightarrow> written st),
                   results := AList.update s r (results st)\<rparr>
      in case release checks w s (is_success r) (dependents_of w s) st1 of
           Panic \<Rightarrow> Panic
         | Ret st2 \<Rightarrow> Ret (st2\<lparr>ready := sort (ready st2)\<rparr>))"

definition flow_next ::
    "bool \<Rightarrow> workflow \<Rightarrow> catalog \<Rightarrow> (string \<times> string \<times> bool) option \<Rightarrow> flow \<Rightarrow> nat \<Rightarrow> task_result \<Rightarrow> flow exec" where
  "flow_next checks w cat journal st s r =
     (case flow_finish checks w cat journal st s r of Panic \<Rightarrow> Panic | Ret st1 \<Rightarrow> Ret (flow_launch w st1))"

text \<open>What is reported when nothing is running any more.\<close>

definition flow_report :: "workflow \<Rightarrow> flow \<Rightarrow> nat \<Rightarrow> flow_result" where
  "flow_report w st moved =
     (let ran = filter (\<lambda>s. map_of (results st) s \<noteq> None) [0 ..< length (steps w)] in
      \<lparr>fr_results = map (\<lambda>s. the (map_of (results st) s)) ran, steps_run = ran,
       skipped = remdups_adj (sort (abandoned st)), fr_resumed = sort (resumed st),
       fr_placements = sort_key pl_step (placements st), bytes_moved = moved\<rparr>)"

definition flow_is_success :: "flow_result \<Rightarrow> bool" where
  "flow_is_success f = (skipped f = [] \<and> list_all is_success (fr_results f))"

definition first_failure :: "flow_result \<Rightarrow> (nat \<times> task_result) option" where
  "first_failure f = List.find (\<lambda>(_, r). \<not> is_success r) (enumerated (fr_results f))"

definition nodes_used :: "flow_result \<Rightarrow> nat" where
  "nodes_used f = length (remdups (map pl_node (fr_placements f)))"

section \<open>Executions\<close>

text \<open>
  States reachable when every result satisfies \<^verbatim>\<open>allowed\<close>: a run without a journal, whose
  submissions finish one at a time in any order.
\<close>

inductive flow_reach :: "bool \<Rightarrow> workflow \<Rightarrow> (task_result \<Rightarrow> bool) \<Rightarrow> flow \<Rightarrow> bool"
  for checks w allowed where
  start: "flow_start checks w cat [] = Ret (Inr st) \<Longrightarrow> flow_reach checks w allowed st"
| finish: "flow_reach checks w allowed st \<Longrightarrow> s \<in> fst ` set (running st) \<Longrightarrow> allowed r \<Longrightarrow>
     flow_next checks w cat journal st s r = Ret st' \<Longrightarrow> flow_reach checks w allowed st'"

inductive_cases flow_reachE: "flow_reach checks w allowed st"

section \<open>Inputs of a step\<close>

lemma task_for_fold:
  "set (inputs (fold (\<lambda>d t. case map_of outs d of
                   None \<Rightarrow> t
                 | Some o1 \<Rightarrow> (if o1 \<in> set (inputs t) then t else t\<lparr>inputs := inputs t @ [o1]\<rparr>)) ds t)) =
     set (inputs t) \<union> {o1. \<exists>d \<in> set ds. map_of outs d = Some o1}"
proof (induction ds arbitrary: t)
  case (Cons d ds)
  show ?case unfolding fold_Cons comp_def Cons by (auto split: option.splits)
qed simp

lemma task_for_inputs:
  "set (inputs (task_for w s outs)) =
     set (inputs (step_task (steps w ! s))) \<union> {o1. \<exists>d \<in> set (depends_on (steps w ! s)). map_of outs d = Some o1}"
  unfolding task_for_def by (rule task_for_fold)

section \<open>Successful runs follow the dependencies\<close>

definition lowered :: "nat list \<Rightarrow> nat list \<Rightarrow> nat list" where
  "lowered ws ds = map (\<lambda>k. ws ! k - (if k \<in> set ds then 1 else 0)) [0 ..< length ws]"

lemma lowered_simps [simp]:
  "length (lowered ws ds) = length ws" "lowered ws [] = ws"
  "k < length ws \<Longrightarrow> lowered ws ds ! k = ws ! k - (if k \<in> set ds then 1 else 0)"
  by (simp_all add: lowered_def map_nth)

lemma lowered_update:
  assumes "d < length ws" "d \<notin> set ds"
  shows "lowered (ws[d := ws ! d - 1]) ds = lowered ws (d # ds)"
  by (rule nth_equalityI) (use assms in \<open>auto simp: nth_list_update\<close>)

lemma release_success:
  assumes "distinct ds" "\<forall>d \<in> set ds. d < length (waiting st) \<and> waiting st ! d \<noteq> 0" "abandoned st = []"
  shows "release checks w s True ds st =
    Ret (st\<lparr>waiting := lowered (waiting st) ds, ready := ready st @ filter (\<lambda>d. waiting st ! d = 1) ds\<rparr>)"
  using assms
proof (induction ds arbitrary: st)
  case (Cons d ds)
  let ?ws = "(waiting st)[d := waiting st ! d - 1]"
  have d: "d < length (waiting st)" "waiting st ! d \<noteq> 0" "d \<notin> set ds" using Cons.prems by auto
  have other: "?ws ! k = waiting st ! k" if "k \<in> set ds" for k
    using d(3) that by (metis nth_list_update_neq)
  then have keep: "filter (\<lambda>k. ?ws ! k = 1) ds = filter (\<lambda>k. waiting st ! k = 1) ds"
    by (simp cong: filter_cong)
  have rest: "release checks w s True ds (st\<lparr>waiting := ?ws, ready := rd\<rparr>) =
      Ret (st\<lparr>waiting := lowered (waiting st) (d # ds), ready := rd @ filter (\<lambda>k. waiting st ! k = 1) ds\<rparr>)" for rd
    using Cons.IH [of "st\<lparr>waiting := ?ws, ready := rd\<rparr>"] Cons.prems keep other lowered_update [OF d(1,3)] by simp
  show ?case
    using rest [of "ready st"] rest [of "ready st @ [d]"] d Cons.prems(3)
    by (cases "waiting st ! d = 1") (simp_all add: dec_def Let_def)
qed simp

definition simple_deps :: "workflow \<Rightarrow> bool" where
  "simple_deps w = (\<forall>s \<in> set (steps w). distinct (depends_on s))"

lemma count_distinct: "distinct xs \<Longrightarrow> count_list xs x = (if x \<in> set xs then 1 else 0)"
  by (induction xs) auto

text \<open>
  The invariant of a run without failures: \<^verbatim>\<open>skip\<close> are the steps an earlier run had finished, and
  the steps \<^verbatim>\<open>fin\<close> finished in this one.
\<close>

definition flow_inv :: "workflow \<Rightarrow> nat list \<Rightarrow> nat list \<Rightarrow> flow \<Rightarrow> bool" where
  "flow_inv w skip fin st =
     (kahn_inv (steps w) (waiting st) (ready st @ map fst (running st)) (skip @ fin) \<and> ready st = [] \<and> resumed st = skip \<and>
      fst ` set (results st) = set fin \<and> distinct (map fst (results st)) \<and> abandoned st = [] \<and>
      (\<forall>(k, r) \<in> set (results st). is_success r))"

lemma set_update_snd: "(k, v) \<in> set (AList.update a b al) \<Longrightarrow> (k, v) = (a, b) \<or> (k, v) \<in> set al"
  by (induction al) (auto split: if_splits)

lemma flow_inv_running:
  "flow_inv w skip fin st \<Longrightarrow> kahn_inv (steps w) (waiting st) (map fst (running st)) (skip @ fin)"
  by (auto simp: flow_inv_def)

lemma flow_inv_launch:
  assumes "kahn_inv (steps w) (waiting st) (ready st @ map fst (running st)) (resumed st @ fin)"
    and "fst ` set (results st) = set fin" "distinct (map fst (results st))" "abandoned st = []"
    and "\<forall>(k, r) \<in> set (results st). is_success r"
  shows "flow_inv w (resumed st) fin (flow_launch w st)"
proof -
  have "kahn_inv (steps w) (waiting st) (map fst (running st) @ ready st) (resumed st @ fin)"
    using assms(1) by (auto simp: kahn_inv_def)
  then show ?thesis
    using assms by (simp add: flow_inv_def flow_launch_def comp_def)
qed

lemma flow_next_success:
  assumes inv: "flow_inv w skip fin st" and simp_d: "simple_deps w"
    and s: "s \<in> fst ` set (running st)" and ok: "is_success r"
  shows "\<exists>st'. flow_next checks w cat journal st s r = Ret st' \<and> flow_inv w skip (fin @ [s]) st'"
proof -
  let ?n = "length (steps w)" and ?ds = "dependents_of w s" and ?R = "ready st @ map fst (running st)"
  have k: "kahn_inv (steps w) (waiting st) ?R (skip @ fin)" and sR: "s \<in> set ?R" and e: "ready st = []"
    using inv s by (auto simp: flow_inv_def)
  have len: "length (waiting st) = ?n" using k by (simp add: kahn_inv_def)
  have cnt: "count_list (depends_on (steps w ! j)) s = (if s \<in> set (depends_on (steps w ! j)) then 1 else 0)" if "j < ?n" for j
    using simp_d that by (simp add: simple_deps_def count_distinct)
  have mem: "j \<in> set ?ds \<longleftrightarrow> j < ?n \<and> s \<in> set (depends_on (steps w ! j))" for j
    by (auto simp: dependents_of_def)
  have pos: "\<forall>d \<in> set ?ds. d < length (waiting st) \<and> waiting st ! d \<noteq> 0"
    using kahn_inv_count [OF k sR] cnt mem len by fastforce
  have dist: "distinct ?ds" by (simp add: dependents_of_def)
  define st1 where "st1 = st\<lparr>running := filter (\<lambda>(k, _). k \<noteq> s) (running st),
      placements := placements st @ [placement_for cat w s (outputs st) r],
      outputs := (case output_id r of None \<Rightarrow> outputs st | Some i \<Rightarrow> AList.update s i (outputs st)),
      written := (case (journal, output_id r) of
          (Some (run, fp, True), Some i) \<Rightarrow>
            (if is_success r then written st @ [\<lparr>cp_run = run, cp_fingerprint = fp, cp_step = s,
               cp_task_id = res_task_id r, cp_node_id = res_node_id r, cp_output_id = i,
               duration_ms = as_millis (res_duration r)\<rparr>] else written st)
        | _ \<Rightarrow> written st),
      results := AList.update s r (results st)\<rparr>"
  have st1: "waiting st1 = waiting st" "ready st1 = []" "abandoned st1 = []" "resumed st1 = skip"
    "running st1 = filter (\<lambda>(k, _). k \<noteq> s) (running st)" "results st1 = AList.update s r (results st)"
    using inv by (simp_all add: st1_def flow_inv_def)
  define st2 where "st2 = st1\<lparr>waiting := lowered (waiting st) ?ds, ready := sort (filter (\<lambda>d. waiting st ! d = 1) ?ds)\<rparr>"
  have "flow_finish checks w cat journal st s r = Ret st2"
    using release_success [of ?ds st1 checks w s] dist pos st1 ok
    unfolding flow_finish_def st1_def [symmetric] Let_def by (simp add: st2_def)
  then have nxt: "flow_next checks w cat journal st s r = Ret (flow_launch w st2)" by (simp add: flow_next_def)
  have runs: "map fst (running st2) = filter (\<lambda>j. j \<noteq> s) (map fst (running st))"
    by (simp add: st2_def st1 filter_map comp_def case_prod_unfold)
  have "kahn_inv (steps w) (waiting st2) (ready st2 @ map fst (running st2)) ((skip @ fin) @ [s])"
  proof (rule kahn_inv_advance [OF k sR])
    show "length (waiting st2) = length (waiting st)" by (simp add: st2_def)
    show now: "waiting st2 ! j = waiting st ! j - count_list (depends_on (steps w ! j)) s" if "j < ?n" for j
      using that cnt [OF that] mem len by (simp add: st2_def)
    have "j \<notin> set ?ds" if "j \<in> set (map fst (running st))" for j
      using kahn_inv_ready [OF k sR, of j] that mem by auto
    then show "distinct (ready st2 @ map fst (running st2))"
      using k dist e unfolding runs by (auto simp: st2_def kahn_inv_def)
    have "waiting st ! j = 1 \<longleftrightarrow> waiting st2 ! j = 0" if "j \<in> set ?ds" for j
      using that mem [of j] pos now [of j] cnt [of j] by (auto simp: Suc_le_eq)
    then show "set (ready st2 @ map fst (running st2)) = set ?R - {s} \<union>
        {j. j < ?n \<and> s \<in> set (depends_on (steps w ! j)) \<and> waiting st2 ! j = 0}"
      using mem e unfolding set_append runs by (auto simp: st2_def)
  qed
  moreover have "fst ` set (results st2) = set (fin @ [s])"
    using inv by (simp add: st2_def st1 flow_inv_def dom_update)
  moreover have "distinct (map fst (results st2))"
    using inv by (simp add: st2_def st1 flow_inv_def distinct_update)
  moreover have "\<forall>(j, r) \<in> set (results st2). is_success r"
    using inv ok by (auto simp: st2_def st1 flow_inv_def dest!: set_update_snd)
  moreover have "resumed st2 = skip" by (simp add: st2_def st1)
  ultimately have "flow_inv w skip (fin @ [s]) (flow_launch w st2)"
    using flow_inv_launch [of w st2 "fin @ [s]"] by (simp add: st2_def st1)
  with nxt show ?thesis by blast
qed

lemma resume_none: "resume checks w cat [] order st = Ret st"
  by (induction order) simp_all

text \<open>What survives of an earlier run: the steps recorded as finished whose output some node still holds.\<close>

definition survives :: "catalog \<Rightarrow> (nat, record_line) hashmap \<Rightarrow> nat \<Rightarrow> bool" where
  "survives cat fin s =
     (case map_of fin s of None \<Rightarrow> False | Some r \<Rightarrow> catalog_locations cat (cp_output_id r) \<noteq> [])"

lemma dec_all_lowered:
  assumes "distinct ds" "\<forall>d \<in> set ds. d < length ws \<and> ws ! d \<noteq> 0"
  shows "dec_all checks ws ds = Ret (lowered ws ds)"
  using assms
proof (induction ds arbitrary: ws)
  case (Cons d ds)
  then have "dec_all checks (ws[d := ws ! d - 1]) ds = Ret (lowered (ws[d := ws ! d - 1]) ds)"
    by (intro Cons.IH) (auto simp: nth_list_update)
  then show ?case using Cons.prems lowered_update [of d ws ds] by (simp add: dec_def)
qed simp

text \<open>
  Skipping counts every dependency on a skipped step as met, whatever is skipped; it never
  takes a counter below zero.
\<close>

lemma resume_counts:
  assumes "simple_deps w" "distinct (resumed st @ order)" "waiting st = map (open_deps (steps w) (resumed st)) [0 ..< length (steps w)]"
  shows "\<exists>outs. resume checks w cat fin order st =
    Ret (st\<lparr>outputs := outs, resumed := resumed st @ filter (survives cat fin) order,
      waiting := map (open_deps (steps w) (resumed st @ filter (survives cat fin) order)) [0 ..< length (steps w)]\<rparr>) \<and>
    (\<forall>d i. map_of outs d = Some i \<longrightarrow> map_of (outputs st) d = Some i \<or>
       d \<in> set (filter (survives cat fin) order) \<and> (\<exists>r. map_of fin d = Some r \<and> cp_output_id r = i))"
  using assms(2,3)
proof (induction order arbitrary: st)
  case Nil
  then show ?case by (intro exI [of _ "outputs st"]) (simp flip: Nil(2))
next
  case (Cons s order)
  show ?case
  proof (cases "survives cat fin s")
    case False
    then have "resume checks w cat fin (s # order) st = resume checks w cat fin order st"
      by (auto simp: survives_def split: option.splits)
    then show ?thesis using Cons.IH [of st] Cons.prems False by auto
  next
    case True
    then obtain r where r: "map_of fin s = Some r" "catalog_locations cat (cp_output_id r) \<noteq> []"
      by (auto simp: survives_def split: option.splits)
    let ?ds = "dependents_of w s" and ?n = "length (steps w)"
    have s: "s \<notin> set (resumed st)" using Cons.prems(1) by auto
    have mem: "j \<in> set ?ds \<longleftrightarrow> j < ?n \<and> s \<in> set (depends_on (steps w ! j))" for j
      by (auto simp: dependents_of_def)
    have cnt: "count_list (depends_on (steps w ! j)) s = (if j \<in> set ?ds then 1 else 0)" if "j < ?n" for j
      using assms(1) that mem by (simp add: simple_deps_def count_distinct)
    have pos: "\<forall>d \<in> set ?ds. d < length (waiting st) \<and> waiting st ! d \<noteq> 0"
    proof
      fix d assume d: "d \<in> set ?ds"
      then have "d < ?n" "waiting st ! d = open_deps (steps w) (resumed st) d" using mem by (simp_all add: Cons.prems(2))
      then show "d < length (waiting st) \<and> waiting st ! d \<noteq> 0"
        using open_deps_append [OF s, of "steps w" d] cnt [of d] d Cons.prems(2) by simp
    qed
    define ws where "ws = map (open_deps (steps w) (resumed st @ [s])) [0 ..< ?n]"
    have "lowered (waiting st) ?ds = ws"
      using open_deps_append [OF s, of "steps w"] cnt
      by (intro nth_equalityI) (simp_all add: ws_def Cons.prems(2))
    then have d: "dec_all checks (waiting st) ?ds = Ret ws"
      using dec_all_lowered [OF _ pos, of checks] by (simp add: dependents_of_def)
    let ?st = "st\<lparr>outputs := AList.update s (cp_output_id r) (outputs st), resumed := resumed st @ [s], waiting := ws\<rparr>"
    have step: "resume checks w cat fin (s # order) st = resume checks w cat fin order ?st"
      using r d by simp
    obtain outs where "resume checks w cat fin order ?st =
        Ret (?st\<lparr>outputs := outs, resumed := resumed ?st @ filter (survives cat fin) order,
          waiting := map (open_deps (steps w) (resumed ?st @ filter (survives cat fin) order)) [0 ..< ?n]\<rparr>)"
      "\<forall>d i. map_of outs d = Some i \<longrightarrow> map_of (outputs ?st) d = Some i \<or>
         d \<in> set (filter (survives cat fin) order) \<and> (\<exists>r. map_of fin d = Some r \<and> cp_output_id r = i)"
      using Cons.IH [of ?st] Cons.prems(1) by (auto simp: ws_def)
    note IH = this
    have "d \<in> set (filter (survives cat fin) (s # order)) \<and> (\<exists>r. map_of fin d = Some r \<and> cp_output_id r = i)"
      if "map_of outs d = Some i" "map_of (outputs st) d \<noteq> Some i" for d i
      using IH(2) [rule_format, OF that(1)] that(2) True r(1) by (cases "d = s") (auto simp: update_conv')
    then show ?thesis
      unfolding step using True IH(1) by (intro exI [of _ outs]) auto
  qed
qed

definition closed_under_deps :: "workflow \<Rightarrow> nat set \<Rightarrow> bool" where
  "closed_under_deps w S = (\<forall>s \<in> S. s < length (steps w) \<longrightarrow> set (depends_on (steps w ! s)) \<subseteq> S)"

lemma topological_filter:
  assumes "topological ss order" "\<forall>s \<in> set order. P s \<longrightarrow> (\<forall>d \<in> set (depends_on (ss ! s)). P d)"
  shows "topological ss (filter P order)"
  using assms
proof (induction order rule: rev_induct)
  case (snoc s order)
  have t: "topological ss order" "set (depends_on (ss ! s)) \<subseteq> set order"
    using snoc.prems(1) by (simp_all add: topological_snoc)
  have closed: "\<forall>x \<in> set order \<union> {s}. P x \<longrightarrow> (\<forall>d \<in> set (depends_on (ss ! x)). P d)"
    using snoc.prems(2) unfolding set_append list.set by blast
  have IH: "topological ss (filter P order)" by (rule snoc.IH [OF t(1)]) (use closed in blast)
  have "set (depends_on (ss ! s)) \<subseteq> set (filter P order)" if "P s"
    using t(2) that closed unfolding set_filter by blast
  then show ?case unfolding filter_append using IH by (cases "P s") (simp_all add: topological_snoc)
qed simp

text \<open>
  Resuming sets the run up as if the surviving steps had just finished, provided that the
  dependencies of a surviving step survive too.
\<close>

lemma flow_start_resumes:
  assumes "simple_deps w" "closed_under_deps w {s. survives cat fin s}" "workflow_order w = Ret (Inr order)"
  obtains st where "flow_start checks w cat fin = Ret (Inr st)" "flow_inv w (filter (survives cat fin) order) [] st"
    "\<And>k x. (k, x) \<in> set (running st) \<Longrightarrow> x = task_for w k (outputs st)"
    "\<And>d i. map_of (outputs st) d = Some i \<Longrightarrow>
       survives cat fin d \<and> d < length (steps w) \<and> (\<exists>r. map_of fin d = Some r \<and> cp_output_id r = i)"
proof -
  let ?n = "length (steps w)" and ?skip = "filter (survives cat fin) order"
  have o: "mset order = mset [0 ..< ?n]" "topological (steps w) order"
    using assms(3) by (cases rule: order_cases [of w]; simp)+
  have d: "distinct order" "set order = {..< ?n}"
    using mset_eq_imp_distinct_iff [OF o(1)] mset_eq_setD [OF o(1)] by (simp_all add: lessThan_atLeast0)
  have "waiting (flow_empty w) = map (open_deps (steps w) []) [0 ..< ?n]"
    by (intro nth_equalityI) (simp_all add: flow_empty_def open_deps_def)
  then obtain outs where res: "resume checks w cat fin order (flow_empty w) =
      Ret ((flow_empty w)\<lparr>outputs := outs, resumed := ?skip, waiting := map (open_deps (steps w) ?skip) [0 ..< ?n]\<rparr>)"
    and outs: "\<forall>d i. map_of outs d = Some i \<longrightarrow> d \<in> set ?skip \<and> (\<exists>r. map_of fin d = Some r \<and> cp_output_id r = i)"
    using resume_counts [OF assms(1), of "flow_empty w" order checks cat fin] d(1) by (auto simp: flow_empty_def)
  define st where "st = (flow_empty w)\<lparr>outputs := outs, resumed := ?skip, waiting := map (open_deps (steps w) ?skip) [0 ..< ?n],
    ready := filter (\<lambda>s. map (open_deps (steps w) ?skip) [0 ..< ?n] ! s = 0 \<and> s \<notin> set ?skip) [0 ..< ?n]\<rparr>"
  have start: "flow_start checks w cat fin = Ret (Inr (flow_launch w st))"
    using assms(3) res by (simp add: flow_start_def st_def)
  have closed: "survives cat fin s \<Longrightarrow> s < ?n \<Longrightarrow> d \<in> set (depends_on (steps w ! s)) \<Longrightarrow> survives cat fin d" for s d
    using assms(2) by (auto simp: closed_under_deps_def)
  then have top: "topological (steps w) ?skip"
    using d(2) by (intro topological_filter [OF o(2)]) auto
  have "open_deps (steps w) ?skip s = 0" if "s \<in> set ?skip" for s
    using top that unfolding open_deps_0 topological_def by (metis in_set_conv_nth in_set_takeD subset_iff)
  then have "kahn_inv (steps w) (waiting st) (ready st @ map fst (running st)) (resumed st @ [])"
    using d top by (auto simp: kahn_inv_def st_def flow_empty_def)
  from flow_inv_launch [OF this] have "flow_inv w ?skip [] (flow_launch w st)"
    by (simp add: st_def flow_empty_def)
  moreover have "x = task_for w k (outputs (flow_launch w st))" if "(k, x) \<in> set (running (flow_launch w st))" for k x
    using that by (auto simp: flow_launch_def st_def flow_empty_def)
  moreover have "survives cat fin d \<and> d < ?n \<and> (\<exists>r. map_of fin d = Some r \<and> cp_output_id r = i)"
    if "map_of (outputs (flow_launch w st)) d = Some i" for d i
    using that outs d(2) by (simp add: flow_launch_def st_def)
  ultimately show thesis using start that by blast
qed

lemma flow_start_order:
  assumes "flow_start checks w cat [] = Ret (Inr st)"
  obtains order where "workflow_order w = Ret (Inr order)"
    "st = flow_launch w ((flow_empty w)\<lparr>ready := filter (\<lambda>s. waiting (flow_empty w) ! s = 0) [0 ..< length (steps w)]\<rparr>)"
proof -
  have "resumed (flow_empty w) = []" by (simp add: flow_empty_def)
  then show thesis
    using assms that by (auto simp: flow_start_def resume_none split: exec.splits sum.splits)
qed

lemma flow_start_inv: "flow_start checks w cat [] = Ret (Inr st) \<Longrightarrow> flow_inv w [] [] st"
proof (elim flow_start_order)
  fix order
  let ?st = "(flow_empty w)\<lparr>ready := filter (\<lambda>s. waiting (flow_empty w) ! s = 0) [0 ..< length (steps w)]\<rparr>"
  assume "st = flow_launch w ?st"
  moreover have "flow_inv w (resumed ?st) [] (flow_launch w ?st)"
    using kahn_inv_initial [of "steps w"] by (intro flow_inv_launch) (simp_all add: flow_empty_def)
  ultimately show ?thesis by (simp add: flow_empty_def)
qed

lemma reach_inv:
  "simple_deps w \<Longrightarrow> flow_reach checks w is_success st \<Longrightarrow> \<exists>fin. flow_inv w [] fin st"
proof (rotate_tac, induction rule: flow_reach.induct)
  case (start cat st)
  then show ?case using flow_start_inv by blast
next
  case (finish st s r cat journal st')
  then obtain fin where "flow_inv w [] fin st" by blast
  from flow_next_success [OF this finish.prems finish.hyps(2,3), of checks cat journal] finish.hyps(4)
  show ?case by auto
qed

lemma reach_ordered:
  "flow_reach checks w allowed st \<Longrightarrow> \<exists>order. workflow_order w = Ret (Inr order)"
  by (induction rule: flow_reach.induct) (auto elim: flow_start_order)

lemma ordered_acyclic:
  assumes "workflow_order w = Ret (Inr order)"
  shows "in_range (steps w) \<and> acyclic (before (steps w))"
proof (cases rule: order_cases [of w])
  case (ok order)
  have d: "distinct order" "set order = {..< length (steps w)}"
    using mset_eq_imp_distinct_iff [OF ok(2)] mset_eq_setD [OF ok(2)] by (simp_all add: lessThan_atLeast0)
  have "in_range (steps w)"
    unfolding in_range_iff
  proof (intro allI impI ballI)
    fix k x assume "k < length (steps w)" "x \<in> set (depends_on (steps w ! k))"
    moreover then obtain j where "j < length order" "order ! j = k" using d(2) by (metis in_set_conv_nth lessThan_iff)
    ultimately have "x \<in> set order" using ok(3) by (auto simp: topological_def dest: in_set_takeD)
    then show "x < length (steps w)" using d(2) by simp
  qed
  then show ?thesis using topological_acyclic [OF ok(3) d] by blast
qed (use assms in simp)

text \<open>Nothing running and no failure: everything has run.\<close>

lemma flow_inv_report:
  assumes inv: "flow_inv w skip fin st" and idle: "running st = []" and "workflow_order w = Ret (Inr order)"
  shows "steps_run (flow_report w st moved) = filter (\<lambda>s. s \<notin> set skip) [0 ..< length (steps w)] \<and>
    fr_resumed (flow_report w st moved) = sort skip \<and> flow_is_success (flow_report w st moved)"
proof -
  have k: "kahn_inv (steps w) (waiting st) [] (skip @ fin)" and f: "fst ` set (results st) = set fin"
    and suc: "\<forall>(k, r) \<in> set (results st). is_success r" and skip: "resumed st = skip" and none: "abandoned st = []"
    using flow_inv_running [OF inv] inv idle by (auto simp: flow_inv_def)
  have "set skip \<union> set fin = {..< length (steps w)}"
    using ordered_acyclic [OF assms(3)] kahn_inv_done [OF k] by simp
  moreover have "set skip \<inter> set fin = {}" using k by (simp add: kahn_inv_def)
  ultimately have "s \<in> set fin \<longleftrightarrow> s \<notin> set skip" if "s < length (steps w)" for s using that by blast
  moreover have res: "map_of (results st) s \<noteq> None \<longleftrightarrow> s \<in> set fin" for s
    using f by (simp add: map_of_eq_None_iff)
  ultimately have "steps_run (flow_report w st moved) = filter (\<lambda>s. s \<notin> set skip) [0 ..< length (steps w)]"
    unfolding flow_report_def Let_def by (auto simp: res simp del: not_None_eq intro!: filter_cong)
  moreover have "is_success (the (map_of (results st) s))" if "map_of (results st) s \<noteq> None" for s
    using that suc map_of_SomeD [of "results st" s] by fastforce
  then have "flow_is_success (flow_report w st moved)"
    using none by (auto simp: flow_is_success_def flow_report_def Let_def list_all_iff)
  ultimately show ?thesis using skip by (simp add: flow_report_def Let_def)
qed

text \<open>
  C19. While every step succeeds and no dependency is listed twice, a step is started only
  after everything it depends on has finished: whatever the order in which submissions
  finish, all dependencies of every running or finished step have results.
\<close>

theorem started_after_dependencies:
  assumes "simple_deps w" "flow_reach checks w is_success st"
    and "s \<in> fst ` set (running st) \<or> s \<in> fst ` set (results st)" "d \<in> set (depends_on (steps w ! s))"
  shows "d \<in> fst ` set (results st)"
proof -
  obtain fin where inv: "flow_inv w [] fin st" using reach_inv [OF assms(1,2)] by blast
  then have k: "kahn_inv (steps w) (waiting st) (map fst (running st)) fin" and f: "fst ` set (results st) = set fin"
    using flow_inv_running [OF inv] by (simp_all add: flow_inv_def)
  have placed: "s \<in> set (fin @ map fst (running st))" using assms(3) f by auto
  then have "s < length (steps w)" using k unfolding kahn_inv_def by blast
  then have "open_deps (steps w) fin s = 0" using k placed unfolding kahn_inv_def by simp
  then show ?thesis using assms(4) f open_deps_0 by auto
qed


section \<open>Concrete runs\<close>

definition sample_flow :: "nat list list \<Rightarrow> workflow" where
  "sample_flow deps = \<lparr>wf_id = WorkflowId 1, steps = map (step_after (task_new (TaskId 1) ''k'' [])) deps\<rparr>"

definition ok_result :: task_result where
  "ok_result = result_success (TaskId 1) (NodeId 1) [] 0"

definition bad_result :: task_result where
  "bad_result = result_failure (TaskId 1) (NodeId 1) ''boom'' 0"

text \<open>The submissions of a list of steps finish in that order; a step must be running.\<close>

fun flow_play :: "bool \<Rightarrow> workflow \<Rightarrow> (nat \<times> task_result) list \<Rightarrow> (workflow_error + flow) exec \<Rightarrow> flow option" where
  "flow_play checks w [] (Ret (Inr st)) = Some st"
| "flow_play checks w ((s, r) # evs) (Ret (Inr st)) =
     (if s \<in> fst ` set (running st)
      then flow_play checks w evs (case flow_next checks w [] None st s r of Panic \<Rightarrow> Panic | Ret st1 \<Rightarrow> Ret (Inr st1))
      else None)"
| "flow_play checks w evs _ = None"

lemma flow_play_reach:
  assumes "flow_play checks w evs (Ret (Inr st0)) = Some st" "flow_reach checks w allowed st0"
    and "\<forall>(s, r) \<in> set evs. allowed r"
  shows "flow_reach checks w allowed st"
  using assms
proof (induction evs arbitrary: st0)
  case (Cons e evs)
  obtain s r where e: "e = (s, r)" by fastforce
  with Cons.prems obtain st1 where "s \<in> fst ` set (running st0)" "flow_next checks w [] None st0 s r = Ret st1"
      "flow_play checks w evs (Ret (Inr st1)) = Some st"
    by (auto split: if_splits exec.splits elim: flow_play.elims)
  with Cons e show ?case by (auto intro: flow_reach.finish)
qed simp

lemma flow_play_start_reach:
  assumes "flow_play checks w evs (flow_start checks w cat []) = Some st" "\<forall>(s, r) \<in> set evs. allowed r"
  shows "flow_reach checks w allowed st"
proof -
  obtain st0 where "flow_start checks w cat [] = Ret (Inr st0)"
    using assms(1) by (cases evs; cases "flow_start checks w cat []"; auto elim: flow_play.elims)
  then show ?thesis using assms flow_play_reach flow_reach.start by metis
qed

theorem started_after_dependencies_witness:
  "(case flow_play True (sample_flow [[], [0], [0], [1, 2]]) [(0, ok_result), (2, ok_result)]
      (flow_start True (sample_flow [[], [0], [0], [1, 2]]) [] []) of
    Some st \<Rightarrow> 1 \<in> fst ` set (running st) \<and> 0 \<in> fst ` set (results st)
  | None \<Rightarrow> False)"
proof -
  let ?w = "sample_flow [[], [0], [0], [1, 2]]"
  have "map_option (\<lambda>st. map fst (running st))
      (flow_play True ?w [(0, ok_result), (2, ok_result)] (flow_start True ?w [] [])) = Some [1]"
    by code_simp
  then obtain st where st: "flow_play True ?w [(0, ok_result), (2, ok_result)] (flow_start True ?w [] []) = Some st"
    "map fst (running st) = [1]" by auto
  have r: "flow_reach True ?w is_success st"
    by (rule flow_play_start_reach [OF st(1)]) (simp add: ok_result_def result_success_def is_success_def)
  have run: "1 \<in> fst ` set (running st)" using arg_cong [OF st(2), of set] by simp
  have "simple_deps ?w" "0 \<in> set (depends_on (steps ?w ! 1))" by code_simp+
  then have "0 \<in> fst ` set (results st)"
    using started_after_dependencies [OF _ r, of 1 0] run by simp
  then show ?thesis using st(1) run by simp
qed


section \<open>Where failures are not contained\<close>


text \<open>
  The same with a dependency that was itself given up: step 1 never runs, and step 3, which
  reads its output, is started all the same.
\<close>

lemma join_runs_on_abandoned_dependency:
  "(let w = sample_flow [[], [0], [], [1, 2]] in
    map_option (\<lambda>st. (map fst (running st), abandoned st))
      (flow_play True w [(0, bad_result), (2, ok_result)] (flow_start True w [] [])) = Some ([3], [1]))"
  by code_simp

text \<open>
  A dependency listed twice is counted twice and released once: the step never runs, is not
  reported as skipped, and the run is a success.
\<close>

lemma repeated_dependency_never_runs:
  "(let w = sample_flow [[], [0, 0]] in
    map_option (\<lambda>st. (running st, steps_run (flow_report w st 0), skipped (flow_report w st 0),
        flow_is_success (flow_report w st 0)))
      (flow_play True w [(0, ok_result)] (flow_start True w [] [])) = Some ([], [0], [], True))"
  by code_simp

text \<open>Giving up reaches two levels down; the fourth step of a chain is in no list.\<close>

lemma abandonment_stops_after_two_levels:
  "(let w = sample_flow [[], [0], [1], [2]] in
    map_option (\<lambda>st. (running st, steps_run (flow_report w st 0), skipped (flow_report w st 0)))
      (flow_play True w [(0, bad_result)] (flow_start True w [] [])) = Some ([], [0], [1, 2]))"
  by code_simp

text \<open>
  Resuming when only a later step's output survived: the earlier step runs again, releases
  the resumed step, which runs again too, and its own dependents are counted below zero.
\<close>

definition survivor :: "(nat, record_line) hashmap" where
  "survivor = [(1, \<lparr>cp_run = ''r'', cp_fingerprint = ''f'', cp_step = 1, cp_task_id = TaskId 1,
     cp_node_id = NodeId 1, cp_output_id = DataId [1], duration_ms = 0\<rparr>)]"

definition survivor_catalog :: catalog where
  "survivor_catalog = record_data catalog_new (descriptor_new (DataId [1]) 1) (NodeId 1)"

lemma resumed_step_runs_again:
  "(let w = sample_flow [[], [0], [1]] in
    map_option (\<lambda>st. (map fst (running st), resumed st))
      (flow_play True w [(2, ok_result), (0, ok_result)] (flow_start True w survivor_catalog survivor)) =
        Some ([1], [1]))"
  by code_simp

lemma resumed_step_underflows:
  "(let w = sample_flow [[], [0], [1]] in
    (case flow_play True w [(2, ok_result), (0, ok_result)] (flow_start True w survivor_catalog survivor) of
       Some st \<Rightarrow> flow_next True w [] None st 1 ok_result = Panic
     | None \<Rightarrow> False))"
  by code_simp

end
