(* ===== verification/ClientApi.thy ===== *)
theory ClientApi
  imports Server Ledger Flow Framing
begin

text \<open>
  What clients of the controller send and get back (crates/aether-controller/src/client.rs,
  the requests, the responses and one client connection). The base64 and UUID libraries and
  the texts of I/O and join errors are a record, JSON a pair of functions on bytes; freshly
  generated task and workflow ids are arguments. The dispatcher behind the connections is
  the theory Dispatcher.
\<close>

record externals =
  b64_encode :: "bytes \<Rightarrow> string"
  b64_decode :: "string \<Rightarrow> string + bytes"
  show_uuid :: "128 word \<Rightarrow> string"
  show_io :: string
  show_join :: string

definition CLIENT_PROTOCOL_VERSION :: nat where
  "CLIENT_PROTOCOL_VERSION = 1"

definition MAX_CLIENT_FRAME_BYTES :: nat where
  "MAX_CLIENT_FRAME_BYTES = 256 * 1024 * 1024"

section \<open>Requests and responses\<close>

record workflow_step =
  ws_kind :: string
  ws_payload :: string
  ws_inputs :: "string list"
  ws_constraints :: "string list"
  ws_priority :: "string option"
  ws_module :: "string option"
  ws_depends_on :: "nat list"

datatype client_request =
    Hello "string option"
  | PublishRequest string
  | SubmitRequest workflow_step "nat option"
  | WorkflowRequest "workflow_step list" "string option"
  | NodesRequest
  | RecentRequest "nat option"
  | StatsRequest

text \<open>
  A submission has the fields of a workflow step, without dependencies, and a timeout in
  milliseconds.
\<close>

record step_outcome =
  so_step :: nat
  so_node_id :: string
  so_success :: bool
  so_output :: string
  so_duration_ms :: fl
  so_error :: "string option"

record finished_task =
  ft_task_id :: string
  ft_kind :: string
  ft_node_id :: string
  ft_success :: bool
  ft_duration_ms :: fl
  ft_output_bytes :: nat
  ft_preview :: "string \<times> bool"
  seconds_ago :: fl

record traffic_summary =
  ts_bytes_sent :: nat
  ts_bytes_uncompressed :: nat
  ts_bytes_saved :: nat
  ts_compression_ratio :: fl
  ts_transfers_skipped :: nat
  ts_chunks_skipped :: nat
  ts_retries :: nat

record queue_snapshot =
  snap_depth :: nat
  snap_dequeued :: nat
  snap_refused :: nat
  snap_expired :: nat
  snap_mean_wait_ms :: fl
  snap_longest_wait_ms :: nat

record node_summary =
  ns_node_id :: string
  ns_hostname :: string
  ns_cpu_cores :: nat
  ns_cpu_usage :: fl
  ns_memory_usage :: fl
  ns_labels :: labels
  ns_address :: string
  ns_latency_ms :: "fl option"
  ns_bandwidth :: "nat option"
  datasets_held :: nat
  ns_bytes_held :: nat
  ns_connected :: bool

record mesh_stats =
  st_traffic :: traffic_summary
  st_mesh :: mesh_metrics
  st_queue :: queue_snapshot
  st_nodes :: nat
  st_nodes_connected :: nat
  st_datasets :: nat
  st_dataset_bytes :: nat

datatype client_response =
    Welcome nat
  | Published string nat
  | ResultResponse string string bool string fl "string option"
  | NodesResponse "node_summary list"
  | WorkflowResponse "step_outcome list" "nat list" "nat list" bool
  | RecentResponse "finished_task list"
  | StatsResponse mesh_stats
  | ErrorResponse string

section \<open>Rendering\<close>

fun show_node :: "externals \<Rightarrow> node_id \<Rightarrow> string" where
  "show_node ext (NodeId w) = show_uuid ext w"

fun show_task :: "externals \<Rightarrow> task_id \<Rightarrow> string" where
  "show_task ext (TaskId w) = show_uuid ext w"

fun dispatch_error_display :: "externals \<Rightarrow> dispatch_error \<Rightarrow> string" where
  "dispatch_error_display ext (NoNodeAvailable t) = ''no node available for task '' @ show_task ext t"
| "dispatch_error_display ext (Unreachable n reason) = ''node '' @ show_node ext n @ '' is not reachable: '' @ reason"
| "dispatch_error_display ext (Timeout n t) =
     ''node '' @ show_node ext n @ '' did not return a result for task '' @ show_task ext t @ '' in time''"
| "dispatch_error_display ext (UnknownInput i) =
     ''task input '' @ data_id_display i @ '' was never published to the controller''"
| "dispatch_error_display ext (QueueFull t) = ''the queue is full; task '' @ show_task ext t @ '' was not accepted''"
| "dispatch_error_display ext (QueueTimeout t ms) =
     ''task '' @ show_task ext t @ '' waited '' @ nat_to_string ms @ '' ms for a node and gave up''"

fun data_id_error_display :: "data_id_parse_error \<Rightarrow> string" where
  "data_id_error_display (WrongLength n) = ''expected a 64 character hex string, got '' @ nat_to_string n @ '' characters''"
| "data_id_error_display (InvalidHex i) = ''invalid hex character at byte '' @ nat_to_string i"

definition constraint_error_display :: "string \<Rightarrow> string" where
  "constraint_error_display input =
     CHR 0x60 # input @ CHR 0x60 # '' is not a constraint (expected '' @ CHR 0x60 # ''key'' @ CHR 0x60 # '', '' @
     CHR 0x60 # ''key=value'' @ CHR 0x60 # '', or '' @ CHR 0x60 # ''key!=value'' @ CHR 0x60 # '')''"

definition priority_error_display :: "string \<Rightarrow> string" where
  "priority_error_display input =
     CHR 0x60 # input @ CHR 0x60 # '' is not a priority (critical, high, normal, low, background)''"

fun join_with :: "string \<Rightarrow> string list \<Rightarrow> string" where
  "join_with sep [] = []"
| "join_with sep [x] = x"
| "join_with sep (x # y # xs) = x @ sep @ join_with sep (y # xs)"

fun workflow_error_display :: "workflow_error \<Rightarrow> string" where
  "workflow_error_display Empty = ''a workflow needs at least one step''"
| "workflow_error_display (UnknownDependency s d) =
     ''step '' @ nat_to_string s @ '' depends on step '' @ nat_to_string d @ '', which does not exist''"
| "workflow_error_display (SelfDependency s) = ''step '' @ nat_to_string s @ '' depends on itself''"
| "workflow_error_display (Cycle ss) =
     ''steps '' @ join_with '' -> '' (map nat_to_string ss) @ '' form a cycle; a workflow has to finish''"
| "workflow_error_display (UnknownStep s) = ''step '' @ nat_to_string s @ '' is not in this workflow''"

definition millis_f64 :: "duration \<Rightarrow> fl" where
  "millis_f64 d = fmul f64 (as_secs_f64 d) (fconst f64 1000)"

definition failure_message :: "task_result \<Rightarrow> string option" where
  "failure_message r = (case outcome r of Failure msg \<Rightarrow> Some msg | Success _ \<Rightarrow> None)"

definition output_or_empty :: "task_result \<Rightarrow> bytes" where
  "output_or_empty r = (case result_output r of None \<Rightarrow> [] | Some out \<Rightarrow> out)"

definition render_result :: "externals \<Rightarrow> dispatch_error + task_result \<Rightarrow> client_response" where
  "render_result ext x =
     (case x of
        Inr r \<Rightarrow> ResultResponse (show_task ext (res_task_id r)) (show_node ext (res_node_id r)) (is_success r)
                   (b64_encode ext (output_or_empty r)) (millis_f64 (res_duration r)) (failure_message r)
      | Inl e \<Rightarrow> ErrorResponse (dispatch_error_display ext e))"

definition render_flow :: "externals \<Rightarrow> string + flow_result \<Rightarrow> client_response" where
  "render_flow ext x =
     (case x of
        Inr f \<Rightarrow> WorkflowResponse
          (map (\<lambda>(r, s). \<lparr>so_step = s, so_node_id = show_node ext (res_node_id r), so_success = is_success r,
                          so_output = b64_encode ext (output_or_empty r), so_duration_ms = millis_f64 (res_duration r),
                          so_error = failure_message r\<rparr>) (zip (fr_results f) (steps_run f)))
          (skipped f) (fr_resumed f) (flow_is_success f)
      | Inl e \<Rightarrow> ErrorResponse e)"

definition render_finished :: "externals \<Rightarrow> instant \<Rightarrow> finished \<Rightarrow> finished_task" where
  "render_finished ext now f =
     \<lparr>ft_task_id = show_task ext (fin_task_id f), ft_kind = fin_kind f, ft_node_id = show_node ext (fin_node_id f),
      ft_success = fin_success f, ft_duration_ms = millis_f64 (fin_duration f), ft_output_bytes = fin_output_bytes f,
      ft_preview = fin_preview f, seconds_ago = as_secs_f64 (saturating_duration_since now (fin_at f))\<rparr>"

definition traffic_summary_of :: "traffic \<Rightarrow> traffic_summary" where
  "traffic_summary_of t =
     \<lparr>ts_bytes_sent = data_bytes_sent t, ts_bytes_uncompressed = data_bytes_uncompressed t,
      ts_bytes_saved = compression_saved_bytes t, ts_compression_ratio = compression_ratio t,
      ts_transfers_skipped = transfers_skipped t, ts_chunks_skipped = chunks_skipped t, ts_retries = retries t\<rparr>"

definition queue_snapshot_of :: "queue_stats \<Rightarrow> queue_snapshot" where
  "queue_snapshot_of q =
     \<lparr>snap_depth = qs_depth q, snap_dequeued = qs_dequeued q, snap_refused = qs_refused q, snap_expired = qs_expired q,
      snap_mean_wait_ms = mean_wait_ms q, snap_longest_wait_ms = longest_wait_ms q\<rparr>"

definition summary_of :: "externals \<Rightarrow> node_info \<Rightarrow> node_summary" where
  "summary_of ext info =
     \<lparr>ns_node_id = show_node ext (info_id info), ns_hostname = hostname info, ns_cpu_cores = cpu_cores info,
      ns_cpu_usage = cpu_usage (metrics info), ns_memory_usage = memory_usage (metrics info), ns_labels = node_labels info,
      ns_address = address info, ns_latency_ms = latency_ms info, ns_bandwidth = bandwidth_bytes_per_sec info,
      datasets_held = 0, ns_bytes_held = 0, ns_connected = False\<rparr>"

definition in_mesh :: "externals \<Rightarrow> node_info \<Rightarrow> mesh_state \<Rightarrow> node_summary" where
  "in_mesh ext info st =
     (let (n, size) = held_by (catalog st) (info_id info)
      in (summary_of ext info)\<lparr>datasets_held := n, ns_bytes_held := size,
            ns_connected := is_connected (conns st) (info_id info)\<rparr>)"

definition stats :: "mesh_state \<Rightarrow> client_response" where
  "stats st =
     (let nodes = mesh_nodes st; (n, size) = totals (catalog st)
      in StatsResponse \<lparr>st_traffic = traffic_summary_of (traffic_stats st), st_mesh = counters st,
           st_queue = queue_snapshot_of (queue_figures st), st_nodes = length nodes,
           st_nodes_connected = length (filter (\<lambda>node. is_connected (conns st) (info_id node)) nodes),
           st_datasets = n, st_dataset_bytes = size\<rparr>)"

section \<open>From a request to a command\<close>

datatype client_command =
    PublishData bytes
  | SubmitTask task "duration option"
  | ListNodes
  | AskStats
  | ListRecent nat
  | RunWorkflow workflow "string option"

datatype answer =
    Described data_descriptor
  | Submitted "dispatch_error + task_result"
  | Listed "node_summary list"
  | Counted client_response
  | Finished "finished_task list"
  | FlowRan client_response

definition decode_payload :: "externals \<Rightarrow> string \<Rightarrow> string + bytes" where
  "decode_payload ext data =
     (case b64_decode ext data of Inl e \<Rightarrow> Inl (''payload is not valid base64: '' @ e) | Inr bs \<Rightarrow> Inr bs)"

definition parse_data_id :: "string \<Rightarrow> (string + data_id) exec" where
  "parse_data_id s =
     (case data_id_from_str s of
        Panic \<Rightarrow> Panic
      | Ret (Inl e) \<Rightarrow> Ret (Inl (s @ '' is not a data id: '' @ data_id_error_display e))
      | Ret (Inr i) \<Rightarrow> Ret (Inr i))"

text \<open>\<^verbatim>\<open>collect::<Result<Vec<_>, _>>\<close>: the first error, or everything.\<close>

fun collect_all :: "('a \<Rightarrow> ('e + 'b) exec) \<Rightarrow> 'a list \<Rightarrow> ('e + 'b list) exec" where
  "collect_all f [] = Ret (Inr [])"
| "collect_all f (x # xs) =
     (case f x of
        Panic \<Rightarrow> Panic
      | Ret (Inl e) \<Rightarrow> Ret (Inl e)
      | Ret (Inr y) \<Rightarrow>
          (case collect_all f xs of
             Panic \<Rightarrow> Panic
           | Ret (Inl e) \<Rightarrow> Ret (Inl e)
           | Ret (Inr ys) \<Rightarrow> Ret (Inr (y # ys))))"

definition parse_constraint :: "string \<Rightarrow> (string + constraint) exec" where
  "parse_constraint s =
     (case constraint_from_str s of Inl e \<Rightarrow> Ret (Inl (constraint_error_display e)) | Inr c \<Rightarrow> Ret (Inr c))"

definition parse_priority :: "string option \<Rightarrow> string + priority" where
  "parse_priority p =
     (case priority_from_str (case p of None \<Rightarrow> [] | Some s \<Rightarrow> s) of
        Inl e \<Rightarrow> Inl (priority_error_display e)
      | Inr x \<Rightarrow> Inr x)"

text \<open>The task of a submission or of a workflow step, with its id.\<close>

definition build_task :: "externals \<Rightarrow> task_id \<Rightarrow> workflow_step \<Rightarrow> (string + task) exec" where
  "build_task ext fresh ws =
     (case decode_payload ext (ws_payload ws) of
        Inl e \<Rightarrow> Ret (Inl e)
      | Inr bs \<Rightarrow>
          (case collect_all parse_data_id (ws_inputs ws) of
             Panic \<Rightarrow> Panic
           | Ret (Inl e) \<Rightarrow> Ret (Inl e)
           | Ret (Inr ins) \<Rightarrow>
               (case collect_all parse_constraint (ws_constraints ws) of
                  Panic \<Rightarrow> Panic
                | Ret (Inl e) \<Rightarrow> Ret (Inl e)
                | Ret (Inr cs) \<Rightarrow>
                    (case parse_priority (ws_priority ws) of
                       Inl e \<Rightarrow> Ret (Inl e)
                     | Inr p \<Rightarrow>
                         (let finish = (\<lambda>t. Ret (Inr (with_priority (with_constraints (with_inputs t ins) cs) p)))
                          in case ws_module ws of
                               None \<Rightarrow> finish (task_new fresh (ws_kind ws) bs)
                             | Some m \<Rightarrow>
                                 (case parse_data_id m of
                                    Panic \<Rightarrow> Panic
                                  | Ret (Inl e) \<Rightarrow> Ret (Inl e)
                                  | Ret (Inr i) \<Rightarrow> finish (task_wasm fresh i bs)))))))"

fun build_steps :: "externals \<Rightarrow> (nat \<Rightarrow> task_id) \<Rightarrow> nat \<Rightarrow> workflow_step list \<Rightarrow> (string + step list) exec" where
  "build_steps ext fresh k [] = Ret (Inr [])"
| "build_steps ext fresh k (ws # rest) =
     (case build_task ext (fresh k) ws of
        Panic \<Rightarrow> Panic
      | Ret (Inl e) \<Rightarrow> Ret (Inl e)
      | Ret (Inr t) \<Rightarrow>
          (case build_steps ext fresh (Suc k) rest of
             Panic \<Rightarrow> Panic
           | Ret (Inl e) \<Rightarrow> Ret (Inl e)
           | Ret (Inr ss) \<Rightarrow> Ret (Inr (step_after t (ws_depends_on ws) # ss))))"

definition request_command ::
    "externals \<Rightarrow> (nat \<Rightarrow> task_id) \<Rightarrow> workflow_id \<Rightarrow> client_request \<Rightarrow> (string + client_command) exec" where
  "request_command ext fresh fresh_flow q =
     (case q of
        Hello _ \<Rightarrow> Ret (Inl ''already connected'')
      | PublishRequest data \<Rightarrow>
          (case decode_payload ext data of Inl e \<Rightarrow> Ret (Inl e) | Inr bs \<Rightarrow> Ret (Inr (PublishData bs)))
      | SubmitRequest ws timeout_ms \<Rightarrow>
          (case build_task ext (fresh 0) ws of
             Panic \<Rightarrow> Panic
           | Ret (Inl e) \<Rightarrow> Ret (Inl e)
           | Ret (Inr t) \<Rightarrow> Ret (Inr (SubmitTask t (map_option from_millis timeout_ms))))
      | WorkflowRequest ss run \<Rightarrow>
          (case build_steps ext fresh 0 ss of
             Panic \<Rightarrow> Panic
           | Ret (Inl e) \<Rightarrow> Ret (Inl e)
           | Ret (Inr built) \<Rightarrow>
               (case workflow_new fresh_flow built of
                  Panic \<Rightarrow> Panic
                | Ret (Inl e) \<Rightarrow> Ret (Inl (workflow_error_display e))
                | Ret (Inr w) \<Rightarrow> Ret (Inr (RunWorkflow w run))))
      | NodesRequest \<Rightarrow> Ret (Inr ListNodes)
      | RecentRequest n \<Rightarrow>
          Ret (Inr (ListRecent (min (case n of None \<Rightarrow> 20 | Some k \<Rightarrow> k) DEFAULT_HISTORY)))
      | StatsRequest \<Rightarrow> Ret (Inr AskStats))"

text \<open>What a client is told once the dispatcher answered, or dropped the command.\<close>

fun dropped_message :: "client_command \<Rightarrow> string" where
  "dropped_message (PublishData _) = ''publish was dropped''"
| "dropped_message (SubmitTask _ _) = ''submission was dropped''"
| "dropped_message ListNodes = ''node listing was dropped''"
| "dropped_message AskStats = ''stats were dropped''"
| "dropped_message (ListRecent _) = ''the task history was dropped''"
| "dropped_message (RunWorkflow _ _) = ''the workflow was dropped''"

definition render_answer :: "externals \<Rightarrow> client_command \<Rightarrow> answer option \<Rightarrow> client_response" where
  "render_answer ext c x =
     (case x of
        None \<Rightarrow> ErrorResponse (dropped_message c)
      | Some (Described d) \<Rightarrow> Published (data_id_display (desc_id d)) (size_bytes d)
      | Some (Submitted r) \<Rightarrow> render_result ext r
      | Some (Listed ns) \<Rightarrow> NodesResponse ns
      | Some (Counted r) \<Rightarrow> r
      | Some (Finished fs) \<Rightarrow> RecentResponse fs
      | Some (FlowRan r) \<Rightarrow> r)"

section \<open>One connection\<close>

datatype client_event = Replied client_response | Asked client_command | Died

definition client_turn ::
    "security_config \<Rightarrow> externals \<Rightarrow> (nat \<Rightarrow> task_id) \<Rightarrow> workflow_id \<Rightarrow> client_request \<Rightarrow> bool \<Rightarrow> client_event \<times> bool" where
  "client_turn security ext fresh fresh_flow q authorized =
     (case q of
        Hello token \<Rightarrow>
          (case authorize security token of
             Inr _ \<Rightarrow> (Replied (Welcome CLIENT_PROTOCOL_VERSION), True)
           | Inl e \<Rightarrow> (Replied (ErrorResponse (auth_error_display e)), authorized))
      | _ \<Rightarrow>
          (if \<not> authorized then (Replied (ErrorResponse ''send hello with a valid token first''), authorized)
           else case request_command ext fresh fresh_flow q of
                  Panic \<Rightarrow> (Died, authorized)
                | Ret (Inl e) \<Rightarrow> (Replied (ErrorResponse e), authorized)
                | Ret (Inr c) \<Rightarrow> (Asked c, authorized)))"

text \<open>The requests of a connection in order; a panic ends it.\<close>

fun client_turns ::
    "security_config \<Rightarrow> externals \<Rightarrow> (nat \<Rightarrow> nat \<Rightarrow> task_id) \<Rightarrow> (nat \<Rightarrow> workflow_id) \<Rightarrow> client_request list \<Rightarrow> bool \<Rightarrow>
     client_event list" where
  "client_turns security ext fresh fresh_flow [] authorized = []"
| "client_turns security ext fresh fresh_flow (q # qs) authorized =
     (case client_turn security ext (fresh (length qs)) (fresh_flow (length qs)) q authorized of
        (Died, _) \<Rightarrow> [Died]
      | (e, a) \<Rightarrow> e # client_turns security ext fresh fresh_flow qs a)"

definition handle_client ::
    "security_config \<Rightarrow> externals \<Rightarrow> (nat \<Rightarrow> nat \<Rightarrow> task_id) \<Rightarrow> (nat \<Rightarrow> workflow_id) \<Rightarrow> client_request list \<Rightarrow> client_event list" where
  "handle_client security ext fresh fresh_flow qs =
     client_turns security ext fresh fresh_flow qs (\<not> requires_auth security)"

section \<open>Frames\<close>

datatype 'a frame_read = Frame 'a | HungUp | InvalidFrame string | BrokenFrame

definition read_frame :: "(bytes \<Rightarrow> string + 'a) \<Rightarrow> bytes \<Rightarrow> 'a frame_read \<times> bytes" where
  "read_frame parse stream =
     (case read_exact 4 stream of
        (None, rest) \<Rightarrow> (HungUp, rest)
      | (Some header, rest) \<Rightarrow>
          (let size = from_be_bytes header in
           if MAX_CLIENT_FRAME_BYTES < size
           then (InvalidFrame (''frame of '' @ nat_to_string size @ '' bytes exceeds the '' @
                   nat_to_string MAX_CLIENT_FRAME_BYTES @ '' byte limit''), rest)
           else case read_exact size rest of
                  (None, rest1) \<Rightarrow> (BrokenFrame, rest1)
                | (Some body, rest1) \<Rightarrow>
                    (case parse body of Inl e \<Rightarrow> (InvalidFrame e, rest1) | Inr x \<Rightarrow> (Frame x, rest1))))"

definition write_frame :: "('a \<Rightarrow> string + bytes) \<Rightarrow> 'a \<Rightarrow> bytes \<Rightarrow> string + bytes" where
  "write_frame print x out =
     (case print x of Inl e \<Rightarrow> Inl e | Inr body \<Rightarrow> Inr (out @ to_be_bytes (length body) @ body))"

section \<open>Properties\<close>

lemma client_turn_cases:
  assumes "client_turn security ext fresh fresh_flow q authorized = (e, a)"
  shows "(\<exists>token. q = Hello token \<and> authorize security token = Inr () \<and> a) \<or> a = authorized"
    "e = Asked c \<Longrightarrow> authorized \<and> request_command ext fresh fresh_flow q = Ret (Inr c)"
  using assms
  by (auto simp: client_turn_def split: client_request.splits sum.splits if_splits exec.splits)

lemma client_turns_asked:
  assumes "j < length (client_turns security ext fresh fresh_flow qs authorized)"
    and "client_turns security ext fresh fresh_flow qs authorized ! j = Asked c"
  shows "j < length qs \<and> (\<exists>fr ff. request_command ext fr ff (qs ! j) = Ret (Inr c)) \<and>
    (authorized \<or> (\<exists>i < j. \<exists>token. qs ! i = Hello token \<and> authorize security token = Inr ()))"
  using assms
proof (induction qs arbitrary: j authorized)
  case (Cons q qs)
  obtain e a where t: "client_turn security ext (fresh (length qs)) (fresh_flow (length qs)) q authorized = (e, a)" by fastforce
  note tc = client_turn_cases [OF t]
  show ?case
  proof (cases j)
    case 0
    then have "e = Asked c" using Cons.prems t by (cases e) auto
    then show ?thesis using tc(2) 0 by auto
  next
    case (Suc k)
    then have "e \<noteq> Died" using Cons.prems(1) t by (cases e) auto
    then have r: "client_turns security ext fresh fresh_flow (q # qs) authorized = e # client_turns security ext fresh fresh_flow qs a"
      using t by (cases e) simp_all
    have k: "k < length qs \<and> (\<exists>fr ff. request_command ext fr ff (qs ! k) = Ret (Inr c)) \<and>
        (a \<or> (\<exists>i < k. \<exists>token. qs ! i = Hello token \<and> authorize security token = Inr ()))"
      using Cons.IH [of k a] Cons.prems unfolding r Suc by simp
    have "authorized \<or> (\<exists>i < Suc k. \<exists>token. (q # qs) ! i = Hello token \<and> authorize security token = Inr ())"
    proof (cases "\<exists>i < k. \<exists>token. qs ! i = Hello token \<and> authorize security token = Inr ()")
      case True
      then show ?thesis by (metis Suc_less_eq nth_Cons_Suc)
    next
      case False
      then have "a" using k by blast
      then show ?thesis using tc(1) by (metis nth_Cons_0 zero_less_Suc)
    qed
    then show ?thesis using k Suc by simp
  qed
qed simp

text \<open>
  C25. A client of a controller that requires a token gets nothing done before it has
  presented a valid one: every command a connection passes on to the dispatcher comes from
  its own well-formed request at that position, and when the controller requires a token
  some earlier request of the same connection was a greeting with a token that the
  configuration accepts. A refused greeting or a malformed request passes nothing on.
\<close>

theorem client_needs_token:
  assumes "j < length (handle_client security ext fresh fresh_flow qs)"
    and "handle_client security ext fresh fresh_flow qs ! j = Asked c"
  shows "j < length qs \<and> (\<exists>fr ff. request_command ext fr ff (qs ! j) = Ret (Inr c)) \<and>
    (requires_auth security \<longrightarrow>
       (\<exists>i < j. \<exists>token. qs ! i = Hello (Some token) \<and>
          (auth_token security = Some token \<or> (\<exists>label. (label, token) \<in> set (node_tokens security)))))"
proof -
  have "j < length qs \<and> (\<exists>fr ff. request_command ext fr ff (qs ! j) = Ret (Inr c)) \<and>
      (\<not> requires_auth security \<or> (\<exists>i < j. \<exists>token. qs ! i = Hello token \<and> authorize security token = Inr ()))"
    using client_turns_asked assms unfolding handle_client_def by blast
  moreover have "\<exists>t. token = Some t \<and> (auth_token security = Some t \<or> (\<exists>label. (label, t) \<in> set (node_tokens security)))"
    if "requires_auth security" "authorize security token = Inr ()" for token
    using that authorize_iff [of security token]
    by (cases token) (auto simp: requires_auth_def split: if_splits)
  ultimately show ?thesis by blast
qed

definition sample_externals :: externals where
  "sample_externals = \<lparr>b64_encode = (\<lambda>_. []), b64_decode = (\<lambda>s. if s = ''AQ=='' then Inr [1] else Inl ''bad''), show_uuid = (\<lambda>_. []), show_io = [], show_join = []\<rparr>"

theorem client_needs_token_witness:
  "(let out = handle_client (with_token ''s3cret'') sample_externals (\<lambda>_ _. TaskId 1) (\<lambda>_. WorkflowId 1)
        [PublishRequest ''AQ=='', Hello (Some ''s3cret''), PublishRequest ''AQ=='']
    in length out = 3 \<and> out ! 2 = Asked (PublishData [1]) \<and>
       (\<exists>i < 2. \<exists>token. [PublishRequest ''AQ=='', Hello (Some ''s3cret''), PublishRequest ''AQ==''] ! i = Hello (Some token)))"
proof -
  define out where "out = handle_client (with_token ''s3cret'') sample_externals (\<lambda>_ _. TaskId 1) (\<lambda>_. WorkflowId 1)
      [PublishRequest ''AQ=='', Hello (Some ''s3cret''), PublishRequest ''AQ=='']"
  have o: "length out = 3 \<and> out ! 2 = Asked (PublishData [1])"
    unfolding out_def handle_client_def sample_externals_def
    by (simp add: client_turn_def requires_auth_def with_token_def authorize_iff request_command_def decode_payload_def)
  then have "2 < length out" by simp
  note used = client_needs_token [OF this [unfolded out_def] conjunct2 [OF o, unfolded out_def]]
  have "requires_auth (with_token ''s3cret'')" by (simp add: requires_auth_def with_token_def)
  then have "\<exists>i < 2. \<exists>token. [PublishRequest ''AQ=='', Hello (Some ''s3cret''), PublishRequest ''AQ==''] ! i = Hello (Some token)"
    using used by blast
  then show ?thesis using o by (simp only: out_def [symmetric] Let_def simp_thms)
qed

text \<open>
  A data id of 64 bytes whose pairs of bytes cut a character in two makes the request
  panic, which ends the connection (and, in a build that aborts on panic, the controller).
\<close>

lemma malformed_id_is_fatal:
  assumes "b64_decode ext [] = Inr []" "data_id_from_str s = Panic"
    and "ws = \<lparr>ws_kind = ''echo'', ws_payload = [], ws_inputs = [s], ws_constraints = [], ws_priority = None,
               ws_module = None, ws_depends_on = []\<rparr>"
  shows "handle_client security_open ext fresh fresh_flow [SubmitRequest ws None] = [Died]"
  using assms
  by (simp add: handle_client_def client_turn_def requires_auth_def security_open_def request_command_def build_task_def
      decode_payload_def parse_data_id_def)

section \<open>Frames of clients\<close>

lemma client_frame_round_trip:
  assumes "parse body = Inr x" "length body \<le> MAX_CLIENT_FRAME_BYTES"
  shows "read_frame parse (to_be_bytes (length body) @ body @ rest) = (Frame x, rest)"
proof -
  have "length body < 2 ^ 32" using assms(2) by (simp add: MAX_CLIENT_FRAME_BYTES_def)
  then show ?thesis
    using assms be_bytes_round_trip [of "length body"] by (simp add: read_frame_def read_exact_def Let_def)
qed

text \<open>
  An announced length above the limit is answered with an error and the connection goes on,
  but the payload stays in the stream: what it contains is read as the next frame.
\<close>

lemma oversized_frame_is_read_as_frames:
  assumes "MAX_CLIENT_FRAME_BYTES < n" "n < 2 ^ 32" "parse body = Inr x" "length body \<le> MAX_CLIENT_FRAME_BYTES"
    and "stream = to_be_bytes n @ to_be_bytes (length body) @ body @ rest"
  shows "\<exists>msg. read_frame parse stream = (InvalidFrame msg, drop 4 stream) \<and> read_frame parse (drop 4 stream) = (Frame x, rest)"
proof -
  have "\<exists>msg. read_frame parse stream = (InvalidFrame msg, drop 4 stream)"
    using assms(1,2,5) be_bytes_round_trip [of n] by (simp add: read_frame_def read_exact_def Let_def)
  then show ?thesis
    using client_frame_round_trip [of parse body x rest] assms(3,4,5) by auto
qed

end
