(* ===== verification/FlowRun.thy ===== *)
theory FlowRun
  imports Dispatch Flow
begin

text \<open>
  Running a workflow on the controller (\<^verbatim>\<open>run_inner\<close> of
  crates/aether-controller/src/flow.rs): the loop of theory Flow with real submissions, the
  journal of the controller and the errors that end a run early. A run is a state; its
  submissions end one at a time, in the order the environment chooses. What the code takes
  from elsewhere (the digest, LZ4, the scheduler, the JSON of a journal line, whether overflow
  checks are compiled in) is the record \<^verbatim>\<open>env\<close>.
\<close>

record env =
  e_hash :: digest
  e_lz4 :: "bytes \<Rightarrow> bytes"
  e_kind :: scheduler_kind
  e_print :: "record_line \<Rightarrow> string"
  e_parse :: "string \<Rightarrow> record_line option"
  e_checks :: bool

datatype flow_error =
    Invalid workflow_error
  | DispatchFailed nat dispatch_error
  | CheckpointFailed checkpoint_error
  | Lost nat

record flow_run =
  r_workflow :: workflow
  r_journal :: "(string \<times> string) option"
  r_flow :: flow
  r_before :: nat

section \<open>Start\<close>

text \<open>
  The journal counts only for a named run on a controller that has one. An invalid workflow
  is reported before an unreadable journal.
\<close>

definition run_journal :: "env \<Rightarrow> controller \<Rightarrow> workflow \<Rightarrow> string option \<Rightarrow> (journal \<times> string \<times> string) option" where
  "run_journal e c w run =
     (case (run, checkpoint c) of (Some name, Some j) \<Rightarrow> Some (j, name, fingerprint (e_hash e) w) | _ \<Rightarrow> None)"

definition run_start :: "env \<Rightarrow> controller \<Rightarrow> workflow \<Rightarrow> string option \<Rightarrow> (flow_error + flow_run) exec" where
  "run_start e c w run =
     (case workflow_order w of
        Panic \<Rightarrow> Panic
      | Ret (Inl err) \<Rightarrow> Ret (Inl (Invalid err))
      | Ret (Inr _) \<Rightarrow>
          (case (case run_journal e c w run of
                   None \<Rightarrow> Inr []
                 | Some (j, name, fp) \<Rightarrow> completed (e_parse e) j name fp) of
             Inl err \<Rightarrow> Ret (Inl (CheckpointFailed err))
           | Inr fin \<Rightarrow>
               (case flow_start (e_checks e) w (c_catalog c) fin of
                  Panic \<Rightarrow> Panic
                | Ret (Inl err) \<Rightarrow> Ret (Inl (Invalid err))
                | Ret (Inr st) \<Rightarrow>
                    Ret (Inr \<lparr>r_workflow = w, r_journal = map_option snd (run_journal e c w run), r_flow = st,
                              r_before = data_bytes_uncompressed (c_traffic c)\<rparr>))))"

section \<open>One finished submission\<close>

text \<open>A success with an output is appended to the journal; a failed append is only logged.\<close>

definition note_finished :: "env \<Rightarrow> controller \<Rightarrow> (string \<times> string) option \<Rightarrow> nat \<Rightarrow> task_result \<Rightarrow> bool \<times> controller" where
  "note_finished e c jr s r =
     (case (jr, checkpoint c, output_id r) of
        (Some (name, fp), Some j, Some i) \<Rightarrow>
          (if is_success r
           then case append_record (e_print e) j \<lparr>cp_run = name, cp_fingerprint = fp, cp_step = s,
                       cp_task_id = res_task_id r, cp_node_id = res_node_id r, cp_output_id = i,
                       duration_ms = as_millis (res_duration r)\<rparr> of
                  (Inl _, j1) \<Rightarrow> (False, c\<lparr>checkpoint := Some j1\<rparr>)
                | (Inr _, j1) \<Rightarrow> (True, c\<lparr>checkpoint := Some j1\<rparr>)
           else (False, c))
      | _ \<Rightarrow> (False, c))"

text \<open>
  An error returns from the loop, which drops the other submissions where they stand:
  \<^verbatim>\<open>stranded\<close> are the nodes on which they were counted as outstanding.
\<close>

definition cancelled :: "controller \<Rightarrow> node_id list \<Rightarrow> controller" where
  "cancelled c stranded = fold (\<lambda>n c. begin_on c n) stranded c"

definition run_joined ::
    "env \<Rightarrow> node_id list \<Rightarrow> nat \<Rightarrow> (dispatch_error + task_result) exec \<Rightarrow> controller \<Rightarrow> flow_run \<Rightarrow>
     (flow_error + flow_run) exec \<times> controller" where
  "run_joined e stranded s x c run =
     (case x of
        Panic \<Rightarrow> (Ret (Inl (Lost (2 ^ 64 - 1))), cancelled c stranded)
      | Ret (Inl err) \<Rightarrow> (Ret (Inl (DispatchFailed s err)), cancelled c stranded)
      | Ret (Inr r) \<Rightarrow>
          (let (ok, c1) = note_finished e c (r_journal run) s r
           in case flow_next (e_checks e) (r_workflow run) (c_catalog c)
                     (map_option (\<lambda>(name, fp). (name, fp, ok)) (r_journal run)) (r_flow run) s r of
                Panic \<Rightarrow> (Panic, c1)
              | Ret st \<Rightarrow> (Ret (Inr (run\<lparr>r_flow := st\<rparr>)), c1)))"

text \<open>The submission of the \<^verbatim>\<open>i\<close>-th spawned step runs and is joined.\<close>

definition run_advance ::
    "env \<Rightarrow> 't transport \<Rightarrow> (nat \<Rightarrow> instant) \<Rightarrow> instant \<Rightarrow> node_id list \<Rightarrow> nat \<Rightarrow> controller \<Rightarrow> 't \<Rightarrow> flow_run \<Rightarrow>
     (flow_error + flow_run) exec \<times> controller \<times> 't" where
  "run_advance e tr ticks now stranded i c t run =
     (let (s, task) = running (r_flow run) ! i;
          (x, c1, t1) = submit (e_hash e) (e_lz4 e) (select_node (e_kind e)) tr ticks now task c t;
          (y, c2) = run_joined e stranded s x c1 run
      in (y, c2, t1))"

definition run_report :: "controller \<Rightarrow> flow_run \<Rightarrow> flow_result" where
  "run_report c run =
     flow_report (r_workflow run) (r_flow run) (data_bytes_uncompressed (c_traffic c) - r_before run)"

text \<open>
  A whole run: the environment says which of the spawned submissions ends next. Each
  iteration ends one, so as many iterations as there are steps are enough.
\<close>

fun run_loop ::
    "env \<Rightarrow> 't transport \<Rightarrow> (nat \<Rightarrow> nat \<Rightarrow> instant) \<Rightarrow> (nat \<Rightarrow> nat) \<Rightarrow> nat \<Rightarrow> controller \<Rightarrow> 't \<Rightarrow> flow_run \<Rightarrow>
     (flow_error + flow_result) exec option \<times> controller \<times> 't" where
  "run_loop e tr moments pick fuel c t run =
     (if running (r_flow run) = [] then (Some (Ret (Inr (run_report c run))), c, t)
      else case fuel of
             0 \<Rightarrow> (None, c, t)
           | Suc left \<Rightarrow>
               (case run_advance e tr (moments left) (moments left 0) [] (pick left mod length (running (r_flow run))) c t run of
                  (Panic, c1, t1) \<Rightarrow> (Some Panic, c1, t1)
                | (Ret (Inl err), c1, t1) \<Rightarrow> (Some (Ret (Inl err)), c1, t1)
                | (Ret (Inr run1), c1, t1) \<Rightarrow> run_loop e tr moments pick left c1 t1 run1))"

declare run_loop.simps [simp del]

definition run_inner ::
    "env \<Rightarrow> 't transport \<Rightarrow> (nat \<Rightarrow> nat \<Rightarrow> instant) \<Rightarrow> (nat \<Rightarrow> nat) \<Rightarrow> workflow \<Rightarrow> string option \<Rightarrow> controller \<Rightarrow> 't \<Rightarrow>
     (flow_error + flow_result) exec option \<times> controller \<times> 't" where
  "run_inner e tr moments pick w run c t =
     (case run_start e c w run of
        Panic \<Rightarrow> (Some Panic, c, t)
      | Ret (Inl err) \<Rightarrow> (Some (Ret (Inl err)), c, t)
      | Ret (Inr st) \<Rightarrow> run_loop e tr moments pick (length (steps w)) c t st)"

section \<open>What a submission leaves in the controller\<close>

lemma chunk_batch_cache: "chunk_batch lz4 n m bs bw ks c = (r, c') \<Longrightarrow> result_cache c' = result_cache c"
proof (induction ks arbitrary: c r c')
  case (Cons k ks)
  from Cons.prems show ?case
    by (cases k) (auto simp: Let_def count_traffic_def dest!: Cons.IH split: if_splits option.splits prod.splits exec.splits)
qed simp

lemma send_input_cache: "send_input lz4 tr n x c t = (r, c', t') \<Longrightarrow> result_cache c' = result_cache c"
  by (auto simp: send_input_def send_chunked_def Let_def count_traffic_def dest!: chunk_batch_cache
      split: option.splits prod.splits sum.splits exec.splits if_splits)

lemma locks_cache [simp]:
  "result_cache (transfer_lock c n i) = result_cache c" "result_cache (release_transfer c n i) = result_cache c"
  "result_cache (drop_transfer c n i) = result_cache c" "result_cache (count_traffic f c) = result_cache c"
  "result_cache (begin_on c n) = result_cache c" "result_cache (finished_on c n) = result_cache c"
  by (simp_all add: transfer_lock_def release_transfer_def drop_transfer_def count_traffic_def begin_on_def finished_on_def
      split: option.splits)

lemma ensure_inputs_cache: "ensure_inputs lz4 tr n ins c t = (r, c', t') \<Longrightarrow> result_cache c' = result_cache c"
proof (induction ins arbitrary: c t)
  case (Cons x ins)
  from Cons.prems show ?case
    by (auto simp: Let_def dest!: Cons.IH dest: send_input_cache split: if_splits prod.splits exec.splits sum.splits)
qed simp

lemma try_once_cache: "try_once lz4 tr n task c t = (r, c', t') \<Longrightarrow> result_cache c' = result_cache c"
  by (auto simp: try_once_def Let_def dest: ensure_inputs_cache split: prod.splits exec.splits sum.splits)

lemma try_once_dispatched:
  "try_once lz4 tr n task c t = (Ret (Inr r), c', t') \<Longrightarrow> \<exists>t0. t_dispatch tr t0 n task = (Inr r, t')"
  by (auto simp: try_once_def Let_def split: prod.splits exec.splits sum.splits)

text \<open>What later submissions need of the controller stays: \<^verbatim>\<open>serves_like c c'\<close>.\<close>

definition serves_like :: "controller \<Rightarrow> controller \<Rightarrow> bool" where
  "serves_like c c' =
     (c_registry c' = c_registry c \<and> retry c' = retry c \<and> (result_cache c = None \<longrightarrow> result_cache c' = None) \<and>
      (\<forall>i. stored_bytes c i \<noteq> None \<longrightarrow> stored_bytes c' i \<noteq> None))"

lemma serves_like_trans: "serves_like a b \<Longrightarrow> serves_like b c \<Longrightarrow> serves_like a c"
  by (simp add: serves_like_def)

lemma record_output_keeps:
  assumes "controller_inv hash c"
  shows "serves_like c (record_output hash c r)"
    "output_id r = Some i \<Longrightarrow> result_output r = Some out \<Longrightarrow> hash out = i \<Longrightarrow> stored_bytes (record_output hash c r) i \<noteq> None"
proof -
  have none: "budget (c_store c) = None" using assms by (simp add: controller_inv_def)
  have keep: "map_of (blobs (snd (insert_data hash (c_store c) d bs))) j \<noteq> None" if "map_of (blobs (c_store c)) j \<noteq> None" for d bs j
    using insert_data_store [of hash "c_store c" d bs] store_blob_keeps(2) [OF none] that by fastforce
  show "serves_like c (record_output hash c r)"
    using keep by (auto simp: serves_like_def record_output_def stored_bytes_def Let_def
        split: option.splits prod.splits sum.splits) (metis option.distinct(1) snd_conv)+
  assume out: "output_id r = Some i" "result_output r = Some out" "hash out = i"
  obtain x s where s: "insert_data hash (c_store c) (descriptor_new i (length out)) out = (x, s)" by fastforce
  then have "map_of (blobs s) i \<noteq> None"
    using out(3) map_of_touch [of "c_store c" i i] none
    by (auto simp: insert_data_def insert_evicting_def store_blob_def evict_over_budget_def contains_def descriptor_of_def
        descriptor_new_def Let_def update_conv' split: prod.splits option.splits if_splits)
  then show "stored_bytes (record_output hash c r) i \<noteq> None"
    using out s by (auto simp: record_output_def stored_bytes_def Let_def split: sum.splits)
qed

lemma record_success_keeps:
  assumes "controller_inv hash c"
  shows "serves_like c (record_success hash now c task r)"
    "output_id r = Some i \<Longrightarrow> result_output r = Some out \<Longrightarrow> hash out = i \<Longrightarrow> stored_bytes (record_success hash now c task r) i \<noteq> None"
proof -
  define h where "h = c\<lparr>c_history := history_record (c_history c) now task r\<rparr>"
  have "controller_inv hash h" unfolding h_def by (rule controller_inv_same [OF _ _ assms]) (simp_all add: frame_def)
  note kept = record_output_keeps [OF this]
  have cached: "stored_bytes (d\<lparr>result_cache := x\<rparr>) = stored_bytes d" for d x by (rule stored_bytes_store) simp
  have h: "stored_bytes h = stored_bytes c" by (rule stored_bytes_store) (simp add: h_def)
  then have "serves_like c h" by (simp add: serves_like_def h_def)
  then show "serves_like c (record_success hash now c task r)"
    using kept(1) [of r] unfolding record_success_def h_def [symmetric] Let_def
    by (auto simp: serves_like_def cached split: option.splits)
  show "output_id r = Some i \<Longrightarrow> result_output r = Some out \<Longrightarrow> hash out = i \<Longrightarrow> stored_bytes (record_success hash now c task r) i \<noteq> None"
    using kept(2) unfolding record_success_def h_def [symmetric] Let_def by (auto simp: cached split: option.splits)
qed

lemma attempt_keeps:
  assumes "try_once lz4 tr n task (begin_on c n) t = (q, c1, t1)"
  shows "serves_like c (finished_on c1 n)"
    "serves_like c (count_traffic f ((finished_on c1 n)\<lparr>c_catalog := x\<rparr>))"
proof -
  have fr: "frame c1 = frame (begin_on c n)" "same_store (begin_on c n) c1" using try_once_frame [OF assms] by simp_all
  have stored: "stored_bytes c1 = stored_bytes c"
    using fr(2) stored_bytes_store [of "begin_on c n" c] by (simp add: same_store_def)
  have finished: "stored_bytes (finished_on c1 n) = stored_bytes c1" by (rule stored_bytes_store) simp
  have reg: "c_registry c1 = c_registry c" "retry c1 = retry c" "result_cache c1 = result_cache c"
    using frame_parts(1,5) [OF fr(1)] try_once_cache [OF assms] by (simp_all add: begin_on_def)
  have retry: "retry (finished_on c1 n) = retry c1" by (simp add: finished_on_def split: option.splits)
  show "serves_like c (finished_on c1 n)" using reg retry stored finished by (simp add: serves_like_def)
  moreover have "stored_bytes (count_traffic f ((finished_on c1 n)\<lparr>c_catalog := x\<rparr>)) = stored_bytes (finished_on c1 n)"
    by (rule stored_bytes_store) (simp add: count_traffic_def)
  ultimately show "serves_like c (count_traffic f ((finished_on c1 n)\<lparr>c_catalog := x\<rparr>))"
    by (simp add: serves_like_def count_traffic_def)
qed

lemma submit_loop_returns:
  assumes "submit_loop hash lz4 select tr ticks task left unusable c t = (Ret (Inr r), c', t')" "controller_inv hash c"
  shows "serves_like c c' \<and> (\<exists>n t0 t1. t_dispatch tr t0 n task = (Inr r, t1)) \<and>
    (\<forall>i out. output_id r = Some i \<and> result_output r = Some out \<and> hash out = i \<longrightarrow> stored_bytes c' i \<noteq> None)"
  using assms
proof (induction left arbitrary: unusable c t)
  case (Suc left)
  obtain n where n: "select (c_catalog c) (candidates tr unusable c t) task = Some n"
    using Suc.prems(1) by (cases "select (c_catalog c) (candidates tr unusable c t) task") auto
  note b = flight_inv(1) [OF Suc.prems(2), of n]
  obtain q c1 t1 where o: "try_once lz4 tr n task (begin_on c n) t = (Ret q, c1, t1)"
    using try_once_no_panic [OF b, of lz4 tr n task t] by blast
  have f: "controller_inv hash (finished_on c1 n)"
    using flight_inv(2) [OF controller_inv_step [OF b try_once_frame [OF o]]] .
  show ?case
  proof (cases q)
    case (Inr r1)
    then have "r1 = r" "c' = record_success hash (ticks left) (finished_on c1 n) task r" using Suc.prems(1) n o by auto
    then show ?thesis
      using record_success_keeps [OF f] serves_like_trans [OF attempt_keeps(1) [OF o]] try_once_dispatched [OF o [unfolded Inr]]
      by blast
  next
    case (Inl e)
    define d where
      "d = count_traffic record_retry ((finished_on c1 n)\<lparr>c_catalog := forget_node (c_catalog (finished_on c1 n)) n\<rparr>)"
    have "submit_loop hash lz4 select tr ticks task left (n # unusable) d t1 = (Ret (Inr r), c', t')"
      using Suc.prems(1) n o Inl by (auto simp: d_def Let_def split: if_splits)
    moreover have "controller_inv hash d"
      unfolding d_def by (rule controller_inv_same [OF _ _ f]) simp_all
    ultimately show ?thesis
      using Suc.IH serves_like_trans attempt_keeps(2) [OF o, of record_retry] unfolding d_def by blast
  qed
qed simp

section \<open>A workflow on a working mesh\<close>

lemma abandon_further_same:
  "abandon_further checks fs st = Ret st' \<Longrightarrow> outputs st' = outputs st \<and> running st' = running st"
  by (induction fs arbitrary: st) (fastforce split: exec.splits)+

lemma release_same:
  "release checks w s ok ds st = Ret st' \<Longrightarrow> outputs st' = outputs st \<and> running st' = running st"
  by (induction ds arbitrary: st) (fastforce simp: Let_def dest: abandon_further_same split: exec.splits if_splits)+

lemma flow_next_spawned:
  assumes "flow_next checks w cat journal st s r = Ret st'"
  shows "outputs st' = (case output_id r of None \<Rightarrow> outputs st | Some i \<Rightarrow> AList.update s i (outputs st))"
    "(k, task) \<in> set (running st') \<Longrightarrow> (k, task) \<in> set (running st) \<or> task = task_for w k (outputs st')"
  using assms by (auto simp: flow_next_def flow_finish_def flow_launch_def Let_def dest!: release_same split: exec.splits)

lemma task_for_constraints: "constraints (task_for w s outs) = constraints (step_task (steps w ! s))"
proof -
  have "constraints (fold (\<lambda>d t. case map_of outs d of
                   None \<Rightarrow> t
                 | Some o1 \<Rightarrow> (if o1 \<in> set (inputs t) then t else t\<lparr>inputs := inputs t @ [o1]\<rparr>)) ds t) = constraints t" for ds t
    by (induction ds arbitrary: t) (auto split: option.splits)
  then show ?thesis by (simp add: task_for_def)
qed

text \<open>
  Hypothesis on the agents behind the transport: a result is a success, and an output that
  is named is named by its hash, which is what the built-in executor reports.
\<close>

definition honest_results :: "digest \<Rightarrow> 't transport \<Rightarrow> bool" where
  "honest_results hash tr =
     (\<forall>t n task r t'. t_dispatch tr t n task = (Inr r, t') \<longrightarrow>
        is_success r \<and> (\<forall>i. output_id r = Some i \<longrightarrow> (\<exists>out. result_output r = Some out \<and> hash out = i)))"

text \<open>A working node may run the steps, and everything they read by themselves was published.\<close>

definition runnable :: "controller \<Rightarrow> node_id \<Rightarrow> workflow \<Rightarrow> bool" where
  "runnable c g w =
     (\<forall>s \<in> set (steps w). g \<in> placeable (c_registry c) (step_task s) \<and>
        card (placeable (c_registry c) (step_task s)) \<le> max_attempts (retry c) \<and>
        (\<forall>i \<in> set (inputs (step_task s)). stored_bytes c i \<noteq> None))"

definition run_inv :: "env \<Rightarrow> node_id \<Rightarrow> workflow \<Rightarrow> nat list \<Rightarrow> nat list \<Rightarrow> controller \<Rightarrow> flow_run \<Rightarrow> bool" where
  "run_inv e g w skip fin c run =
     (controller_inv (e_hash e) c \<and> result_cache c = None \<and> runnable c g w \<and> r_workflow run = w \<and>
      flow_inv w skip fin (r_flow run) \<and>
      (\<forall>d i. map_of (outputs (r_flow run)) d = Some i \<longrightarrow> stored_bytes c i \<noteq> None) \<and>
      (\<forall>(s, task) \<in> set (running (r_flow run)). constraints task = constraints (step_task (steps w ! s)) \<and>
         (\<forall>i \<in> set (inputs task). stored_bytes c i \<noteq> None)))"

lemma runnable_serves_like: "runnable c g w \<Longrightarrow> serves_like c c' \<Longrightarrow> runnable c' g w"
  by (auto simp: runnable_def serves_like_def)

lemma flow_inv_running_bound: "flow_inv w skip fin st \<Longrightarrow> (s, task) \<in> set (running st) \<Longrightarrow> s < length (steps w)"
  using flow_inv_running [of w skip fin st] by (force simp: kahn_inv_def)

lemma placeable_cong: "constraints a = constraints b \<Longrightarrow> placeable g a = placeable g b"
  by (simp add: placeable_def)

lemma submit_step:
  assumes inv: "run_inv e g w skip fin c run" and s: "(s, task) \<in> set (running (r_flow run))"
    and "reliable tr g" "fails_retryably tr" "honest_results (e_hash e) tr"
  shows "\<exists>r c' t'. submit (e_hash e) (e_lz4 e) (select_node (e_kind e)) tr ticks now task c t = (Ret (Inr r), c', t') \<and>
    controller_inv (e_hash e) c' \<and> serves_like c c' \<and> is_success r \<and>
    (\<forall>i. output_id r = Some i \<longrightarrow> stored_bytes c' i \<noteq> None)"
proof -
  have nc: "result_cache c = None" and ci: "controller_inv (e_hash e) c" using inv by (simp_all add: run_inv_def)
  have "steps w ! s \<in> set (steps w)" using flow_inv_running_bound s inv by (auto simp: run_inv_def)
  moreover have "placeable (c_registry c) task = placeable (c_registry c) (step_task (steps w ! s))"
    by (rule placeable_cong) (use inv s in \<open>auto simp: run_inv_def\<close>)
  moreover have "\<forall>i \<in> set (inputs task). stored_bytes c i \<noteq> None" using inv s by (auto simp: run_inv_def)
  ultimately have "\<exists>r c' t'. submit_loop (e_hash e) (e_lz4 e) (select_node (e_kind e)) tr ticks task (max_attempts (retry c)) [] c t
      = (Ret (Inr r), c', t')"
    using inv assms(3,4) by (intro placing.submit_loop_finds [OF ci, of _ g]) (auto simp: run_inv_def runnable_def)
  then obtain r c' t' where sub: "submit_loop (e_hash e) (e_lz4 e) (select_node (e_kind e)) tr ticks task
      (max_attempts (retry c)) [] c t = (Ret (Inr r), c', t')" by blast
  then have "submit (e_hash e) (e_lz4 e) (select_node (e_kind e)) tr ticks now task c t = (Ret (Inr r), c', t')"
    using nc by (simp add: submit_def)
  moreover have "controller_inv (e_hash e) c'"
    using submit_loop_safe [OF ci, of "e_lz4 e" "select_node (e_kind e)" tr ticks task "max_attempts (retry c)" "[]" t] sub by auto
  ultimately show ?thesis
    using submit_loop_returns [OF sub ci] assms(5) unfolding honest_results_def by blast
qed

text \<open>Writing the journal touches nothing that a submission needs.\<close>

lemma note_finished_keeps:
  assumes "note_finished e c jr s r = (ok, c1)"
  shows "serves_like c c1" "stored_bytes c1 = stored_bytes c" "controller_inv hash c \<Longrightarrow> controller_inv hash c1"
proof -
  obtain x where "c1 = c\<lparr>checkpoint := x\<rparr>"
  proof (rule that [of "checkpoint c1"])
    show "c1 = c\<lparr>checkpoint := checkpoint c1\<rparr>"
      using assms by (auto simp: note_finished_def split: option.splits prod.splits sum.splits if_splits)
  qed
  then have c1: "frame c1 = frame c" "c_store c1 = c_store c" "result_cache c1 = result_cache c"
    by (simp_all add: frame_def)
  then show st: "stored_bytes c1 = stored_bytes c" by (intro stored_bytes_store)
  show "serves_like c c1" using c1(3) st frame_parts(1,5) [OF c1(1)] by (simp add: serves_like_def)
  show "controller_inv hash c \<Longrightarrow> controller_inv hash c1" by (rule controller_inv_same [OF c1(1,2)])
qed

lemma run_advance_success:
  assumes inv: "run_inv e g w skip fin c run" and i: "i < length (running (r_flow run))" and "simple_deps w"
    and tr: "reliable tr g" "fails_retryably tr" "honest_results (e_hash e) tr"
  shows "\<exists>run' c' t'. run_advance e tr ticks now stranded i c t run = (Ret (Inr run'), c', t') \<and>
    run_inv e g w skip (fin @ [fst (running (r_flow run) ! i)]) c' run'"
proof -
  obtain s task where st: "running (r_flow run) ! i = (s, task)" by fastforce
  then have mem: "(s, task) \<in> set (running (r_flow run))" using i by (metis nth_mem)
  obtain r c1 t' where sub: "submit (e_hash e) (e_lz4 e) (select_node (e_kind e)) tr ticks now task c t = (Ret (Inr r), c1, t')"
    and c1: "controller_inv (e_hash e) c1" "serves_like c c1" and ok: "is_success r"
    and out1: "\<forall>i. output_id r = Some i \<longrightarrow> stored_bytes c1 i \<noteq> None"
    using submit_step [OF inv mem tr] by blast
  obtain reached c' where noted: "note_finished e c1 (r_journal run) s r = (reached, c')" by fastforce
  note kept = note_finished_keeps [OF noted]
  have c': "controller_inv (e_hash e) c'" "serves_like c c'" using kept c1 serves_like_trans by blast+
  have out: "\<forall>i. output_id r = Some i \<longrightarrow> stored_bytes c' i \<noteq> None" using out1 by (simp add: kept(2))
  have parts: "r_workflow run = w" "flow_inv w skip fin (r_flow run)" using inv by (simp_all add: run_inv_def)
  obtain st' where nxt: "flow_next (e_checks e) w (c_catalog c1) (map_option (\<lambda>(name, fp). (name, fp, reached)) (r_journal run))
      (r_flow run) s r = Ret st'" "flow_inv w skip (fin @ [s]) st'"
    using flow_next_success [OF parts(2) assms(3) _ ok, of s] mem by force
  have adv: "run_advance e tr ticks now stranded i c t run = (Ret (Inr (run\<lparr>r_flow := st'\<rparr>)), c', t')"
    using st sub noted nxt(1) parts by (simp add: run_advance_def run_joined_def)
  have stored: "stored_bytes c' j \<noteq> None" if "stored_bytes c j \<noteq> None" for j using c'(2) that by (simp add: serves_like_def)
  have outs: "stored_bytes c' j \<noteq> None" if "map_of (outputs st') d = Some j" for d j
    using that inv out stored unfolding flow_next_spawned(1) [OF nxt(1)]
    by (auto simp: run_inv_def update_conv' split: option.splits if_splits)
  have "constraints x = constraints (step_task (steps w ! k)) \<and> (\<forall>j \<in> set (inputs x). stored_bytes c' j \<noteq> None)"
    if kx: "(k, x) \<in> set (running st')" for k x
  proof (cases "(k, x) \<in> set (running (r_flow run))")
    case True
    then show ?thesis using inv stored by (auto simp: run_inv_def)
  next
    case False
    then have x: "x = task_for w k (outputs st')" using flow_next_spawned(2) [OF nxt(1) kx] by blast
    have "steps w ! k \<in> set (steps w)" using flow_inv_running_bound [OF nxt(2) kx] by simp
    then have "\<forall>j \<in> set (inputs (step_task (steps w ! k))). stored_bytes c' j \<noteq> None"
      using inv stored by (auto simp: run_inv_def runnable_def)
    then show ?thesis using outs unfolding x task_for_inputs task_for_constraints by blast
  qed
  then have "run_inv e g w skip (fin @ [s]) c' (run\<lparr>r_flow := st'\<rparr>)"
    using inv c' nxt(2) outs runnable_serves_like [OF _ c'(2)] unfolding run_inv_def serves_like_def by auto
  then show ?thesis using adv st by simp
qed

lemma run_loop_success:
  assumes "run_inv e g w skip fin c run" "length (steps w) \<le> length fin + fuel" "workflow_order w = Ret (Inr order)" "simple_deps w"
    and "reliable tr g" "fails_retryably tr" "honest_results (e_hash e) tr"
  shows "\<exists>f c' t'. run_loop e tr moments pick fuel c t run = (Some (Ret (Inr f)), c', t') \<and>
    steps_run f = filter (\<lambda>s. s \<notin> set skip) [0 ..< length (steps w)] \<and> fr_resumed f = sort skip \<and> flow_is_success f"
  using assms(1,2)
proof (induction fuel arbitrary: fin c t run)
  case (0 fin c t run)
  have inv: "flow_inv w skip fin (r_flow run)" using 0 by (simp add: run_inv_def)
  have "distinct (fin @ map fst (running (r_flow run)))" "set (fin @ map fst (running (r_flow run))) \<subseteq> {..< length (steps w)}"
    using flow_inv_running [OF inv] by (auto simp: kahn_inv_def)
  then have "length (fin @ map fst (running (r_flow run))) \<le> length (steps w)"
    using card_mono [of "{..< length (steps w)}"] distinct_card by (metis card_lessThan finite_lessThan)
  then have "length (running (r_flow run)) = 0" using 0(2) unfolding length_append length_map by linarith
  then have "running (r_flow run) = []" by simp
  then show ?case
    using flow_inv_report [OF inv _ assms(3)] 0(1) unfolding run_loop.simps [of e tr moments pick 0]
    by (simp add: run_report_def run_inv_def)
next
  case (Suc fuel fin c t run)
  have inv: "flow_inv w skip fin (r_flow run)" using Suc.prems by (simp add: run_inv_def)
  show ?case
  proof (cases "running (r_flow run) = []")
    case True
    then show ?thesis
      using flow_inv_report [OF inv _ assms(3)] Suc.prems(1) unfolding run_loop.simps [of e tr moments pick "Suc fuel"]
      by (simp add: run_report_def run_inv_def)
  next
    case False
    let ?i = "pick fuel mod length (running (r_flow run))"
    obtain run' c' t' where adv: "run_advance e tr (moments fuel) (moments fuel 0) [] ?i c t run = (Ret (Inr run'), c', t')"
      and inv': "run_inv e g w skip (fin @ [fst (running (r_flow run) ! ?i)]) c' run'"
      using run_advance_success [OF Suc.prems(1) _ assms(4-7), of ?i] False by (metis length_greater_0_conv mod_less_divisor)
    from Suc.IH [OF inv', of t'] Suc.prems(2) adv False
    show ?thesis unfolding run_loop.simps [of e tr moments pick "Suc fuel"] by simp
  qed
qed

text \<open>What the journal of a controller says about a run; without one, or without a name, nothing.\<close>

definition recorded_steps :: "env \<Rightarrow> controller \<Rightarrow> workflow \<Rightarrow> string option \<Rightarrow> checkpoint_error + (nat, record_line) hashmap" where
  "recorded_steps e c w run =
     (case run_journal e c w run of None \<Rightarrow> Inr [] | Some (j, name, fp) \<Rightarrow> completed (e_parse e) j name fp)"

lemma run_start_inv:
  assumes "workflow_order w = Ret (Inr order)" "simple_deps w" "controller_inv (e_hash e) c" "result_cache c = None" "runnable c g w"
    and "recorded_steps e c w run = Inr fin" "closed_under_deps w {s. survives (c_catalog c) fin s}"
    and "\<forall>s r. survives (c_catalog c) fin s \<and> map_of fin s = Some r \<longrightarrow> stored_bytes c (cp_output_id r) \<noteq> None"
  obtains st where "run_start e c w run = Ret (Inr st)" "run_inv e g w (filter (survives (c_catalog c) fin) order) [] c st"
proof -
  let ?skip = "filter (survives (c_catalog c) fin) order"
  obtain st where start: "flow_start (e_checks e) w (c_catalog c) fin = Ret (Inr st)" and inv: "flow_inv w ?skip [] st"
    and spawned: "\<And>k x. (k, x) \<in> set (running st) \<Longrightarrow> x = task_for w k (outputs st)"
    and outs: "\<And>d i. map_of (outputs st) d = Some i \<Longrightarrow>
      survives (c_catalog c) fin d \<and> d < length (steps w) \<and> (\<exists>r. map_of fin d = Some r \<and> cp_output_id r = i)"
    by (rule flow_start_resumes [where checks = "e_checks e", OF assms(2,7,1)]) blast
  have stored: "stored_bytes c i \<noteq> None" if "map_of (outputs st) d = Some i" for d i
    using outs [OF that] assms(8) by blast
  have "constraints x = constraints (step_task (steps w ! k)) \<and> (\<forall>i \<in> set (inputs x). stored_bytes c i \<noteq> None)"
    if kx: "(k, x) \<in> set (running st)" for k x
  proof -
    have "steps w ! k \<in> set (steps w)" using flow_inv_running_bound [OF inv kx] by simp
    then show ?thesis
      using assms(5) stored unfolding spawned [OF kx] task_for_inputs task_for_constraints by (auto simp: runnable_def)
  qed
  then have "run_inv e g w ?skip [] c \<lparr>r_workflow = w, r_journal = map_option snd (run_journal e c w run), r_flow = st,
      r_before = data_bytes_uncompressed (c_traffic c)\<rparr>"
    using assms inv stored by (auto simp: run_inv_def)
  then show thesis
  proof (rule that [rotated])
    show "run_start e c w run = Ret (Inr \<lparr>r_workflow = w, r_journal = map_option snd (run_journal e c w run), r_flow = st,
      r_before = data_bytes_uncompressed (c_traffic c)\<rparr>)"
      using assms(1,6) start unfolding run_start_def recorded_steps_def [symmetric] by simp
  qed
qed

lemma run_inner_success:
  assumes "workflow_order w = Ret (Inr order)" "simple_deps w" "controller_inv (e_hash e) c" "result_cache c = None"
    and "runnable c g w" "reliable tr g" "fails_retryably tr" "honest_results (e_hash e) tr"
    and "recorded_steps e c w run = Inr fin" "closed_under_deps w {s. survives (c_catalog c) fin s}"
    and "\<forall>s r. survives (c_catalog c) fin s \<and> map_of fin s = Some r \<longrightarrow> stored_bytes c (cp_output_id r) \<noteq> None"
  shows "\<exists>f c' t'. run_inner e tr moments pick w run c t = (Some (Ret (Inr f)), c', t') \<and>
    steps_run f = filter (\<lambda>s. \<not> survives (c_catalog c) fin s) [0 ..< length (steps w)] \<and>
    fr_resumed f = filter (survives (c_catalog c) fin) [0 ..< length (steps w)] \<and> flow_is_success f"
proof -
  let ?P = "survives (c_catalog c) fin" and ?n = "length (steps w)"
  obtain st where st: "run_start e c w run = Ret (Inr st)" "run_inv e g w (filter ?P order) [] c st"
    using run_start_inv [OF assms(1-5,9,10,11)] by blast
  have o: "mset order = mset [0 ..< ?n]" using assms(1) by (cases rule: order_cases [of w]; simp)
  then have "sort (filter ?P order) = filter ?P [0 ..< ?n]"
    by (intro properties_for_sort) (simp_all add: mset_filter [symmetric] sorted_wrt_filter)
  moreover have "set order = {..< ?n}" using mset_eq_setD [OF o] by (simp add: lessThan_atLeast0)
  then have "filter (\<lambda>s. s \<notin> set (filter ?P order)) [0 ..< ?n] = filter (\<lambda>s. \<not> ?P s) [0 ..< ?n]"
    by (intro filter_cong) auto
  ultimately show ?thesis
    using run_loop_success [OF st(2) _ assms(1,2,6,7,8), of ?n moments pick t] st(1) by (simp add: run_inner_def)
qed



text \<open>Two steps, the second on the output of the first, on a mesh of which one node answers.\<close>

definition naming_mesh :: "unit transport" where
  "naming_mesh =
     half_dead\<lparr>t_dispatch := (\<lambda>t n task. (if n = NodeId 2
        then Inr ((result_success (task_id task) n [7] 1)\<lparr>output_id := Some (DataId [7])\<rparr>)
        else Inl (Unreachable n ''gone''), t))\<rparr>"

definition plain_env :: env where
  "plain_env = \<lparr>e_hash = DataId, e_lz4 = id, e_kind = LeastLoaded, e_print = (\<lambda>_. []), e_parse = (\<lambda>_. None), e_checks = True\<rparr>"

lemma naming_mesh_works:
  "reliable naming_mesh (NodeId 2)" "fails_retryably naming_mesh" "honest_results DataId naming_mesh"
  by (auto simp: reliable_def fails_retryably_def honest_results_def naming_mesh_def half_dead_def Let_def is_success_def
      result_success_def result_output_def split: if_splits)

lemma sample_flow_runnable: "runnable two_node_controller (NodeId 2) (sample_flow [[], [0]])"
proof -
  have "placeable (c_registry two_node_controller) (task_new (TaskId 1) ''k'' []) = {NodeId 1, NodeId 2}"
    unfolding two_node_placeable [symmetric] by (rule placeable_cong) (simp add: small_task_def task_new_def)
  moreover have "max_attempts (retry two_node_controller) = 3" by (simp add: two_node_controller_def)
  ultimately show ?thesis by (simp add: runnable_def sample_flow_def step_after_def task_new_def)
qed


text \<open>The same workflow after a run that finished its first step, and whose output is still there.\<close>

abbreviation two_steps :: workflow where
  "two_steps \<equiv> sample_flow [[], [0]]"

definition first_step_done :: record_line where
  "first_step_done = \<lparr>cp_run = ''r'', cp_fingerprint = fingerprint DataId two_steps, cp_step = 0, cp_task_id = TaskId 1,
     cp_node_id = NodeId 2, cp_output_id = DataId [7], duration_ms = 0\<rparr>"

definition journal_env :: env where
  "journal_env = plain_env\<lparr>e_parse := (\<lambda>_. Some first_step_done)\<rparr>"

definition restarted_controller :: controller where
  "restarted_controller = two_node_controller\<lparr>c_store := snd (put DataId store_new [7]),
     c_catalog := record_data catalog_new (descriptor_new (DataId [7]) 1) (NodeId 2), checkpoint := Some (Some ''x'')\<rparr>"

lemma first_step_survives: "survives (c_catalog restarted_controller) [(0, first_step_done)] s \<longleftrightarrow> s = 0"
proof -
  have "catalog_locations (record_data catalog_new (descriptor_new (DataId [7]) 1) (NodeId 2)) (DataId [7]) = [NodeId 2]"
    by code_simp
  then show ?thesis by (simp add: survives_def restarted_controller_def first_step_done_def)
qed


text \<open>
  The last hypothesis cannot be dropped: after a restart the controller no longer has the
  output itself. The step that reads it is placed on a node that does not hold it either,
  and the run ends there, although another node holds the output.
\<close>

lemma resumed_output_is_unknown:
  "(let c = restarted_controller\<lparr>c_store := store_new\<rparr>; task = task_for two_steps 1 [(0, DataId [7])] in
    holds (c_catalog c) (DataId [7]) (NodeId 2) \<and>
    fst (submit DataId id (select_node LeastLoaded) naming_mesh (\<lambda>_. 9) 3 task c ()) = Ret (Inl (UnknownInput (DataId [7]))))"
  by code_simp

text \<open>
  A run that ends with an error drops its other submissions in the middle, and nothing takes
  the nodes they were on out of the table of outstanding work again.
\<close>

lemma outstanding_cancelled: "outstanding (cancelled c stranded) n = outstanding c n + count_list stranded n"
  unfolding cancelled_def by (induction stranded arbitrary: c) (simp_all add: outstanding_begin)

lemma failed_workflow_leaves_outstanding:
  assumes "run_joined e stranded s (Ret (Inl err)) c run = (y, c')"
  shows "y = Ret (Inl (DispatchFailed s err)) \<and> outstanding c' n = outstanding c n + count_list stranded n"
  using assms by (auto simp: run_joined_def outstanding_cancelled)

end
