(* ===== verification/Queue.thy ===== *)
theory Queue
  imports Task Floats "HOL-Library.Multiset"
begin

text \<open>
  The controller's task queue (crates/aether-controller/src/queue.rs): admission with a
  size limit and a rejection policy, deadlines, aging of priorities, and the choice of the
  task that runs next. Time is an argument of every operation, as in the code. Aging
  divides two durations in double precision; the float theory gives the bounds that make
  the number of promotions exact at whole multiples of the aging period.
\<close>

definition DEFAULT_AGING :: duration where
  "DEFAULT_AGING = from_secs 30"

datatype rejection = Reject | DropOldest | DropLowestPriority

record 'p queued =
  q_task :: task
  q_payload :: 'p
  queued_at :: instant
  deadline :: "instant option"
  sequence :: nat

datatype 'p admitted = Queued | Refused task 'p | Displaced "'p queued"

definition effective_priority :: "'p queued \<Rightarrow> instant \<Rightarrow> duration \<Rightarrow> priority" where
  "effective_priority e now aging =
     (if aging = 0 then task_priority (q_task e)
      else let levels = f64_periods (saturating_duration_since now (queued_at e)) aging
           in (promoted ^^ min levels (length PRIORITY_ALL)) (task_priority (q_task e)))"

definition waited :: "'p queued \<Rightarrow> instant \<Rightarrow> duration" where
  "waited e now = saturating_duration_since now (queued_at e)"

definition expired :: "'p queued \<Rightarrow> instant \<Rightarrow> bool" where
  "expired e now = (case deadline e of None \<Rightarrow> False | Some d \<Rightarrow> d \<le> now)"

record 'p queue =
  entries :: "'p queued list"
  next_sequence :: nat
  aging :: duration
  max_size :: "nat option"
  timeout :: "duration option"
  rejection_policy :: rejection

definition queue_new :: "'p queue" where
  "queue_new = \<lparr>entries = [], next_sequence = 0, aging = DEFAULT_AGING, max_size = None,
     timeout = None, rejection_policy = Reject\<rparr>"

definition with_aging :: "'p queue \<Rightarrow> duration \<Rightarrow> 'p queue" where
  "with_aging q d = q\<lparr>aging := d\<rparr>"

definition with_max_size :: "'p queue \<Rightarrow> nat \<Rightarrow> 'p queue" where
  "with_max_size q n = q\<lparr>max_size := (if n > 0 then Some n else None)\<rparr>"

definition with_rejection :: "'p queue \<Rightarrow> rejection \<Rightarrow> 'p queue" where
  "with_rejection q r = q\<lparr>rejection_policy := r\<rparr>"

definition with_timeout :: "'p queue \<Rightarrow> duration \<Rightarrow> 'p queue" where
  "with_timeout q d = q\<lparr>timeout := (if d \<noteq> 0 then Some d else None)\<rparr>"

definition is_full :: "'p queue \<Rightarrow> bool" where
  "is_full q = (case max_size q of None \<Rightarrow> False | Some m \<Rightarrow> m \<le> length (entries q))"

section \<open>Making room, adding, taking\<close>

text \<open>The keys of \<^verbatim>\<open>min_by_key\<close> and \<^verbatim>\<open>max_by_key\<close>, as comparisons of enumerated entries.\<close>

definition by_sequence :: "nat \<times> 'p queued \<Rightarrow> nat \<times> 'p queued \<Rightarrow> ordering" where
  "by_sequence a b = compare (sequence (snd a)) (sequence (snd b))"

definition by_urgency :: "instant \<Rightarrow> duration \<Rightarrow> nat \<times> 'p queued \<Rightarrow> nat \<times> 'p queued \<Rightarrow> ordering" where
  "by_urgency now ag a b =
     then_with (compare (effective_priority (snd a) now ag) (effective_priority (snd b) now ag))
               (compare (sequence (snd a)) (sequence (snd b)))"

definition by_turn :: "instant \<Rightarrow> duration \<Rightarrow> nat \<times> 'p queued \<Rightarrow> nat \<times> 'p queued \<Rightarrow> ordering" where
  "by_turn now ag a b =
     then_with (compare (effective_priority (snd a) now ag) (effective_priority (snd b) now ag))
               (compare (sequence (snd b)) (sequence (snd a)))"

definition take_entry :: "'p queue \<Rightarrow> nat \<Rightarrow> 'p queued \<times> 'p queue" where
  "take_entry q i = (entries q ! i, q\<lparr>entries := vec_remove i (entries q)\<rparr>)"

definition make_room :: "'p queue \<Rightarrow> task \<Rightarrow> instant \<Rightarrow> ('p queued option \<times> 'p queue) option" where
  "make_room q incoming now =
     (case rejection_policy q of
        Reject \<Rightarrow> None
      | DropOldest \<Rightarrow>
          (case min_by by_sequence (enumerated (entries q)) of
             None \<Rightarrow> None
           | Some (i, _) \<Rightarrow> Some (map_prod Some id (take_entry q i)))
      | DropLowestPriority \<Rightarrow>
          (case min_by (by_urgency now (aging q)) (enumerated (entries q)) of
             None \<Rightarrow> None
           | Some (i, victim) \<Rightarrow>
               (if task_priority incoming \<le> effective_priority victim now (aging q) then None
                else Some (map_prod Some id (take_entry q i)))))"

definition push_with_timeout ::
    "'p queue \<Rightarrow> task \<Rightarrow> 'p \<Rightarrow> instant \<Rightarrow> duration option \<Rightarrow> 'p admitted \<times> 'p queue" where
  "push_with_timeout q t p now own =
     (case (if is_full q then make_room q t now else Some (None, q)) of
        None \<Rightarrow> (Refused t p, q)
      | Some (displaced, q1) \<Rightarrow>
          (let dl = (case (if own = None then timeout q1 else own) of
                       None \<Rightarrow> None | Some d \<Rightarrow> instant_checked_add now d);
               e = \<lparr>q_task = t, q_payload = p, queued_at = now, deadline = dl,
                    sequence = next_sequence q1\<rparr>;
               q2 = q1\<lparr>entries := entries q1 @ [e], next_sequence := next_sequence q1 + 1\<rparr>
           in (case displaced of None \<Rightarrow> Queued | Some v \<Rightarrow> Displaced v, q2)))"

definition push :: "'p queue \<Rightarrow> task \<Rightarrow> 'p \<Rightarrow> instant \<Rightarrow> 'p admitted \<times> 'p queue" where
  "push q t p now = push_with_timeout q t p now None"

definition pop :: "'p queue \<Rightarrow> instant \<Rightarrow> ('p queued \<times> 'p queue) option" where
  "pop q now =
     (case max_by (by_turn now (aging q)) (enumerated (entries q)) of
        None \<Rightarrow> None
      | Some (best, _) \<Rightarrow> Some (take_entry q best))"

text \<open>The \<^verbatim>\<open>while\<close> loop of \<^verbatim>\<open>expire\<close>: an index into the vector and the removed entries.\<close>

function expire_loop ::
    "instant \<Rightarrow> nat \<Rightarrow> 'p queued list \<Rightarrow> 'p queued list \<Rightarrow> 'p queued list \<times> 'p queued list" where
  "expire_loop now i es out =
     (if i < length es then
        if expired (es ! i) now then expire_loop now i (vec_remove i es) (out @ [es ! i])
        else expire_loop now (Suc i) es out
      else (out, es))"
  by pat_completeness auto
termination
  by (relation "measure (\<lambda>(_, i, es, _). length es - i)") auto

declare expire_loop.simps [simp del]

definition expire :: "'p queue \<Rightarrow> instant \<Rightarrow> 'p queued list \<times> 'p queue" where
  "expire q now =
     (let (out, es) = expire_loop now 0 (entries q) [] in (out, q\<lparr>entries := es\<rparr>))"

section \<open>Observers\<close>

definition queue_len :: "'p queue \<Rightarrow> nat" where
  "queue_len q = length (entries q)"

definition depth_by_priority :: "'p queue \<Rightarrow> nat list" where
  "depth_by_priority q =
     fold (\<lambda>e depth. let i = priority_index (task_priority (q_task e))
                     in depth[i := depth ! i + 1]) (entries q) (replicate 5 0)"

definition oldest_wait :: "'p queue \<Rightarrow> instant \<Rightarrow> duration" where
  "oldest_wait q now = fold max (map (\<lambda>e. waited e now) (entries q)) 0"

section \<open>Selections\<close>

lemma comparator_by_sequence: "comparator by_sequence"
  unfolding by_sequence_def by (rule comparator_by_key)

lemma comparator_by_urgency: "comparator (by_urgency now ag)"
  unfolding by_urgency_def by (intro comparator_then comparator_by_key)

lemma comparator_by_turn: "comparator (by_turn now ag)"
  unfolding by_turn_def
  by (intro comparator_then comparator_by_key comparator_flip [OF comparator_by_key])

interpretation seq_order: comparator by_sequence
  by (rule comparator_by_sequence)

interpretation urgency: comparator "by_urgency now ag"
  by (rule comparator_by_urgency)

interpretation turn: comparator "by_turn now ag"
  by (rule comparator_by_turn)

lemma pop_cases:
  assumes "pop q now = Some (e, q')"
  obtains i where "i < length (entries q)" "e = entries q ! i"
    "q' = q\<lparr>entries := vec_remove i (entries q)\<rparr>"
    "\<And>x. x \<in> set (entries q) \<Longrightarrow>
       effective_priority x now (aging q) < effective_priority e now (aging q) \<or>
       effective_priority x now (aging q) = effective_priority e now (aging q) \<and> sequence e \<le> sequence x"
proof -
  from assms obtain i v where m: "max_by (by_turn now (aging q)) (enumerated (entries q)) = Some (i, v)"
    and te: "take_entry q i = (e, q')"
    by (auto simp: pop_def split: option.splits)
  have iv: "i < length (entries q)" "v = entries q ! i"
    using turn.max_by_Some(1) [OF m] by (simp_all add: set_enumerated)
  have best: "by_turn now (aging q) (j, x) (i, v) \<noteq> Greater" if "j < length (entries q)" "x = entries q ! j" for j x
    using turn.max_by_Some(2) [OF m, of "(j, x)"] that by (simp add: set_enumerated)
  show thesis
  proof (rule that)
    show "i < length (entries q)" "e = entries q ! i" "q' = q\<lparr>entries := vec_remove i (entries q)\<rparr>"
      using iv te by (simp_all add: take_entry_def)
    fix x assume "x \<in> set (entries q)"
    then obtain j where "j < length (entries q)" "x = entries q ! j" by (auto simp: in_set_conv_nth)
    then show "effective_priority x now (aging q) < effective_priority e now (aging q) \<or>
        effective_priority x now (aging q) = effective_priority e now (aging q) \<and> sequence e \<le> sequence x"
      using best [of j x] iv te by (auto simp: by_turn_def take_entry_def not_less le_less)
  qed
qed

lemma pop_Nil [simp]: "entries q = [] \<Longrightarrow> pop q now = None"
  by (simp add: pop_def)

lemma pop_None [simp]: "pop q now = None \<longleftrightarrow> entries q = []"
  by (auto simp: pop_def split: option.splits)


lemma make_room_cases:
  assumes "make_room q t now = Some (d, q1)"
  obtains i where "i < length (entries q)" "d = Some (entries q ! i)"
    "q1 = q\<lparr>entries := vec_remove i (entries q)\<rparr>"
proof -
  obtain c where "comparator c" "\<exists>v i. min_by c (enumerated (entries q)) = Some (i, v) \<and>
      Some (d, q1) = Some (map_prod Some id (take_entry q i))"
  proof (cases "rejection_policy q")
    case DropOldest
    with assms show thesis
      by (intro that [OF comparator_by_sequence]) (auto simp: make_room_def split: option.splits)
  next
    case DropLowestPriority
    with assms show thesis
      by (intro that [OF comparator_by_urgency [of now "aging q"]])
        (auto simp: make_room_def split: option.splits if_splits)
  qed (use assms in \<open>simp add: make_room_def\<close>)
  then obtain v i where c: "comparator c" and m: "min_by c (enumerated (entries q)) = Some (i, v)"
    and r: "(d, q1) = map_prod Some id (take_entry q i)" by auto
  have "i < length (entries q)"
    using comparator.min_by_Some(1) [OF c m] by (simp add: set_enumerated)
  with r show thesis by (intro that) (auto simp: take_entry_def)
qed

text \<open>
  What a push does: it refuses and changes nothing, or it appends the task under the next
  sequence number, after taking at most one entry out.
\<close>

definition new_entry :: "'p queue \<Rightarrow> task \<Rightarrow> 'p \<Rightarrow> instant \<Rightarrow> duration option \<Rightarrow> 'p queued" where
  "new_entry q t p now own =
     \<lparr>q_task = t, q_payload = p, queued_at = now,
      deadline = (case (if own = None then timeout q else own) of
                    None \<Rightarrow> None | Some d \<Rightarrow> instant_checked_add now d),
      sequence = next_sequence q\<rparr>"

lemma push_cases:
  assumes "push_with_timeout q t p now own = (r, q')"
  obtains (refused) "r = Refused t p" "q' = q" "is_full q"
  | (queued) "r = Queued" "\<not> is_full q"
      "q' = q\<lparr>entries := entries q @ [new_entry q t p now own], next_sequence := Suc (next_sequence q)\<rparr>"
  | (displaced) i where "r = Displaced (entries q ! i)" "is_full q" "i < length (entries q)"
      "q' = q\<lparr>entries := vec_remove i (entries q) @ [new_entry q t p now own],
              next_sequence := Suc (next_sequence q)\<rparr>"
proof (cases "is_full q")
  case False
  with assms show thesis
    by (intro queued) (auto simp: push_with_timeout_def new_entry_def Let_def)
next
  case True
  show thesis
  proof (cases "make_room q t now")
    case None
    with True assms show thesis by (intro refused) (auto simp: push_with_timeout_def)
  next
    case (Some a)
    then obtain d q1 where m: "make_room q t now = Some (d, q1)" by (cases a) auto
    then obtain i where i: "i < length (entries q)" "d = Some (entries q ! i)"
      "q1 = q\<lparr>entries := vec_remove i (entries q)\<rparr>" by (rule make_room_cases)
    show thesis
      by (rule displaced [OF _ True i(1)])
        (use True m i assms in \<open>auto simp: push_with_timeout_def new_entry_def Let_def\<close>)
  qed
qed

section \<open>Expiry\<close>

lemma expire_loop_filter:
  "expire_loop now i es out =
     (out @ filter (\<lambda>e. expired e now) (drop i es), take i es @ filter (\<lambda>e. \<not> expired e now) (drop i es))"
proof (induction now i es out rule: expire_loop.induct)
  case (1 now i es out)
  show ?case
  proof (cases "i < length es")
    case True
    have d: "drop i es = es ! i # drop (Suc i) es" "take (Suc i) es = take i es @ [es ! i]"
      using True by (simp_all add: Cons_nth_drop_Suc take_Suc_conv_app_nth)
    have r: "drop i (vec_remove i es) = drop (Suc i) es" "take i (vec_remove i es) = take i es"
      using True by (simp_all add: vec_remove_def)
    show ?thesis
      using 1 True d r by (cases "expired (es ! i) now") (simp_all add: expire_loop.simps [of now i es out])
  qed (simp add: expire_loop.simps)
qed

lemma expire_eq:
  "expire q now = (filter (\<lambda>e. expired e now) (entries q),
                   q\<lparr>entries := filter (\<lambda>e. \<not> expired e now) (entries q)\<rparr>)"
  by (simp add: expire_def expire_loop_filter)

section \<open>Aging\<close>

lemma effective_priority_no_aging: "effective_priority e now 0 = task_priority (q_task e)"
  by (simp add: effective_priority_def)

lemma effective_priority_ge: "task_priority (q_task e) \<le> effective_priority e now ag"
  using promotedn_mono [of 0 _ "task_priority (q_task e)"] by (simp add: effective_priority_def Let_def)

lemma effective_priority_aged:
  assumes "0 < s" "s < 2 ^ 52" "waited e now div nanos_per_sec < 2 ^ 52" "4 * from_secs s \<le> waited e now"
  shows "effective_priority e now (from_secs s) = Critical"
proof -
  have "4 \<le> f64_periods (waited e now) (from_secs s)"
    using assms by (intro f64_periods_bounds(1)) simp_all
  moreover have "from_secs s \<noteq> 0" using assms(1) by (simp add: from_secs_def nanos_per_sec_def)
  ultimately show ?thesis
    by (simp add: effective_priority_def waited_def Let_def PRIORITY_ALL_def promotedn_Critical)
qed

section \<open>Histories\<close>

text \<open>
  A component that is offered items and hands items back. Whatever the history, the items
  handed out and those still inside are exactly the items that went in.
\<close>

locale conserving =
  fixes step :: "'op \<Rightarrow> 'q \<Rightarrow> 'i list \<times> 'q"
    and inside :: "'q \<Rightarrow> 'i list"
    and offered :: "'op \<Rightarrow> 'i list"
  assumes step_conserves:
    "mset (fst (step op q)) + mset (inside (snd (step op q))) = mset (inside q) + mset (offered op)"
begin

fun run :: "'op list \<Rightarrow> 'q \<Rightarrow> 'i list \<times> 'q" where
  "run [] q = ([], q)"
| "run (op # ops) q = (let (out, q1) = step op q; (outs, q2) = run ops q1 in (out @ outs, q2))"

lemma run_conserves:
  "mset (fst (run ops q)) + mset (inside (snd (run ops q))) = mset (inside q) + mset (concat (map offered ops))"
proof (induction ops arbitrary: q)
  case (Cons op ops)
  obtain out q1 where st: "step op q = (out, q1)" by fastforce
  obtain outs q2 where rn: "run ops q1 = (outs, q2)" by fastforce
  show ?case using step_conserves [of op q] Cons [of q1] st rn by (simp add: add.assoc)
qed simp

end

datatype 'p queue_op = Push task 'p instant "duration option" | Pop instant | Expire instant

definition item :: "'p queued \<Rightarrow> task \<times> 'p" where
  "item e = (q_task e, q_payload e)"

fun handed_back :: "'p admitted \<Rightarrow> (task \<times> 'p) list" where
  "handed_back Queued = []"
| "handed_back (Refused t p) = [(t, p)]"
| "handed_back (Displaced v) = [item v]"

fun queue_step :: "'p queue_op \<Rightarrow> 'p queue \<Rightarrow> (task \<times> 'p) list \<times> 'p queue" where
  "queue_step (Push t p now own) q = map_prod handed_back id (push_with_timeout q t p now own)"
| "queue_step (Pop now) q = (case pop q now of None \<Rightarrow> ([], q) | Some (e, q') \<Rightarrow> ([item e], q'))"
| "queue_step (Expire now) q = map_prod (map item) id (expire q now)"

fun offered_items :: "'p queue_op \<Rightarrow> (task \<times> 'p) list" where
  "offered_items (Push t p now own) = [(t, p)]"
| "offered_items _ = []"

definition waiting_items :: "'p queue \<Rightarrow> (task \<times> 'p) list" where
  "waiting_items q = map item (entries q)"

fun queue_run :: "'p queue_op list \<Rightarrow> 'p queue \<Rightarrow> (task \<times> 'p) list \<times> 'p queue" where
  "queue_run [] q = ([], q)"
| "queue_run (op # ops) q =
     (let (out, q1) = queue_step op q; (outs, q2) = queue_run ops q1 in (out @ outs, q2))"

lemma mset_vec_remove:
  assumes "i < length xs"
  shows "add_mset (f (xs ! i)) (mset (map f (vec_remove i xs))) = mset (map f xs)"
proof -
  have "mset (map f xs) = mset (map f (take i xs @ xs ! i # drop (Suc i) xs))"
    using assms by (simp flip: vec_remove_split)
  then show ?thesis by (simp add: vec_remove_def)
qed

lemma item_new_entry [simp]: "item (new_entry q t p now own) = (t, p)"
  by (simp add: item_def new_entry_def)

lemma push_conserves:
  assumes "push_with_timeout q t p now own = (r, q')"
  shows "mset (handed_back r) + mset (waiting_items q') = add_mset (t, p) (mset (waiting_items q))"
  using assms
proof (cases rule: push_cases)
  case (displaced i)
  then show ?thesis
    using mset_vec_remove [of i "entries q" item] by (simp add: waiting_items_def)
qed (simp_all add: waiting_items_def)

lemma queue_step_conserves:
  "mset (fst (queue_step op q)) + mset (waiting_items (snd (queue_step op q))) =
     mset (waiting_items q) + mset (offered_items op)"
proof (cases op)
  case (Push t p now own)
  obtain r q' where "push_with_timeout q t p now own = (r, q')" by fastforce
  with push_conserves [OF this] Push show ?thesis by simp
next
  case (Pop now)
  show ?thesis
  proof (cases "pop q now")
    case (Some a)
    then obtain e q' where pq: "pop q now = Some (e, q')" by (cases a) auto
    then obtain i where "i < length (entries q)" "e = entries q ! i"
      "q' = q\<lparr>entries := vec_remove i (entries q)\<rparr>" by (rule pop_cases)
    then show ?thesis
      using mset_vec_remove [of i "entries q" item] Pop pq by (simp add: waiting_items_def)
  qed (simp add: Pop)
next
  case (Expire now)
  have "mset (filter (\<lambda>e. expired e now) es) + mset (filter (\<lambda>e. \<not> expired e now) es) = mset es" for es :: "'a queued list"
    by (induction es) auto
  then show ?thesis
    using Expire by (simp add: expire_eq waiting_items_def mset_map flip: image_mset_union)
qed

interpretation queue_history: conserving queue_step waiting_items offered_items
  by unfold_locales (rule queue_step_conserves)

lemma queue_run_eq: "queue_run ops q = queue_history.run ops q"
  by (induction ops arbitrary: q) (simp_all split: prod.splits)

section \<open>Well-formed queues\<close>

text \<open>
  Entries stand in the order of their sequence numbers, all below the next one, and the
  limit is respected.
\<close>

definition queue_wf :: "'p queue \<Rightarrow> bool" where
  "queue_wf q = (sorted_wrt (<) (map sequence (entries q)) \<and>
     list_all (\<lambda>e. sequence e < next_sequence q) (entries q) \<and>
     (case max_size q of None \<Rightarrow> True | Some m \<Rightarrow> 0 < m \<and> length (entries q) \<le> m))"

lemma queue_wf_remove:
  "queue_wf q \<Longrightarrow> queue_wf (q\<lparr>entries := vec_remove i (entries q)\<rparr>)"
  using set_vec_remove_subset [of i "entries q"]
  by (auto simp: queue_wf_def map_vec_remove sorted_wrt_vec_remove list_all_iff length_vec_remove_le
      split: option.splits)

lemma queue_wf_append:
  assumes "queue_wf q" "case max_size q of None \<Rightarrow> True | Some m \<Rightarrow> length (entries q) < m"
  shows "queue_wf (q\<lparr>entries := entries q @ [new_entry q t p now own], next_sequence := Suc (next_sequence q)\<rparr>)"
  using assms by (auto simp: queue_wf_def new_entry_def sorted_wrt_append list_all_iff less_Suc_eq
      split: option.splits)

lemma push_wf [inv_intros]:
  assumes "queue_wf q" "push_with_timeout q t p now own = (r, q')"
  shows "queue_wf q'"
  using assms(2)
proof (cases rule: push_cases)
  case queued
  then show ?thesis
    using queue_wf_append [OF assms(1), of t p now own] by (auto simp: is_full_def split: option.splits)
next
  case (displaced i)
  let ?q = "q\<lparr>entries := vec_remove i (entries q)\<rparr>"
  have "case max_size ?q of None \<Rightarrow> True | Some m \<Rightarrow> length (entries ?q) < m"
    using assms(1) displaced(3) by (auto simp: queue_wf_def split: option.splits)
  moreover have "new_entry ?q t p now own = new_entry q t p now own" by (simp add: new_entry_def)
  ultimately show ?thesis
    using queue_wf_append [OF queue_wf_remove [OF assms(1)], of i t p now own] displaced(4) by simp
qed (simp add: assms(1))

lemma sorted_wrt_filter_keys: "sorted_wrt r (map f xs) \<Longrightarrow> sorted_wrt r (map f (filter P xs))"
  by (induction xs) auto

lemma expire_wf [inv_intros]: "queue_wf q \<Longrightarrow> queue_wf (snd (expire q now))"
proof -
  assume wf: "queue_wf q"
  have "length (filter P (entries q)) \<le> length (entries q)" for P by simp
  then have "length (filter P (entries q)) \<le> m" if "length (entries q) \<le> m" for P m
    using that by (rule le_trans)
  then show ?thesis
    using wf by (auto simp: expire_eq queue_wf_def list_all_iff sorted_wrt_filter_keys split: option.splits)
qed

lemma queue_step_wf [inv_intros]: "queue_wf q \<Longrightarrow> queue_wf (snd (queue_step op q))"
proof (cases op)
  case (Push t p now own)
  assume "queue_wf q"
  then show ?thesis
    using Push push_wf [of q t p now own] by (cases "push_with_timeout q t p now own") simp
next
  case (Pop now)
  assume "queue_wf q"
  then show ?thesis
    using Pop queue_wf_remove [of q] by (auto split: option.splits elim!: pop_cases)
qed (simp add: expire_wf)

lemma queue_run_wf: "queue_wf q \<Longrightarrow> queue_wf (snd (queue_run ops q))"
proof (induction ops arbitrary: q)
  case (Cons op ops)
  then show ?case
    using queue_step_wf [of q op] by (auto split: prod.splits) (metis snd_conv)
qed simp

section \<open>No starvation\<close>

text \<open>The number of entries that arrived before a sequence number.\<close>

definition ahead :: "'p queue \<Rightarrow> nat \<Rightarrow> nat" where
  "ahead q s = length (filter (\<lambda>x. x < s) (map sequence (entries q)))"

definition present :: "'p queue \<Rightarrow> nat \<Rightarrow> bool" where
  "present q s = (s \<in> sequence ` set (entries q))"

fun op_time :: "'p queue_op \<Rightarrow> instant" where
  "op_time (Push t p now own) = now"
| "op_time (Pop now) = now"
| "op_time (Expire now) = now"

fun is_pop :: "'p queue_op \<Rightarrow> bool" where
  "is_pop (Pop now) = True"
| "is_pop _ = False"

lemma filter_vec_remove_le:
  "length (filter P (vec_remove i xs)) \<le> length (filter P xs)"
proof (cases "i < length xs")
  case True
  have "length (filter P xs) = length (filter P (take i xs @ xs ! i # drop (Suc i) xs))"
    using True by (simp flip: vec_remove_split)
  then show ?thesis by (simp add: vec_remove_def)
qed (simp add: vec_remove_def)

lemma filter_vec_remove_less:
  assumes "i < length xs" "P (xs ! i)"
  shows "length (filter P (vec_remove i xs)) < length (filter P xs)"
proof -
  have "length (filter P xs) = length (filter P (take i xs @ xs ! i # drop (Suc i) xs))"
    using assms(1) by (simp flip: vec_remove_split)
  then show ?thesis using assms(2) by (simp add: vec_remove_def)
qed

lemma filter_filter_le: "length (filter P (filter Q xs)) \<le> length (filter P xs)"
  by (induction xs) auto

lemma step_ahead_le:
  assumes "s < next_sequence q"
  shows "ahead (snd (queue_step op q)) s \<le> ahead q s \<and> s < next_sequence (snd (queue_step op q))"
proof (cases op)
  case (Push t p now own)
  obtain r q' where pq: "push_with_timeout q t p now own = (r, q')" by fastforce
  have n: "sequence (new_entry q t p now own) = next_sequence q" by (simp add: new_entry_def)
  from pq have "ahead q' s \<le> ahead q s \<and> s < next_sequence q'"
  proof (cases rule: push_cases)
    case (displaced i)
    then show ?thesis
      using assms n filter_vec_remove_le [of "\<lambda>x. x < s" i "map sequence (entries q)"]
      by (simp add: ahead_def map_vec_remove)
  qed (use assms n in \<open>simp_all add: ahead_def\<close>)
  then show ?thesis using Push pq by simp
next
  case (Pop now)
  show ?thesis
  proof (cases "pop q now")
    case (Some a)
    then obtain e q' where pq: "pop q now = Some (e, q')" by (cases a) auto
    then obtain i where "q' = q\<lparr>entries := vec_remove i (entries q)\<rparr>" by (rule pop_cases)
    then show ?thesis
      using Pop pq assms filter_vec_remove_le [of "\<lambda>x. x < s" i "map sequence (entries q)"]
      by (simp add: ahead_def map_vec_remove)
  qed (use Pop assms in \<open>simp\<close>)
next
  case (Expire now)
  then show ?thesis using assms by (simp add: expire_eq ahead_def filter_filter_le del: filter_filter)
qed

lemma step_entries:
  "set (entries (snd (queue_step op q))) \<subseteq> set (entries q) \<union> {x. sequence x = next_sequence q}"
proof (cases op)
  case (Push t p now own)
  obtain r q' where pq: "push_with_timeout q t p now own = (r, q')" by fastforce
  from pq have "set (entries q') \<subseteq> set (entries q) \<union> {x. sequence x = next_sequence q}"
    by (cases rule: push_cases)
      (auto simp: new_entry_def dest!: set_vec_remove_subset [THEN subsetD])
  then show ?thesis using Push pq by simp
next
  case (Pop now)
  then show ?thesis
    by (auto split: option.splits elim!: pop_cases dest!: set_vec_remove_subset [THEN subsetD])
qed (auto simp: expire_eq)

lemma step_aging: "aging (snd (queue_step op q)) = aging q"
proof (cases op)
  case (Push t p now own)
  obtain r q' where pq: "push_with_timeout q t p now own = (r, q')" by fastforce
  from pq have "aging q' = aging q" by (cases rule: push_cases) simp_all
  then show ?thesis using Push pq by simp
qed (auto simp: expire_eq split: option.splits elim!: pop_cases)

lemma step_absent:
  "s < next_sequence q \<Longrightarrow> \<not> present q s \<Longrightarrow> \<not> present (snd (queue_step op q)) s"
  using step_entries [of op q] by (auto simp: present_def)

lemma run_absent:
  "s < next_sequence q \<Longrightarrow> \<not> present q s \<Longrightarrow> \<not> present (snd (queue_run ops q)) s"
proof (induction ops arbitrary: q)
  case (Cons op ops)
  show ?case
    using Cons.IH [of "snd (queue_step op q)"] step_absent [OF Cons.prems] step_ahead_le [OF Cons.prems(1)]
    by (simp split: prod.splits) (metis snd_conv)
qed simp

lemma pop_aged:
  assumes "queue_wf q" "e \<in> set (entries q)" "effective_priority e now (aging q) = Critical"
    and "pop q now = Some (x, q')"
  shows "\<not> present q' (sequence e) \<or> ahead q' (sequence e) < ahead q (sequence e)"
proof -
  from assms(4) obtain i where i: "i < length (entries q)" "x = entries q ! i"
      "q' = q\<lparr>entries := vec_remove i (entries q)\<rparr>"
    and best: "effective_priority e now (aging q) < effective_priority x now (aging q) \<or>
      effective_priority e now (aging q) = effective_priority x now (aging q) \<and> sequence x \<le> sequence e"
    using assms(2) by (metis pop_cases)
  then have le: "sequence x \<le> sequence e"
    using assms(3) by (metis leD priority_le_Critical)
  let ?seqs = "map sequence (entries q)"
  have "distinct ?seqs"
    using assms(1) strict_sorted_iff [of ?seqs] by (simp add: queue_wf_def)
  then have "set (vec_remove i ?seqs) = set ?seqs - {sequence x}"
    using set_vec_remove [of i ?seqs] i by simp
  then have "\<not> present q' (sequence e)" if "sequence x = sequence e"
    using that i(3) unfolding present_def by (simp flip: map_vec_remove image_set)
  moreover have "ahead q' (sequence e) < ahead q (sequence e)" if "sequence x < sequence e"
    using that i filter_vec_remove_less [of i ?seqs "\<lambda>y. y < sequence e"]
    by (simp add: ahead_def map_vec_remove)
  ultimately show ?thesis using le by fastforce
qed

text \<open>
  From the moment a task has waited four aging periods, every pop takes it or something
  that arrived before it: after one more pop than there were earlier arrivals it is gone.
\<close>

lemma aged_leaves:
  assumes "queue_wf q" "s < next_sequence q" "aging q = from_secs a" "0 < a" "a < 2 ^ 52"
    and "\<forall>e \<in> set (entries q). sequence e = s \<longrightarrow> queued_at e + 4 * from_secs a \<le> since"
    and "\<forall>op \<in> set ops. since \<le> op_time op \<and> op_time op div nanos_per_sec < 2 ^ 52"
    and "ahead q s < length (filter is_pop ops)"
  shows "\<not> present (snd (queue_run ops q)) s"
  using assms
proof (induction ops arbitrary: q)
  case (Cons op ops)
  let ?q1 = "snd (queue_step op q)"
  have run: "snd (queue_run (op # ops) q) = snd (queue_run ops ?q1)"
    by (simp split: prod.splits)
  have seq1: "s < next_sequence ?q1" and le: "ahead ?q1 s \<le> ahead q s"
    using step_ahead_le [OF Cons.prems(2)] by auto
  have keep: "\<forall>e \<in> set (entries ?q1). sequence e = s \<longrightarrow> queued_at e + 4 * from_secs a \<le> since"
    using step_entries [of op q] Cons.prems(2,6) by fastforce
  show ?case
  proof (cases "present ?q1 s \<and> \<not> ahead ?q1 s < length (filter is_pop ops)")
    case True
    then have pres: "present q s" using step_absent [OF Cons.prems(2)] by blast
    then obtain e where e: "e \<in> set (entries q)" "sequence e = s" by (auto simp: present_def)
    have popop: "is_pop op" and eq: "ahead ?q1 s = ahead q s"
      using True Cons.prems(8) le by (auto split: if_splits)
    then obtain now where now: "op = Pop now" by (cases op) auto
    have w: "4 * from_secs a \<le> waited e now" "waited e now div nanos_per_sec < 2 ^ 52"
      using Cons.prems(6,7) e now div_le_mono [of "waited e now" now nanos_per_sec]
      by (auto simp: waited_def saturating_duration_since_def)
    have "effective_priority e now (aging q) = Critical"
      unfolding Cons.prems(3) using effective_priority_aged [OF Cons.prems(4,5) w(2,1)] .
    moreover obtain x q' where "pop q now = Some (x, q')"
      using e(1) by (cases "pop q now") auto
    ultimately have False
      using pop_aged [OF Cons.prems(1) e(1)] True eq e(2) now by fastforce
    then show ?thesis ..
  next
    case False
    then show ?thesis
      unfolding run
      using Cons.IH [OF queue_step_wf [OF Cons.prems(1)] seq1 _ Cons.prems(4,5) keep] Cons.prems(3,7)
        run_absent [OF seq1] step_aging [of op q] by auto
  qed
qed simp

section \<open>Properties\<close>

text \<open>
  C4. A pop takes exactly one entry out of the queue: one with the highest effective
  priority at that moment and, among those, the one that arrived first. It returns nothing
  only when the queue is empty.
\<close>

theorem pop_takes_next:
  "case pop q now of
     None \<Rightarrow> entries q = []
   | Some (e, q') \<Rightarrow>
       mset (entries q) = add_mset e (mset (entries q')) \<and> q' = q\<lparr>entries := entries q'\<rparr> \<and>
       (\<forall>x \<in> set (entries q).
          effective_priority x now (aging q) < effective_priority e now (aging q) \<or>
          effective_priority x now (aging q) = effective_priority e now (aging q) \<and> sequence e \<le> sequence x)"
proof (cases "pop q now")
  case (Some a)
  then obtain e q' where pq: "pop q now = Some (e, q')" by (cases a) auto
  then obtain i where "i < length (entries q)" "e = entries q ! i"
      "q' = q\<lparr>entries := vec_remove i (entries q)\<rparr>"
    and "\<And>x. x \<in> set (entries q) \<Longrightarrow>
       effective_priority x now (aging q) < effective_priority e now (aging q) \<or>
       effective_priority x now (aging q) = effective_priority e now (aging q) \<and> sequence e \<le> sequence x"
    by (rule pop_cases) blast
  then show ?thesis
    using pq mset_vec_remove [of i "entries q" "\<lambda>x. x"] by simp
qed simp

theorem pop_takes_next_witness:
  "(let low = task_new (TaskId 1) ''a'' []; high = with_priority (task_new (TaskId 2) ''b'' []) High;
        q = snd (push (snd (push queue_new low () 0)) high () 0)
    in map_option (\<lambda>(e, _). q_task e) (pop q 0) = Some high)"
proof -
  define low where "low = task_new (TaskId 1) ''a'' []"
  define high where "high = with_priority (task_new (TaskId 2) ''b'' []) High"
  define q where "q = snd (push (snd (push (queue_new :: unit queue) low () 0)) high () 0)"
  have prios: "task_priority low = Normal" "task_priority high = High"
    by (simp_all add: low_def high_def task_new_def with_priority_def)
  have ag: "aging q = from_secs 30" and es: "map q_task (entries q) = [low, high]" "\<forall>e \<in> set (entries q). queued_at e = 0"
    by (simp_all add: q_def push_def push_with_timeout_def queue_new_def is_full_def DEFAULT_AGING_def Let_def)
  have "f64_periods 0 (from_secs 30) \<le> 0"
    by (rule f64_periods_bounds(2)) simp_all
  then have eff: "effective_priority e 0 (aging q) = task_priority (q_task e)" if "e \<in> set (entries q)" for e
    using es(2) that by (simp add: effective_priority_def saturating_duration_since_def Let_def ag)
  obtain e1 e2 where two: "entries q = [e1, e2]" "q_task e1 = low" "q_task e2 = high"
    using es(1) by (auto simp: map_eq_Cons_conv)
  obtain e q' where pq: "pop q 0 = Some (e, q')" using two(1) by (cases "pop q 0") auto
  then have ms: "mset (entries q) = add_mset e (mset (entries q'))"
    and best: "effective_priority e2 0 (aging q) \<le> effective_priority e 0 (aging q)"
    using pop_takes_next [of q 0] two(1) by auto
  have "e \<in> set (entries q)" using arg_cong [OF ms, of set_mset] by auto
  then have "e \<in> {e1, e2}" "e \<noteq> e1"
    using best eff [of e1] eff [of e2] two prios by (auto simp: less_eq_priority_def)
  then have "map_option (\<lambda>(e, _). q_task e) (pop q 0) = Some high" using pq two by simp
  then show ?thesis by (simp add: low_def high_def q_def Let_def)
qed

text \<open>
  C5. No task starves. Once a task has waited four aging periods, whatever is pushed,
  popped or expired from then on, it has left the queue after one more pop than there were
  earlier arrivals still waiting. The bounds keep the clock below two to the 52 seconds,
  where the division of durations in double precision is exact enough.
\<close>

theorem aged_task_is_served:
  assumes "queue_wf q" "e \<in> set (entries q)" "aging q = from_secs a" "0 < a" "a < 2 ^ 52"
    and "queued_at e + 4 * from_secs a \<le> since"
    and "\<forall>op \<in> set ops. since \<le> op_time op \<and> op_time op div nanos_per_sec < 2 ^ 52"
    and "length (filter (\<lambda>x. sequence x < sequence e) (entries q)) < length (filter is_pop ops)"
  shows "\<forall>x \<in> set (entries (snd (queue_run ops q))). sequence x \<noteq> sequence e"
proof -
  have "sorted_wrt (<) (map sequence (entries q))" "sequence e < next_sequence q"
    using assms(1,2) by (auto simp: queue_wf_def list_all_iff)
  then have "x = e" if "x \<in> set (entries q)" "sequence x = sequence e" for x
    using that assms(2) by (metis distinct_map inj_onD strict_sorted_iff)
  then have "\<not> present (snd (queue_run ops q)) (sequence e)"
    using assms \<open>sequence e < next_sequence q\<close>
    by (intro aged_leaves [where a = a and since = since]) (auto simp: ahead_def comp_def)
  then show ?thesis by (metis image_eqI present_def)
qed

theorem aged_task_is_served_witness:
  "(let bg = with_priority (task_new (TaskId 1) ''a'' []) Background;
        crit = with_priority (task_new (TaskId 2) ''b'' []) Critical;
        q = snd (push queue_new bg () 0)
    in \<forall>x \<in> set (entries (snd (queue_run [Push crit () (from_secs 120) None, Pop (from_secs 120)] q))).
         sequence x \<noteq> 0)"
proof -
  define bg where "bg = with_priority (task_new (TaskId 1) ''a'' []) Background"
  define crit where "crit = with_priority (task_new (TaskId 2) ''b'' []) Critical"
  define q where "q = snd (push (queue_new :: unit queue) bg () 0)"
  define e where "e = hd (entries q)"
  have q: "entries q = [e]" "queued_at e = 0" "sequence e = 0" "next_sequence q = 1" "max_size q = None"
    "aging q = from_secs 30"
    by (simp_all add: e_def q_def push_def push_with_timeout_def queue_new_def is_full_def DEFAULT_AGING_def Let_def)
  have "\<forall>x \<in> set (entries (snd (queue_run [Push crit () (from_secs 120) None, Pop (from_secs 120)] q))).
      sequence x \<noteq> sequence e"
    by (rule aged_task_is_served [where a = 30 and since = "from_secs 120"])
      (simp_all add: q queue_wf_def from_secs_def nanos_per_sec_def)
  then show ?thesis unfolding Let_def q(3) by (simp only: bg_def crit_def q_def)
qed

text \<open>
  C18. No task is lost and none is answered twice: over any history, the tasks handed back
  (refused, displaced, popped or expired), each with the reply channel it came with,
  together with those still waiting are exactly the tasks that were offered.
\<close>

theorem queue_conserves_tasks:
  "mset (fst (queue_run ops q)) + mset (waiting_items (snd (queue_run ops q))) =
     mset (waiting_items q) + mset (concat (map offered_items ops))"
  unfolding queue_run_eq by (rule queue_history.run_conserves)

text \<open>
  Every history keeps the queue well formed: entries in arrival order under distinct
  sequence numbers below the next one, and never more of them than the limit allows.
\<close>

lemma queue_wf_reachable:
  "queue_wf (snd (queue_run ops (with_timeout (with_rejection (with_max_size
     (with_aging queue_new ag) limit) policy) patience)))"
  by (rule queue_run_wf)
    (simp add: queue_wf_def queue_new_def with_timeout_def with_rejection_def with_max_size_def with_aging_def)

text \<open>
  When a full queue that drops its lowest priority takes a task in, the entry that
  gives way is strictly less urgent than the task, no entry is less urgent than it, and
  among the equally urgent it is the one that has waited longest.
\<close>

lemma displaced_is_oldest_of_least_urgent:
  assumes "push_with_timeout q t p now own = (Displaced v, q')" "rejection_policy q = DropLowestPriority"
  shows "v \<in> set (entries q) \<and> effective_priority v now (aging q) < task_priority t \<and>
    (\<forall>x \<in> set (entries q). effective_priority v now (aging q) < effective_priority x now (aging q) \<or>
       effective_priority v now (aging q) = effective_priority x now (aging q) \<and> sequence v \<le> sequence x) \<and>
    length (entries q') = length (entries q)"
proof -
  from assms(1) have "is_full q" "length (entries q') = length (entries q)"
    by (auto elim!: push_cases)
  with assms obtain i where m: "min_by (by_urgency now (aging q)) (enumerated (entries q)) = Some (i, v)"
    and less: "\<not> task_priority t \<le> effective_priority v now (aging q)"
    by (auto simp: push_with_timeout_def make_room_def take_entry_def Let_def set_enumerated
        dest!: urgency.min_by_Some(1) split: option.splits if_splits)
  have "by_urgency now (aging q) (i, v) (j, x) \<noteq> Greater" if "j < length (entries q)" "x = entries q ! j" for j x
    using urgency.min_by_Some(2) [OF m, of "(j, x)"] that by (simp add: set_enumerated)
  then have "effective_priority v now (aging q) < effective_priority x now (aging q) \<or>
      effective_priority v now (aging q) = effective_priority x now (aging q) \<and> sequence v \<le> sequence x"
    if "x \<in> set (entries q)" for x
    using that by (fastforce simp: by_urgency_def in_set_conv_nth not_less le_less)
  then show ?thesis
    using urgency.min_by_Some(1) [OF m] less \<open>length (entries q') = length (entries q)\<close>
    by (auto simp: set_enumerated)
qed

text \<open>
  Expiry is a partition: it returns exactly the waiting tasks whose deadline has
  passed, in their order, leaves exactly the others in theirs, and changes nothing else.
\<close>

lemma expire_partitions:
  "expire q now =
     (filter (\<lambda>e. \<exists>d. deadline e = Some d \<and> d \<le> now) (entries q),
      q\<lparr>entries := filter (\<lambda>e. \<not> (\<exists>d. deadline e = Some d \<and> d \<le> now)) (entries q)\<rparr>)"
proof -
  have "expired e now = (\<exists>d. deadline e = Some d \<and> d \<le> now)" for e :: "'a queued"
    by (simp add: expired_def split: option.splits)
  then show ?thesis by (simp add: expire_eq)
qed

end
