(* ===== verification/Dispatcher.thy ===== *)
theory Dispatcher
  imports ClientApi FlowRun Queue
begin

text \<open>
  The task that owns the controller and serves client commands (the dispatcher of
  crates/aether-controller/src/client.rs). It is a state machine whose phases are the places
  where the code waits or takes commands; between two of them it runs undisturbed. What
  happens around it is an event: a client's command enters the channel, the last sender goes
  away, the server changes the mesh, a spawned submission ends, a step of the running
  workflow ends, the dispatcher proceeds. A reply channel is a number; an answer of
  \<^verbatim>\<open>None\<close> is a channel dropped without an answer. A send that waits for room in the channel
  is a send that happens later.
\<close>

definition DEFAULT_IN_FLIGHT :: nat where
  "DEFAULT_IN_FLIGHT = 64"

type_synonym queued_flow = "workflow \<times> string option \<times> nat"

datatype phase =
    AtTop
  | Taking
  | Flows "queued_flow list"
  | Flowing flow_run nat "queued_flow list"
  | Holding "nat queued"
  | Leaving
  | Gone

record 't dispatcher =
  d_inbox :: "(client_command \<times> nat) list"
  d_senders_gone :: bool
  d_queue :: "nat queue"
  d_flows :: "queued_flow list"
  d_phase :: phase
  d_running :: "(task \<times> nat) list"
  d_ended :: nat
  d_limit :: nat
  d_closed :: bool
  d_controller :: controller
  d_transport :: 't
  d_mesh :: mesh_state

type_synonym replies = "(nat \<times> answer option) list"

definition run_dispatcher_concurrent :: "controller \<Rightarrow> 't \<Rightarrow> mesh_state \<Rightarrow> nat queue \<Rightarrow> nat \<Rightarrow> 't dispatcher" where
  "run_dispatcher_concurrent c t st q n =
     \<lparr>d_inbox = [], d_senders_gone = False, d_queue = q, d_flows = [], d_phase = AtTop, d_running = [], d_ended = 0,
      d_limit = max n 1, d_closed = False, d_controller = c, d_transport = t, d_mesh = st\<rparr>"

definition run_dispatcher_with :: "controller \<Rightarrow> 't \<Rightarrow> mesh_state \<Rightarrow> nat queue \<Rightarrow> 't dispatcher" where
  "run_dispatcher_with c t st q = run_dispatcher_concurrent c t st q DEFAULT_IN_FLIGHT"

definition run_dispatcher :: "controller \<Rightarrow> 't \<Rightarrow> mesh_state \<Rightarrow> 't dispatcher" where
  "run_dispatcher c t st = run_dispatcher_with c t st queue_new"

text \<open>The catalogue and the traffic counters are shared with the controller.\<close>

definition live_mesh :: "'t dispatcher \<Rightarrow> mesh_state" where
  "live_mesh d = (d_mesh d)\<lparr>catalog := c_catalog (d_controller d), traffic_stats := c_traffic (d_controller d)\<rparr>"

definition figure :: "(queue_stats \<Rightarrow> queue_stats) \<Rightarrow> 't dispatcher \<Rightarrow> 't dispatcher" where
  "figure f d = d\<lparr>d_mesh := (d_mesh d)\<lparr>queue_figures := f (queue_figures (d_mesh d))\<rparr>\<rparr>"

section \<open>Taking a command\<close>

definition queue_depth :: "'t dispatcher \<Rightarrow> 't dispatcher" where
  "queue_depth d = figure (\<lambda>s. set_depth s (queue_len (d_queue d))) d"

definition admit_task :: "instant \<Rightarrow> task \<Rightarrow> duration option \<Rightarrow> nat \<Rightarrow> 't dispatcher \<Rightarrow> replies \<times> 't dispatcher" where
  "admit_task now task patience r d =
     (let (a, q) = push_with_timeout (d_queue d) task r now patience; d1 = d\<lparr>d_queue := q\<rparr> in
      case a of
        Queued \<Rightarrow> ([], queue_depth d1)
      | Refused _ r1 \<Rightarrow> ([(r1, Some (Submitted (Inl (QueueFull (task_id task)))))], queue_depth (figure record_refused d1))
      | Displaced v \<Rightarrow>
          ([(q_payload v, Some (Submitted (Inl (QueueFull (task_id (q_task v))))))], queue_depth (figure record_refused d1)))"

definition admit ::
    "externals \<Rightarrow> env \<Rightarrow> instant \<Rightarrow> client_command \<Rightarrow> nat \<Rightarrow> 't dispatcher \<Rightarrow> replies \<times> 't dispatcher" where
  "admit ext e now command r d =
     (case command of
        SubmitTask task patience \<Rightarrow> admit_task now task patience r d
      | PublishData bs \<Rightarrow>
          (let (x, c) = publish (e_hash e) (d_controller d) bs in ([(r, Some (Described x))], d\<lparr>d_controller := c\<rparr>))
      | ListNodes \<Rightarrow>
          ([(r, Some (Listed (map (\<lambda>info. in_mesh ext info (live_mesh d)) (mesh_nodes (live_mesh d)))))], d)
      | AskStats \<Rightarrow> ([(r, Some (Counted (stats (live_mesh d))))], d)
      | ListRecent n \<Rightarrow>
          ([(r, Some (Finished (map (render_finished ext now) (recent (c_history (d_controller d)) n))))], d)
      | RunWorkflow w run \<Rightarrow> ([], d\<lparr>d_flows := d_flows d @ [(w, run, r)]\<rparr>))"

section \<open>The end\<close>

fun phase_replies :: "phase \<Rightarrow> nat list" where
  "phase_replies (Flows fs) = map (\<lambda>(w, run, r). r) fs"
| "phase_replies (Flowing run r fs) = r # map (\<lambda>(w, run, r). r) fs"
| "phase_replies (Holding v) = [q_payload v]"
| "phase_replies _ = []"

text \<open>The reply channels the dispatcher still holds.\<close>

definition unanswered :: "'t dispatcher \<Rightarrow> nat list" where
  "unanswered d = map snd (d_inbox d) @ map q_payload (entries (d_queue d)) @ map (\<lambda>(w, run, r). r) (d_flows d) @
     phase_replies (d_phase d) @ map snd (d_running d)"

text \<open>Returning (or unwinding) drops everything the task owns, the reply channels among it.\<close>

definition stop :: "'t dispatcher \<Rightarrow> replies \<times> 't dispatcher" where
  "stop d =
     (map (\<lambda>r. (r, None)) (unanswered d),
      d\<lparr>d_inbox := [], d_queue := (d_queue d)\<lparr>entries := []\<rparr>, d_flows := [], d_phase := Gone, d_running := [], d_ended := 0\<rparr>)"

section \<open>Workflows\<close>

fun flow_error_display :: "externals \<Rightarrow> flow_error \<Rightarrow> string" where
  "flow_error_display ext (Invalid err) = workflow_error_display err"
| "flow_error_display ext (DispatchFailed s err) =
     ''step '' @ nat_to_string s @ '' could not be placed: '' @ dispatch_error_display ext err"
| "flow_error_display ext (CheckpointFailed (Fingerprint run recorded submitted)) =
     ''run '' @ run @ '' was recorded against a different workflow (recorded '' @ recorded @ '', submitted '' @ submitted @
     ''); use a new run name, or resubmit the workflow it was recorded with''"
| "flow_error_display ext (CheckpointFailed Io) = show_io ext"
| "flow_error_display ext (Lost s) = ''step '' @ nat_to_string s @ '' did not finish: '' @ show_join ext"

definition flow_answer :: "externals \<Rightarrow> flow_error + flow_result \<Rightarrow> answer option" where
  "flow_answer ext x =
     Some (FlowRan (render_flow ext (case x of Inl err \<Rightarrow> Inl (flow_error_display ext err) | Inr f \<Rightarrow> Inr f)))"

definition start_flow :: "externals \<Rightarrow> env \<Rightarrow> instant \<Rightarrow> queued_flow \<Rightarrow> queued_flow list \<Rightarrow> 't dispatcher \<Rightarrow> replies \<times> 't dispatcher" where
  "start_flow ext e now f fs d =
     (let (w, run, r) = f; c = sync_registry (d_controller d) now (mesh_nodes (live_mesh d)); d1 = d\<lparr>d_controller := c\<rparr> in
      case run_start e c w run of
        Panic \<Rightarrow> stop d1
      | Ret (Inl err) \<Rightarrow> ([(r, flow_answer ext (Inl err))], d1\<lparr>d_phase := Flows fs\<rparr>)
      | Ret (Inr st) \<Rightarrow> ([], d1\<lparr>d_phase := Flowing st r fs\<rparr>))"

definition flow_step_ends ::
    "externals \<Rightarrow> env \<Rightarrow> 't transport \<Rightarrow> nat \<Rightarrow> (nat \<Rightarrow> instant) \<Rightarrow> instant \<Rightarrow> node_id list \<Rightarrow> 't dispatcher \<Rightarrow> replies \<times> 't dispatcher" where
  "flow_step_ends ext e tr i ticks now stranded d =
     (case d_phase d of
        Flowing run r fs \<Rightarrow>
          (if length (running (r_flow run)) \<le> i then ([], d)
           else let (x, c, t) = run_advance e tr ticks now stranded i (d_controller d) (d_transport d) run;
                    d1 = d\<lparr>d_controller := c, d_transport := t\<rparr>
                in case x of
                     Panic \<Rightarrow> stop d1
                   | Ret (Inl err) \<Rightarrow> ([(r, flow_answer ext (Inl err))], d1\<lparr>d_phase := Flows fs\<rparr>)
                   | Ret (Inr st) \<Rightarrow> ([], d1\<lparr>d_phase := Flowing st r fs\<rparr>))
      | _ \<Rightarrow> ([], d))"

section \<open>Choosing what runs next\<close>

definition expire_answer :: "instant \<Rightarrow> nat queued \<Rightarrow> nat \<times> answer option" where
  "expire_answer now v = (q_payload v, Some (Submitted (Inl (QueueTimeout (task_id (q_task v)) (as_millis (waited v now))))))"

definition choose_next :: "instant \<Rightarrow> 't dispatcher \<Rightarrow> replies \<times> 't dispatcher" where
  "choose_next now d =
     (let d1 = d\<lparr>d_closed := d_closed d \<or> d_senders_gone d\<rparr>;
          (late, q) = expire (d_queue d1) now;
          d2 = queue_depth ((figure (record_expired ^^ length late) d1)\<lparr>d_queue := q\<rparr>);
          told = map (expire_answer now) late
      in case pop q now of
           None \<Rightarrow> (told, d2\<lparr>d_phase := if d_closed d2 then Leaving else AtTop\<rparr>)
         | Some (v, q1) \<Rightarrow>
             (let d3 = queue_depth ((figure (\<lambda>s. record_dequeued s (waited v now)) d2)\<lparr>d_queue := q1\<rparr>)
              in (told, d3\<lparr>d_controller := sync_registry (d_controller d3) now (mesh_nodes (live_mesh d3)),
                          d_phase := Holding v\<rparr>)))"

text \<open>
  The dispatcher runs to its next wait. At the top it takes a command, a finished
  submission (\<^verbatim>\<open>joins\<close> when both are there), or learns that no command will come.
\<close>

definition proceed :: "externals \<Rightarrow> env \<Rightarrow> instant \<Rightarrow> bool \<Rightarrow> 't dispatcher \<Rightarrow> replies \<times> 't dispatcher" where
  "proceed ext e now joins d =
     (case d_phase d of
        AtTop \<Rightarrow>
          (if entries (d_queue d) \<noteq> [] \<or> d_flows d \<noteq> [] then ([], d\<lparr>d_phase := Taking\<rparr>)
           else if 0 < d_ended d \<and> (joins \<or> d_inbox d = [] \<and> \<not> d_senders_gone d)
           then ([], d\<lparr>d_ended := d_ended d - 1, d_phase := Taking\<rparr>)
           else case d_inbox d of
                  (command, r) # rest \<Rightarrow> admit ext e now command r (d\<lparr>d_inbox := rest, d_phase := Taking\<rparr>)
                | [] \<Rightarrow>
                    (if \<not> d_senders_gone d then ([], d)
                     else if d_running d = [] \<and> d_ended d = 0 then stop d
                     else ([], d\<lparr>d_closed := True, d_phase := Taking\<rparr>)))
      | Taking \<Rightarrow>
          (case d_inbox d of
             (command, r) # rest \<Rightarrow> admit ext e now command r (d\<lparr>d_inbox := rest\<rparr>)
           | [] \<Rightarrow> ([], d\<lparr>d_phase := Flows (d_flows d), d_flows := []\<rparr>))
      | Flows [] \<Rightarrow> choose_next now d
      | Flows (f # fs) \<Rightarrow> start_flow ext e now f fs d
      | Flowing run r fs \<Rightarrow>
          (if running (r_flow run) = []
           then ([(r, flow_answer ext (Inr (run_report (d_controller d) run)))], d\<lparr>d_phase := Flows fs\<rparr>)
           else ([], d))
      | Holding v \<Rightarrow>
          (if length (d_running d) < d_limit d
           then ([], d\<lparr>d_running := d_running d @ [(q_task v, q_payload v)], d_ended := 0, d_phase := AtTop\<rparr>)
           else ([], d))
      | Leaving \<Rightarrow> (if d_running d = [] then stop d else ([], d))
      | Gone \<Rightarrow> ([], d))"

section \<open>A spawned submission\<close>

definition submission_ends ::
    "env \<Rightarrow> 't transport \<Rightarrow> nat \<Rightarrow> (nat \<Rightarrow> instant) \<Rightarrow> instant \<Rightarrow> 't dispatcher \<Rightarrow> replies \<times> 't dispatcher" where
  "submission_ends e tr i ticks now d =
     (if length (d_running d) \<le> i then ([], d)
      else let (task, r) = d_running d ! i;
               (x, c, t) = submit (e_hash e) (e_lz4 e) (select_node (e_kind e)) tr ticks now task (d_controller d) (d_transport d)
           in ([(r, case x of Panic \<Rightarrow> None | Ret y \<Rightarrow> Some (Submitted y))],
               d\<lparr>d_running := vec_remove i (d_running d), d_ended := d_ended d + 1, d_controller := c, d_transport := t\<rparr>))"

section \<open>Histories\<close>

datatype event =
    Sends client_command nat
  | SendersDrop
  | ServerActs mesh_state
  | Proceeds instant bool
  | SubmissionEnds nat "nat \<Rightarrow> instant" instant
  | FlowStepEnds nat "nat \<Rightarrow> instant" instant "node_id list"

fun dispatcher_step ::
    "externals \<Rightarrow> env \<Rightarrow> 't transport \<Rightarrow> event \<Rightarrow> 't dispatcher \<Rightarrow> replies \<times> 't dispatcher" where
  "dispatcher_step ext e tr (Sends command r) d =
     (if d_phase d = Gone then ([(r, None)], d) else ([], d\<lparr>d_inbox := d_inbox d @ [(command, r)]\<rparr>))"
| "dispatcher_step ext e tr SendersDrop d = ([], d\<lparr>d_senders_gone := True\<rparr>)"
| "dispatcher_step ext e tr (ServerActs st) d =
     ([], d\<lparr>d_mesh := st\<lparr>queue_figures := queue_figures (d_mesh d)\<rparr>,
             d_controller := (d_controller d)\<lparr>c_catalog := catalog st\<rparr>\<rparr>)"
| "dispatcher_step ext e tr (Proceeds now joins) d = proceed ext e now joins d"
| "dispatcher_step ext e tr (SubmissionEnds i ticks now) d = submission_ends e tr i ticks now d"
| "dispatcher_step ext e tr (FlowStepEnds i ticks now stranded) d = flow_step_ends ext e tr i ticks now stranded d"

section \<open>Every command is answered once\<close>

fun sent :: "event \<Rightarrow> nat list" where
  "sent (Sends command r) = [r]"
| "sent _ = []"

definition answered_step :: "externals \<Rightarrow> env \<Rightarrow> 't transport \<Rightarrow> event \<Rightarrow> 't dispatcher \<Rightarrow> nat list \<times> 't dispatcher" where
  "answered_step ext e tr ev d = map_prod (map fst) id (dispatcher_step ext e tr ev d)"

definition conserves :: "replies \<times> 't dispatcher \<Rightarrow> nat multiset \<Rightarrow> bool" where
  "conserves x held = (mset (map fst (fst x)) + mset (unanswered (snd x)) = held)"

lemma figure_parts [simp]:
  "d_inbox (figure f d) = d_inbox d" "d_queue (figure f d) = d_queue d" "d_flows (figure f d) = d_flows d"
  "d_phase (figure f d) = d_phase d" "d_running (figure f d) = d_running d" "d_controller (figure f d) = d_controller d"
  "d_limit (figure f d) = d_limit d" "d_ended (figure f d) = d_ended d" "d_senders_gone (figure f d) = d_senders_gone d"
  "d_closed (figure f d) = d_closed d"
  by (simp_all add: figure_def)

lemma depth_parts [simp]:
  "d_inbox (queue_depth d) = d_inbox d" "d_queue (queue_depth d) = d_queue d" "d_flows (queue_depth d) = d_flows d"
  "d_phase (queue_depth d) = d_phase d" "d_running (queue_depth d) = d_running d" "d_controller (queue_depth d) = d_controller d"
  "d_limit (queue_depth d) = d_limit d" "d_ended (queue_depth d) = d_ended d"
  "d_senders_gone (queue_depth d) = d_senders_gone d" "d_closed (queue_depth d) = d_closed d"
  by (simp_all add: queue_depth_def)

lemma stop_conserves: "conserves (stop d) (mset (unanswered d))"
  by (simp add: conserves_def stop_def unanswered_def comp_def)

text \<open>The queue's own conservation law, on reply channels.\<close>

lemma queue_step_replies:
  "mset (map snd (fst (queue_step op q))) + mset (map q_payload (entries (snd (queue_step op q)))) =
     mset (map q_payload (entries q)) + mset (map snd (offered_items op))"
proof -
  have "map q_payload (entries q) = map snd (waiting_items q)" for q :: "'a queue" by (simp add: waiting_items_def item_def)
  then show ?thesis
    using arg_cong [OF queue_history.step_conserves [of op q], of "image_mset snd"] by (simp add: mset_map)
qed

lemma admit_task_conserves: "conserves (admit_task now task patience r d) (add_mset r (mset (unanswered d)))"
proof -
  obtain a q where p: "push_with_timeout (d_queue d) task r now patience = (a, q)" by fastforce
  have "mset (map snd (handed_back a)) + mset (map q_payload (entries q)) = add_mset r (mset (map q_payload (entries (d_queue d))))"
    using queue_step_replies [of "Push task r now patience" "d_queue d"] p by simp
  then show ?thesis
    using p by (cases a) (simp_all add: admit_task_def conserves_def unanswered_def item_def ac_simps)
qed

lemma admit_conserves: "conserves (admit ext e now command r d) (add_mset r (mset (unanswered d)))"
proof (cases command)
  case (SubmitTask task patience)
  then show ?thesis using admit_task_conserves by (simp add: admit_def)
next
  case (PublishData bs)
  then show ?thesis by (simp add: admit_def conserves_def unanswered_def split: prod.split)
qed (simp_all add: admit_def conserves_def unanswered_def)

lemma choose_next_conserves:
  assumes "d_phase d = Flows []"
  shows "conserves (choose_next now d) (mset (unanswered d))"
proof -
  obtain late q where x: "expire (d_queue d) now = (late, q)" by fastforce
  have late: "mset (map q_payload late) + mset (map q_payload (entries q)) = mset (map q_payload (entries (d_queue d)))"
    using queue_step_replies [of "Expire now" "d_queue d"] x by (simp add: item_def comp_def)
  have told: "map (fst \<circ> expire_answer now) vs = map q_payload vs" for vs by (simp add: expire_answer_def)
  show ?thesis
  proof (cases "pop q now")
    case None
    then show ?thesis using x late assms by (simp add: choose_next_def Let_def conserves_def unanswered_def told ac_simps)
  next
    case (Some a)
    then obtain v q1 where v: "pop q now = Some (v, q1)" by (cases a) auto
    then have "mset (map q_payload (entries q)) = add_mset (q_payload v) (mset (map q_payload (entries q1)))"
      using queue_step_replies [of "Pop now" q] by (simp add: item_def)
    with late have "mset (map q_payload (entries (d_queue d))) =
        add_mset (q_payload v) (mset (map q_payload late) + mset (map q_payload (entries q1)))"
      by simp
    then show ?thesis
      using x v assms
      by (simp add: choose_next_def Let_def conserves_def unanswered_def told item_def ac_simps)
  qed
qed

lemma start_flow_conserves:
  "d_phase d = Flows (f # fs) \<Longrightarrow> conserves (start_flow ext e now f fs d) (mset (unanswered d))"
  using stop_conserves [of "d\<lparr>d_controller := c\<rparr>" for c]
  by (auto simp: start_flow_def Let_def conserves_def unanswered_def split: prod.splits exec.splits sum.splits)

lemma proceed_conserves: "conserves (proceed ext e now joins d) (mset (unanswered d))"
proof (cases "d_phase d")
  case AtTop
  then show ?thesis
    using stop_conserves [of d] admit_conserves [of ext e now _ _ "d\<lparr>d_inbox := _, d_phase := Taking\<rparr>"]
    by (auto simp: proceed_def conserves_def unanswered_def split: list.split)
next
  case Taking
  then show ?thesis
    using admit_conserves [of ext e now _ _ "d\<lparr>d_inbox := _\<rparr>"]
    by (auto simp: proceed_def conserves_def unanswered_def split: list.split)
next
  case (Flows fs)
  then show ?thesis by (cases fs) (simp_all add: proceed_def choose_next_conserves start_flow_conserves)
qed (use stop_conserves [of d] in \<open>auto simp: proceed_def conserves_def unanswered_def\<close>)

lemma flow_step_ends_conserves: "conserves (flow_step_ends ext e tr i ticks now stranded d) (mset (unanswered d))"
proof (cases "d_phase d")
  case (Flowing run r fs)
  then show ?thesis
    using stop_conserves [of "d\<lparr>d_controller := c, d_transport := t\<rparr>" for c t]
    by (auto simp: flow_step_ends_def Let_def conserves_def unanswered_def split: prod.splits exec.splits sum.splits)
qed (simp_all add: flow_step_ends_def conserves_def)

lemma submission_ends_conserves: "conserves (submission_ends e tr i ticks now d) (mset (unanswered d))"
proof (cases "i < length (d_running d)")
  case True
  then have "add_mset (snd (d_running d ! i)) (mset (map snd (vec_remove i (d_running d)))) = mset (map snd (d_running d))"
    by (rule mset_vec_remove)
  then show ?thesis
    using True by (auto simp: submission_ends_def conserves_def unanswered_def split: prod.splits)
qed (simp add: submission_ends_def conserves_def)

lemma dispatcher_step_conserves: "conserves (dispatcher_step ext e tr ev d) (mset (unanswered d) + mset (sent ev))"
proof (cases ev)
  case (Sends command r)
  then show ?thesis by (simp add: conserves_def unanswered_def)
qed (use proceed_conserves submission_ends_conserves flow_step_ends_conserves in
  \<open>simp_all, simp_all add: conserves_def unanswered_def\<close>)

interpretation dispatcher_history: conserving "answered_step ext e tr" unanswered sent
  by unfold_locales (use dispatcher_step_conserves in \<open>simp add: answered_step_def conserves_def\<close>)

fun dispatcher_run :: "externals \<Rightarrow> env \<Rightarrow> 't transport \<Rightarrow> event list \<Rightarrow> 't dispatcher \<Rightarrow> replies \<times> 't dispatcher" where
  "dispatcher_run ext e tr [] d = ([], d)"
| "dispatcher_run ext e tr (ev # evs) d =
     (let (out, d1) = dispatcher_step ext e tr ev d; (outs, d2) = dispatcher_run ext e tr evs d1 in (out @ outs, d2))"

lemma dispatcher_run_answers:
  "dispatcher_history.run ext e tr evs d = map_prod (map fst) id (dispatcher_run ext e tr evs d)"
  by (induction evs arbitrary: d) (simp_all add: answered_step_def split: prod.splits)

section \<open>The invariant\<close>

definition dispatcher_inv :: "digest \<Rightarrow> 't dispatcher \<Rightarrow> bool" where
  "dispatcher_inv hash d =
     (controller_inv hash (d_controller d) \<and> length (d_running d) \<le> d_limit d \<and> 0 < d_limit d \<and>
      (d_phase d = Gone \<longrightarrow> unanswered d = [] \<and> d_ended d = 0) \<and>
      (d_phase d \<notin> {AtTop, Taking} \<longrightarrow> d_flows d = []) \<and> (d_phase d = Leaving \<longrightarrow> entries (d_queue d) = []))"

lemma sync_registry_inv: "controller_inv hash c \<Longrightarrow> controller_inv hash (sync_registry c now ns)"
  using same_store_eq [of "sync_registry c now ns" c] by (auto simp: controller_inv_def same_store_def sync_registry_def)

lemma begin_all_inv: "controller_inv hash c \<Longrightarrow> controller_inv hash (cancelled c ns)"
  unfolding cancelled_def by (induction ns arbitrary: c) (simp_all add: flight_inv)

lemma note_finished_inv: "controller_inv hash c \<Longrightarrow> controller_inv hash (snd (note_finished e c jr s r))"
proof -
  assume "controller_inv hash c"
  then have "controller_inv hash (c\<lparr>checkpoint := x\<rparr>)" for x by (rule controller_inv_same [rotated 2]) (simp_all add: frame_def)
  then show ?thesis
    using \<open>controller_inv hash c\<close> by (auto simp: note_finished_def split: option.splits prod.splits sum.splits)
qed

lemma run_advance_inv:
  assumes "controller_inv (e_hash e) c" "run_advance e tr ticks now stranded i c t run = (x, c', t')"
  shows "controller_inv (e_hash e) c'"
proof -
  obtain s task where st: "running (r_flow run) ! i = (s, task)" by fastforce
  obtain r c1 t1 where sub: "submit (e_hash e) (e_lz4 e) (select_node (e_kind e)) tr ticks now task c t = (Ret r, c1, t1)"
    and c1: "controller_inv (e_hash e) c1"
    using submit_safe [OF assms(1), of "e_lz4 e" "select_node (e_kind e)" tr ticks now task t] by blast
  show ?thesis
    using assms(2) st sub begin_all_inv [OF c1] note_finished_inv [OF c1, of e "r_journal run" s]
    by (auto simp: run_advance_def run_joined_def split: sum.splits exec.splits prod.splits) (metis snd_conv)+
qed

lemma stop_inv: "dispatcher_inv hash d \<Longrightarrow> dispatcher_inv hash (snd (stop d))"
  by (simp add: dispatcher_inv_def stop_def unanswered_def)

lemma admit_inv:
  assumes "dispatcher_inv (e_hash e) d" "d_phase d = Taking"
  shows "dispatcher_inv (e_hash e) (snd (admit ext e now command r d))"
proof -
  have "controller_inv (e_hash e) (snd (publish (e_hash e) (d_controller d) bs))" for bs
    using assms(1) publish_inv by (simp add: dispatcher_inv_def)
  then show ?thesis
    using assms
    by (cases command) (auto simp: admit_def admit_task_def dispatcher_inv_def Let_def split: prod.splits admitted.splits, metis snd_conv)
qed

lemma choose_next_inv:
  assumes "dispatcher_inv hash d" "d_phase d = Flows []"
  shows "dispatcher_inv hash (snd (choose_next now d))"
proof -
  obtain late q where x: "expire (d_queue d) now = (late, q)" by fastforce
  have empty: "entries q = []" if "pop q now = None" using that by simp
  show ?thesis
    using assms x empty sync_registry_inv [of hash "d_controller d" now]
    by (auto simp: choose_next_def Let_def dispatcher_inv_def split: option.splits)
qed

lemma phase_inv:
  "dispatcher_inv hash d \<Longrightarrow> d_flows d = [] \<Longrightarrow> p \<notin> {Gone, Leaving} \<Longrightarrow> dispatcher_inv hash (d\<lparr>d_phase := p\<rparr>)"
  by (auto simp: dispatcher_inv_def)

lemma start_flow_inv:
  assumes "dispatcher_inv (e_hash e) d" "d_phase d = Flows (f # fs)"
  shows "dispatcher_inv (e_hash e) (snd (start_flow ext e now f fs d))"
proof -
  obtain w run r where f: "f = (w, run, r)" by (metis prod_cases3)
  define d1 where "d1 = d\<lparr>d_controller := sync_registry (d_controller d) now (mesh_nodes (live_mesh d))\<rparr>"
  have "dispatcher_inv (e_hash e) d1"
    using assms sync_registry_inv [of "e_hash e" "d_controller d" now "mesh_nodes (live_mesh d)"]
    by (simp add: d1_def dispatcher_inv_def)
  moreover have "d_flows d1 = []" using assms by (simp add: d1_def dispatcher_inv_def)
  ultimately show ?thesis
    using stop_inv [of "e_hash e" d1] phase_inv [of "e_hash e" d1]
    unfolding start_flow_def Let_def f prod.case d1_def [symmetric] by (auto split: exec.splits sum.splits)
qed

lemma proceed_inv:
  assumes "dispatcher_inv (e_hash e) d"
  shows "dispatcher_inv (e_hash e) (snd (proceed ext e now joins d))"
proof (cases "d_phase d")
  case AtTop
  have "dispatcher_inv (e_hash e) (d\<lparr>d_inbox := rest, d_phase := Taking\<rparr>)" for rest
    using assms AtTop by (auto simp: dispatcher_inv_def unanswered_def)
  then show ?thesis
    using assms AtTop stop_inv [OF assms] admit_inv [of e "d\<lparr>d_inbox := _, d_phase := Taking\<rparr>"]
    by (auto simp: proceed_def dispatcher_inv_def split: list.split)
next
  case Taking
  have "dispatcher_inv (e_hash e) (d\<lparr>d_inbox := rest\<rparr>)" for rest
    using assms Taking by (auto simp: dispatcher_inv_def unanswered_def)
  then show ?thesis
    using assms Taking admit_inv [of e "d\<lparr>d_inbox := _\<rparr>"]
    by (auto simp: proceed_def dispatcher_inv_def split: list.split)
next
  case (Flows fs)
  then show ?thesis using assms by (cases fs) (simp_all add: proceed_def choose_next_inv start_flow_inv)
qed (use assms stop_inv [OF assms] in \<open>auto simp: proceed_def dispatcher_inv_def\<close>)

lemma dispatcher_step_inv:
  assumes "dispatcher_inv (e_hash e) d"
  shows "dispatcher_inv (e_hash e) (snd (dispatcher_step ext e tr ev d))"
proof (cases ev)
  case (ServerActs st)
  have "controller_inv (e_hash e) ((d_controller d)\<lparr>c_catalog := catalog st\<rparr>)"
    by (rule controller_inv_same [of _ "d_controller d"]) (use assms in \<open>simp_all add: dispatcher_inv_def\<close>)
  then show ?thesis using assms ServerActs by (simp add: dispatcher_inv_def unanswered_def)
next
  case (SubmissionEnds i ticks now)
  obtain r c t where "submit (e_hash e) (e_lz4 e) (select_node (e_kind e)) tr ticks now (fst (d_running d ! i))
      (d_controller d) (d_transport d) = (Ret r, c, t)" "controller_inv (e_hash e) c"
    using submit_safe [of "e_hash e" "d_controller d" "e_lz4 e" "select_node (e_kind e)" tr ticks now "fst (d_running d ! i)" "d_transport d"]
      assms by (auto simp: dispatcher_inv_def)
  moreover have "length (vec_remove i (d_running d)) \<le> length (d_running d)" by (simp add: length_vec_remove_le)
  ultimately show ?thesis
    using assms SubmissionEnds by (auto simp: dispatcher_inv_def submission_ends_def unanswered_def split: prod.splits)
next
  case (FlowStepEnds i ticks now stranded)
  show ?thesis
  proof (cases "d_phase d")
    case (Flowing run r fs)
    obtain x c t where adv: "run_advance e tr ticks now stranded i (d_controller d) (d_transport d) run = (x, c, t)"
      by (metis prod_cases3)
    define d1 where "d1 = d\<lparr>d_controller := c, d_transport := t\<rparr>"
    have "dispatcher_inv (e_hash e) d1" "d_flows d1 = []"
      using assms run_advance_inv [OF _ adv] Flowing by (simp_all add: d1_def dispatcher_inv_def)
    then show ?thesis
      using assms adv FlowStepEnds Flowing stop_inv [of "e_hash e" d1] phase_inv [of "e_hash e" d1]
      by (auto simp: flow_step_ends_def d1_def [symmetric] split: exec.splits sum.splits)
  qed (use assms FlowStepEnds in \<open>simp_all add: flow_step_ends_def\<close>)
next
  case (Proceeds now joins)
  then show ?thesis using proceed_inv [OF assms] by simp
qed (use assms in \<open>auto simp: dispatcher_inv_def unanswered_def\<close>)

lemma gone_stays:
  "d_phase d = Gone \<Longrightarrow> d_phase (snd (dispatcher_step ext e tr ev d)) = Gone"
  by (cases ev) (auto simp: proceed_def submission_ends_def flow_step_ends_def split: prod.split)

lemma dispatcher_run_Cons:
  "snd (dispatcher_run ext e tr (ev # evs) d) = snd (dispatcher_run ext e tr evs (snd (dispatcher_step ext e tr ev d)))"
  "fst (dispatcher_run ext e tr (ev # evs) d) =
     fst (dispatcher_step ext e tr ev d) @ fst (dispatcher_run ext e tr evs (snd (dispatcher_step ext e tr ev d)))"
  by (simp_all split: prod.splits)

lemma gone_run: "d_phase d = Gone \<Longrightarrow> d_phase (snd (dispatcher_run ext e tr evs d)) = Gone"
proof (induction evs arbitrary: d)
  case (Cons ev evs)
  then show ?case unfolding dispatcher_run_Cons by (intro Cons.IH gone_stays)
qed simp

text \<open>A reply channel is dropped unanswered only when the dispatcher ends.\<close>

lemma admit_answers [simp]: "(r, None) \<notin> set (fst (admit ext e now command k d))"
  by (auto simp: admit_def admit_task_def Let_def split: client_command.splits prod.splits admitted.splits)

lemma stop_gone: "d_phase (snd (stop d)) = Gone"
  by (simp add: stop_def)

lemma proceed_answers:
  assumes "(r, None) \<in> set (fst (proceed ext e now joins d))"
  shows "d_phase (snd (proceed ext e now joins d)) = Gone"
proof (cases "d_phase d")
  case AtTop
  then show ?thesis using assms admit_answers stop_gone by (auto simp: proceed_def split: list.splits if_splits)
next
  case Taking
  then show ?thesis using assms admit_answers by (auto simp: proceed_def split: list.splits)
next
  case (Flows fs)
  show ?thesis
  proof (cases fs)
    case Nil
    then show ?thesis
      using assms Flows by (auto simp: proceed_def choose_next_def expire_answer_def Let_def split: prod.splits option.splits)
  next
    case (Cons f fs')
    then show ?thesis
      using assms Flows stop_gone
      by (auto simp: proceed_def start_flow_def flow_answer_def Let_def split: prod.splits exec.splits sum.splits)
  qed
qed (use assms stop_gone in \<open>auto simp: proceed_def flow_answer_def split: if_splits\<close>)

lemma step_answers:
  assumes "dispatcher_inv (e_hash e) d" "(r, None) \<in> set (fst (dispatcher_step ext e tr ev d))"
  shows "d_phase (snd (dispatcher_step ext e tr ev d)) = Gone"
proof (cases ev)
  case (SubmissionEnds i ticks now)
  obtain x c t where "submit (e_hash e) (e_lz4 e) (select_node (e_kind e)) tr ticks now (fst (d_running d ! i))
      (d_controller d) (d_transport d) = (Ret x, c, t)"
    using submit_safe [of "e_hash e" "d_controller d" "e_lz4 e" "select_node (e_kind e)" tr ticks now "fst (d_running d ! i)" "d_transport d"]
      assms by (auto simp: dispatcher_inv_def)
  then show ?thesis using assms SubmissionEnds by (auto simp: submission_ends_def split: prod.splits if_splits)
next
  case (FlowStepEnds i ticks now stranded)
  then show ?thesis
    using assms stop_gone
    by (auto simp: flow_step_ends_def flow_answer_def Let_def split: phase.splits if_splits prod.splits exec.splits sum.splits)
next
  case (Proceeds now joins)
  then show ?thesis using assms proceed_answers by simp
qed (use assms in \<open>auto split: if_splits\<close>)

lemma dispatcher_run_inv:
  assumes "dispatcher_inv (e_hash e) d"
  shows "dispatcher_inv (e_hash e) (snd (dispatcher_run ext e tr evs d)) \<and>
    (d_phase (snd (dispatcher_run ext e tr evs d)) \<noteq> Gone \<longrightarrow> (\<forall>r. (r, None) \<notin> set (fst (dispatcher_run ext e tr evs d))))"
  using assms
proof (induction evs arbitrary: d)
  case (Cons ev evs)
  let ?d1 = "snd (dispatcher_step ext e tr ev d)"
  note IH = Cons.IH [OF dispatcher_step_inv [OF Cons.prems, of ext tr ev]]
  have "(r, None) \<notin> set (fst (dispatcher_step ext e tr ev d))" if "d_phase (snd (dispatcher_run ext e tr evs ?d1)) \<noteq> Gone" for r
    using that step_answers [OF Cons.prems, of r ext tr ev] gone_run [of ?d1] by blast
  then show ?case using IH unfolding dispatcher_run_Cons by auto
qed simp

lemma step_limit: "d_limit (snd (dispatcher_step ext e tr ev d)) = d_limit d"
proof (cases ev)
  case (Proceeds now joins)
  have admits: "d_limit (snd (admit ext e now command r d)) = d_limit d" for command r and d :: "'a dispatcher"
    by (auto simp: admit_def admit_task_def Let_def split: client_command.splits prod.splits admitted.splits)
  have flows: "d_limit (snd (start_flow ext e now f fs d)) = d_limit d" for f fs
    by (simp add: start_flow_def stop_def Let_def split: prod.splits exec.splits sum.splits)
  have "d_limit (snd (choose_next now d)) = d_limit d"
    by (simp add: choose_next_def Let_def split: prod.splits option.splits)
  then show ?thesis
    using Proceeds flows by (simp add: proceed_def stop_def admits split: phase.splits list.splits)
qed (simp_all add: submission_ends_def flow_step_ends_def stop_def Let_def
  split: prod.splits phase.splits exec.splits sum.splits)

lemma dispatcher_run_limit: "d_limit (snd (dispatcher_run ext e tr evs d)) = d_limit d"
proof (induction evs arbitrary: d)
  case (Cons ev evs)
  then show ?case unfolding dispatcher_run_Cons by (simp add: step_limit)
qed simp

text \<open>
  C2. Every command that clients send is answered exactly once, whatever happens in between:
  over any history of arriving commands, finished submissions and workflow steps, changes of
  the mesh and turns of the dispatcher, the reply channels that were answered or dropped and
  those still held are, with multiplicity, exactly those that came in. No channel is dropped
  without an answer before the dispatcher has ended, a dispatcher that has ended holds none,
  and never more submissions are in flight than the limit allows.
\<close>

theorem every_command_is_answered_once:
  assumes "dispatcher_run ext e tr evs (run_dispatcher_concurrent c t st q n) = (outs, d)"
    and "controller_inv (e_hash e) c" "entries q = []"
  shows "mset (map fst outs) + mset (unanswered d) = mset (concat (map sent evs)) \<and>
    (d_phase d \<noteq> Gone \<longrightarrow> (\<forall>r. (r, None) \<notin> set outs)) \<and> (d_phase d = Gone \<longrightarrow> unanswered d = []) \<and>
    length (d_running d) \<le> max n 1"
proof -
  let ?d = "run_dispatcher_concurrent c t st q n"
  have inv: "dispatcher_inv (e_hash e) ?d"
    using assms(2) by (simp add: dispatcher_inv_def run_dispatcher_concurrent_def)
  have "mset (map fst outs) + mset (unanswered d) = mset (unanswered ?d) + mset (concat (map sent evs))"
    using dispatcher_history.run_conserves [of ext e tr evs ?d] assms(1) by (simp add: dispatcher_run_answers)
  moreover have "unanswered ?d = []" using assms(3) by (simp add: unanswered_def run_dispatcher_concurrent_def)
  moreover have "d_limit d = max n 1"
    using dispatcher_run_limit [of ext e tr evs ?d] assms(1) by (simp add: run_dispatcher_concurrent_def)
  ultimately show ?thesis
    using dispatcher_run_inv [OF inv, of ext tr evs] assms(1) by (auto simp: dispatcher_inv_def)
qed

section \<open>Left alone, the dispatcher answers everything\<close>

text \<open>
  A workflow's remaining work: every iteration of its loop ends a submission, and starts one
  only where a counter reached zero. With overflow checks no counter grows.
\<close>

definition positives :: "nat list \<Rightarrow> nat" where
  "positives ws = length (filter (\<lambda>x. 0 < x) ws)"

definition flow_work :: "flow \<Rightarrow> nat" where
  "flow_work st = 2 * positives (waiting st) + 2 * length (ready st) + length (running st)"

lemma positives_update: "i < length ws \<Longrightarrow> positives (ws[i := x]) + (if 0 < ws ! i then 1 else 0) = positives ws + (if 0 < x then 1 else 0)"
proof (induction ws arbitrary: i)
  case (Cons a ws)
  then show ?case
  proof (cases i)
    case (Suc j)
    then show ?thesis using Cons.IH [of j] Cons.prems by (simp add: positives_def split: if_splits)
  qed (simp add: positives_def)
qed simp

lemma dec_checked:
  "dec True ws i = Ret ws' \<Longrightarrow> length ws' = length ws \<and> positives ws' + (if ws' ! i = 0 then 1 else 0) = positives ws"
  using positives_update [of i ws "ws ! i - 1"] by (auto simp: dec_def split: if_splits)

lemma dec_all_checked: "dec_all True ws is = Ret ws' \<Longrightarrow> length ws' = length ws"
  by (induction "is" arbitrary: ws) (auto dest!: dec_checked split: exec.splits)

lemma abandon_further_checked:
  "abandon_further True fs st = Ret st' \<Longrightarrow>
     positives (waiting st') \<le> positives (waiting st) \<and> ready st' = ready st \<and> running st' = running st"
proof (induction fs arbitrary: st)
  case (Cons f fs)
  then show ?case by (fastforce dest: dec_checked split: exec.splits if_splits)
qed simp

lemma release_checked:
  "release True w s ok ds st = Ret st' \<Longrightarrow>
     positives (waiting st') + length (ready st') \<le> positives (waiting st) + length (ready st) \<and> running st' = running st"
proof (induction ds arbitrary: st)
  case (Cons d ds)
  obtain ws where ws: "dec True (waiting st) d = Ret ws" using Cons.prems by (auto split: exec.splits)
  note less = dec_checked [OF ws]
  consider (waits) "0 < ws ! d" "release True w s ok ds (st\<lparr>waiting := ws\<rparr>) = Ret st'"
    | (starts) "ws ! d = 0" "release True w s ok ds (st\<lparr>waiting := ws, ready := ready st @ [d]\<rparr>) = Ret st'"
    | (gives_up) st2 where "abandon_further True (dependents_of w d) (st\<lparr>waiting := ws, abandoned := abandoned st @ [d]\<rparr>) = Ret st2"
      "release True w s ok ds st2 = Ret st'"
    using Cons.prems ws by (auto simp: Let_def split: if_splits exec.splits)
  then show ?case
  proof cases
    case waits
    then show ?thesis using Cons.IH less by fastforce
  next
    case starts
    then show ?thesis using Cons.IH [OF starts(2)] less by simp
  next
    case gives_up
    then show ?thesis using Cons.IH [OF gives_up(2)] abandon_further_checked [OF gives_up(1)] less by (simp split: if_splits)
  qed
qed simp

lemma flow_next_work:
  assumes "flow_next True w cat journal st s r = Ret st'" "s \<in> fst ` set (running st)"
  shows "flow_work st' < flow_work st"
proof -
  obtain st1 where fin: "flow_finish True w cat journal st s r = Ret st1" "st' = flow_launch w st1"
    using assms(1) by (auto simp: flow_next_def split: exec.splits)
  obtain st0 st2 where rel: "release True w s (is_success r) (dependents_of w s) st0 = Ret st2"
    "waiting st0 = waiting st" "ready st0 = ready st" "running st0 = filter (\<lambda>(k, _). k \<noteq> s) (running st)"
    "st1 = st2\<lparr>ready := sort (ready st2)\<rparr>"
    using fin(1) unfolding flow_finish_def Let_def by (auto split: exec.splits)
  obtain task where "(s, task) \<in> set (running st)" using assms(2) by auto
  then have "length (filter (\<lambda>(k, _). k \<noteq> s) (running st)) < length (running st)"
    by (rule length_filter_less) simp
  then show ?thesis
    using release_checked [OF rel(1)] rel(2-5) fin(2) by (simp add: flow_work_def flow_launch_def)
qed

lemma run_start_work:
  assumes "run_start e c w run = Ret (Inr st)" "e_checks e"
  shows "flow_work (r_flow st) \<le> 3 * length (steps w)"
proof -
  have resume_length: "resume True w cat fin order s = Ret s' \<Longrightarrow> length (waiting s') = length (waiting s) \<and> running s' = running s"
    for cat fin order s s'
  proof (induction order arbitrary: s)
    case (Cons k order)
    then show ?case by (auto dest!: dec_all_checked split: option.splits if_splits exec.splits)
  qed simp
  obtain cat fin order s1 where r: "resume True w cat fin order (flow_empty w) = Ret s1"
    and st: "r_flow st = flow_launch w (s1\<lparr>ready :=
       filter (\<lambda>s. waiting s1 ! s = 0 \<and> s \<notin> set (resumed s1)) [0 ..< length (steps w)]\<rparr>)"
    using assms unfolding run_start_def flow_start_def by (auto split: exec.splits sum.splits)
  have "waiting (flow_empty w) = map (\<lambda>s. length (depends_on s)) (steps w)" "running (flow_empty w) = []"
    by (simp_all add: flow_empty_def)
  then have "length (waiting s1) = length (steps w)" "running s1 = []" using resume_length [OF r] by simp_all
  moreover have "positives (waiting s1) \<le> length (waiting s1)" by (simp add: positives_def)
  moreover have "length (filter (\<lambda>s. waiting s1 ! s = 0 \<and> s \<notin> set (resumed s1)) [0 ..< length (steps w)]) \<le> length (steps w)"
    using length_filter_le [of _ "[0 ..< length (steps w)]"] by (metis length_upt minus_nat.diff_0)
  ultimately show ?thesis
    unfolding flow_work_def st flow_launch_def by simp
qed

text \<open>The remaining work of a dispatcher that gets no further commands.\<close>

definition flow_weight :: "queued_flow \<Rightarrow> nat" where
  "flow_weight f = 3 * length (steps (fst f)) + 2"

fun command_weight :: "client_command \<times> nat \<Rightarrow> nat" where
  "command_weight (RunWorkflow w run, r) = flow_weight (w, run, r) + 5"
| "command_weight _ = 16"

fun phase_weight :: "phase \<Rightarrow> nat" where
  "phase_weight (Flows fs) = 3 + sum_list (map flow_weight fs)"
| "phase_weight (Flowing run r fs) = 4 + sum_list (map flow_weight fs) + flow_work (r_flow run)"
| "phase_weight (Holding v) = 13"
| "phase_weight Taking = 4"
| "phase_weight Leaving = 2"
| "phase_weight _ = 0"

definition work :: "'t dispatcher \<Rightarrow> nat" where
  "work d = sum_list (map command_weight (d_inbox d)) + 11 * length (entries (d_queue d)) +
     sum_list (map flow_weight (d_flows d)) + phase_weight (d_phase d) + 7 * length (d_running d) + 6 * d_ended d +
     (if d_phase d = AtTop \<and> (entries (d_queue d) \<noteq> [] \<or> d_flows d \<noteq> [] \<or> d_senders_gone d) then 5 else 0)"

text \<open>The places where the dispatcher waits for something else to happen.\<close>

definition awaits :: "'t dispatcher \<Rightarrow> bool" where
  "awaits d =
     (case d_phase d of
        AtTop \<Rightarrow> entries (d_queue d) = [] \<and> d_flows d = [] \<and> d_inbox d = [] \<and> d_ended d = 0 \<and> \<not> d_senders_gone d
      | Flowing run r fs \<Rightarrow> running (r_flow run) \<noteq> []
      | Holding v \<Rightarrow> d_limit d \<le> length (d_running d)
      | Leaving \<Rightarrow> d_running d \<noteq> []
      | Gone \<Rightarrow> True
      | _ \<Rightarrow> False)"

lemma stop_work: "work (snd (stop d)) = 0"
  by (simp add: work_def stop_def)

lemma admit_work:
  assumes "d_phase d = Taking"
  shows "work (snd (admit ext e now command r d)) < work d + command_weight (command, r) - 4"
proof (cases command)
  case (SubmitTask task patience)
  obtain a q where p: "push_with_timeout (d_queue d) task r now patience = (a, q)" by fastforce
  have "length (entries q) \<le> length (entries (d_queue d)) + 1"
    using arg_cong [OF queue_step_replies [of "Push task r now patience" "d_queue d"], of size] p by simp
  then show ?thesis
    using SubmitTask assms p by (cases a) (simp_all add: admit_def admit_task_def work_def)
next
  case (PublishData bs)
  then show ?thesis using assms by (simp add: admit_def work_def split: prod.split)
qed (use assms in \<open>simp_all add: admit_def work_def\<close>)

lemma choose_next_work:
  assumes "d_phase d = Flows []" "d_flows d = []"
  shows "work (snd (choose_next now d)) < work d"
proof -
  obtain late q where x: "expire (d_queue d) now = (late, q)" by fastforce
  have le: "length (entries q) \<le> length (entries (d_queue d))"
    using arg_cong [OF queue_step_replies [of "Expire now" "d_queue d"], of size] x by simp
  show ?thesis
  proof (cases "pop q now")
    case None
    then show ?thesis using x le assms by (simp add: choose_next_def Let_def work_def)
  next
    case (Some a)
    then obtain v q1 where v: "pop q now = Some (v, q1)" by (cases a) auto
    then have "length (entries q1) + 1 = length (entries q)"
      using arg_cong [OF queue_step_replies [of "Pop now" q], of size] by simp
    then show ?thesis using x v le assms by (simp add: choose_next_def Let_def work_def)
  qed
qed

lemma start_flow_work:
  assumes "d_phase d = Flows (f # fs)" "e_checks e"
  shows "work (snd (start_flow ext e now f fs d)) < work d"
proof -
  obtain w run r where f: "f = (w, run, r)" by (metis prod_cases3)
  define c where "c = sync_registry (d_controller d) now (mesh_nodes (live_mesh d))"
  show ?thesis
  proof (cases "run_start e c w run")
    case Panic
    have "0 < work d" using assms by (simp add: work_def)
    then show ?thesis using Panic unfolding start_flow_def Let_def f prod.case c_def [symmetric] by (simp add: stop_work)
  next
    case (Ret x)
    then show ?thesis
      using assms run_start_work [of e c w run] unfolding start_flow_def Let_def f prod.case c_def [symmetric]
      by (cases x) (auto simp: work_def flow_weight_def)
  qed
qed

lemma proceed_work:
  assumes "dispatcher_inv (e_hash e) d" "e_checks e"
  shows "if awaits d then snd (proceed ext e now joins d) = d else work (snd (proceed ext e now joins d)) < work d"
proof (cases "d_phase d")
  case AtTop
  show ?thesis
  proof (cases "d_inbox d")
    case Nil
    have "0 < work d" if "d_senders_gone d" using that AtTop by (simp add: work_def)
    then show ?thesis using AtTop Nil stop_work [of d] by (auto simp: proceed_def awaits_def) (simp_all add: work_def)
  next
    case (Cons a rest)
    obtain command r where a: "a = (command, r)" by fastforce
    have "work (d\<lparr>d_inbox := rest, d_phase := Taking\<rparr>) + command_weight a \<le> work d + 4"
      using AtTop Cons by (simp add: work_def)
    moreover have "4 < command_weight a" by (cases a rule: command_weight.cases) (simp_all add: flow_weight_def)
    ultimately show ?thesis
      using AtTop Cons a admit_work [of "d\<lparr>d_inbox := rest, d_phase := Taking\<rparr>" ext e now command r]
      by (auto simp: proceed_def awaits_def) (simp_all add: work_def)
  qed
next
  case Taking
  show ?thesis
  proof (cases "d_inbox d")
    case Nil
    then show ?thesis using Taking by (simp add: proceed_def awaits_def work_def)
  next
    case (Cons a rest)
    obtain command r where a: "a = (command, r)" by fastforce
    have "work (d\<lparr>d_inbox := rest\<rparr>) + command_weight a = work d" using Taking Cons by (simp add: work_def)
    then show ?thesis
      using Taking Cons a admit_work [of "d\<lparr>d_inbox := rest\<rparr>" ext e now command r] by (simp add: proceed_def awaits_def)
  qed
next
  case (Flows fs)
  have "d_flows d = []" using assms(1) Flows by (simp add: dispatcher_inv_def)
  then show ?thesis
    using Flows assms(2) by (cases fs) (simp_all add: proceed_def awaits_def choose_next_work start_flow_work)
next
  case Leaving
  then have "0 < work d" by (simp add: work_def)
  then show ?thesis using Leaving stop_work [of d] by (simp add: proceed_def awaits_def)
qed (auto simp: proceed_def awaits_def work_def)

lemma submission_ends_work:
  "if i < length (d_running d) then work (snd (submission_ends e tr i ticks now d)) < work d
   else snd (submission_ends e tr i ticks now d) = d"
  by (auto simp: submission_ends_def work_def length_vec_remove split: prod.splits)

lemma flow_step_ends_work:
  assumes "e_checks e"
  shows "if \<exists>run r fs. d_phase d = Flowing run r fs \<and> i < length (running (r_flow run))
    then work (snd (flow_step_ends ext e tr i ticks now stranded d)) < work d
    else snd (flow_step_ends ext e tr i ticks now stranded d) = d"
proof (cases "\<exists>run r fs. d_phase d = Flowing run r fs \<and> i < length (running (r_flow run))")
  case True
  then obtain run r fs where ph: "d_phase d = Flowing run r fs" and i: "i < length (running (r_flow run))" by blast
  obtain x c t where adv: "run_advance e tr ticks now stranded i (d_controller d) (d_transport d) run = (x, c, t)"
    by (metis prod_cases3)
  have "flow_work (r_flow run') < flow_work (r_flow run)" if "x = Ret (Inr run')" for run'
    using adv that i assms flow_next_work [of "r_workflow run" _ _ "r_flow run" "fst (running (r_flow run) ! i)"]
    by (auto simp: run_advance_def run_joined_def Let_def split: prod.splits exec.splits sum.splits)
  moreover have "0 < work d" using ph by (simp add: work_def)
  ultimately show ?thesis
    using ph i adv stop_work [of "d\<lparr>d_controller := c, d_transport := t\<rparr>"]
    by (cases x) (auto simp: flow_step_ends_def Let_def work_def [of "d\<lparr>d_controller := c, d_transport := t, d_phase := p\<rparr>" for p]
      work_def [of d] split: sum.splits)
next
  case False
  then show ?thesis by (auto simp: flow_step_ends_def not_less split: phase.splits)
qed

fun internal :: "event \<Rightarrow> bool" where
  "internal (Proceeds now joins) = True"
| "internal (SubmissionEnds i ticks now) = True"
| "internal (FlowStepEnds i ticks now stranded) = True"
| "internal _ = False"

lemma internal_step_work:
  assumes "dispatcher_inv (e_hash e) d" "e_checks e" "internal ev" "snd (dispatcher_step ext e tr ev d) \<noteq> d"
  shows "work (snd (dispatcher_step ext e tr ev d)) < work d"
proof (cases ev)
  case (Proceeds now joins)
  then show ?thesis using proceed_work [OF assms(1,2), of ext now joins] assms(4) by (simp split: if_splits)
next
  case (SubmissionEnds i ticks now)
  then show ?thesis using submission_ends_work [of i d e tr ticks now] assms(4) by (simp split: if_splits)
next
  case (FlowStepEnds i ticks now stranded)
  then show ?thesis using flow_step_ends_work [OF assms(2), of d i ext tr ticks now stranded] assms(4) by (simp split: if_splits)
qed (use assms in simp_all)

text \<open>A dispatcher in which nothing can happen by itself has answered everything.\<close>

lemma idle_has_answered:
  assumes inv: "dispatcher_inv (e_hash e) d" and ch: "e_checks e"
    and idle: "\<And>ev. internal ev \<Longrightarrow> snd (dispatcher_step ext e tr ev d) = d"
  shows "unanswered d = []"
proof -
  have waits: "awaits d"
    using proceed_work [OF inv ch, of ext 0 True] idle [of "Proceeds 0 True"] by (simp split: if_splits)
  have none: "d_running d = []"
    using submission_ends_work [of 0 d e tr "\<lambda>_. 0" 0] idle [of "SubmissionEnds 0 (\<lambda>_. 0) 0"]
    by (simp split: if_splits)
  have "\<nexists>run r fs. d_phase d = Flowing run r fs \<and> 0 < length (running (r_flow run))"
    using flow_step_ends_work [OF ch, of d 0 ext tr "\<lambda>_. 0" 0 "[]"] idle [of "FlowStepEnds 0 (\<lambda>_. 0) 0 []"]
    by (metis dispatcher_step.simps(6) internal.simps(3) less_irrefl)
  then show ?thesis
    using waits none inv by (auto simp: awaits_def dispatcher_inv_def unanswered_def split: phase.splits)
qed

fun effective :: "externals \<Rightarrow> env \<Rightarrow> 't transport \<Rightarrow> event list \<Rightarrow> 't dispatcher \<Rightarrow> bool" where
  "effective ext e tr [] d = True"
| "effective ext e tr (ev # evs) d =
     (internal ev \<and> snd (dispatcher_step ext e tr ev d) \<noteq> d \<and> effective ext e tr evs (snd (dispatcher_step ext e tr ev d)))"

lemma effective_bounded:
  assumes "dispatcher_inv (e_hash e) d" "e_checks e" "effective ext e tr evs d"
  shows "length evs + work (snd (dispatcher_run ext e tr evs d)) \<le> work d"
  using assms
proof (induction evs arbitrary: d)
  case (Cons ev evs)
  have "length evs + work (snd (dispatcher_run ext e tr evs (snd (dispatcher_step ext e tr ev d)))) \<le>
      work (snd (dispatcher_step ext e tr ev d))"
    using Cons.prems by (intro Cons.IH dispatcher_step_inv) simp_all
  moreover have "work (snd (dispatcher_step ext e tr ev d)) < work d"
    using Cons.prems by (intro internal_step_work) simp_all
  ultimately show ?case unfolding dispatcher_run_Cons by simp
qed simp

lemma effective_sends_nothing: "effective ext e tr evs d \<Longrightarrow> concat (map sent evs) = []"
proof (induction evs arbitrary: d)
  case (Cons ev evs)
  then show ?case by (cases ev) auto
qed simp

lemma dispatcher_run_append:
  "dispatcher_run ext e tr (xs @ ys) d =
     (fst (dispatcher_run ext e tr xs d) @ fst (dispatcher_run ext e tr ys (snd (dispatcher_run ext e tr xs d))),
      snd (dispatcher_run ext e tr ys (snd (dispatcher_run ext e tr xs d))))"
  by (induction xs arbitrary: d) (simp_all split: prod.splits)


section \<open>Concrete histories\<close>

definition quiet_dispatcher :: "unit dispatcher" where
  "quiet_dispatcher = run_dispatcher_concurrent (controller_new catalog_new) () mesh_state_new queue_new 1"

lemma quiet_controller_inv: "controller_inv hash (controller_new catalog_new)"
  by (simp add: controller_inv_def controller_new_def inv_intros) (simp add: store_new_def)

text \<open>Two submissions with room for one in flight: the second waits for the first to end.\<close>

definition two_submissions :: "event list" where
  "two_submissions =
     [Sends (SubmitTask small_task None) 1, Sends (SubmitTask small_task None) 2, Sends (RunWorkflow (sample_flow [[]]) None) 3] @
     replicate 12 (Proceeds 0 False)"

theorem every_command_is_answered_once_witness:
  "\<exists>outs d. dispatcher_run sample_externals plain_env half_dead two_submissions quiet_dispatcher = (outs, d) \<and>
     mset (map fst outs) + mset (unanswered d) = {#1, 2, 3#} \<and> length (d_running d) \<le> 1"
proof -
  obtain outs d where run: "dispatcher_run sample_externals plain_env half_dead two_submissions quiet_dispatcher = (outs, d)" by fastforce
  have "entries queue_new = []" by (simp add: queue_new_def)
  from every_command_is_answered_once [OF run [unfolded quiet_dispatcher_def] quiet_controller_inv this]
  have "mset (map fst outs) + mset (unanswered d) = mset (concat (map sent two_submissions)) \<and> length (d_running d) \<le> 1"
    by simp
  moreover have "concat (map sent two_submissions) = [1, 2, 3]" by (simp add: two_submissions_def numeral_eq_Suc)
  ultimately show ?thesis using run by auto
qed

definition asked :: "unit dispatcher" where
  "asked = snd (dispatcher_run sample_externals plain_env half_dead [Sends AskStats 4] quiet_dispatcher)"

abbreviation three_turns where
  "three_turns \<equiv> replicate 3 (Proceeds 0 False)"

lemmas turn_simps = quiet_dispatcher_def run_dispatcher_concurrent_def proceed_def admit_def choose_next_def expire_eq
  queue_new_def numeral_3_eq_3 asked_def Let_def

lemma asked_turns:
  "effective sample_externals plain_env half_dead three_turns asked"
  "awaits (snd (dispatcher_run sample_externals plain_env half_dead three_turns asked))"
  "d_running (snd (dispatcher_run sample_externals plain_env half_dead three_turns asked)) = []"
  "d_phase (snd (dispatcher_run sample_externals plain_env half_dead three_turns asked)) = AtTop"
  by (auto simp: turn_simps awaits_def dest: arg_cong [of _ _ d_phase])


text \<open>Commands, reads among them, are not looked at while a workflow runs or a permit is awaited.\<close>

lemma reads_wait_for_work:
  assumes "d_phase d = Flowing run k fs \<and> running (r_flow run) \<noteq> [] \<or> d_phase d = Holding v \<and> d_limit d \<le> length (d_running d)"
  shows "proceed ext e now joins (snd (dispatcher_step ext e tr (Sends ListNodes r) d)) =
    ([], snd (dispatcher_step ext e tr (Sends ListNodes r) d))"
  using assms by (auto simp: proceed_def)

text \<open>
  A command that arrived while a workflow ran is dropped unanswered when the last sender is
  gone by the time the workflow ends and nothing is queued.
\<close>

lemma late_command_is_dropped:
  assumes "d_phase d = Flows []" "entries (d_queue d) = []" "d_flows d = []" "d_running d = []" "d_inbox d = [(command, r)]"
    "d_senders_gone d"
  shows "fst (dispatcher_run ext e tr [Proceeds now joins, Proceeds later joins] d) = [(r, None)]"
  using assms by (simp add: proceed_def choose_next_def expire_eq stop_def unanswered_def Let_def)

end
