(* ===== verification/ClientCall.thy ===== *)
theory ClientCall
  imports ClientApi
begin

text \<open>
  The client half of the client protocol (crates/aether-controller/src/connection.rs). A
  connection is the bytes that have arrived and not been read, the bytes sent, and whether
  the controller has hung up; a call is told which bytes arrive before its deadline. A read
  that finds too few bytes takes what is there and waits: it ends with the deadline, or with
  an error when the controller has hung up. Opening the socket is not modelled.
\<close>

datatype connection_error =
    Connect string
  | CallTimeout string duration
  | CallIo
  | CallJson string
  | CallFrameTooLarge nat
  | RefusedBy string
  | Unexpected string string

record submit_options =
  o_inputs :: "data_id list"
  o_constraints :: "string list"
  o_priority :: priority
  o_timeout :: "duration option"
  o_module :: "data_id option"

definition options_default :: submit_options where
  "options_default = \<lparr>o_inputs = [], o_constraints = [], o_priority = Normal, o_timeout = None, o_module = None\<rparr>"

definition options_reading :: "data_id list \<Rightarrow> submit_options" where
  "options_reading ins = options_default\<lparr>o_inputs := ins\<rparr>"

definition options_with_priority :: "submit_options \<Rightarrow> priority \<Rightarrow> submit_options" where
  "options_with_priority opts p = opts\<lparr>o_priority := p\<rparr>"

definition options_with_constraints :: "submit_options \<Rightarrow> string list \<Rightarrow> submit_options" where
  "options_with_constraints opts cs = opts\<lparr>o_constraints := cs\<rparr>"

definition options_with_timeout :: "submit_options \<Rightarrow> duration \<Rightarrow> submit_options" where
  "options_with_timeout opts d = opts\<lparr>o_timeout := Some d\<rparr>"

definition options_running :: "submit_options \<Rightarrow> data_id \<Rightarrow> submit_options" where
  "options_running opts m = opts\<lparr>o_module := Some m\<rparr>"

record connection =
  k_in :: bytes
  k_out :: bytes
  k_hung_up :: bool
  k_addr :: string
  k_timeout :: duration

record json =
  put_request :: "client_request \<Rightarrow> string + bytes"
  get_request :: "bytes \<Rightarrow> string + client_request"
  put_response :: "client_response \<Rightarrow> string + bytes"
  get_response :: "bytes \<Rightarrow> string + client_response"

section \<open>One exchange\<close>

definition not_there :: "connection \<Rightarrow> connection_error" where
  "not_there k = (if k_hung_up k then CallIo else CallTimeout (k_addr k) (k_timeout k))"

definition exchange ::
    "json \<Rightarrow> client_request \<Rightarrow> bytes \<Rightarrow> connection \<Rightarrow> (connection_error + client_response) \<times> connection" where
  "exchange j q arriving k =
     (case put_request j q of
        Inl e \<Rightarrow> (Inl (CallJson e), k)
      | Inr body \<Rightarrow>
          (let k1 = k\<lparr>k_out := k_out k @ to_be_bytes (length body) @ body\<rparr> in
           case read_exact 4 (k_in k @ arriving) of
             (None, rest) \<Rightarrow> (Inl (not_there k), k1\<lparr>k_in := rest\<rparr>)
           | (Some header, rest) \<Rightarrow>
               (let size = from_be_bytes header in
                if MAX_CLIENT_FRAME_BYTES < size then (Inl (CallFrameTooLarge size), k1\<lparr>k_in := rest\<rparr>)
                else case read_exact size rest of
                       (None, rest1) \<Rightarrow> (Inl (not_there k), k1\<lparr>k_in := rest1\<rparr>)
                     | (Some frame, rest1) \<Rightarrow>
                         (case get_response j frame of
                            Inl e \<Rightarrow> (Inl (CallJson e), k1\<lparr>k_in := rest1\<rparr>)
                          | Inr resp \<Rightarrow> (Inr resp, k1\<lparr>k_in := rest1\<rparr>)))))"

fun name_of :: "client_response \<Rightarrow> string" where
  "name_of (Welcome _) = ''welcome''"
| "name_of (Published _ _) = ''published''"
| "name_of (ResultResponse _ _ _ _ _ _) = ''result''"
| "name_of (NodesResponse _) = ''nodes''"
| "name_of (StatsResponse _) = ''stats''"
| "name_of (WorkflowResponse _ _ _ _) = ''workflow''"
| "name_of (RecentResponse _) = ''recent''"
| "name_of (ErrorResponse _) = ''error''"

fun refusal :: "client_response \<Rightarrow> string \<Rightarrow> connection_error" where
  "refusal (ErrorResponse msg) expected = RefusedBy msg"
| "refusal other expected = Unexpected expected (name_of other)"

section \<open>The calls\<close>

record finished_call =
  fc_node_id :: string
  fc_success :: bool
  fc_output :: bytes
  fc_duration_ms :: fl
  fc_error :: "string option"

definition connect :: "json \<Rightarrow> string option \<Rightarrow> bytes \<Rightarrow> connection \<Rightarrow> (connection_error + unit) \<times> connection" where
  "connect j token arriving k =
     (case exchange j (Hello token) arriving k of
        (Inl e, k1) \<Rightarrow> (Inl e, k1)
      | (Inr (Welcome _), k1) \<Rightarrow> (Inr (), k1)
      | (Inr other, k1) \<Rightarrow> (Inl (refusal other ''welcome''), k1))"

text \<open>The id in an answer is parsed, so a malformed one may panic.\<close>

definition call_publish ::
    "externals \<Rightarrow> json \<Rightarrow> bytes \<Rightarrow> bytes \<Rightarrow> connection \<Rightarrow> (connection_error + data_id \<times> nat) exec \<times> connection" where
  "call_publish ext j bs arriving k =
     (case exchange j (PublishRequest (b64_encode ext bs)) arriving k of
        (Inl e, k1) \<Rightarrow> (Ret (Inl e), k1)
      | (Inr (Published i n), k1) \<Rightarrow>
          (case data_id_from_str i of
             Panic \<Rightarrow> (Panic, k1)
           | Ret (Inl _) \<Rightarrow> (Ret (Inl (RefusedBy (''bad data id '' @ i))), k1)
           | Ret (Inr x) \<Rightarrow> (Ret (Inr (x, n)), k1))
      | (Inr other, k1) \<Rightarrow> (Ret (Inl (refusal other ''published'')), k1))"

definition submit_request :: "externals \<Rightarrow> string \<Rightarrow> bytes \<Rightarrow> submit_options \<Rightarrow> client_request" where
  "submit_request ext kind bs opts =
     SubmitRequest \<lparr>ws_kind = kind, ws_payload = b64_encode ext bs, ws_inputs = map data_id_display (o_inputs opts),
       ws_constraints = o_constraints opts, ws_priority = Some (priority_as_str (o_priority opts)),
       ws_module = map_option data_id_display (o_module opts), ws_depends_on = []\<rparr>
       (map_option (\<lambda>d. as_millis d mod 2 ^ 64) (o_timeout opts))"

definition call_submit ::
    "externals \<Rightarrow> json \<Rightarrow> string \<Rightarrow> bytes \<Rightarrow> submit_options \<Rightarrow> bytes \<Rightarrow> connection \<Rightarrow>
     (connection_error + finished_call) \<times> connection" where
  "call_submit ext j kind bs opts arriving k =
     (case exchange j (submit_request ext kind bs opts) arriving k of
        (Inl e, k1) \<Rightarrow> (Inl e, k1)
      | (Inr (ResultResponse _ n ok out ms err), k1) \<Rightarrow>
          (case b64_decode ext out of
             Inl e \<Rightarrow> (Inl (RefusedBy e), k1)
           | Inr x \<Rightarrow> (Inr \<lparr>fc_node_id = n, fc_success = ok, fc_output = x, fc_duration_ms = ms, fc_error = err\<rparr>, k1))
      | (Inr other, k1) \<Rightarrow> (Inl (refusal other ''result''), k1))"

definition call_nodes :: "json \<Rightarrow> bytes \<Rightarrow> connection \<Rightarrow> (connection_error + node_summary list) \<times> connection" where
  "call_nodes j arriving k =
     (case exchange j NodesRequest arriving k of
        (Inl e, k1) \<Rightarrow> (Inl e, k1)
      | (Inr (NodesResponse ns), k1) \<Rightarrow> (Inr ns, k1)
      | (Inr other, k1) \<Rightarrow> (Inl (refusal other ''nodes''), k1))"

definition call_recent :: "json \<Rightarrow> nat \<Rightarrow> bytes \<Rightarrow> connection \<Rightarrow> (connection_error + finished_task list) \<times> connection" where
  "call_recent j n arriving k =
     (case exchange j (RecentRequest (Some n)) arriving k of
        (Inl e, k1) \<Rightarrow> (Inl e, k1)
      | (Inr (RecentResponse ts), k1) \<Rightarrow> (Inr ts, k1)
      | (Inr other, k1) \<Rightarrow> (Inl (refusal other ''recent''), k1))"

definition call_stats :: "json \<Rightarrow> bytes \<Rightarrow> connection \<Rightarrow> (connection_error + mesh_stats) \<times> connection" where
  "call_stats j arriving k =
     (case exchange j StatsRequest arriving k of
        (Inl e, k1) \<Rightarrow> (Inl e, k1)
      | (Inr (StatsResponse s), k1) \<Rightarrow> (Inr s, k1)
      | (Inr other, k1) \<Rightarrow> (Inl (refusal other ''stats''), k1))"

section \<open>Properties\<close>

text \<open>Hypotheses on base64 and JSON: what is written reads back.\<close>

definition faithful :: "externals \<Rightarrow> json \<Rightarrow> bool" where
  "faithful ext j =
     ((\<forall>bs. b64_decode ext (b64_encode ext bs) = Inr bs) \<and>
      (\<forall>q body. put_request j q = Inr body \<longrightarrow> get_request j body = Inr q) \<and>
      (\<forall>r body. put_response j r = Inr body \<longrightarrow> get_response j body = Inr r))"

lemma collect_all_display:
  assumes "\<forall>i \<in> set ids. data_id_wf i"
  shows "collect_all parse_data_id (map data_id_display ids) = Ret (Inr ids)"
  using assms by (induction ids) (simp_all add: parse_data_id_def data_id_roundtrip_wf)

text \<open>The task a submission asks for.\<close>

definition asked_task :: "task_id \<Rightarrow> string \<Rightarrow> bytes \<Rightarrow> submit_options \<Rightarrow> constraint list \<Rightarrow> task" where
  "asked_task i kind bs opts cs =
     with_priority (with_constraints (with_inputs
       (case o_module opts of None \<Rightarrow> task_new i kind bs | Some m \<Rightarrow> task_wasm i m bs) (o_inputs opts)) cs) (o_priority opts)"

lemma submit_request_builds:
  assumes "\<And>bs. b64_decode ext (b64_encode ext bs) = Inr bs"
    and "\<forall>i \<in> set (o_inputs opts) \<union> set_option (o_module opts). data_id_wf i"
    and "collect_all parse_constraint (o_constraints opts) = Ret (Inr cs)"
  shows "request_command ext fresh fresh_flow (submit_request ext kind bs opts) =
    Ret (Inr (SubmitTask (asked_task (fresh 0) kind bs opts cs)
      (map_option (\<lambda>d. from_millis (as_millis d mod 2 ^ 64)) (o_timeout opts))))"
proof -
  have "build_task ext (fresh 0) \<lparr>ws_kind = kind, ws_payload = b64_encode ext bs, ws_inputs = map data_id_display (o_inputs opts),
       ws_constraints = o_constraints opts, ws_priority = Some (priority_as_str (o_priority opts)),
       ws_module = map_option data_id_display (o_module opts), ws_depends_on = []\<rparr> =
     Ret (Inr (asked_task (fresh 0) kind bs opts cs))"
    using assms collect_all_display [of "o_inputs opts"]
    by (auto simp: build_task_def decode_payload_def parse_priority_def priority_roundtrip_each parse_data_id_def
        data_id_roundtrip_wf asked_task_def Let_def split: option.splits)
  then show ?thesis by (simp add: submit_request_def request_command_def option.map_comp comp_def)
qed

lemma exchange_reply:
  assumes "put_request j q = Inr body" "get_response j reply = Inr r" "length reply \<le> MAX_CLIENT_FRAME_BYTES" "k_in k = []"
  shows "exchange j q (to_be_bytes (length reply) @ reply @ later) k =
    (Inr r, k\<lparr>k_out := k_out k @ to_be_bytes (length body) @ body, k_in := later\<rparr>)"
proof -
  have "length reply < 2 ^ 32" using assms(3) by (simp add: MAX_CLIENT_FRAME_BYTES_def)
  then show ?thesis
    using assms be_bytes_round_trip [of "length reply"] by (simp add: exchange_def read_exact_def Let_def)
qed


text \<open>An encoding of bytes as characters, and JSON that knows one request and one response.\<close>

definition char_externals :: externals where
  "char_externals = \<lparr>b64_encode = map (\<lambda>b. char_of (unat b)), b64_decode = (\<lambda>s. Inr (map (\<lambda>c. of_nat (of_char c)) s)),
     show_uuid = (\<lambda>_. ''n''), show_io = [], show_join = []\<rparr>"

definition single_json :: "client_request \<Rightarrow> client_response \<Rightarrow> json" where
  "single_json q r =
     \<lparr>put_request = (\<lambda>x. if x = q then Inr [1] else Inl ''no''), get_request = (\<lambda>b. if b = [1] then Inr q else Inl ''no''),
      put_response = (\<lambda>x. if x = r then Inr [2] else Inl ''no''), get_response = (\<lambda>b. if b = [2] then Inr r else Inl ''no'')\<rparr>"

lemma char_externals_faithful: "faithful char_externals (single_json q r)"
proof -
  have byte: "(of_nat (unat b mod 256) :: 8 word) = b" for b :: "8 word"
  proof -
    have "unat b < 256" by (rule less_le_trans [OF unsigned_less]) simp
    then show ?thesis by simp
  qed
  show ?thesis
    by (auto simp: faithful_def char_externals_def single_json_def comp_def byte split: if_splits)
qed

definition idle_connection :: connection where
  "idle_connection = \<lparr>k_in = [], k_out = [], k_hung_up = False, k_addr = ''a'', k_timeout = 1\<rparr>"


text \<open>
  A call that gave up leaves its request outstanding: the reply that arrives afterwards is
  returned by the next call on the connection.
\<close>

lemma late_reply_answers_next_call:
  assumes "put_request j q1 = Inr b1" "put_request j q2 = Inr b2" "get_response j reply1 = Inr r1"
    and "length reply1 \<le> MAX_CLIENT_FRAME_BYTES" "k_in k = []" "\<not> k_hung_up k"
  shows "\<exists>k1. exchange j q1 [] k = (Inl (CallTimeout (k_addr k) (k_timeout k)), k1) \<and>
    fst (exchange j q2 (to_be_bytes (length reply1) @ reply1 @ reply2) k1) = Inr r1"
proof -
  let ?k1 = "k\<lparr>k_out := k_out k @ to_be_bytes (length b1) @ b1, k_in := []\<rparr>"
  have "exchange j q1 [] k = (Inl (CallTimeout (k_addr k) (k_timeout k)), ?k1)"
    using assms by (simp add: exchange_def read_exact_def not_there_def Let_def)
  moreover have "fst (exchange j q2 (to_be_bytes (length reply1) @ reply1 @ reply2) ?k1) = Inr r1"
    using exchange_reply [OF assms(2,3,4), of ?k1 reply2] by simp
  ultimately show ?thesis by blast
qed

end
