(* ===== verification/Parsing.thy ===== *)
theory Parsing
  imports Data
begin

text \<open>
  More of the string operations of the standard library: splitting at a character, prefixes
  and suffixes, joining, and reading unsigned integers. They are used by the cloud adapters
  and by the configuration of controller and agent.
\<close>

section \<open>Splitting and joining\<close>

text \<open>\<^verbatim>\<open>str::split\<close> at a character: always at least one piece.\<close>

fun split_at :: "char \<Rightarrow> string \<Rightarrow> string list" where
  "split_at d [] = [[]]"
| "split_at d (c # cs) =
     (if c = d then [] # split_at d cs
      else case split_at d cs of [] \<Rightarrow> [[c]] | p # ps \<Rightarrow> (c # p) # ps)"

fun joined :: "string \<Rightarrow> string list \<Rightarrow> string" where
  "joined sep [] = []"
| "joined sep [x] = x"
| "joined sep (x # y # xs) = x @ sep @ joined sep (y # xs)"

definition starts_with :: "string \<Rightarrow> string \<Rightarrow> bool" where
  "starts_with p s = (take (length p) s = p)"

definition ends_with :: "string \<Rightarrow> string \<Rightarrow> bool" where
  "ends_with p s = (length p \<le> length s \<and> drop (length s - length p) s = p)"

definition strip_prefix :: "string \<Rightarrow> string \<Rightarrow> string option" where
  "strip_prefix p s = (if starts_with p s then Some (drop (length p) s) else None)"

definition strip_suffix :: "string \<Rightarrow> string \<Rightarrow> string option" where
  "strip_suffix p s = (if ends_with p s then Some (take (length s - length p) s) else None)"

definition trim_start_matches :: "char \<Rightarrow> string \<Rightarrow> string" where
  "trim_start_matches c s = dropWhile (\<lambda>x. x = c) s"

definition trim_end_matches :: "char \<Rightarrow> string \<Rightarrow> string" where
  "trim_end_matches c s = rev (dropWhile (\<lambda>x. x = c) (rev s))"

text \<open>\<^verbatim>\<open>str::replace\<close> of a single character by a text.\<close>

definition replace_char :: "char \<Rightarrow> string \<Rightarrow> string \<Rightarrow> string" where
  "replace_char c new s = concat (map (\<lambda>x. if x = c then new else [x]) s)"

section \<open>Numbers\<close>

definition is_ascii_digit :: "char \<Rightarrow> bool" where
  "is_ascii_digit c = (let n = of_char c :: nat in 48 \<le> n \<and> n \<le> 57)"

definition is_ascii_alphabetic :: "char \<Rightarrow> bool" where
  "is_ascii_alphabetic c = (let n = of_char c :: nat in 65 \<le> n \<and> n \<le> 90 \<or> 97 \<le> n \<and> n \<le> 122)"

definition digits_value :: "string \<Rightarrow> nat" where
  "digits_value s = foldl (\<lambda>acc c. acc * 10 + (of_char c - 48)) 0 s"

text \<open>
  \<^verbatim>\<open>str::parse\<close> for an unsigned integer of \<^verbatim>\<open>w\<close> bits: an optional plus sign, at least one
  digit, and a value in range.
\<close>

definition parse_uint :: "nat \<Rightarrow> string \<Rightarrow> nat option" where
  "parse_uint w s =
     (let ds = (case s of c # cs \<Rightarrow> (if c = CHR ''+'' then cs else s) | [] \<Rightarrow> []) in
      if ds = [] \<or> \<not> list_all is_ascii_digit ds \<or> 2 ^ w \<le> digits_value ds then None
      else Some (digits_value ds))"

definition zero_padded :: "nat \<Rightarrow> nat \<Rightarrow> string" where
  "zero_padded k n = replicate (k - length (nat_to_string n)) (CHR ''0'') @ nat_to_string n"

definition hex_encode :: "bytes \<Rightarrow> string" where
  "hex_encode bs = concat (map byte_hex bs)"

section \<open>Lemmas\<close>

lemma split_at_nonempty [simp]: "split_at d s \<noteq> []"
  by (induction s) (auto split: list.splits)

lemma joined_split_at: "joined [d] (split_at d s) = s"
proof (induction s)
  case (Cons c cs)
  obtain p ps where "split_at d cs = p # ps" using split_at_nonempty [of d cs] by (cases "split_at d cs") auto
  then show ?case using Cons by (cases ps) auto
qed simp

lemma split_at_none: "d \<notin> set s \<Longrightarrow> split_at d s = [s]"
  by (induction s) auto

lemma strip_suffix_Some: "strip_suffix p s = Some r \<Longrightarrow> s = r @ p"
  by (auto simp: strip_suffix_def ends_with_def split: if_splits) (metis append_take_drop_id)

lemma digits_value_append: "digits_value (xs @ [c]) = digits_value xs * 10 + (of_char c - 48)"
  by (simp add: digits_value_def)

lemma digit_char:
  fixes d :: nat
  assumes "d < 10"
  shows "is_ascii_digit (char_of (48 + d)) \<and> of_char (char_of (48 + d) :: char) = 48 + d"
  using assms by (simp add: is_ascii_digit_def Let_def of_char_of)

lemma nat_to_string_digits: "list_all is_ascii_digit (nat_to_string n) \<and> digits_value (nat_to_string n) = n \<and> nat_to_string n \<noteq> []"
proof (induction n rule: nat_to_string.induct)
  case (1 n)
  show ?case
  proof (cases "n < 10")
    case True
    then show ?thesis using digit_char [of n] by (subst (1 2 3) nat_to_string.simps) (simp add: digits_value_def)
  next
    case False
    have "digits_value (nat_to_string (n div 10) @ [char_of (48 + n mod 10)]) = n div 10 * 10 + n mod 10"
      using 1 [OF False] digit_char [of "n mod 10"] by (simp add: digits_value_append)
    then show ?thesis
      using 1 [OF False] digit_char [of "n mod 10"] False by (subst (1 2 3) nat_to_string.simps) simp
  qed
qed

lemma parse_uint_nat_to_string: "n < 2 ^ w \<Longrightarrow> parse_uint w (nat_to_string n) = Some n"
proof -
  assume n: "n < 2 ^ w"
  note d = nat_to_string_digits [of n]
  then obtain c cs where cs: "nat_to_string n = c # cs" by (cases "nat_to_string n") auto
  then have "c \<noteq> CHR ''+''" using d by (auto simp: is_ascii_digit_def)
  then show ?thesis using d n cs by (simp add: parse_uint_def)
qed

lemma parse_uint_bound: "parse_uint w s = Some n \<Longrightarrow> n < 2 ^ w"
  by (auto simp: parse_uint_def Let_def split: if_splits)

end
