(* ===== verification/SigV4.thy ===== *)
theory SigV4
  imports Parsing "HOL-Library.Multiset" "HOL-Library.List_Lexorder" "HOL-Library.Char_ord" "HOL-Library.Product_Lexorder"
begin

text \<open>
  Request signing for the AWS adapter (\<^verbatim>\<open>crates/aether-cloud/src/sigv4.rs\<close>): the calendar
  arithmetic behind the time stamp, the canonical query, the chain of keys and the headers
  that are added to a request. SHA-256 and HMAC come from other crates; they are the fields
  of the record \<^verbatim>\<open>crypto\<close>, with the error text of a key that is refused.
\<close>

section \<open>The calendar\<close>

text \<open>
  \<^verbatim>\<open>civil_from_days\<close>, on unbounded integers: the day counts that reach it are below
  \<open>2 ^ 48\<close>, so no operation leaves \<^verbatim>\<open>i64\<close>. The division is the Euclidean one for the era;
  the other operands are never negative, where \<^verbatim>\<open>/\<close> and \<^verbatim>\<open>div\<close> agree.
\<close>

definition year_of_era :: "int \<Rightarrow> int" where
  "year_of_era doe = (doe - doe div 1460 + doe div 36524 - doe div 146096) div 365"

definition civil_of_year_day :: "int \<Rightarrow> int \<Rightarrow> int \<times> int \<times> int" where
  "civil_of_year_day year doy =
     (let mp = (5 * doy + 2) div 153;
          day = doy - (153 * mp + 2) div 5 + 1;
          month = (if mp < 10 then mp + 3 else mp - 9)
      in (if month \<le> 2 then year + 1 else year, month, day))"

definition civil_from_days :: "int \<Rightarrow> int \<times> int \<times> int" where
  "civil_from_days days =
     (let z = days + 719468;
          era = z div 146097;
          doe = z mod 146097;
          yoe = year_of_era doe;
          year = yoe + era * 400;
          doy = doe - (365 * yoe + yoe div 4 - yoe div 100)
      in civil_of_year_day year doy)"

text \<open>A clock reading in nanoseconds since the epoch; one before the epoch reads as zero.\<close>

definition timestamps :: "int \<Rightarrow> string \<times> string" where
  "timestamps now =
     (let seconds = (if now < 0 then 0 else nat (now div 10 ^ 9));
          days = seconds div 86400;
          time_of_day = seconds mod 86400
      in case civil_from_days (int days) of (year, month, day) \<Rightarrow>
        let date = zero_padded 4 (nat year) @ zero_padded 2 (nat month) @ zero_padded 2 (nat day)
        in (date,
            date @ ''T'' @ zero_padded 2 (time_of_day div 3600)
              @ zero_padded 2 (time_of_day mod 3600 div 60)
              @ zero_padded 2 (time_of_day mod 60) @ ''Z''))"

section \<open>The canonical query\<close>

definition split_query :: "string \<Rightarrow> string \<times> string" where
  "split_query path = (case split_once ''?'' path of Some pq \<Rightarrow> pq | None \<Rightarrow> (path, ''''))"

definition query_pairs :: "string \<Rightarrow> (string \<times> string) list" where
  "query_pairs query =
     map (\<lambda>pair. case split_once ''='' pair of Some nv \<Rightarrow> nv | None \<Rightarrow> (pair, ''''))
       (filter (\<lambda>pair. pair \<noteq> []) (split_at (CHR ''&'') query))"

definition canonical_query :: "string \<Rightarrow> string" where
  "canonical_query query =
     (if query = [] then []
      else joined ''&'' (map (\<lambda>(name, value). name @ ''='' @ value) (sort (query_pairs query))))"

section \<open>Signing\<close>

record 'm crypto =
  sha256 :: "bytes \<Rightarrow> bytes"
  mac_new :: "bytes \<Rightarrow> string + 'm"
  mac_finish :: "'m \<Rightarrow> bytes \<Rightarrow> bytes"

record sign_request =
  sr_method :: string
  sr_host :: string
  sr_path :: string
  sr_body :: bytes
  sr_access_key_id :: string
  sr_secret_access_key :: string
  sr_session_token :: "string option"
  sr_region :: string
  sr_service :: string
  sr_timestamp :: int

definition hmac :: "'m crypto \<Rightarrow> bytes \<Rightarrow> bytes \<Rightarrow> string + bytes" where
  "hmac cr key data = (case mac_new cr key of Inl e \<Rightarrow> Inl e | Inr m \<Rightarrow> Inr (mac_finish cr m data))"

definition signing_key :: "'m crypto \<Rightarrow> string \<Rightarrow> string \<Rightarrow> string \<Rightarrow> string \<Rightarrow> string + 'm" where
  "signing_key cr secret date region service =
     (case hmac cr (str_bytes (''AWS4'' @ secret)) (str_bytes date) of Inl e \<Rightarrow> Inl e | Inr k1 \<Rightarrow>
      case hmac cr k1 (str_bytes region) of Inl e \<Rightarrow> Inl e | Inr k2 \<Rightarrow>
      case hmac cr k2 (str_bytes service) of Inl e \<Rightarrow> Inl e | Inr k3 \<Rightarrow>
      case hmac cr k3 (str_bytes ''aws4_request'') of Inl e \<Rightarrow> Inl e | Inr k4 \<Rightarrow> mac_new cr k4)"

text \<open>The headers that take part in the signature, sorted by name.\<close>

definition signed_header_list :: "'m crypto \<Rightarrow> sign_request \<Rightarrow> (string \<times> string) list" where
  "signed_header_list cr r =
     sort_key fst
       ([(''host'', sr_host r),
         (''x-amz-content-sha256'', hex_encode (sha256 cr (sr_body r))),
         (''x-amz-date'', snd (timestamps (sr_timestamp r)))]
        @ (case sr_session_token r of Some token \<Rightarrow> [(''x-amz-security-token'', token)] | None \<Rightarrow> []))"

definition nl :: string where
  "nl = [char_of (10 :: nat)]"

definition canonical_request :: "'m crypto \<Rightarrow> sign_request \<Rightarrow> string" where
  "canonical_request cr r =
     (case split_query (sr_path r) of (path, query) \<Rightarrow>
        let headers = signed_header_list cr r in
        joined nl
          [sr_method r, path, canonical_query query,
           concat (map (\<lambda>(name, value). name @ '':'' @ trim value @ nl) headers),
           joined '';'' (map fst headers),
           hex_encode (sha256 cr (sr_body r))])"

definition sign :: "'m crypto \<Rightarrow> sign_request \<Rightarrow> string + (string \<times> string) list" where
  "sign cr r =
     (case timestamps (sr_timestamp r) of (date, datetime) \<Rightarrow>
      let headers = signed_header_list cr r;
          scope = date @ ''/'' @ sr_region r @ ''/'' @ sr_service r @ ''/aws4_request'';
          string_to_sign = joined nl
            [''AWS4-HMAC-SHA256'', datetime, scope,
             hex_encode (sha256 cr (str_bytes (canonical_request cr r)))]
      in case signing_key cr (sr_secret_access_key r) date (sr_region r) (sr_service r) of
           Inl e \<Rightarrow> Inl e
         | Inr m \<Rightarrow>
             let signature = hex_encode (mac_finish cr m (str_bytes string_to_sign));
                 authorization = ''AWS4-HMAC-SHA256 Credential='' @ sr_access_key_id r @ ''/'' @ scope
                   @ '', SignedHeaders='' @ joined '';'' (map fst headers)
                   @ '', Signature='' @ signature
             in Inr (filter (\<lambda>(name, _). name \<noteq> ''host'') headers
                     @ [(''authorization'', authorization)]))"

section \<open>The reference calendar\<close>

definition is_leap :: "int \<Rightarrow> bool" where
  "is_leap y = (y mod 4 = 0 \<and> (y mod 100 \<noteq> 0 \<or> y mod 400 = 0))"

definition days_in_month :: "int \<Rightarrow> int \<Rightarrow> int" where
  "days_in_month y m =
     (if m = 2 then (if is_leap y then 29 else 28)
      else if m \<in> {4, 6, 9, 11} then 30 else 31)"

fun next_day :: "int \<times> int \<times> int \<Rightarrow> int \<times> int \<times> int" where
  "next_day (y, m, d) =
     (if d < days_in_month y m then (y, m, d + 1)
      else if m < 12 then (y, m + 1, 1) else (y + 1, 1, 1))"

definition valid_date :: "int \<times> int \<times> int \<Rightarrow> bool" where
  "valid_date = (\<lambda>(y, m, d). 1 \<le> m \<and> m \<le> 12 \<and> 1 \<le> d \<and> d \<le> days_in_month y m)"

section \<open>Years of an era\<close>

text \<open>The days of an era before its year \<^verbatim>\<open>y\<close>, years counted from the first of March.\<close>

definition era_start :: "int \<Rightarrow> int" where
  "era_start y = 365 * y + y div 4 - y div 100 + y div 400"

definition adjusted :: "int \<Rightarrow> int" where
  "adjusted doe = doe - doe div 1460 + doe div 36524 - doe div 146096"

lemma div_step:
  fixes a k :: int
  assumes "0 < k"
  shows "a div k \<le> (a + 1) div k" and "(a + 1) div k \<le> a div k + 1"
proof -
  show "a div k \<le> (a + 1) div k" using assms by (simp add: zdiv_mono1)
  have "(a + 1) div k \<le> (a + k) div k" using assms by (intro zdiv_mono1) auto
  then show "(a + 1) div k \<le> a div k + 1" using assms by (simp add: div_add_self2)
qed

lemma adjusted_step:
  assumes "0 \<le> d" "d < 146096"
  shows "adjusted d \<le> adjusted (d + 1)"
proof (cases "d = 146095")
  case False
  have "(d + 1) div 146096 = 0" "d div 146096 = 0" using assms False by auto
  moreover have "d - p + q - r \<le> d + 1 - p' + q' - r'"
    if "p' \<le> p + 1" "q \<le> q'" "r' = r" for p q r p' q' r' :: int
    using that by linarith
  ultimately show ?thesis unfolding adjusted_def by (simp only: div_step)
qed (simp add: adjusted_def)

lemma adjusted_mono:
  assumes "0 \<le> a" "a \<le> b" "b < 146097"
  shows "adjusted a \<le> adjusted b"
proof -
  have "a + int n < 146097 \<Longrightarrow> adjusted a \<le> adjusted (a + int n)" for n
  proof (induction n)
    case (Suc n)
    then show ?case using adjusted_step [of "a + int n"] assms(1) by (simp add: algebra_simps)
  qed simp
  from this [of "nat (b - a)"] show ?thesis using assms by simp
qed

lemma year_of_era_adjusted: "year_of_era d = adjusted d div 365"
  by (simp add: year_of_era_def adjusted_def)

lemma year_of_era_mono:
  "0 \<le> a \<Longrightarrow> a \<le> b \<Longrightarrow> b < 146097 \<Longrightarrow> year_of_era a \<le> year_of_era b"
  by (simp add: year_of_era_adjusted adjusted_mono zdiv_mono1)

lemma year_bounds_table:
  "list_all (\<lambda>y. year_of_era (era_start y) = y \<and> year_of_era (era_start (y + 1) - 1) = y) [0..399]"
  by code_simp

lemma era_start_step: "era_start y < era_start (y + 1)"
proof -
  have "365 * y + p - q + r < 365 * (y + 1) + p' - q' + r'"
    if "p \<le> p'" "q' \<le> q + 1" "r \<le> r'" for p q r p' q' r' :: int
    using that unfolding distrib_left by linarith
  then show ?thesis unfolding era_start_def by (simp only: div_step)
qed

lemma era_start_mono: "a \<le> b \<Longrightarrow> era_start a \<le> era_start b"
proof -
  have "era_start a \<le> era_start (a + int n)" for n
  proof (induction n)
    case (Suc n)
    then show ?case using era_start_step [of "a + int n"] by (simp add: algebra_simps)
  qed simp
  then show "a \<le> b \<Longrightarrow> era_start a \<le> era_start b" by (metis zle_iff_zadd)
qed

lemma era_start_cover:
  "0 \<le> d \<Longrightarrow> d < era_start (int n) \<Longrightarrow> \<exists>y \<ge> 0. y < int n \<and> era_start y \<le> d \<and> d < era_start (y + 1)"
proof (induction n)
  case (Suc n)
  show ?case
  proof (cases "d < era_start (int n)")
    case True
    then show ?thesis using Suc by fastforce
  next
    case False
    then show ?thesis using Suc.prems by (intro exI [of _ "int n"]) (auto simp: add.commute)
  qed
qed (simp add: era_start_def)

lemma year_of_era_correct:
  assumes "0 \<le> d" "d < 146097"
  shows "0 \<le> year_of_era d \<and> year_of_era d < 400
    \<and> era_start (year_of_era d) \<le> d \<and> d < era_start (year_of_era d + 1)"
proof -
  have "d < era_start (int 400)" using assms by (simp add: era_start_def)
  from era_start_cover [OF assms(1) this] obtain y where
    y: "0 \<le> y" "y < 400" "era_start y \<le> d" "d < era_start (y + 1)" by auto
  have e: "year_of_era (era_start y) = y" "year_of_era (era_start (y + 1) - 1) = y"
    using year_bounds_table y by (auto simp: list_all_iff)
  have "0 \<le> era_start y" using era_start_mono [of 0 y] y by (simp add: era_start_def)
  then have "y \<le> year_of_era d" using year_of_era_mono [of "era_start y" d] y e assms by simp
  moreover have "era_start (y + 1) \<le> 146097" using era_start_mono [of "y + 1" 400] y by (simp add: era_start_def)
  then have "year_of_era d \<le> y" using year_of_era_mono [of d "era_start (y + 1) - 1"] y e assms by simp
  ultimately show ?thesis using y by simp
qed

lemma div_succ:
  fixes a k :: int
  assumes "0 < k"
  shows "(a + 1) div k = a div k + (if (a + 1) mod k = 0 then 1 else 0)"
proof (cases "(a + 1) mod k = 0")
  case True
  then obtain q where q: "a + 1 = k * q" by auto
  then have "a = k * (q - 1) + (k - 1)" by (simp add: algebra_simps)
  then have "a div k = q - 1" using assms by (intro int_div_pos_eq [of _ _ _ "k - 1"]) auto
  then show ?thesis using True q assms by simp
next
  case False
  define r where "r = (a + 1) mod k"
  have r: "0 < r" "r < k" using False assms pos_mod_sign [of k "a + 1"] pos_mod_bound [of k "a + 1"]
    by (auto simp: r_def le_less)
  have "a = k * ((a + 1) div k) + (r - 1)" using mult_div_mod_eq [of k "a + 1"] unfolding r_def by linarith
  then have "a div k = (a + 1) div k" using r by (intro int_div_pos_eq [of _ _ _ "r - 1"]) auto
  then show ?thesis using False by simp
qed

lemma era_start_length:
  "era_start (y + 1) = era_start y + (if is_leap (y + 1) then 366 else 365)"
proof -
  have d: "(y + 1) mod 4 = 0" if "(y + 1) mod 100 = 0"
    using that unfolding mod_eq_0_iff_dvd by (rule dvd_trans [rotated]) simp
  have h: "(y + 1) mod 100 = 0" if "(y + 1) mod 400 = 0"
    using that unfolding mod_eq_0_iff_dvd by (rule dvd_trans [rotated]) simp
  have "365 * (y + 1) + (p + a) - (q + b) + (r + c) = (365 * y + p - q + r) + (365 + a - b + c)"
    for p q r a b c :: int
    by simp
  then have s: "era_start (y + 1) = era_start y + (365 + (if (y + 1) mod 4 = 0 then 1 else 0)
      - (if (y + 1) mod 100 = 0 then 1 else 0) + (if (y + 1) mod 400 = 0 then 1 else 0))"
    unfolding era_start_def by (simp only: div_succ zero_less_numeral)
  have "x + (365 + (if A then 1 else 0) - (if B then 1 else 0) + (if C then 1 else 0))
      = x + (if A \<and> (\<not> B \<or> C) then 366 else 365)" if "B \<Longrightarrow> A" "C \<Longrightarrow> B" for A B C and x :: int
    by (cases A; cases B; cases C) (simp_all only: if_True if_False simp_thms, use that in simp_all)
  from this [OF d h] show ?thesis unfolding s is_leap_def .
qed

lemma era_start_shift: "era_start (y + k * 400) = era_start y + k * 146097"
proof -
  have "(y + k * 400) div 4 = y div 4 + k * 100" "(y + k * 400) div 100 = y div 100 + k * 4"
    "(y + k * 400) div 400 = y div 400 + k"
    using div_mult_self1 [of 4 y "k * 100"] div_mult_self1 [of 100 y "k * 4"] div_mult_self1 [of 400 y k]
    by (simp_all add: ac_simps)
  then show ?thesis by (simp add: era_start_def algebra_simps)
qed

lemma era_year_unique:
  assumes "era_start a \<le> z" "z < era_start (a + 1)" "era_start b \<le> z" "z < era_start (b + 1)"
  shows "a = b"
  using assms era_start_mono [of "a + 1" b] era_start_mono [of "b + 1" a] by linarith

lemma civil_from_days_year:
  assumes "era_start y \<le> days + 719468" "days + 719468 < era_start (y + 1)"
  shows "civil_from_days days = civil_of_year_day y (days + 719468 - era_start y)"
proof -
  define z era doe where "z = days + 719468" and "era = z div 146097" and "doe = z mod 146097"
  have z: "z = doe + era * 146097" by (simp add: era_def doe_def)
  have doe: "0 \<le> doe" "doe < 146097" by (simp_all add: doe_def)
  define yoe where "yoe = year_of_era doe"
  note c = year_of_era_correct [OF doe, folded yoe_def]
  have s: "era_start (yoe + era * 400) = era_start yoe + era * 146097"
    "era_start (yoe + era * 400 + 1) = era_start (yoe + 1) + era * 146097"
    using era_start_shift [of yoe era] era_start_shift [of "yoe + 1" era] by (simp_all add: ac_simps)
  have y: "yoe + era * 400 = y"
    by (rule era_year_unique [of _ z]) (use c s z assms in \<open>auto simp: z_def [symmetric]\<close>)
  have "yoe div 400 = 0" using c by simp
  then have "doe - (365 * yoe + yoe div 4 - yoe div 100) = z - era_start y"
    using s(1) y z by (simp add: era_start_def [of yoe])
  then show ?thesis
    by (simp add: civil_from_days_def Let_def yoe_def doe_def era_def z_def flip: y)
qed

section \<open>Months\<close>

lemma civil_of_year_day_shift:
  "civil_of_year_day y doy = (case civil_of_year_day 0 doy of (y', m, d) \<Rightarrow> (y + y', m, d))"
  by (simp add: civil_of_year_day_def Let_def)

text \<open>Inside a year, up to the 27th of February, the formula steps as the calendar does.\<close>

lemma month_table:
  "list_all (\<lambda>doy. case civil_of_year_day 0 doy of (y, m, d) \<Rightarrow>
     (if m = 2 then d < 28 \<and> civil_of_year_day 0 (doy + 1) = (y, m, d + 1)
      else next_day (y, m, d) = civil_of_year_day 0 (doy + 1))) [0..363]"
  by code_simp

lemma next_day_shift:
  "m \<noteq> 2 \<Longrightarrow> next_day (k + y, m, d) = (case next_day (y, m, d) of (y', m', d') \<Rightarrow> (k + y', m', d'))"
  by (simp add: days_in_month_def)

lemma civil_year_step:
  assumes "0 \<le> doy" "doy \<le> 363"
  shows "next_day (civil_of_year_day y doy) = civil_of_year_day y (doy + 1)"
proof -
  obtain y' m d where c: "civil_of_year_day 0 doy = (y', m, d)" by (metis prod_cases3)
  have t: "if m = 2 then d < 28 \<and> civil_of_year_day 0 (doy + 1) = (y', m, d + 1)
      else next_day (y', m, d) = civil_of_year_day 0 (doy + 1)"
    using month_table assms c unfolding list_all_iff by (force simp: atLeastAtMost_iff)
  show ?thesis
  proof (cases "m = 2")
    case True
    then have "d < days_in_month (y + y') m" using t by (simp add: days_in_month_def)
    then show ?thesis
      using t True by (simp add: civil_of_year_day_shift [of y doy] civil_of_year_day_shift [of y "doy + 1"] c)
  next
    case False
    then show ?thesis
      using t next_day_shift [OF False, of y y' d]
      by (simp add: civil_of_year_day_shift [of y doy] civil_of_year_day_shift [of y "doy + 1"] c del: next_day.simps)
  qed
qed

lemma civil_year_end:
  "next_day (civil_of_year_day y (if is_leap (y + 1) then 365 else 364)) = civil_of_year_day (y + 1) 0"
  "is_leap (y + 1) \<Longrightarrow> next_day (civil_of_year_day y 364) = civil_of_year_day y 365"
  by (simp_all add: civil_of_year_day_def Let_def days_in_month_def)

lemma civil_from_days_step: "civil_from_days (days + 1) = next_day (civil_from_days days)"
proof -
  define z where "z = days + 719468"
  define era where "era = z div 146097"
  note c = year_of_era_correct [of "z mod 146097", simplified]
  define y where "y = year_of_era (z mod 146097) + era * 400"
  have "z = z mod 146097 + era * 146097" by (simp add: era_def)
  then have y: "era_start y \<le> z" "z < era_start (y + 1)"
    using c era_start_shift [of "year_of_era (z mod 146097)" era]
      era_start_shift [of "year_of_era (z mod 146097) + 1" era]
    by (simp_all only: y_def) (simp_all add: ac_simps)
  have len: "era_start (y + 1) = era_start y + (if is_leap (y + 1) then 366 else 365)"
    by (rule era_start_length)
  have now: "civil_from_days days = civil_of_year_day y (z - era_start y)"
    using civil_from_days_year [of y days] y by (simp add: z_def)
  show ?thesis
  proof (cases "z + 1 < era_start (y + 1)")
    case True
    have "civil_from_days (days + 1) = civil_of_year_day y (z - era_start y + 1)"
      using civil_from_days_year [of y "days + 1"] y True by (simp add: z_def algebra_simps)
    moreover have "z - era_start y \<le> 363 \<or> is_leap (y + 1) \<and> z - era_start y = 364"
      using True len by (auto split: if_splits)
    ultimately show ?thesis
      using now y civil_year_step [of "z - era_start y" y] civil_year_end(2) [of y] by auto
  next
    case False
    then have e: "z + 1 = era_start (y + 1)" using y by simp
    then have "civil_from_days (days + 1) = civil_of_year_day (y + 1) 0"
      using civil_from_days_year [of "y + 1" "days + 1"] era_start_step [of "y + 1"]
      by (simp add: z_def algebra_simps)
    moreover have "z - era_start y = (if is_leap (y + 1) then 365 else 364)"
      using e len by (simp split: if_splits)
    ultimately show ?thesis using now civil_year_end(1) [of y] by simp
  qed
qed

lemma next_day_valid: "valid_date t \<Longrightarrow> valid_date (next_day t)"
proof (cases t)
  case (fields y m d)
  have "0 < days_in_month y' m'" for y' m' by (simp add: days_in_month_def)
  then have "1 \<le> days_in_month y' m'" for y' m' by (metis int_one_le_iff_zero_less)
  then show "valid_date t \<Longrightarrow> valid_date (next_day t)" using fields by (auto simp: valid_date_def)
qed

text \<open>
  C36. The date arithmetic of the signer agrees with the calendar: the date of day n since the
  epoch is what n steps of the day-by-day calendar (month lengths, leap years by the
  Gregorian rule) reach from 1970-01-01, and it is a date that exists.
\<close>

theorem civil_from_days_calendar:
  "civil_from_days (int n) = (next_day ^^ n) (1970, 1, 1) \<and> valid_date (civil_from_days (int n))"
proof (induction n)
  case 0
  have "civil_from_days 0 = (1970, 1, 1) \<and> valid_date (1970, 1, 1)" by code_simp
  then show ?case by simp
next
  case (Suc n)
  then show ?case
    using civil_from_days_step [of "int n"] next_day_valid [of "civil_from_days (int n)"]
    by (auto simp: add.commute)
qed

section \<open>The signature\<close>

lemma canonical_query_cong:
  assumes "mset (query_pairs p) = mset (query_pairs q)"
  shows "canonical_query p = canonical_query q"
proof -
  have e: "query_pairs [] = []" by (simp add: query_pairs_def)
  have "sort (query_pairs p) = sort (query_pairs q)"
    using assms by (metis mset_sort properties_for_sort sorted_sort)
  moreover have "canonical_query r = joined ''&'' (map (\<lambda>(name, value). name @ ''='' @ value) (sort (query_pairs r)))" for r
    by (simp add: canonical_query_def e)
  ultimately show ?thesis by simp
qed

lemma query_pairs_amp: "query_pairs (p @ CHR ''&'' # q) = query_pairs p @ query_pairs q"
proof -
  have "split_at d (p @ d # q) = split_at d p @ split_at d q" for d
    by (induction p) (auto split: list.splits)
  then show ?thesis by (simp add: query_pairs_def)
qed

lemma signed_header_names:
  "map fst (signed_header_list cr r)
   = [''host'', ''x-amz-content-sha256'', ''x-amz-date'']
     @ (case sr_session_token r of Some _ \<Rightarrow> [''x-amz-security-token''] | None \<Rightarrow> [])"
proof -
  have s: "sorted [''host'', ''x-amz-content-sha256'', ''x-amz-date'', ''x-amz-security-token'']"
    by code_simp
  show ?thesis
  proof (cases "sr_session_token r")
    case None
    then have "sorted (map fst [(''host'', sr_host r),
         (''x-amz-content-sha256'', hex_encode (sha256 cr (sr_body r))),
         (''x-amz-date'', snd (timestamps (sr_timestamp r)))])" using s by simp
    then show ?thesis using None by (simp add: signed_header_list_def sorted_sort_id)
  next
    case (Some tk)
    then have "sorted (map fst ([(''host'', sr_host r),
         (''x-amz-content-sha256'', hex_encode (sha256 cr (sr_body r))),
         (''x-amz-date'', snd (timestamps (sr_timestamp r)))] @ [(''x-amz-security-token'', tk)]))" using s by simp
    then show ?thesis using Some by (simp add: signed_header_list_def sorted_sort_id)
  qed
qed

lemma canonical_request_swap:
  assumes "CHR ''?'' \<notin> set path"
  shows "canonical_request cr (r\<lparr>sr_path := path @ ''?'' @ p @ ''&'' @ q\<rparr>)
    = canonical_request cr (r\<lparr>sr_path := path @ ''?'' @ q @ ''&'' @ p\<rparr>)"
proof -
  have "split_query (path @ ''?'' @ t) = (path, t)" for t
    using split_once_char [OF assms, of t] by (simp add: split_query_def)
  moreover have "canonical_query (p @ ''&'' @ q) = canonical_query (q @ ''&'' @ p)"
    by (rule canonical_query_cong) (simp add: query_pairs_amp)
  moreover have "signed_header_list cr (r\<lparr>sr_path := t\<rparr>) = signed_header_list cr r" for t
    by (simp add: signed_header_list_def)
  ultimately show ?thesis by (simp add: canonical_request_def)
qed

text \<open>The key chain ends in a key whenever no key of it is refused.\<close>

lemma signing_key_total:
  assumes "\<And>k. \<exists>m. mac_new cr k = Inr m"
  shows "\<exists>m. signing_key cr secret date region service = Inr m"
proof -
  have "\<exists>t. hmac cr k d = Inr t" for k d using assms [of k] by (auto simp: hmac_def)
  then obtain h where "hmac cr k d = Inr (h k d)" for k d by metis
  then show ?thesis using assms by (simp add: signing_key_def)
qed

text \<open>
  A request is signed whenever no key is refused: the headers added are the content hash,
  the date, the session token when there is one, and last the authorization; the host is
  signed but not sent again. And the signature does not depend on the order of the query's
  parameters: exchanging two groups of them changes none of the headers.
\<close>

lemma sign_headers:
  assumes "\<And>k. \<exists>m. mac_new cr k = Inr m" and "CHR ''?'' \<notin> set path"
  shows "\<exists>hs. sign cr (r\<lparr>sr_path := path @ ''?'' @ p @ ''&'' @ q\<rparr>) = Inr hs
    \<and> sign cr (r\<lparr>sr_path := path @ ''?'' @ q @ ''&'' @ p\<rparr>) = Inr hs
    \<and> map fst hs = [''x-amz-content-sha256'', ''x-amz-date'']
        @ (case sr_session_token r of Some _ \<Rightarrow> [''x-amz-security-token''] | None \<Rightarrow> [])
        @ [''authorization'']"
proof -
  let ?r = "\<lambda>t. r\<lparr>sr_path := path @ ''?'' @ t\<rparr>"
  have l: "signed_header_list cr (r\<lparr>sr_path := t\<rparr>) = signed_header_list cr r" for t
    by (simp add: signed_header_list_def)
  have n: "map fst (filter (\<lambda>(name, _). name \<noteq> ''host'') (signed_header_list cr r))
      = filter (\<lambda>n. n \<noteq> ''host'') (map fst (signed_header_list cr r))"
    by (simp add: filter_map comp_def case_prod_unfold)
  have "sign cr (?r (p @ ''&'' @ q)) = sign cr (?r (q @ ''&'' @ p))"
    using canonical_request_swap [OF assms(2), where cr = cr and r = r and p = p and q = q]
    by (simp add: sign_def l Let_def case_prod_unfold split: sum.split)
  moreover obtain m where "signing_key cr (sr_secret_access_key r) (fst (timestamps (sr_timestamp r)))
      (sr_region r) (sr_service r) = Inr m" using signing_key_total [OF assms(1)] by metis
  then obtain a where "sign cr (?r (p @ ''&'' @ q))
      = Inr (filter (\<lambda>(name, _). name \<noteq> ''host'') (signed_header_list cr r) @ [(''authorization'', a)])"
    by (simp add: sign_def l Let_def case_prod_beta)
  ultimately show ?thesis using n by (simp add: signed_header_names split: option.splits)
qed

definition plain_crypto :: "bytes crypto" where
  "plain_crypto = \<lparr> sha256 = (\<lambda>b. take 2 b), mac_new = Inr, mac_finish = (\<lambda>k d. take 1 (k @ d)) \<rparr>"

end
