(* ===== verification/Http.thy ===== *)
theory Http
  imports SigV4
begin

text \<open>
  The REST client of the cloud adapters (\<^verbatim>\<open>crates/aether-cloud/src/http.rs\<close>) and the error type
  of the crate (\<^verbatim>\<open>lib.rs\<close>): building a request, one attempt, retrying with a doubling pause,
  following pages, and polling an operation until it is finished.

  The remote end is a parameter, a function from a request and the state of the remote world
  to an outcome, the time the exchange took, and the new state. Sleeping moves_on the clock by
  the pause. Reading a reply as JSON is a parameter of the calls that do it.
\<close>

section \<open>Errors\<close>

datatype cloud_error =
    UnknownResource string
  | DeployFailed string string
  | RequestError string
  | Throttled string
  | Unavailable string
  | Unauthorized string
  | NotFound string

fun cloud_error_display :: "cloud_error \<Rightarrow> string" where
  "cloud_error_display (UnknownResource r) = ''resource '' @ r @ '' is not known to this provider''"
| "cloud_error_display (DeployFailed r reason) =
     ''worker for resource '' @ r @ '' could not be deployed: '' @ reason"
| "cloud_error_display (RequestError d) = ''provider request failed: '' @ d"
| "cloud_error_display (Throttled d) = ''provider throttled the request: '' @ d"
| "cloud_error_display (Unavailable d) = ''provider is unavailable: '' @ d"
| "cloud_error_display (Unauthorized d) = ''provider rejected the credentials: '' @ d"
| "cloud_error_display (NotFound d) = ''provider has no such resource: '' @ d"

section \<open>The world a request meets\<close>

record http_request =
  rq_method :: string
  rq_url :: string
  rq_headers :: "(string \<times> string) list"
  rq_body :: "bytes option"

text \<open>
  What comes back: the exchange failed, the body could not be read after the status, or a
  status with a text.
\<close>

datatype http_outcome = SendError string | BodyError nat string | Reply nat string

type_synonym 'w service = "http_request \<Rightarrow> 'w \<Rightarrow> http_outcome \<times> duration \<times> 'w"

text \<open>The remote state, the clock (nanoseconds since the epoch) and the requests sent so far.\<close>

record 'w cloud_world =
  remote :: 'w
  now_ns :: nat
  sent :: "http_request list"

definition exchange :: "'w service \<Rightarrow> http_request \<Rightarrow> 'w cloud_world \<Rightarrow> http_outcome \<times> 'w cloud_world" where
  "exchange serve rq w =
     (case serve rq (remote w) of (outcome, took, r) \<Rightarrow>
        (outcome, w\<lparr>remote := r, now_ns := now_ns w + took, sent := sent w @ [rq]\<rparr>))"

definition sleep :: "duration \<Rightarrow> 'w cloud_world \<Rightarrow> 'w cloud_world" where
  "sleep d w = w\<lparr>now_ns := now_ns w + d\<rparr>"

section \<open>The client\<close>

definition DEFAULT_MAX_ATTEMPTS :: nat where
  "DEFAULT_MAX_ATTEMPTS = 4"

definition DEFAULT_BACKOFF :: duration where
  "DEFAULT_BACKOFF = from_millis 200"

record aws_keys =
  ak_access_key_id :: string
  ak_secret_access_key :: string
  ak_session_token :: "string option"
  ak_region :: string
  ak_service :: string

datatype credentials = Bearer string | AwsSigV4 aws_keys | NoCredentials

record http_client =
  hc_base_url :: string
  hc_credentials :: credentials
  hc_max_attempts :: nat
  hc_backoff :: duration

text \<open>
  \<^verbatim>\<open>build\<close> stands for the client builder of the HTTP library: the error text with which it
  refuses a certificate or its settings, if it does.
\<close>

definition http_client_new ::
    "(bytes option \<Rightarrow> string option) \<Rightarrow> string \<Rightarrow> credentials \<Rightarrow> bytes option \<Rightarrow> cloud_error + http_client" where
  "http_client_new build base_url cred ca =
     (case build ca of
        Some e \<Rightarrow> Inl (RequestError e)
      | None \<Rightarrow> Inr \<lparr> hc_base_url = trim_end_matches (CHR ''/'') base_url, hc_credentials = cred,
                      hc_max_attempts = DEFAULT_MAX_ATTEMPTS, hc_backoff = DEFAULT_BACKOFF \<rparr>)"

definition with_retry :: "http_client \<Rightarrow> nat \<Rightarrow> duration \<Rightarrow> http_client" where
  "with_retry hc max_attempts backoff = hc\<lparr>hc_max_attempts := max max_attempts 1, hc_backoff := backoff\<rparr>"

text \<open>The host is what follows the first scheme separator, up to the next one.\<close>

definition host_of :: "string \<Rightarrow> string" where
  "host_of base_url =
     (case split_once ''://'' base_url of
        None \<Rightarrow> base_url
      | Some (_, rest) \<Rightarrow> (case split_once ''://'' rest of None \<Rightarrow> rest | Some (h, _) \<Rightarrow> h))"

definition sigv4_headers ::
    "'m crypto \<Rightarrow> http_client \<Rightarrow> nat \<Rightarrow> string \<Rightarrow> string \<Rightarrow> bytes \<Rightarrow> cloud_error + (string \<times> string) list" where
  "sigv4_headers cr hc now verb path body =
     (case hc_credentials hc of
        AwsSigV4 k \<Rightarrow>
          (case sign cr \<lparr> sr_method = verb, sr_host = host_of (hc_base_url hc), sr_path = path,
                  sr_body = body, sr_access_key_id = ak_access_key_id k,
                  sr_secret_access_key = ak_secret_access_key k,
                  sr_session_token = ak_session_token k, sr_region = ak_region k,
                  sr_service = ak_service k, sr_timestamp = int now \<rparr> of
             Inl e \<Rightarrow> Inl (RequestError e) | Inr hs \<Rightarrow> Inr hs)
      | _ \<Rightarrow> Inr [])"

definition build_request ::
    "'m crypto \<Rightarrow> http_client \<Rightarrow> nat \<Rightarrow> string \<Rightarrow> string \<Rightarrow> bytes option \<Rightarrow> cloud_error + http_request" where
  "build_request cr hc now verb path body =
     (let url = hc_base_url hc @ ''/'' @ trim_start_matches (CHR ''/'') path;
          content = (case body of Some _ \<Rightarrow> [(''content-type'', ''application/json'')] | None \<Rightarrow> []);
          request = (\<lambda>hs. Inr \<lparr> rq_method = verb, rq_url = url, rq_headers = content @ hs, rq_body = body \<rparr>)
      in case hc_credentials hc of
           Bearer token \<Rightarrow> request [(''authorization'', ''Bearer '' @ token)]
         | AwsSigV4 _ \<Rightarrow>
             (case sigv4_headers cr hc now verb path (case body of Some b \<Rightarrow> b | None \<Rightarrow> []) of
                Inl e \<Rightarrow> Inl e | Inr hs \<Rightarrow> request hs)
         | NoCredentials \<Rightarrow> request [])"

definition status_error :: "nat \<Rightarrow> string \<Rightarrow> cloud_error" where
  "status_error status detail =
     (if status = 429 then Throttled detail
      else if status = 401 \<or> status = 403 then Unauthorized detail
      else if status = 404 then NotFound detail
      else if 500 \<le> status \<and> status \<le> 599 then Unavailable detail
      else RequestError detail)"

definition send_once ::
    "'m crypto \<Rightarrow> 'w service \<Rightarrow> http_client \<Rightarrow> string \<Rightarrow> string \<Rightarrow> bytes option \<Rightarrow> 'w cloud_world
     \<Rightarrow> (cloud_error + string) \<times> 'w cloud_world" where
  "send_once cr serve hc verb path body w =
     (case build_request cr hc (now_ns w) verb path body of
        Inl e \<Rightarrow> (Inl e, w)
      | Inr rq \<Rightarrow>
          (case exchange serve rq w of
             (SendError e, w') \<Rightarrow> (Inl (RequestError e), w')
           | (BodyError _ e, w') \<Rightarrow> (Inl (RequestError e), w')
           | (Reply status reply, w') \<Rightarrow>
               (if 200 \<le> status \<and> status < 300 then (Inr reply, w')
                else (Inl (status_error status
                        (nat_to_string status @ '' '' @ rq_url rq @ '': '' @ take 300 reply)), w'))))"

fun retryable :: "cloud_error \<Rightarrow> bool" where
  "retryable (Throttled _) = True"
| "retryable (Unavailable _) = True"
| "retryable _ = False"

text \<open>
  The loop of \<^verbatim>\<open>send\<close> with \<open>n\<close> attempts left. The pause is doubled after each sleep; the
  doubling leaves \<^verbatim>\<open>Duration\<close> only after a sleep of more than \<open>2 ^ 63\<close> seconds.
\<close>

fun send_attempts ::
    "'m crypto \<Rightarrow> 'w service \<Rightarrow> http_client \<Rightarrow> string \<Rightarrow> string \<Rightarrow> bytes option \<Rightarrow> duration \<Rightarrow> nat
     \<Rightarrow> cloud_error \<Rightarrow> 'w cloud_world \<Rightarrow> (cloud_error + string) \<times> 'w cloud_world" where
  "send_attempts cr serve hc verb path body wait 0 last_error w = (Inl last_error, w)"
| "send_attempts cr serve hc verb path body wait (Suc n) last_error w =
     (case send_once cr serve hc verb path body w of
        (Inr reply, w') \<Rightarrow> (Inr reply, w')
      | (Inl e, w') \<Rightarrow>
          (if \<not> retryable e \<or> n = 0 then (Inl e, w')
           else send_attempts cr serve hc verb path body (wait * 2) n e (sleep wait w')))"

definition send ::
    "'m crypto \<Rightarrow> 'w service \<Rightarrow> http_client \<Rightarrow> string \<Rightarrow> string \<Rightarrow> bytes option \<Rightarrow> 'w cloud_world
     \<Rightarrow> (cloud_error + string) \<times> 'w cloud_world" where
  "send cr serve hc verb path body w =
     send_attempts cr serve hc verb path body (hc_backoff hc) (hc_max_attempts hc)
       (RequestError ''no attempt was made'') w"

definition send_json ::
    "(string \<Rightarrow> string + 't) \<Rightarrow> 'm crypto \<Rightarrow> 'w service \<Rightarrow> http_client \<Rightarrow> string \<Rightarrow> string \<Rightarrow> bytes option
     \<Rightarrow> 'w cloud_world \<Rightarrow> (cloud_error + 't) \<times> 'w cloud_world" where
  "send_json from_str cr serve hc verb path body w =
     (case send cr serve hc verb path body w of
        (Inl e, w') \<Rightarrow> (Inl e, w')
      | (Inr reply, w') \<Rightarrow>
          (case from_str reply of
             Inl e \<Rightarrow> (Inl (RequestError (e @ '': '' @ take 200 reply)), w')
           | Inr t \<Rightarrow> (Inr t, w')))"

definition get_json ::
    "(string \<Rightarrow> string + 't) \<Rightarrow> 'm crypto \<Rightarrow> 'w service \<Rightarrow> http_client \<Rightarrow> string \<Rightarrow> 'w cloud_world
     \<Rightarrow> (cloud_error + 't) \<times> 'w cloud_world" where
  "get_json from_str cr serve hc path w = send_json from_str cr serve hc ''GET'' path None w"

text \<open>\<^verbatim>\<open>to_vec\<close> is the JSON serialiser.\<close>

definition post_json ::
    "('j \<Rightarrow> string + bytes) \<Rightarrow> (string \<Rightarrow> string + 't) \<Rightarrow> 'm crypto \<Rightarrow> 'w service \<Rightarrow> http_client \<Rightarrow> string
     \<Rightarrow> 'j \<Rightarrow> 'w cloud_world \<Rightarrow> (cloud_error + 't) \<times> 'w cloud_world" where
  "post_json to_vec from_str cr serve hc path body w =
     (case to_vec body of
        Inl e \<Rightarrow> (Inl (RequestError e), w)
      | Inr b \<Rightarrow> send_json from_str cr serve hc ''POST'' path (Some b) w)"

section \<open>Pages\<close>

text \<open>
  The loop of \<^verbatim>\<open>get_all_pages\<close> with \<open>n\<close> rounds left: \<^verbatim>\<open>next\<close> reads the continuation out of a
  page and \<^verbatim>\<open>apply\<close> puts it into the next path.
\<close>

fun pages_loop ::
    "(string \<Rightarrow> string + 't) \<Rightarrow> 'm crypto \<Rightarrow> 'w service \<Rightarrow> http_client \<Rightarrow> ('t \<Rightarrow> string option)
     \<Rightarrow> (string \<Rightarrow> string \<Rightarrow> string) \<Rightarrow> string \<Rightarrow> nat \<Rightarrow> string \<Rightarrow> 't list \<Rightarrow> 'w cloud_world
     \<Rightarrow> (cloud_error + 't list) \<times> 'w cloud_world" where
  "pages_loop from_str cr serve hc next_token app first_path 0 path pages w =
     (Inl (RequestError ''pagination did not terminate after 100 pages''), w)"
| "pages_loop from_str cr serve hc next_token app first_path (Suc n) path pages w =
     (case get_json from_str cr serve hc path w of
        (Inl e, w') \<Rightarrow> (Inl e, w')
      | (Inr page, w') \<Rightarrow>
          (case next_token page of
             Some token \<Rightarrow>
               (if token \<noteq> [] then
                  pages_loop from_str cr serve hc next_token app first_path n
                    (app first_path token) (pages @ [page]) w'
                else (Inr (pages @ [page]), w'))
           | None \<Rightarrow> (Inr (pages @ [page]), w')))"

definition get_all_pages ::
    "(string \<Rightarrow> string + 't) \<Rightarrow> 'm crypto \<Rightarrow> 'w service \<Rightarrow> http_client \<Rightarrow> string \<Rightarrow> ('t \<Rightarrow> string option)
     \<Rightarrow> (string \<Rightarrow> string \<Rightarrow> string) \<Rightarrow> 'w cloud_world \<Rightarrow> (cloud_error + 't list) \<times> 'w cloud_world" where
  "get_all_pages from_str cr serve hc first_path next_token app w =
     pages_loop from_str cr serve hc next_token app first_path 100 first_path [] w"

section \<open>Polling\<close>

text \<open>\<^verbatim>\<open>Debug\<close> of a \<^verbatim>\<open>Duration\<close>: the largest unit with a whole part, the rest as a fraction.\<close>

definition fmt_decimal :: "nat \<Rightarrow> nat \<Rightarrow> nat \<Rightarrow> string" where
  "fmt_decimal whole rest places =
     (let fraction = trim_end_matches (CHR ''0'') (zero_padded places rest) in
      nat_to_string whole @ (if rest = 0 then [] else ''.'' @ fraction))"

definition duration_debug :: "duration \<Rightarrow> string" where
  "duration_debug d =
     (if 10 ^ 9 \<le> d then fmt_decimal (d div 10 ^ 9) (d mod 10 ^ 9) 9 @ ''s''
      else if 10 ^ 6 \<le> d then fmt_decimal (d div 10 ^ 6) (d mod 10 ^ 6) 6 @ ''ms''
      else if 10 ^ 3 \<le> d then fmt_decimal (d div 10 ^ 3) (d mod 10 ^ 3) 3 @ [char_of (181 :: nat)] @ ''s''
      else nat_to_string d @ ''ns'')"

text \<open>
  The loop of \<^verbatim>\<open>poll_until\<close>. It need not end when the interval is zero and the exchanges take
  no time, so the result is optional: \<^verbatim>\<open>None\<close> is a loop that runs for ever.
\<close>

partial_function (option) poll_loop ::
    "(string \<Rightarrow> string + 't) \<Rightarrow> 'm crypto \<Rightarrow> 'w service \<Rightarrow> http_client \<Rightarrow> string \<Rightarrow> ('t \<Rightarrow> bool) \<Rightarrow> duration
     \<Rightarrow> duration \<Rightarrow> nat \<Rightarrow> 'w cloud_world \<Rightarrow> ((cloud_error + 't) \<times> 'w cloud_world) option" where
  "poll_loop from_str cr serve hc path finished interval deadline started w =
     (case get_json from_str cr serve hc path w of
        (Inl e, w') \<Rightarrow> Some (Inl e, w')
      | (Inr state, w') \<Rightarrow>
          (if finished state then Some (Inr state, w')
           else if deadline \<le> now_ns w' - started then
             Some (Inl (RequestError (path @ '' did not finish within '' @ duration_debug deadline)), w')
           else poll_loop from_str cr serve hc path finished interval deadline started (sleep interval w')))"

definition poll_until ::
    "(string \<Rightarrow> string + 't) \<Rightarrow> 'm crypto \<Rightarrow> 'w service \<Rightarrow> http_client \<Rightarrow> string \<Rightarrow> ('t \<Rightarrow> bool) \<Rightarrow> duration
     \<Rightarrow> duration \<Rightarrow> 'w cloud_world \<Rightarrow> ((cloud_error + 't) \<times> 'w cloud_world) option" where
  "poll_until from_str cr serve hc path finished interval deadline w =
     poll_loop from_str cr serve hc path finished interval deadline (now_ns w) w"

declare poll_loop.simps [code]

section \<open>Retrying\<close>

definition retry_again :: "(cloud_error + string) \<times> 'w cloud_world \<Rightarrow> bool" where
  "retry_again r = (case fst r of Inl e \<Rightarrow> retryable e | Inr _ \<Rightarrow> False)"

text \<open>The world in which attempt \<open>i\<close> starts when all attempts before it are to be repeated.\<close>

fun attempt_world ::
    "'m crypto \<Rightarrow> 'w service \<Rightarrow> http_client \<Rightarrow> string \<Rightarrow> string \<Rightarrow> bytes option \<Rightarrow> duration
     \<Rightarrow> 'w cloud_world \<Rightarrow> nat \<Rightarrow> 'w cloud_world" where
  "attempt_world cr serve hc verb path body pause w 0 = w"
| "attempt_world cr serve hc verb path body pause w (Suc i) =
     sleep (pause * 2 ^ i)
       (snd (send_once cr serve hc verb path body (attempt_world cr serve hc verb path body pause w i)))"

lemma attempt_world_shift:
  "attempt_world cr serve hc verb path body (pause * 2)
     (sleep pause (snd (send_once cr serve hc verb path body w))) i
   = attempt_world cr serve hc verb path body pause w (Suc i)"
  by (induction i) (simp_all add: mult.assoc)

lemma send_attempts_chain:
  "\<exists>k \<le> n. send_attempts cr serve hc verb path body pause (Suc n) e0 w
       = send_once cr serve hc verb path body (attempt_world cr serve hc verb path body pause w k)
     \<and> (\<forall>i < k. retry_again (send_once cr serve hc verb path body
           (attempt_world cr serve hc verb path body pause w i)))
     \<and> (k = n \<or> \<not> retry_again (send_once cr serve hc verb path body
           (attempt_world cr serve hc verb path body pause w k)))"
proof (induction n arbitrary: pause e0 w)
  case 0
  show ?case
    by (rule exI [of _ 0]) (auto split: prod.splits sum.splits)
next
  case (Suc n)
  let ?once = "send_once cr serve hc verb path body"
  let ?at = "attempt_world cr serve hc verb path body pause w"
  show ?case
  proof (cases "retry_again (?once w)")
    case False
    then have "send_attempts cr serve hc verb path body pause (Suc (Suc n)) e0 w = ?once (?at 0)"
      by (auto simp: retry_again_def split: prod.splits sum.splits)
    then show ?thesis using False by (intro exI [of _ 0]) simp
  next
    case True
    then obtain e w' where o: "?once w = (Inl e, w')" "retryable e"
      by (cases "?once w") (auto simp: retry_again_def split: sum.splits)
    have step: "send_attempts cr serve hc verb path body pause (Suc (Suc n)) e0 w
        = send_attempts cr serve hc verb path body (pause * 2) (Suc n) e (sleep pause (snd (?once w)))"
      using o by simp
    obtain k where k: "k \<le> n"
      "send_attempts cr serve hc verb path body (pause * 2) (Suc n) e (sleep pause (snd (?once w)))
         = ?once (?at (Suc k))"
      "\<forall>i < k. retry_again (?once (?at (Suc i)))" "k = n \<or> \<not> retry_again (?once (?at (Suc k)))"
      using Suc.IH [of "pause * 2" e "sleep pause (snd (?once w))"] unfolding attempt_world_shift by blast
    have "\<forall>i < Suc k. retry_again (?once (?at i))"
      using k(3) True less_Suc_eq_0_disj by auto
    then show ?thesis using step k by (intro exI [of _ "Suc k"]) simp
  qed
qed

lemma send_once_world:
  "now_ns w \<le> now_ns (snd (send_once cr serve hc verb path body w))
   \<and> length (sent (snd (send_once cr serve hc verb path body w))) \<le> Suc (length (sent w))"
  by (auto simp: send_once_def exchange_def split: sum.splits prod.splits http_outcome.splits)

lemma send_attempts_world:
  "now_ns w \<le> now_ns (snd (send_attempts cr serve hc verb path body pause n e w))
   \<and> length (sent (snd (send_attempts cr serve hc verb path body pause n e w))) \<le> length (sent w) + n"
proof (induction n arbitrary: pause e w)
  case (Suc n)
  obtain r w' where o: "send_once cr serve hc verb path body w = (r, w')" by fastforce
  then have w': "now_ns w \<le> now_ns w'" "length (sent w') \<le> Suc (length (sent w))"
    using send_once_world [of w cr serve hc verb path body] by simp_all
  show ?case
  proof (cases r)
    case (Inl e')
    then show ?thesis using o w' Suc.IH [of "sleep pause w'" "pause * 2" e'] by (auto simp: sleep_def)
  qed (use o w' in auto)
qed simp

text \<open>One bound serves every operation that sends once: it is the clock and the attempts of \<^verbatim>\<open>send\<close>.\<close>

definition moves_on :: "nat \<Rightarrow> 'w cloud_world \<Rightarrow> 'w cloud_world \<Rightarrow> bool" where
  "moves_on k w w' = (now_ns w \<le> now_ns w' \<and> length (sent w') \<le> length (sent w) + k)"

lemma moves_on_refl [simp]: "moves_on k w w"
  by (simp add: moves_on_def)

lemma moves_on_trans: "moves_on j u v \<Longrightarrow> moves_on k v w \<Longrightarrow> moves_on (j + k) u w"
  by (simp add: moves_on_def)

lemma moves_on_mono: "moves_on j u v \<Longrightarrow> j \<le> k \<Longrightarrow> moves_on k u v"
  by (simp add: moves_on_def)

lemma moves_on_sleep: "moves_on k u v \<Longrightarrow> moves_on k u (sleep d v)"
  by (simp add: moves_on_def sleep_def)

lemma send_moves_on: "moves_on (hc_max_attempts hc) w (snd (send cr serve hc verb path body w))"
  using send_attempts_world by (simp add: moves_on_def send_def)

lemma send_json_moves_on:
  "moves_on (hc_max_attempts hc) w (snd (send_json from_str cr serve hc verb path body w))"
  using send_moves_on [of hc w cr serve verb path body]
  by (auto simp: send_json_def split: prod.splits sum.splits)

lemma get_json_moves_on: "moves_on (hc_max_attempts hc) w (snd (get_json from_str cr serve hc path w))"
  by (simp add: get_json_def send_json_moves_on)

lemma post_json_moves_on:
  "moves_on (hc_max_attempts hc) w (snd (post_json to_vec from_str cr serve hc path body w))"
  by (simp add: post_json_def send_json_moves_on split: sum.splits)

section \<open>Polling ends\<close>

lemma rounds_step:
  fixes r r' i :: nat
  assumes "0 < i" "0 < r" "r' + i \<le> r \<or> r' = 0"
  shows "Suc ((r' + i - 1) div i) \<le> (r + i - 1) div i"
proof (cases "r' = 0")
  case True
  have "i div i \<le> (r + i - 1) div i" using assms by (intro div_le_mono) simp
  then show ?thesis using True assms by simp
next
  case False
  then have "(r' + i - 1 + i) div i \<le> (r + i - 1) div i" using assms by (intro div_le_mono) simp
  moreover have "(r' + i - 1 + i) div i = Suc ((r' + i - 1) div i)" 
    using assms(1) div_add_self2 [of i "r' + i - 1"] by simp
  ultimately show ?thesis by simp
qed

lemma poll_loop_ends:
  assumes "0 < interval" "started \<le> now_ns w"
  shows "\<exists>r w'. poll_loop from_str cr serve hc path finished interval deadline started w = Some (r, w')
    \<and> moves_on (hc_max_attempts hc * Suc ((deadline - (now_ns w - started) + interval - 1) div interval)) w w'"
  using assms(2)
proof (induction "deadline - (now_ns w - started)" arbitrary: w rule: less_induct)
  case less
  let ?A = "hc_max_attempts hc"
  let ?rounds = "\<lambda>r. (r + interval - 1) div interval"
  obtain res w1 where g: "get_json from_str cr serve hc path w = (res, w1)" by fastforce
  then have a: "moves_on ?A w w1" using get_json_moves_on [of hc w from_str cr serve path] by simp
  then have once: "moves_on (?A * Suc n) w w1" for n by (rule moves_on_mono) simp
  show ?case
  proof (cases "\<exists>st. res = Inr st \<and> \<not> finished st \<and> now_ns w1 - started < deadline")
    case False
    then show ?thesis using once g by (subst poll_loop.simps) (auto split: sum.splits)
  next
    case True
    then obtain st where st: "res = Inr st" "\<not> finished st" "now_ns w1 - started < deadline" by blast
    define w2 where "w2 = sleep interval w1"
    define r r' where "r = deadline - (now_ns w - started)" and "r' = deadline - (now_ns w2 - started)"
    have now: "now_ns w \<le> now_ns w1" using a by (simp add: moves_on_def)
    then have r: "0 < r" "r' + interval \<le> r \<or> r' = 0" "r' < r"
      using st(3) less.prems assms(1) by (auto simp: r_def r'_def w2_def sleep_def)
    have s2: "started \<le> now_ns w2" using less.prems now by (simp add: w2_def sleep_def)
    obtain x w3 where l: "poll_loop from_str cr serve hc path finished interval deadline started w2 = Some (x, w3)"
      and b: "moves_on (?A * Suc (?rounds r')) w2 w3"
      using less.hyps [of w2] r(3) s2 by (auto simp: r_def r'_def)
    have "poll_loop from_str cr serve hc path finished interval deadline started w = Some (x, w3)"
      using g st l by (subst poll_loop.simps) (simp add: w2_def)
    moreover have "moves_on (?A + ?A * Suc (?rounds r')) w w3"
      using moves_on_trans [OF moves_on_sleep [OF a] b [unfolded w2_def]] .
    then have "moves_on (?A * Suc (?rounds r)) w w3"
      by (rule moves_on_mono) (use rounds_step [OF assms(1) r(1,2)] in \<open>simp flip: mult_Suc_right\<close>)
    ultimately show ?thesis by (auto simp: r_def)
  qed
qed

section \<open>Pages\<close>

definition page_path ::
    "('t \<Rightarrow> string option) \<Rightarrow> (string \<Rightarrow> string \<Rightarrow> string) \<Rightarrow> string \<Rightarrow> 't list \<Rightarrow> nat \<Rightarrow> string" where
  "page_path next_token app first_path pages i =
     (if i = 0 then first_path else app first_path (the (next_token (pages ! (i - 1)))))"

definition continues :: "('t \<Rightarrow> string option) \<Rightarrow> 't \<Rightarrow> bool" where
  "continues next_token page = (case next_token page of Some token \<Rightarrow> token \<noteq> [] | None \<Rightarrow> False)"

text \<open>What the loop has gathered: each page came from its own path, and each asked for another.\<close>

definition gathered ::
    "(string \<Rightarrow> string + 't) \<Rightarrow> 'm crypto \<Rightarrow> 'w service \<Rightarrow> http_client \<Rightarrow> ('t \<Rightarrow> string option)
     \<Rightarrow> (string \<Rightarrow> string \<Rightarrow> string) \<Rightarrow> string \<Rightarrow> 't list \<Rightarrow> bool" where
  "gathered from_str cr serve hc next_token app first_path pages =
     (\<forall>i < length pages. \<exists>v v'. get_json from_str cr serve hc
        (page_path next_token app first_path pages i) v = (Inr (pages ! i), v'))"

lemma gathered_snoc:
  assumes "gathered from_str cr serve hc next_token app first_path pages"
    and "get_json from_str cr serve hc (page_path next_token app first_path pages (length pages)) v = (Inr page, v')"
  shows "gathered from_str cr serve hc next_token app first_path (pages @ [page])"
proof -
  have "page_path next_token app first_path (pages @ [page]) i = page_path next_token app first_path pages i"
    if "i \<le> length pages" for i
    using that by (auto simp: page_path_def nth_append)
  then show ?thesis using assms by (auto simp: gathered_def nth_append less_Suc_eq)
qed

lemma pages_loop_moves_on:
  "moves_on (n * hc_max_attempts hc) w (snd (pages_loop from_str cr serve hc next_token app first_path n path pages w))"
proof (induction n arbitrary: path pages w)
  case (Suc n)
  obtain res w1 where g: "get_json from_str cr serve hc path w = (res, w1)" by fastforce
  then have a: "moves_on (hc_max_attempts hc) w w1" using get_json_moves_on [of hc w from_str cr serve path] by simp
  then have one: "moves_on (Suc n * hc_max_attempts hc) w w1" by (rule moves_on_mono) simp
  show ?case
    using g one moves_on_trans [OF a Suc.IH] by (auto split: sum.splits option.splits)
qed simp

lemma pages_loop_gathers:
  assumes "pages_loop from_str cr serve hc next_token app first_path n path pages w = (Inr result, w')"
    and "gathered from_str cr serve hc next_token app first_path pages"
    and "path = page_path next_token app first_path pages (length pages)"
    and "list_all (continues next_token) pages"
  shows "gathered from_str cr serve hc next_token app first_path result
    \<and> result \<noteq> [] \<and> length result \<le> length pages + n
    \<and> list_all (continues next_token) (butlast result) \<and> \<not> continues next_token (last result)"
  using assms
proof (induction n arbitrary: path pages w)
  case (Suc n)
  obtain page w1 where g: "get_json from_str cr serve hc path w = (Inr page, w1)"
    using Suc.prems(1) by (cases "get_json from_str cr serve hc path w") (auto split: sum.splits)
  have s: "gathered from_str cr serve hc next_token app first_path (pages @ [page])"
    using gathered_snoc [OF Suc.prems(2)] g Suc.prems(3) by simp
  show ?case
  proof (cases "continues next_token page")
    case False
    then have "result = pages @ [page]"
      using Suc.prems(1) g by (auto simp: continues_def split: option.splits if_splits)
    then show ?thesis using s False Suc.prems(4) by simp
  next
    case True
    then obtain token where t: "next_token page = Some token" "token \<noteq> []"
      by (auto simp: continues_def split: option.splits)
    have "app first_path token = page_path next_token app first_path (pages @ [page]) (length (pages @ [page]))"
      using t by (simp add: page_path_def)
    then show ?thesis
      using Suc.IH [of "app first_path token" "pages @ [page]" w1] Suc.prems(1,4) g s t True by auto
  qed
qed simp

section \<open>Properties\<close>

text \<open>
  Sending is a chain of attempts, at most as many as configured: each attempt but the last
  was throttled or met a server error, the pause before attempt i + 1 is the configured one
  times 2 ^ i, and the last one is the configured last or one whose answer is not to be
  repeated; its answer is the result.
\<close>

lemma send_retries:
  assumes "0 < hc_max_attempts hc"
  shows "\<exists>k < hc_max_attempts hc.
      send cr serve hc verb path body w
        = send_once cr serve hc verb path body (attempt_world cr serve hc verb path body (hc_backoff hc) w k)
    \<and> (\<forall>i < k. retry_again (send_once cr serve hc verb path body
          (attempt_world cr serve hc verb path body (hc_backoff hc) w i)))
    \<and> (Suc k = hc_max_attempts hc \<or> \<not> retry_again (send_once cr serve hc verb path body
          (attempt_world cr serve hc verb path body (hc_backoff hc) w k)))
    \<and> length (sent (snd (send cr serve hc verb path body w))) \<le> length (sent w) + hc_max_attempts hc"
proof -
  obtain n where n: "hc_max_attempts hc = Suc n" using assms gr0_conv_Suc by blast
  have "length (sent (snd (send cr serve hc verb path body w))) \<le> length (sent w) + hc_max_attempts hc"
    using send_moves_on [of hc w cr serve verb path body] by (simp add: moves_on_def)
  then show ?thesis
    using send_attempts_chain [of n cr serve hc verb path body "hc_backoff hc"] n
    by (fastforce simp: send_def less_Suc_eq_le simp del: send_attempts.simps)
qed

definition busy_service :: "nat service" where
  "busy_service rq n = (if n = 0 then Reply 200 ''ok'' else Reply 503 ''busy'', 0, n - 1)"

definition sample_client :: http_client where
  "sample_client = \<lparr> hc_base_url = ''http://h'', hc_credentials = NoCredentials,
     hc_max_attempts = 4, hc_backoff = 5 \<rparr>"

definition sample_world :: "nat \<Rightarrow> nat cloud_world" where
  "sample_world n = \<lparr> remote = n, now_ns = 0, sent = [] \<rparr>"

text \<open>
  Polling ends: with a positive interval the loop returns, whatever the remote end answers
  and however long it takes, after at most two more rounds than the interval fits into the
  deadline.
\<close>

lemma poll_until_ends:
  assumes "0 < interval"
  shows "\<exists>r w'. poll_until from_str cr serve hc path finished interval deadline w = Some (r, w')
    \<and> length (sent w') \<le> length (sent w) + hc_max_attempts hc * (deadline div interval + 2)"
proof -
  obtain r w' where l: "poll_until from_str cr serve hc path finished interval deadline w = Some (r, w')"
    and b: "moves_on (hc_max_attempts hc * Suc ((deadline + interval - 1) div interval)) w w'"
    using poll_loop_ends [OF assms le_refl, of from_str cr serve hc path finished deadline w]
    unfolding poll_until_def diff_self_eq_0 diff_zero by blast
  have "(deadline + interval - 1) div interval \<le> (deadline + interval) div interval" by (simp add: div_le_mono)
  then have "Suc ((deadline + interval - 1) div interval) \<le> deadline div interval + 2"
    using assms by (simp add: div_add_self2 del: One_nat_def)
  then have "moves_on (hc_max_attempts hc * (deadline div interval + 2)) w w'"
    by (intro moves_on_mono [OF b] mult_le_mono2)
  then show ?thesis using l by (auto simp: moves_on_def)
qed

text \<open>
  Following pages: a result is the whole chain of pages, each read from the path that the
  page before it named, every page but the last asking for another and the last not; and the
  loop gives up after a hundred pages, so it never asks more often than a hundred times the
  attempts of one request.
\<close>

lemma get_all_pages_chain:
  "(case fst (get_all_pages from_str cr serve hc first_path next_token app w) of
      Inl _ \<Rightarrow> True
    | Inr pages \<Rightarrow> pages \<noteq> [] \<and> length pages \<le> 100
        \<and> gathered from_str cr serve hc next_token app first_path pages
        \<and> list_all (continues next_token) (butlast pages) \<and> \<not> continues next_token (last pages))
   \<and> length (sent (snd (get_all_pages from_str cr serve hc first_path next_token app w)))
       \<le> length (sent w) + 100 * hc_max_attempts hc"
proof -
  have "gathered from_str cr serve hc next_token app first_path []" by (simp add: gathered_def)
  then have "gathered from_str cr serve hc next_token app first_path pages \<and> pages \<noteq> [] \<and> length pages \<le> 100
      \<and> list_all (continues next_token) (butlast pages) \<and> \<not> continues next_token (last pages)"
    if "get_all_pages from_str cr serve hc first_path next_token app w = (Inr pages, w')" for pages w'
    using pages_loop_gathers [OF that [unfolded get_all_pages_def]] by (simp add: page_path_def)
  then show ?thesis
    using pages_loop_moves_on [of 100 hc w from_str cr serve next_token app first_path first_path "[]"]
    by (cases "get_all_pages from_str cr serve hc first_path next_token app w")
      (auto simp: get_all_pages_def moves_on_def split: sum.splits)
qed

end
