(* ===== verification/Cloud.thy ===== *)
theory Cloud
  imports Http Node "HOL-Library.AList"
begin

text \<open>
  Where nodes come from: the data and the provider interface of the cloud crate
  (\<^verbatim>\<open>crates/aether-cloud/src/lib.rs\<close>), and the two providers that talk to no cloud, the fixed
  list of machines (\<^verbatim>\<open>static.rs\<close>) and the local processes (\<^verbatim>\<open>process.rs\<close>). The trait
  \<^verbatim>\<open>CloudProvider\<close> is the locale \<^verbatim>\<open>cloud_provider\<close>; every provider interprets it.
\<close>

section \<open>Data\<close>

record cloud_resource =
  rs_id :: string
  rs_region :: string
  rs_class :: string
  rs_cpu_cores :: nat
  rs_memory_bytes :: nat
  rs_hourly_cost :: "fl option"
  rs_labels :: labels

definition cloud_resource_new :: "string \<Rightarrow> string \<Rightarrow> nat \<Rightarrow> cloud_resource" where
  "cloud_resource_new i region cores =
     \<lparr> rs_id = i, rs_region = region, rs_class = ''default'', rs_cpu_cores = cores,
       rs_memory_bytes = 0, rs_hourly_cost = None, rs_labels = Map.empty \<rparr>"

definition with_class :: "cloud_resource \<Rightarrow> string \<Rightarrow> cloud_resource" where
  "with_class r c = r\<lparr>rs_class := c\<rparr>"

definition with_memory :: "cloud_resource \<Rightarrow> nat \<Rightarrow> cloud_resource" where
  "with_memory r m = r\<lparr>rs_memory_bytes := m\<rparr>"

definition with_hourly_cost :: "cloud_resource \<Rightarrow> fl \<Rightarrow> cloud_resource" where
  "with_hourly_cost r c = r\<lparr>rs_hourly_cost := Some c\<rparr>"

definition with_resource_label :: "cloud_resource \<Rightarrow> string \<Rightarrow> string \<Rightarrow> cloud_resource" where
  "with_resource_label r k v = r\<lparr>rs_labels := (rs_labels r)(k \<mapsto> v)\<rparr>"

record deployed_worker =
  dw_node_id :: node_id
  dw_resource_id :: string
  dw_address :: string

record worker_spec =
  controller_address :: string
  heartbeat_secs :: nat

definition worker_spec_new :: "string \<Rightarrow> worker_spec" where
  "worker_spec_new addr = \<lparr> controller_address = addr, heartbeat_secs = 5 \<rparr>"

section \<open>The provider interface\<close>

text \<open>
  A call threads the provider \<^verbatim>\<open>'p\<close> and the world \<^verbatim>\<open>'w\<close> outside it. The identity that
  \<^verbatim>\<open>NodeId::generate\<close> draws for a deployment is an argument. A call that never returns is
  \<^verbatim>\<open>None\<close>.
\<close>

type_synonym ('p, 'w) deploy_op =
  "'p \<Rightarrow> node_id \<Rightarrow> string \<Rightarrow> worker_spec \<Rightarrow> 'w \<Rightarrow> ((cloud_error + deployed_worker) \<times> 'p \<times> 'w) option"

type_synonym ('p, 'w) metrics_op =
  "'p \<Rightarrow> node_id \<Rightarrow> 'w \<Rightarrow> (cloud_error + node_metrics) \<times> 'p \<times> 'w"

text \<open>A sequence of deployments, as the scaling loop asks for them.\<close>

fun deploy_all ::
    "('p, 'w) deploy_op \<Rightarrow> 'p \<Rightarrow> (node_id \<times> string \<times> worker_spec) list \<Rightarrow> 'w
     \<Rightarrow> ((cloud_error + deployed_worker) list \<times> 'p \<times> 'w) option" where
  "deploy_all deploy p [] w = Some ([], p, w)"
| "deploy_all deploy p ((n, r, spec) # reqs) w =
     (case deploy p n r spec w of
        None \<Rightarrow> None
      | Some (x, p1, w1) \<Rightarrow> map_option (\<lambda>(xs, pw). (x # xs, pw)) (deploy_all deploy p1 reqs w1))"

definition granted :: "(node_id \<times> string \<times> worker_spec) list \<Rightarrow> (cloud_error + deployed_worker) list \<Rightarrow> node_id \<Rightarrow> bool" where
  "granted reqs answers n = list_ex (\<lambda>(req, a). fst req = n \<and> (case a of Inr _ \<Rightarrow> True | Inl _ \<Rightarrow> False)) (zip reqs answers)"

locale cloud_provider =
  fixes deploy :: "('p, 'w) deploy_op"
    and get_metrics :: "('p, 'w) metrics_op"
    and known :: "'p \<Rightarrow> node_id \<Rightarrow> bool"
    and show_id :: "node_id \<Rightarrow> string"
  assumes deploy_returns: "\<exists>x. deploy p n r spec w = Some x"
    and deploy_done: "deploy p n r spec w = Some (Inr d, p', w') \<Longrightarrow>
          dw_node_id d = n \<and> dw_address d = controller_address spec \<and> (\<forall>m. known p' m \<longleftrightarrow> known p m \<or> m = n)"
    and deploy_refused: "deploy p n r spec w = Some (Inl e, p', w') \<Longrightarrow> known p' = known p"
    and metrics_known: "fst (get_metrics p n w) = Inl (UnknownResource (show_id n)) \<longleftrightarrow> \<not> known p n"
begin

lemma deploy_all_known:
  "\<exists>xs p' w'. deploy_all deploy p reqs w = Some (xs, p', w') \<and> length xs = length reqs
    \<and> (\<forall>m. known p' m \<longleftrightarrow> known p m \<or> granted reqs xs m)"
proof (induction reqs arbitrary: p w)
  case (Cons req reqs)
  obtain n r spec where req: "req = (n, r, spec)" by (cases req)
  obtain x p1 w1 where d: "deploy p n r spec w = Some (x, p1, w1)"
    using deploy_returns [of p n r spec w] by fastforce
  from Cons.IH [of p1 w1] obtain xs p' w' where
    IH: "deploy_all deploy p1 reqs w1 = Some (xs, p', w')" "length xs = length reqs"
      "\<forall>m. known p' m \<longleftrightarrow> known p1 m \<or> granted reqs xs m" by blast
  have "known p1 m \<longleftrightarrow> known p m \<or> (n = m \<and> (case x of Inr _ \<Rightarrow> True | Inl _ \<Rightarrow> False))" for m
    using d deploy_done deploy_refused by (cases x) fastforce+
  then show ?case using IH d req by (auto simp: granted_def)
qed (simp add: granted_def)

text \<open>A provider answers for exactly the workers it deployed.\<close>

lemma metrics_after_deploys:
  assumes "\<And>m. \<not> known p m"
  shows "\<exists>xs p' w'. deploy_all deploy p reqs w = Some (xs, p', w') \<and> length xs = length reqs
    \<and> (\<forall>n v. fst (get_metrics p' n v) = Inl (UnknownResource (show_id n)) \<longleftrightarrow> \<not> granted reqs xs n)"
  using deploy_all_known [of p reqs w] assms metrics_known by metis

end

section \<open>A fixed list of machines\<close>

record static_provider =
  sp_name :: string
  sp_resources :: "cloud_resource list"
  sp_workers :: "(node_id, deployed_worker) hashmap"
  sp_metrics :: "(node_id, node_metrics) hashmap"

definition static_new :: "string \<Rightarrow> cloud_resource list \<Rightarrow> static_provider" where
  "static_new name resources =
     \<lparr> sp_name = name, sp_resources = resources, sp_workers = [], sp_metrics = [] \<rparr>"

definition static_set_metrics :: "static_provider \<Rightarrow> node_id \<Rightarrow> node_metrics \<Rightarrow> static_provider" where
  "static_set_metrics p n m = p\<lparr>sp_metrics := AList.update n m (sp_metrics p)\<rparr>"

definition static_workers :: "static_provider \<Rightarrow> deployed_worker list" where
  "static_workers p = map snd (sp_workers p)"

definition static_discover :: "static_provider \<Rightarrow> cloud_error + cloud_resource list" where
  "static_discover p = Inr (sp_resources p)"

definition static_deploy ::
    "static_provider \<Rightarrow> node_id \<Rightarrow> string \<Rightarrow> worker_spec \<Rightarrow> (cloud_error + deployed_worker) \<times> static_provider" where
  "static_deploy p fresh resource_id spec =
     (case find (\<lambda>r. rs_id r = resource_id) (sp_resources p) of
        None \<Rightarrow> (Inl (UnknownResource resource_id), p)
      | Some r \<Rightarrow>
          let worker = \<lparr> dw_node_id = fresh, dw_resource_id = rs_id r, dw_address = controller_address spec \<rparr>
          in (Inr worker, p\<lparr>sp_workers := AList.update fresh worker (sp_workers p)\<rparr>))"

definition static_get_metrics :: "(node_id \<Rightarrow> string) \<Rightarrow> static_provider \<Rightarrow> node_id \<Rightarrow> cloud_error + node_metrics" where
  "static_get_metrics show_id p n =
     (if map_of (sp_workers p) n = None then Inl (UnknownResource (show_id n))
      else Inr (case map_of (sp_metrics p) n of Some m \<Rightarrow> m | None \<Rightarrow> metrics_default))"

interpretation static_cloud: cloud_provider
  "\<lambda>p n r spec w. Some (case static_deploy p n r spec of (x, p') \<Rightarrow> (x, p', w))"
  "\<lambda>p n w. (static_get_metrics show_id p n, p, w)"
  "\<lambda>p n. map_of (sp_workers p) n \<noteq> None" show_id for show_id
  by unfold_locales
    (auto simp: static_deploy_def static_get_metrics_def update_conv Let_def split: option.splits if_splits)

section \<open>Local processes\<close>

text \<open>
  What the provider asks of the operating system: the number of processors, a directory, a
  child process, whether it still runs, and an end to it. A child is of any type \<^verbatim>\<open>'c\<close>; exit
  states and errors are their texts.
\<close>

record command =
  cmd_program :: string
  cmd_args :: "string list"

record ('c, 'w) os =
  os_parallelism :: "nat option"
  os_create_dir_all :: "string \<Rightarrow> 'w \<Rightarrow> string option \<times> 'w"
  os_spawn :: "command \<Rightarrow> 'w \<Rightarrow> (string + 'c) \<times> 'w"
  os_try_wait :: "'c \<Rightarrow> 'w \<Rightarrow> (string + string option) \<times> 'w"
  os_kill :: "'c \<Rightarrow> 'w \<Rightarrow> string option \<times> 'w"

record 'c process_provider =
  pp_name :: string
  pp_agent_path :: string
  pp_state_dir :: string
  pp_slots :: nat
  pp_workers :: "(node_id, deployed_worker) hashmap"
  pp_processes :: "(node_id, 'c) hashmap"

definition process_new :: "string \<Rightarrow> string \<Rightarrow> string \<Rightarrow> nat \<Rightarrow> 'c process_provider" where
  "process_new name agent_path state_dir slots =
     \<lparr> pp_name = name, pp_agent_path = agent_path, pp_state_dir = state_dir, pp_slots = max slots 1,
       pp_workers = [], pp_processes = [] \<rparr>"

text \<open>After a child was killed it is waited for; the outcome of that is ignored.\<close>

definition process_stop ::
    "('c, 'w) os \<Rightarrow> (node_id \<Rightarrow> string) \<Rightarrow> 'c process_provider \<Rightarrow> node_id \<Rightarrow> 'w
     \<Rightarrow> (cloud_error + unit) \<times> 'c process_provider \<times> 'w" where
  "process_stop os show_id p n w =
     (case map_of (pp_processes p) n of
        None \<Rightarrow> (Inl (UnknownResource (show_id n)), p, w)
      | Some child \<Rightarrow>
          let p' = p\<lparr>pp_processes := AList.delete n (pp_processes p), pp_workers := AList.delete n (pp_workers p)\<rparr>
          in case os_kill os child w of
               (Some e, w') \<Rightarrow> (Inl (RequestError e), p', w')
             | (None, w') \<Rightarrow> (Inr (), p', w'))"

definition process_running :: "'c process_provider \<Rightarrow> nat" where
  "process_running p = length (pp_processes p)"

text \<open>Dropping the provider kills every child still in the map.\<close>

fun process_drop :: "('c, 'w) os \<Rightarrow> (node_id, 'c) hashmap \<Rightarrow> 'w \<Rightarrow> 'w" where
  "process_drop os [] w = w"
| "process_drop os ((n, child) # rest) w = process_drop os rest (snd (os_kill os child w))"

definition process_discover :: "('c, 'w) os \<Rightarrow> 'c process_provider \<Rightarrow> cloud_error + cloud_resource list" where
  "process_discover os p =
     (let cores = (case os_parallelism os of Some c \<Rightarrow> c | None \<Rightarrow> 1) in
      Inr (map (\<lambda>slot. with_resource_label (with_class
             (cloud_resource_new (''slot-'' @ nat_to_string slot) ''local'' (max cores 1)) ''process'')
             ''provider'' ''process'') [0..<pp_slots p]))"

definition path_join :: "string \<Rightarrow> string \<Rightarrow> string" where
  "path_join base name =
     (if starts_with ''/'' name then name
      else if base = [] \<or> ends_with ''/'' base then base @ name
      else base @ ''/'' @ name)"

definition process_deploy ::
    "('c, 'w) os \<Rightarrow> 'c process_provider \<Rightarrow> node_id \<Rightarrow> string \<Rightarrow> worker_spec \<Rightarrow> 'w
     \<Rightarrow> (cloud_error + deployed_worker) \<times> 'c process_provider \<times> 'w" where
  "process_deploy os p fresh resource_id spec w =
     (if \<not> starts_with ''slot-'' resource_id then (Inl (UnknownResource resource_id), p, w)
      else case os_create_dir_all os (pp_state_dir p) w of
        (Some e, w1) \<Rightarrow> (Inl (DeployFailed resource_id e), p, w1)
      | (None, w1) \<Rightarrow>
          let identity_path = path_join (pp_state_dir p) (resource_id @ ''-node-id'');
              cmd = \<lparr> cmd_program = pp_agent_path p,
                cmd_args = [''--controller'', controller_address spec, ''--heartbeat-secs'',
                            nat_to_string (heartbeat_secs spec), ''--identity-path'', identity_path] \<rparr>
          in case os_spawn os cmd w1 of
               (Inl e, w2) \<Rightarrow> (Inl (DeployFailed resource_id (pp_agent_path p @ '': '' @ e)), p, w2)
             | (Inr child, w2) \<Rightarrow>
                 let worker = \<lparr> dw_node_id = fresh, dw_resource_id = resource_id,
                                dw_address = controller_address spec \<rparr>
                 in (Inr worker,
                     p\<lparr>pp_processes := AList.update fresh child (pp_processes p),
                       pp_workers := AList.update fresh worker (pp_workers p)\<rparr>, w2))"

definition process_get_metrics ::
    "('c, 'w) os \<Rightarrow> (node_id \<Rightarrow> string) \<Rightarrow> 'c process_provider \<Rightarrow> node_id \<Rightarrow> 'w
     \<Rightarrow> (cloud_error + node_metrics) \<times> 'w" where
  "process_get_metrics os show_id p n w =
     (case map_of (pp_processes p) n of
        None \<Rightarrow> (Inl (UnknownResource (show_id n)), w)
      | Some child \<Rightarrow>
          (case os_try_wait os child w of
             (Inr (Some status), w') \<Rightarrow> (Inl (RequestError (''worker exited: '' @ status)), w')
           | (Inr None, w') \<Rightarrow> (Inr metrics_default, w')
           | (Inl e, w') \<Rightarrow> (Inl (RequestError e), w')))"

interpretation process_cloud: cloud_provider
  "\<lambda>p n r spec w. Some (process_deploy os p n r spec w)"
  "\<lambda>p n w. case process_get_metrics os show_id p n w of (x, w') \<Rightarrow> (x, p, w')"
  "\<lambda>p n. map_of (pp_processes p) n \<noteq> None" show_id for os show_id
  by unfold_locales
    (auto simp: process_deploy_def process_get_metrics_def update_conv Let_def
       split: option.splits if_splits prod.splits sum.splits)

section \<open>Processes and workers\<close>

text \<open>The two maps of the process provider name the same workers, each once.\<close>

definition process_inv :: "'c process_provider \<Rightarrow> bool" where
  "process_inv p = (map fst (pp_workers p) = map fst (pp_processes p) \<and> distinct (map fst (pp_processes p))
     \<and> list_all (\<lambda>(n, w). dw_node_id w = n) (pp_workers p))"

lemma map_fst_update: "map fst xs = map fst ys \<Longrightarrow> map fst (AList.update k u xs) = map fst (AList.update k v ys)"
  by (simp add: AList.update_keys)

lemma map_fst_delete: "map fst xs = map fst ys \<Longrightarrow> map fst (AList.delete k xs) = map fst (AList.delete k ys)"
  by (simp add: AList.delete_keys)

lemma process_new_inv: "process_inv (process_new name agent dir slots)"
  by (simp add: process_inv_def process_new_def)

lemma worker_keys_update:
  "list_all (\<lambda>(n, w). dw_node_id w = n) xs \<Longrightarrow> dw_node_id v = k
   \<Longrightarrow> list_all (\<lambda>(n, w). dw_node_id w = n) (AList.update k v xs)"
  by (induction xs) auto

lemma process_deploy_inv:
  assumes "process_inv p"
  shows "process_inv (fst (snd (process_deploy os p n r spec w)))"
  using assms
  by (auto simp: process_deploy_def process_inv_def Let_def map_fst_update distinct_update worker_keys_update
      split: prod.splits option.splits sum.splits intro: map_fst_update)

lemma worker_keys_delete:
  "list_all (\<lambda>(n, w). dw_node_id w = n) xs \<Longrightarrow> list_all (\<lambda>(n, w). dw_node_id w = n) (AList.delete k xs)"
  by (simp add: list_all_iff AList.delete_eq)

lemma process_stop_inv:
  assumes "process_inv p"
  shows "process_inv (fst (snd (process_stop os show_id p n w)))"
proof -
  have "process_inv (p\<lparr>pp_processes := AList.delete n (pp_processes p), pp_workers := AList.delete n (pp_workers p)\<rparr>)"
    using assms map_fst_delete [of "pp_workers p" "pp_processes p" n]
    by (simp add: process_inv_def AList.distinct_delete worker_keys_delete)
  then show ?thesis using assms by (simp add: process_stop_def Let_def split: option.split prod.split)
qed

lemma process_deploy_running:
  assumes "process_deploy os p n r spec w = (Inr d, p', w')" and "map_of (pp_processes p) n = None"
  shows "process_running p' = Suc (process_running p)"
proof -
  have "length (AList.update n c xs) = Suc (length xs)" if "map_of xs n = None" for c and xs :: "(node_id \<times> 'a) list"
    using that by (induction xs) (auto split: if_splits)
  then show ?thesis
    using assms by (auto simp: process_deploy_def process_running_def Let_def
        split: prod.splits option.splits sum.splits if_splits)
qed

text \<open>
  The number of slots is not looked at when a worker is deployed, and a slot may be given out
  twice: both agents are then started with the same identity file.
\<close>

definition log_os :: "(nat, command list) os" where
  "log_os = \<lparr> os_parallelism = Some 2, os_create_dir_all = (\<lambda>_ w. (None, w)),
     os_spawn = (\<lambda>c w. (Inr (length w), w @ [c])), os_try_wait = (\<lambda>_ w. (Inr None, w)),
     os_kill = (\<lambda>_ w. (None, w)) \<rparr>"

lemma one_slot_two_agents:
  "case process_deploy log_os (process_new ''p'' ''agent'' ''dir'' 1) (NodeId 1) ''slot-0'' (worker_spec_new ''c'') [] of
     (r1, p1, w1) \<Rightarrow>
       (case process_deploy log_os p1 (NodeId 2) ''slot-0'' (worker_spec_new ''c'') w1 of
          (r2, p2, w2) \<Rightarrow> process_running p2 = 2 \<and> length w2 = 2 \<and> w2 ! 0 = w2 ! 1)"
  by (simp add: process_deploy_def log_os_def process_new_def worker_spec_new_def starts_with_def
      path_join_def ends_with_def process_running_def Let_def)

section \<open>Properties\<close>

datatype process_op = DeployOp node_id string worker_spec | StopOp node_id

fun process_step ::
    "('c, 'w) os \<Rightarrow> (node_id \<Rightarrow> string) \<Rightarrow> 'c process_provider \<times> 'w \<Rightarrow> process_op \<Rightarrow> 'c process_provider \<times> 'w" where
  "process_step os show_id (p, w) (DeployOp n r spec) = snd (process_deploy os p n r spec w)"
| "process_step os show_id (p, w) (StopOp n) = snd (process_stop os show_id p n w)"

lemma process_step_inv:
  "process_inv (fst pw) \<Longrightarrow> process_inv (fst (process_step os show_id pw op))"
  by (cases pw; cases op) (simp_all add: process_deploy_inv process_stop_inv)

text \<open>
  C37. The state of the process provider is well formed after any sequence of deployments and
  stops, failed ones included: workers and processes name the same identities, each once, every
  worker is filed under its own identity, and so the number of running agents is the number of
  workers.
\<close>

theorem process_state_well_formed:
  "let p = fst (foldl (process_step os show_id) (process_new name agent dir slots, w) ops) in
   process_inv p \<and> process_running p = length (pp_workers p)
   \<and> (\<forall>n. map_of (pp_workers p) n = None \<longleftrightarrow> map_of (pp_processes p) n = None)"
proof -
  define pw where "pw = foldl (process_step os show_id) (process_new name agent dir slots, w) ops"
  have "process_inv (fst (foldl (process_step os show_id) pw0 ops))" if "process_inv (fst pw0)" for pw0
    using that by (induction ops arbitrary: pw0) (simp_all add: process_step_inv)
  then have i: "process_inv (fst pw)" by (simp add: pw_def process_new_inv)
  then have e: "map fst (pp_workers (fst pw)) = map fst (pp_processes (fst pw))" by (simp add: process_inv_def)
  have "process_running (fst pw) = length (pp_workers (fst pw))"
    using arg_cong [OF e, of length] by (simp add: process_running_def)
  moreover have "map_of (pp_workers (fst pw)) n = None \<longleftrightarrow> map_of (pp_processes (fst pw)) n = None" for n
    using arg_cong [OF e, of set] by (simp add: map_of_eq_None_iff)
  ultimately show ?thesis using i unfolding pw_def by simp
qed

end
