(* ===== verification/Providers.thy ===== *)
theory Providers
  imports Cloud
begin

text \<open>
  The four providers behind a REST interface: Kubernetes, EC2, Azure and Compute Engine
  (\<^verbatim>\<open>crates/aether-cloud/src/kubernetes.rs\<close>, \<^verbatim>\<open>aws.rs\<close>, \<^verbatim>\<open>azure.rs\<close>, \<^verbatim>\<open>gcp.rs\<close>). JSON bodies are
  values of \<^verbatim>\<open>jvalue\<close>; the replies the adapters read are records with the fields the code
  declares, and reading them from a text is a parameter, as are the JSON printer, base64 and
  the text of an identity.
\<close>

section \<open>JSON and replies\<close>

datatype jvalue =
    JNull
  | JBool bool
  | JNum int
  | JStr string
  | JArr "jvalue list"
  | JObj "(string \<times> jvalue) list"

record k8s_node =
  kn_name :: string
  kn_labels :: labels
  kn_cpu :: "string option"
  kn_memory :: "string option"
  kn_phase :: "string option"
  kn_taints :: "jvalue list"
  kn_unschedulable :: bool

record node_list =
  nl_items :: "k8s_node list"
  nl_continue :: "string option"

record vm =
  vm_name :: string
  vm_location :: string
  vm_provisioning_state :: "string option"
  vm_size :: "string option"

record vm_list =
  vl_value :: "vm list"
  vl_next_link :: "string option"

record gcp_instance =
  in_name :: string
  in_machine_type :: string
  in_zone :: string
  in_status :: "string option"

record instance_list =
  il_items :: "gcp_instance list"
  il_next_page_token :: "string option"

record operation =
  op_name :: string
  op_status :: "string option"
  op_error :: "jvalue option"

text \<open>The code the adapters rely on: the remote end, cryptography, JSON, base64, identities.\<close>

record ('m, 'w) cloud_env =
  ce_crypto :: "'m crypto"
  ce_serve :: "'w service"
  ce_build :: "bytes option \<Rightarrow> string option"
  ce_to_vec :: "jvalue \<Rightarrow> string + bytes"
  ce_json_text :: "jvalue \<Rightarrow> string"
  ce_base64 :: "bytes \<Rightarrow> string"
  ce_show_id :: "node_id \<Rightarrow> string"
  ce_value :: "string \<Rightarrow> string + jvalue"
  ce_node_list :: "string \<Rightarrow> string + node_list"
  ce_node :: "string \<Rightarrow> string + k8s_node"
  ce_vm_list :: "string \<Rightarrow> string + vm_list"
  ce_vm :: "string \<Rightarrow> string + vm"
  ce_instance_list :: "string \<Rightarrow> string + instance_list"
  ce_instance :: "string \<Rightarrow> string + gcp_instance"
  ce_operation :: "string \<Rightarrow> string + operation"

type_synonym workers = "(node_id, deployed_worker) hashmap"

text \<open>
  The name of a worker carries the first eight characters of its identity; the text of an
  identity has thirty-six, all of them ASCII, so the slice is always inside it.
\<close>

definition worker_name :: "('m, 'w) cloud_env \<Rightarrow> node_id \<Rightarrow> string" where
  "worker_name env n = ''aether-agent-'' @ take 8 (ce_show_id env n)"

definition startup_script :: "string \<Rightarrow> worker_spec \<Rightarrow> string" where
  "startup_script agent_path spec =
     ''#!/bin/sh'' @ nl @ ''exec '' @ agent_path @ '' --controller '' @ controller_address spec
       @ '' --heartbeat-secs '' @ nat_to_string (heartbeat_secs spec) @ nl"

definition deploy_failed :: "string \<Rightarrow> cloud_error \<Rightarrow> cloud_error" where
  "deploy_failed resource_id e = DeployFailed resource_id (cloud_error_display e)"

text \<open>The reading of a state the three JSON providers and EC2 share: alive, gone, or not said.\<close>

definition liveness :: "string \<Rightarrow> string list \<Rightarrow> string option \<Rightarrow> cloud_error + node_metrics" where
  "liveness what alive state =
     (case state of
        Some s \<Rightarrow> (if s \<in> set alive then Inr metrics_default else Inl (RequestError (what @ '' is '' @ s)))
      | None \<Rightarrow> Inr metrics_default)"

section \<open>Kubernetes\<close>

record k8s_provider =
  k_client :: http_client
  k_namespace :: string
  k_image :: string
  k_workers :: workers

definition k8s_new ::
    "('m, 'w) cloud_env \<Rightarrow> string \<Rightarrow> string \<Rightarrow> string \<Rightarrow> string \<Rightarrow> bytes option \<Rightarrow> cloud_error + k8s_provider" where
  "k8s_new env api_url token namespace img ca =
     (case http_client_new (ce_build env) api_url (Bearer token) ca of
        Inl e \<Rightarrow> Inl e
      | Inr c \<Rightarrow> Inr \<lparr> k_client = c, k_namespace = namespace, k_image = img, k_workers = [] \<rparr>)"

definition TOKEN_PATH :: string where
  "TOKEN_PATH = ''/var/run/secrets/kubernetes.io/serviceaccount/token''"

definition CA_PATH :: string where
  "CA_PATH = ''/var/run/secrets/kubernetes.io/serviceaccount/ca.crt''"

text \<open>\<^verbatim>\<open>var\<close> reads the environment, \<^verbatim>\<open>read_text\<close> and \<^verbatim>\<open>read\<close> the file system.\<close>

definition k8s_in_cluster ::
    "('m, 'w) cloud_env \<Rightarrow> (string \<Rightarrow> string option) \<Rightarrow> (string \<Rightarrow> string + string) \<Rightarrow> (string \<Rightarrow> string + bytes)
     \<Rightarrow> string \<Rightarrow> string \<Rightarrow> cloud_error + k8s_provider" where
  "k8s_in_cluster env var read_text read namespace img =
     (case var ''KUBERNETES_SERVICE_HOST'' of
        None \<Rightarrow> Inl (RequestError ''KUBERNETES_SERVICE_HOST is not set'')
      | Some host \<Rightarrow>
          let port = (case var ''KUBERNETES_SERVICE_PORT'' of Some p \<Rightarrow> p | None \<Rightarrow> ''443'') in
          (case read_text TOKEN_PATH of
             Inl e \<Rightarrow> Inl (RequestError (TOKEN_PATH @ '': '' @ e))
           | Inr token \<Rightarrow>
               (case read CA_PATH of
                  Inl e \<Rightarrow> Inl (RequestError (CA_PATH @ '': '' @ e))
                | Inr ca \<Rightarrow> k8s_new env (''https://'' @ host @ '':'' @ port) (trim token) namespace img (Some ca))))"

definition pod_manifest :: "k8s_provider \<Rightarrow> string \<Rightarrow> worker_spec \<Rightarrow> jvalue" where
  "pod_manifest p name spec = JObj [
     (''apiVersion'', JStr ''v1''),
     (''kind'', JStr ''Pod''),
     (''metadata'', JObj [(''name'', JStr name), (''labels'', JObj [(''app'', JStr ''aether-agent'')])]),
     (''spec'', JObj [
        (''restartPolicy'', JStr ''Never''),
        (''containers'', JArr [JObj [
           (''name'', JStr ''aether-agent''),
           (''image'', JStr (k_image p)),
           (''args'', JArr [JStr ''--controller'', JStr (controller_address spec),
              JStr ''--heartbeat-secs'', JStr (nat_to_string (heartbeat_secs spec))])]])])]"

definition parse_cpu :: "string option \<Rightarrow> nat" where
  "parse_cpu v =
     (case v of
        None \<Rightarrow> 1
      | Some s \<Rightarrow>
          (case strip_suffix ''m'' s of
             Some millis \<Rightarrow> (case parse_uint 32 millis of Some m \<Rightarrow> max (m div 1000) 1 | None \<Rightarrow> 1)
           | None \<Rightarrow> (case parse_uint 32 s of Some c \<Rightarrow> c | None \<Rightarrow> 1)))"

text \<open>The product is a \<^verbatim>\<open>u64\<close>: with overflow checks a larger one is a panic.\<close>

definition parse_memory :: "string option \<Rightarrow> nat exec" where
  "parse_memory v =
     (case v of
        None \<Rightarrow> Ret 0
      | Some s \<Rightarrow>
          let (digits, multiplier) =
            (if ends_with ''Ki'' s then (take (length s - 2) s, 1024)
             else if ends_with ''Mi'' s then (take (length s - 2) s, 1024 * 1024)
             else if ends_with ''Gi'' s then (take (length s - 2) s, 1024 * 1024 * 1024)
             else (s, 1));
            n = (case parse_uint 64 digits of Some n \<Rightarrow> n | None \<Rightarrow> 0)
          in if n * multiplier < 2 ^ 64 then Ret (n * multiplier) else Panic)"

definition k8s_resource :: "k8s_node \<Rightarrow> cloud_resource exec" where
  "k8s_resource node =
     (let region = (case kn_labels node ''topology.kubernetes.io/region'' of Some r \<Rightarrow> r | None \<Rightarrow> ''unknown'');
          kind = (case kn_labels node ''node.kubernetes.io/instance-type'' of Some c \<Rightarrow> c | None \<Rightarrow> ''node'')
      in case parse_memory (kn_memory node) of
           Panic \<Rightarrow> Panic
         | Ret m \<Rightarrow> Ret (with_resource_label (with_memory (with_class
             (cloud_resource_new (kn_name node) region (parse_cpu (kn_cpu node))) kind) m)
             ''provider'' ''kubernetes''))"

fun collect_exec :: "'a exec list \<Rightarrow> 'a list exec" where
  "collect_exec [] = Ret []"
| "collect_exec (x # xs) =
     (case x of Panic \<Rightarrow> Panic | Ret a \<Rightarrow> (case collect_exec xs of Panic \<Rightarrow> Panic | Ret as \<Rightarrow> Ret (a # as)))"

definition k8s_discover ::
    "('m, 'w) cloud_env \<Rightarrow> k8s_provider \<Rightarrow> 'w cloud_world \<Rightarrow> (cloud_error + cloud_resource list) exec \<times> 'w cloud_world" where
  "k8s_discover env p w =
     (case get_all_pages (ce_node_list env) (ce_crypto env) (ce_serve env) (k_client p) ''/api/v1/nodes''
             nl_continue (\<lambda>path token. path @ ''?continue='' @ token) w of
        (Inl e, w') \<Rightarrow> (Ret (Inl e), w')
      | (Inr pages, w') \<Rightarrow>
          (case collect_exec (map k8s_resource
                  (filter (\<lambda>node. \<not> kn_unschedulable node \<and> kn_taints node = []) (concat (map nl_items pages)))) of
             Panic \<Rightarrow> (Panic, w')
           | Ret rs \<Rightarrow> (Ret (Inr rs), w')))"

definition k8s_deploy ::
    "('m, 'w) cloud_env \<Rightarrow> k8s_provider \<Rightarrow> node_id \<Rightarrow> string \<Rightarrow> worker_spec \<Rightarrow> 'w cloud_world
     \<Rightarrow> (cloud_error + deployed_worker) \<times> k8s_provider \<times> 'w cloud_world" where
  "k8s_deploy env p fresh resource_id spec w =
     (let pod_name = worker_name env fresh in
      case post_json (ce_to_vec env) (ce_value env) (ce_crypto env) (ce_serve env) (k_client p)
             (''/api/v1/namespaces/'' @ k_namespace p @ ''/pods'') (pod_manifest p pod_name spec) w of
        (Inl e, w') \<Rightarrow> (Inl (deploy_failed resource_id e), p, w')
      | (Inr _, w') \<Rightarrow>
          let worker = \<lparr> dw_node_id = fresh, dw_resource_id = pod_name, dw_address = controller_address spec \<rparr>
          in (Inr worker, p\<lparr>k_workers := AList.update fresh worker (k_workers p)\<rparr>, w'))"

definition k8s_get_metrics ::
    "('m, 'w) cloud_env \<Rightarrow> k8s_provider \<Rightarrow> node_id \<Rightarrow> 'w cloud_world \<Rightarrow> (cloud_error + node_metrics) \<times> 'w cloud_world" where
  "k8s_get_metrics env p n w =
     (case map_of (k_workers p) n of
        None \<Rightarrow> (Inl (UnknownResource (ce_show_id env n)), w)
      | Some worker \<Rightarrow>
          (case get_json (ce_node env) (ce_crypto env) (ce_serve env) (k_client p)
                  (''/api/v1/namespaces/'' @ k_namespace p @ ''/pods/'' @ dw_resource_id worker) w of
             (Inl e, w') \<Rightarrow> (Inl e, w')
           | (Inr pod, w') \<Rightarrow> (liveness ''pod'' [''Running'', ''Pending''] (kn_phase pod), w')))"

section \<open>EC2\<close>

record launch_template =
  lt_image_id :: string
  lt_instance_type :: string
  lt_agent_path :: string
  lt_subnet_id :: "string option"
  lt_security_group_id :: "string option"

definition launch_template_new :: "string \<Rightarrow> string \<Rightarrow> string \<Rightarrow> launch_template" where
  "launch_template_new img kind agent_path =
     \<lparr> lt_image_id = img, lt_instance_type = kind, lt_agent_path = agent_path, lt_subnet_id = None,
       lt_security_group_id = None \<rparr>"

definition with_subnet :: "launch_template \<Rightarrow> string \<Rightarrow> launch_template" where
  "with_subnet t s = t\<lparr>lt_subnet_id := Some s\<rparr>"

definition with_security_group :: "launch_template \<Rightarrow> string \<Rightarrow> launch_template" where
  "with_security_group t g = t\<lparr>lt_security_group_id := Some g\<rparr>"

record aws_provider =
  aws_client :: http_client
  aws_region :: string
  aws_template :: launch_template
  aws_workers :: workers

definition aws_with_endpoint ::
    "('m, 'w) cloud_env \<Rightarrow> string \<Rightarrow> string \<Rightarrow> string \<Rightarrow> string \<Rightarrow> string option \<Rightarrow> launch_template
     \<Rightarrow> cloud_error + aws_provider" where
  "aws_with_endpoint env endpoint region key_id secret session template =
     (case http_client_new (ce_build env) endpoint
             (AwsSigV4 \<lparr> ak_access_key_id = key_id, ak_secret_access_key = secret, ak_session_token = session,
                         ak_region = region, ak_service = ''ec2'' \<rparr>) None of
        Inl e \<Rightarrow> Inl e
      | Inr c \<Rightarrow> Inr \<lparr> aws_client = c, aws_region = region, aws_template = template, aws_workers = [] \<rparr>)"

definition aws_new ::
    "('m, 'w) cloud_env \<Rightarrow> string \<Rightarrow> string \<Rightarrow> string \<Rightarrow> string option \<Rightarrow> launch_template \<Rightarrow> cloud_error + aws_provider" where
  "aws_new env region key_id secret session template =
     aws_with_endpoint env (''https://ec2.'' @ region @ ''.amazonaws.com'') region key_id secret session template"

definition aws_from_env ::
    "('m, 'w) cloud_env \<Rightarrow> (string \<Rightarrow> string option) \<Rightarrow> launch_template \<Rightarrow> cloud_error + aws_provider" where
  "aws_from_env env var template =
     (case (case var ''AWS_REGION'' of Some r \<Rightarrow> Some r | None \<Rightarrow> var ''AWS_DEFAULT_REGION'') of
        None \<Rightarrow> Inl (RequestError ''AWS_REGION is not set'')
      | Some region \<Rightarrow>
          (case var ''AWS_ACCESS_KEY_ID'' of
             None \<Rightarrow> Inl (RequestError ''AWS_ACCESS_KEY_ID is not set'')
           | Some key_id \<Rightarrow>
               (case var ''AWS_SECRET_ACCESS_KEY'' of
                  None \<Rightarrow> Inl (RequestError ''AWS_SECRET_ACCESS_KEY is not set'')
                | Some secret \<Rightarrow> aws_new env region key_id secret (var ''AWS_SESSION_TOKEN'') template)))"

definition aws_user_data :: "('m, 'w) cloud_env \<Rightarrow> aws_provider \<Rightarrow> worker_spec \<Rightarrow> string" where
  "aws_user_data env p spec =
     ce_base64 env (str_bytes (startup_script (lt_agent_path (aws_template p)) spec))"

text \<open>The texts between an opening and a closing tag, left to right.\<close>

function xml_values :: "string \<Rightarrow> string \<Rightarrow> string list" where
  "xml_values xml tag =
     (case split_once (''<'' @ tag @ ''>'') xml of
        None \<Rightarrow> []
      | Some (_, after) \<Rightarrow>
          (case split_once (''</'' @ tag @ ''>'') after of
             None \<Rightarrow> []
           | Some (v, rest) \<Rightarrow> v # xml_values rest tag))"
  by auto

termination
  by (relation "measure (\<lambda>(xml, tag). length xml)") (auto dest!: split_once_Some)

declare xml_values.simps [simp del]

definition xml_value :: "string \<Rightarrow> string \<Rightarrow> string option" where
  "xml_value xml tag = (case xml_values xml tag of [] \<Rightarrow> None | v # _ \<Rightarrow> Some v)"

definition instance_items :: "string \<Rightarrow> string list" where
  "instance_items xml = concat (map (\<lambda>s. xml_values s ''item'') (xml_values xml ''instancesSet''))"

definition EC2_API_VERSION :: string where
  "EC2_API_VERSION = ''2016-11-15''"

definition aws_resource :: "aws_provider \<Rightarrow> string \<Rightarrow> cloud_resource option" where
  "aws_resource p item =
     (case xml_value item ''instanceId'' of
        None \<Rightarrow> None
      | Some i \<Rightarrow>
          let kind = (case xml_value item ''instanceType'' of Some t \<Rightarrow> t | None \<Rightarrow> ''unknown'');
              zone = (case xml_value item ''availabilityZone'' of Some z \<Rightarrow> z | None \<Rightarrow> aws_region p);
              cores = (case xml_value item ''coreCount'' of
                         Some v \<Rightarrow> (case parse_uint 32 v of Some c \<Rightarrow> c | None \<Rightarrow> 1) | None \<Rightarrow> 1)
          in Some (with_resource_label (with_resource_label (with_class (cloud_resource_new i zone cores) kind)
                ''provider'' ''aws'') ''region'' (aws_region p)))"

definition aws_discover ::
    "('m, 'w) cloud_env \<Rightarrow> aws_provider \<Rightarrow> 'w cloud_world \<Rightarrow> (cloud_error + cloud_resource list) \<times> 'w cloud_world" where
  "aws_discover env p w =
     (case send (ce_crypto env) (ce_serve env) (aws_client p) ''GET''
             (''/?Action=DescribeInstances&Version='' @ EC2_API_VERSION
               @ ''&Filter.1.Name=instance-state-name&Filter.1.Value.1=running'') None w of
        (Inl e, w') \<Rightarrow> (Inl e, w')
      | (Inr xml, w') \<Rightarrow> (Inr (List.map_filter (aws_resource p) (instance_items xml)), w'))"

definition run_instances_path :: "('m, 'w) cloud_env \<Rightarrow> aws_provider \<Rightarrow> worker_spec \<Rightarrow> string" where
  "run_instances_path env p spec =
     ''/?Action=RunInstances&Version='' @ EC2_API_VERSION @ ''&ImageId='' @ lt_image_id (aws_template p)
       @ ''&InstanceType='' @ lt_instance_type (aws_template p) @ ''&MinCount=1&MaxCount=1&UserData=''
       @ replace_char (CHR ''/'') ''%2F'' (replace_char (CHR ''='') ''%3D''
           (replace_char (CHR ''+'') ''%2B'' (aws_user_data env p spec)))
       @ (case lt_subnet_id (aws_template p) of Some s \<Rightarrow> ''&SubnetId='' @ s | None \<Rightarrow> [])
       @ (case lt_security_group_id (aws_template p) of Some g \<Rightarrow> ''&SecurityGroupId.1='' @ g | None \<Rightarrow> [])"

definition aws_deploy ::
    "('m, 'w) cloud_env \<Rightarrow> aws_provider \<Rightarrow> node_id \<Rightarrow> string \<Rightarrow> worker_spec \<Rightarrow> 'w cloud_world
     \<Rightarrow> (cloud_error + deployed_worker) \<times> aws_provider \<times> 'w cloud_world" where
  "aws_deploy env p fresh resource_id spec w =
     (case send (ce_crypto env) (ce_serve env) (aws_client p) ''GET'' (run_instances_path env p spec) None w of
        (Inl e, w') \<Rightarrow> (Inl (deploy_failed resource_id e), p, w')
      | (Inr xml, w') \<Rightarrow>
          (case xml_value xml ''instanceId'' of
             None \<Rightarrow> (Inl (DeployFailed resource_id ''RunInstances returned no instanceId''), p, w')
           | Some instance_id \<Rightarrow>
               let worker = \<lparr> dw_node_id = fresh, dw_resource_id = instance_id, dw_address = controller_address spec \<rparr>
               in (Inr worker, p\<lparr>aws_workers := AList.update fresh worker (aws_workers p)\<rparr>, w')))"

definition aws_get_metrics ::
    "('m, 'w) cloud_env \<Rightarrow> aws_provider \<Rightarrow> node_id \<Rightarrow> 'w cloud_world \<Rightarrow> (cloud_error + node_metrics) \<times> 'w cloud_world" where
  "aws_get_metrics env p n w =
     (case map_of (aws_workers p) n of
        None \<Rightarrow> (Inl (UnknownResource (ce_show_id env n)), w)
      | Some worker \<Rightarrow>
          (case send (ce_crypto env) (ce_serve env) (aws_client p) ''GET''
                  (''/?Action=DescribeInstances&Version='' @ EC2_API_VERSION @ ''&InstanceId.1=''
                    @ dw_resource_id worker) None w of
             (Inl e, w') \<Rightarrow> (Inl e, w')
           | (Inr xml, w') \<Rightarrow> (liveness ''instance'' [''running'', ''pending''] (xml_value xml ''name''), w')))"

section \<open>Azure\<close>

record vm_template =
  vt_size :: string
  vt_image_reference :: jvalue
  vt_admin_username :: string
  vt_agent_path :: string
  vt_subnet_id :: string
  vt_location :: string

definition vm_template_new :: "string \<Rightarrow> string \<Rightarrow> string \<Rightarrow> string \<Rightarrow> vm_template" where
  "vm_template_new sz location subnet_id agent_path =
     \<lparr> vt_size = sz,
       vt_image_reference = JObj [(''publisher'', JStr ''Canonical''),
         (''offer'', JStr ''0001-com-ubuntu-server-jammy''), (''sku'', JStr ''22_04-lts-gen2''),
         (''version'', JStr ''latest'')],
       vt_admin_username = ''aether'', vt_agent_path = agent_path, vt_subnet_id = subnet_id,
       vt_location = location \<rparr>"

definition with_image :: "vm_template \<Rightarrow> jvalue \<Rightarrow> vm_template" where
  "with_image t i = t\<lparr>vt_image_reference := i\<rparr>"

record azure_provider =
  az_client :: http_client
  az_subscription_id :: string
  az_resource_group :: string
  az_template :: vm_template
  az_workers :: workers

definition azure_with_endpoint ::
    "('m, 'w) cloud_env \<Rightarrow> string \<Rightarrow> string \<Rightarrow> string \<Rightarrow> string \<Rightarrow> vm_template \<Rightarrow> cloud_error + azure_provider" where
  "azure_with_endpoint env endpoint subscription rgroup token template =
     (case http_client_new (ce_build env) endpoint (Bearer token) None of
        Inl e \<Rightarrow> Inl e
      | Inr c \<Rightarrow> Inr \<lparr> az_client = c, az_subscription_id = subscription, az_resource_group = rgroup,
                       az_template = template, az_workers = [] \<rparr>)"

definition azure_new ::
    "('m, 'w) cloud_env \<Rightarrow> string \<Rightarrow> string \<Rightarrow> string \<Rightarrow> vm_template \<Rightarrow> cloud_error + azure_provider" where
  "azure_new env = azure_with_endpoint env ''https://management.azure.com''"

text \<open>
  A token from the metadata service of the machine. Unlike the client's calls this one is sent
  once, and the body is read as JSON whatever the status.
\<close>

definition metadata_token ::
    "(string \<Rightarrow> string + string) \<Rightarrow> 'w service \<Rightarrow> string \<Rightarrow> (string \<times> string) \<Rightarrow> 'w cloud_world
     \<Rightarrow> (cloud_error + string) \<times> 'w cloud_world" where
  "metadata_token parse_token serve url header w =
     (case exchange serve \<lparr> rq_method = ''GET'', rq_url = url, rq_headers = [header], rq_body = None \<rparr> w of
        (SendError e, w') \<Rightarrow> (Inl (RequestError e), w')
      | (BodyError _ e, w') \<Rightarrow> (Inl (RequestError e), w')
      | (Reply _ reply, w') \<Rightarrow>
          (case parse_token reply of Inl e \<Rightarrow> (Inl (RequestError e), w') | Inr token \<Rightarrow> (Inr token, w')))"

definition IMDS_TOKEN_URL :: string where
  "IMDS_TOKEN_URL = ''http://169.254.169.254/metadata/identity/oauth2/token?api-version=2018-02-01&resource=https://management.azure.com/''"

definition token_from_imds ::
    "(string \<Rightarrow> string + string) \<Rightarrow> 'w service \<Rightarrow> 'w cloud_world \<Rightarrow> (cloud_error + string) \<times> 'w cloud_world" where
  "token_from_imds parse_token serve w = metadata_token parse_token serve IMDS_TOKEN_URL (''Metadata'', ''true'') w"

definition AZURE_API_VERSION :: string where
  "AZURE_API_VERSION = ''2023-09-01''"

definition azure_base_path :: "azure_provider \<Rightarrow> string" where
  "azure_base_path p =
     ''/subscriptions/'' @ az_subscription_id p @ ''/resourceGroups/'' @ az_resource_group p
       @ ''/providers/Microsoft.Compute/virtualMachines''"

definition vm_body :: "('m, 'w) cloud_env \<Rightarrow> azure_provider \<Rightarrow> string \<Rightarrow> worker_spec \<Rightarrow> jvalue" where
  "vm_body env p name spec =
     (let t = az_template p in JObj [
       (''location'', JStr (vt_location t)),
       (''tags'', JObj [(''app'', JStr ''aether-agent'')]),
       (''properties'', JObj [
          (''hardwareProfile'', JObj [(''vmSize'', JStr (vt_size t))]),
          (''storageProfile'', JObj [(''imageReference'', vt_image_reference t)]),
          (''osProfile'', JObj [
             (''computerName'', JStr name),
             (''adminUsername'', JStr (vt_admin_username t)),
             (''customData'', JStr (ce_base64 env (str_bytes (startup_script (vt_agent_path t) spec))))]),
          (''networkProfile'', JObj [
             (''networkApiVersion'', JStr AZURE_API_VERSION),
             (''networkInterfaceConfigurations'', JArr [JObj [
                (''name'', JStr (name @ ''-nic'')),
                (''properties'', JObj [(''ipConfigurations'', JArr [JObj [
                   (''name'', JStr ''ipconfig''),
                   (''properties'', JObj [(''subnet'', JObj [(''id'', JStr (vt_subnet_id t))])])]])])]])])])])"

definition path_from_link :: "string \<Rightarrow> string" where
  "path_from_link link =
     (let without_scheme = (case split_once ''://'' link of Some (_, rest) \<Rightarrow> rest | None \<Rightarrow> link) in
      case split_once ''/'' without_scheme of
        Some (_, rest) \<Rightarrow>
          (if occurs ''://'' link then ''/'' @ rest
           else if starts_with ''/'' link then link
           else ''/'' @ trim_start_matches (CHR ''/'') link)
      | None \<Rightarrow>
          (if starts_with ''/'' link then link else ''/'' @ trim_start_matches (CHR ''/'') link))"

definition cores_from_size :: "string \<Rightarrow> nat" where
  "cores_from_size s =
     (case split_at (CHR ''_'') s of
        _ # part # _ \<Rightarrow>
          (case parse_uint 32 (takeWhile is_ascii_digit (dropWhile is_ascii_alphabetic part)) of
             Some c \<Rightarrow> c | None \<Rightarrow> 1)
      | _ \<Rightarrow> 1)"

definition azure_resource :: "azure_provider \<Rightarrow> vm \<Rightarrow> cloud_resource" where
  "azure_resource p v =
     (let s = (case vm_size v of Some s \<Rightarrow> s | None \<Rightarrow> ''unknown'') in
      with_resource_label (with_resource_label
        (with_class (cloud_resource_new (vm_name v) (vm_location v) (cores_from_size s)) s)
        ''provider'' ''azure'') ''resource_group'' (az_resource_group p))"

definition azure_discover ::
    "('m, 'w) cloud_env \<Rightarrow> azure_provider \<Rightarrow> 'w cloud_world \<Rightarrow> (cloud_error + cloud_resource list) \<times> 'w cloud_world" where
  "azure_discover env p w =
     (case get_all_pages (ce_vm_list env) (ce_crypto env) (ce_serve env) (az_client p)
             (azure_base_path p @ ''?api-version='' @ AZURE_API_VERSION)
             vl_next_link (\<lambda>_ link. path_from_link link) w of
        (Inl e, w') \<Rightarrow> (Inl e, w')
      | (Inr pages, w') \<Rightarrow>
          (Inr (map (azure_resource p)
             (filter (\<lambda>v. vm_provisioning_state v \<noteq> Some ''Failed'') (concat (map vl_value pages)))), w'))"

definition azure_deploy ::
    "('m, 'w) cloud_env \<Rightarrow> azure_provider \<Rightarrow> node_id \<Rightarrow> string \<Rightarrow> worker_spec \<Rightarrow> 'w cloud_world
     \<Rightarrow> (cloud_error + deployed_worker) \<times> azure_provider \<times> 'w cloud_world" where
  "azure_deploy env p fresh resource_id spec w =
     (let name = worker_name env fresh in
      case post_json (ce_to_vec env) (ce_value env) (ce_crypto env) (ce_serve env) (az_client p)
             (azure_base_path p @ ''/'' @ name @ ''?api-version='' @ AZURE_API_VERSION) (vm_body env p name spec) w of
        (Inl e, w') \<Rightarrow> (Inl (deploy_failed resource_id e), p, w')
      | (Inr _, w') \<Rightarrow>
          let worker = \<lparr> dw_node_id = fresh, dw_resource_id = name, dw_address = controller_address spec \<rparr>
          in (Inr worker, p\<lparr>az_workers := AList.update fresh worker (az_workers p)\<rparr>, w'))"

definition azure_get_metrics ::
    "('m, 'w) cloud_env \<Rightarrow> azure_provider \<Rightarrow> node_id \<Rightarrow> 'w cloud_world \<Rightarrow> (cloud_error + node_metrics) \<times> 'w cloud_world" where
  "azure_get_metrics env p n w =
     (case map_of (az_workers p) n of
        None \<Rightarrow> (Inl (UnknownResource (ce_show_id env n)), w)
      | Some worker \<Rightarrow>
          (case get_json (ce_vm env) (ce_crypto env) (ce_serve env) (az_client p)
                  (azure_base_path p @ ''/'' @ dw_resource_id worker @ ''?api-version='' @ AZURE_API_VERSION) w of
             (Inl e, w') \<Rightarrow> (Inl e, w')
           | (Inr v, w') \<Rightarrow>
               (liveness ''vm'' [''Succeeded'', ''Creating'', ''Updating''] (vm_provisioning_state v), w')))"

section \<open>Compute Engine\<close>

record instance_template =
  it_machine_type :: string
  it_source_image :: string
  it_agent_path :: string
  it_network :: string

definition instance_template_new :: "string \<Rightarrow> string \<Rightarrow> string \<Rightarrow> instance_template" where
  "instance_template_new machine_type source_image agent_path =
     \<lparr> it_machine_type = machine_type, it_source_image = source_image, it_agent_path = agent_path,
       it_network = ''global/networks/default'' \<rparr>"

definition with_network :: "instance_template \<Rightarrow> string \<Rightarrow> instance_template" where
  "with_network t n = t\<lparr>it_network := n\<rparr>"

record gcp_provider =
  gcp_client :: http_client
  gcp_project :: string
  gcp_zone :: string
  gcp_template :: instance_template
  gcp_workers :: workers

definition gcp_with_endpoint ::
    "('m, 'w) cloud_env \<Rightarrow> string \<Rightarrow> string \<Rightarrow> string \<Rightarrow> string \<Rightarrow> instance_template \<Rightarrow> cloud_error + gcp_provider" where
  "gcp_with_endpoint env endpoint project zone token template =
     (case http_client_new (ce_build env) endpoint (Bearer token) None of
        Inl e \<Rightarrow> Inl e
      | Inr c \<Rightarrow> Inr \<lparr> gcp_client = c, gcp_project = project, gcp_zone = zone, gcp_template = template,
                       gcp_workers = [] \<rparr>)"

definition gcp_new ::
    "('m, 'w) cloud_env \<Rightarrow> string \<Rightarrow> string \<Rightarrow> string \<Rightarrow> instance_template \<Rightarrow> cloud_error + gcp_provider" where
  "gcp_new env = gcp_with_endpoint env ''https://compute.googleapis.com/compute/v1''"

definition METADATA_TOKEN_URL :: string where
  "METADATA_TOKEN_URL = ''http://metadata.google.internal/computeMetadata/v1/instance/serviceAccounts/default/token''"

definition token_from_metadata ::
    "(string \<Rightarrow> string + string) \<Rightarrow> 'w service \<Rightarrow> 'w cloud_world \<Rightarrow> (cloud_error + string) \<times> 'w cloud_world" where
  "token_from_metadata parse_token serve w =
     metadata_token parse_token serve METADATA_TOKEN_URL (''Metadata-Flavor'', ''Google'') w"

definition instance_body :: "gcp_provider \<Rightarrow> string \<Rightarrow> worker_spec \<Rightarrow> jvalue" where
  "instance_body p name spec =
     (let t = gcp_template p in JObj [
       (''name'', JStr name),
       (''machineType'', JStr (''zones/'' @ gcp_zone p @ ''/machineTypes/'' @ it_machine_type t)),
       (''disks'', JArr [JObj [(''boot'', JBool True), (''autoDelete'', JBool True),
          (''initializeParams'', JObj [(''sourceImage'', JStr (it_source_image t))])]]),
       (''networkInterfaces'', JArr [JObj [(''network'', JStr (it_network t))]]),
       (''metadata'', JObj [(''items'', JArr [JObj [(''key'', JStr ''startup-script''),
          (''value'', JStr (startup_script (it_agent_path t) spec))]])]),
       (''labels'', JObj [(''app'', JStr ''aether-agent'')])])"

definition last_segment :: "string \<Rightarrow> string" where
  "last_segment v = last (split_at (CHR ''/'') v)"

definition cores_from_machine_type :: "string \<Rightarrow> nat" where
  "cores_from_machine_type t =
     (case parse_uint 32 (last (split_at (CHR ''-'') (last_segment t))) of Some c \<Rightarrow> c | None \<Rightarrow> 1)"

definition gcp_instances_path :: "gcp_provider \<Rightarrow> string" where
  "gcp_instances_path p = ''/projects/'' @ gcp_project p @ ''/zones/'' @ gcp_zone p @ ''/instances''"

definition gcp_resource :: "gcp_provider \<Rightarrow> gcp_instance \<Rightarrow> cloud_resource" where
  "gcp_resource p i =
     (let machine_type = last_segment (in_machine_type i) in
      with_resource_label (with_resource_label
        (with_class (cloud_resource_new (in_name i) (last_segment (in_zone i)) (cores_from_machine_type machine_type))
           machine_type)
        ''provider'' ''gcp'') ''project'' (gcp_project p))"

definition gcp_discover ::
    "('m, 'w) cloud_env \<Rightarrow> gcp_provider \<Rightarrow> 'w cloud_world \<Rightarrow> (cloud_error + cloud_resource list) \<times> 'w cloud_world" where
  "gcp_discover env p w =
     (case get_all_pages (ce_instance_list env) (ce_crypto env) (ce_serve env) (gcp_client p) (gcp_instances_path p)
             il_next_page_token (\<lambda>path token. path @ ''?pageToken='' @ token) w of
        (Inl e, w') \<Rightarrow> (Inl e, w')
      | (Inr pages, w') \<Rightarrow>
          (Inr (map (gcp_resource p)
             (filter (\<lambda>i. in_status i = Some ''RUNNING'') (concat (map il_items pages)))), w'))"

text \<open>The operation that a create call answers with is awaited unless it is already finished.\<close>

definition gcp_await ::
    "('m, 'w) cloud_env \<Rightarrow> gcp_provider \<Rightarrow> string \<Rightarrow> operation \<Rightarrow> 'w cloud_world
     \<Rightarrow> ((cloud_error + unit) \<times> 'w cloud_world) option" where
  "gcp_await env p resource_id op w =
     (if op_status op \<noteq> Some ''DONE'' \<and> op_name op \<noteq> [] then
        (case poll_until (ce_operation env) (ce_crypto env) (ce_serve env) (gcp_client p)
                (''/projects/'' @ gcp_project p @ ''/zones/'' @ gcp_zone p @ ''/operations/'' @ op_name op)
                (\<lambda>op. op_status op = Some ''DONE'') (from_millis 500) (from_secs 180) w of
           None \<Rightarrow> None
         | Some (Inl e, w') \<Rightarrow> Some (Inl (deploy_failed resource_id e), w')
         | Some (Inr finished, w') \<Rightarrow>
             (case op_error finished of
                Some err \<Rightarrow> Some (Inl (DeployFailed resource_id (ce_json_text env err)), w')
              | None \<Rightarrow> Some (Inr (), w')))
      else Some (Inr (), w))"

definition gcp_deploy ::
    "('m, 'w) cloud_env \<Rightarrow> gcp_provider \<Rightarrow> node_id \<Rightarrow> string \<Rightarrow> worker_spec \<Rightarrow> 'w cloud_world
     \<Rightarrow> ((cloud_error + deployed_worker) \<times> gcp_provider \<times> 'w cloud_world) option" where
  "gcp_deploy env p fresh resource_id spec w =
     (let name = worker_name env fresh in
      case post_json (ce_to_vec env) (ce_operation env) (ce_crypto env) (ce_serve env) (gcp_client p)
             (gcp_instances_path p) (instance_body p name spec) w of
        (Inl e, w') \<Rightarrow> Some (Inl (deploy_failed resource_id e), p, w')
      | (Inr op, w') \<Rightarrow>
          (case gcp_await env p resource_id op w' of
             None \<Rightarrow> None
           | Some (Inl e, w'') \<Rightarrow> Some (Inl e, p, w'')
           | Some (Inr _, w'') \<Rightarrow>
               let worker = \<lparr> dw_node_id = fresh, dw_resource_id = name, dw_address = controller_address spec \<rparr>
               in Some (Inr worker, p\<lparr>gcp_workers := AList.update fresh worker (gcp_workers p)\<rparr>, w'')))"

definition gcp_get_metrics ::
    "('m, 'w) cloud_env \<Rightarrow> gcp_provider \<Rightarrow> node_id \<Rightarrow> 'w cloud_world \<Rightarrow> (cloud_error + node_metrics) \<times> 'w cloud_world" where
  "gcp_get_metrics env p n w =
     (case map_of (gcp_workers p) n of
        None \<Rightarrow> (Inl (UnknownResource (ce_show_id env n)), w)
      | Some worker \<Rightarrow>
          (case get_json (ce_instance env) (ce_crypto env) (ce_serve env) (gcp_client p)
                  (gcp_instances_path p @ ''/'' @ dw_resource_id worker) w of
             (Inl e, w') \<Rightarrow> (Inl e, w')
           | (Inr i, w') \<Rightarrow>
               (liveness ''instance'' [''RUNNING'', ''PROVISIONING'', ''STAGING''] (in_status i), w')))"

section \<open>The interface holds\<close>

text \<open>Errors of the client are never the provider's own ``not known to this provider''.\<close>

fun client_error :: "cloud_error \<Rightarrow> bool" where
  "client_error (UnknownResource _) = False"
| "client_error (DeployFailed _ _) = False"
| "client_error _ = True"

lemma client_error_status: "client_error (status_error s d)"
  by (simp add: status_error_def)

lemma build_request_error: "build_request cr hc now verb path body = Inl e \<Longrightarrow> client_error e"
  by (auto simp: build_request_def sigv4_headers_def Let_def split: credentials.splits sum.splits)

lemma send_once_error: "fst (send_once cr serve hc verb path body w) = Inl e \<Longrightarrow> client_error e"
  by (auto simp: send_once_def client_error_status dest: build_request_error
      split: sum.splits prod.splits http_outcome.splits if_splits)

lemma send_attempts_error:
  "fst (send_attempts cr serve hc verb path body pause n e0 w) = Inl e \<Longrightarrow> client_error e0 \<Longrightarrow> client_error e"
proof (induction n arbitrary: pause e0 w)
  case (Suc n)
  obtain r w' where o: "send_once cr serve hc verb path body w = (r, w')" by fastforce
  have c: "client_error e'" if "r = Inl e'" for e'
    using send_once_error [of cr serve hc verb path body w e'] o that by simp
  show ?case using Suc.prems o c Suc.IH by (cases r) (auto split: if_splits)
qed simp

lemma send_error: "fst (send cr serve hc verb path body w) = Inl e \<Longrightarrow> client_error e"
  unfolding send_def by (erule send_attempts_error) simp

lemma get_json_error: "fst (get_json from_str cr serve hc path w) = Inl e \<Longrightarrow> client_error e"
  using send_error [of cr serve hc "''GET''" path None w]
  by (auto simp: get_json_def send_json_def split: prod.splits sum.splits)

lemma liveness_error: "liveness what alive state = Inl e \<Longrightarrow> client_error e"
  by (auto simp: liveness_def split: option.splits if_splits)

text \<open>The query of a known worker is a client call followed by a reading: it is never unknown.\<close>

lemma liveness_not_unknown [simp]: "liveness what alive state \<noteq> Inl (UnknownResource i)"
  using liveness_error by fastforce

lemma get_json_query [simp]:
  "fst (case get_json from_str cr serve hc path w of (Inl e, w') \<Rightarrow> (Inl e, w')
        | (Inr x, w') \<Rightarrow> (liveness what alive (g x), w')) \<noteq> Inl (UnknownResource i)"
  using get_json_error [of from_str cr serve hc path w "UnknownResource i"]
  by (auto split: prod.split sum.split)

lemma send_query [simp]:
  "fst (case send cr serve hc verb path body w of (Inl e, w') \<Rightarrow> (Inl e, w')
        | (Inr x, w') \<Rightarrow> (liveness what alive (g x), w')) \<noteq> Inl (UnknownResource i)"
  using send_error [of cr serve hc verb path body w "UnknownResource i"]
  by (auto split: prod.split sum.split)

lemma k8s_metrics_known:
  "fst (k8s_get_metrics env p n w) = Inl (UnknownResource (ce_show_id env n)) \<longleftrightarrow> map_of (k_workers p) n = None"
  unfolding k8s_get_metrics_def by (cases "map_of (k_workers p) n") (simp_all only: option.case get_json_query send_query fst_conv simp_thms option.distinct)

lemma aws_metrics_known:
  "fst (aws_get_metrics env p n w) = Inl (UnknownResource (ce_show_id env n)) \<longleftrightarrow> map_of (aws_workers p) n = None"
  unfolding aws_get_metrics_def by (cases "map_of (aws_workers p) n") (simp_all only: option.case get_json_query send_query fst_conv simp_thms option.distinct)

lemma azure_metrics_known:
  "fst (azure_get_metrics env p n w) = Inl (UnknownResource (ce_show_id env n)) \<longleftrightarrow> map_of (az_workers p) n = None"
  unfolding azure_get_metrics_def by (cases "map_of (az_workers p) n") (simp_all only: option.case get_json_query send_query fst_conv simp_thms option.distinct)

lemma gcp_metrics_known:
  "fst (gcp_get_metrics env p n w) = Inl (UnknownResource (ce_show_id env n)) \<longleftrightarrow> map_of (gcp_workers p) n = None"
  unfolding gcp_get_metrics_def by (cases "map_of (gcp_workers p) n") (simp_all only: option.case get_json_query send_query fst_conv simp_thms option.distinct)

interpretation k8s_cloud: cloud_provider
  "\<lambda>p n r spec w. Some (k8s_deploy env p n r spec w)"
  "\<lambda>p n w. case k8s_get_metrics env p n w of (x, w') \<Rightarrow> (x, p, w')"
  "\<lambda>p n. map_of (k_workers p) n \<noteq> None" "ce_show_id env" for env
  by unfold_locales
    (auto simp: k8s_deploy_def k8s_metrics_known update_conv Let_def case_prod_unfold split: prod.splits sum.splits if_splits)

interpretation aws_cloud: cloud_provider
  "\<lambda>p n r spec w. Some (aws_deploy env p n r spec w)"
  "\<lambda>p n w. case aws_get_metrics env p n w of (x, w') \<Rightarrow> (x, p, w')"
  "\<lambda>p n. map_of (aws_workers p) n \<noteq> None" "ce_show_id env" for env
  by unfold_locales
    (auto simp: aws_deploy_def aws_metrics_known update_conv Let_def case_prod_unfold
       split: prod.splits sum.splits if_splits option.splits)

interpretation azure_cloud: cloud_provider
  "\<lambda>p n r spec w. Some (azure_deploy env p n r spec w)"
  "\<lambda>p n w. case azure_get_metrics env p n w of (x, w') \<Rightarrow> (x, p, w')"
  "\<lambda>p n. map_of (az_workers p) n \<noteq> None" "ce_show_id env" for env
  by unfold_locales
    (auto simp: azure_deploy_def azure_metrics_known update_conv Let_def case_prod_unfold split: prod.splits sum.splits if_splits)

lemma gcp_await_returns: "\<exists>x w'. gcp_await env p resource_id op w = Some (x, w')"
proof -
  have "0 < from_millis 500" by (simp add: from_millis_def)
  from poll_loop_ends [OF this le_refl] obtain r w' where
    "poll_until (ce_operation env) (ce_crypto env) (ce_serve env) (gcp_client p)
       (''/projects/'' @ gcp_project p @ ''/zones/'' @ gcp_zone p @ ''/operations/'' @ op_name op)
       (\<lambda>op. op_status op = Some ''DONE'') (from_millis 500) (from_secs 180) w = Some (r, w')"
    unfolding poll_until_def by blast
  then show ?thesis by (auto simp: gcp_await_def split: sum.split option.split)
qed

lemma gcp_deploy_returns: "\<exists>x. gcp_deploy env p n r spec w = Some x"
proof -
  obtain y v where y: "post_json (ce_to_vec env) (ce_operation env) (ce_crypto env) (ce_serve env) (gcp_client p)
             (gcp_instances_path p) (instance_body p (worker_name env n) spec) w = (y, v)" by fastforce
  show ?thesis
  proof (cases y)
    case (Inr op)
    obtain z v' where "gcp_await env p r op v = Some (z, v')" using gcp_await_returns by blast
    then show ?thesis using y Inr by (cases z) (simp_all add: gcp_deploy_def Let_def)
  qed (simp add: gcp_deploy_def y)
qed

interpretation gcp_cloud: cloud_provider "gcp_deploy env"
  "\<lambda>p n w. case gcp_get_metrics env p n w of (x, w') \<Rightarrow> (x, p, w')"
  "\<lambda>p n. map_of (gcp_workers p) n \<noteq> None" "ce_show_id env" for env
  by (unfold_locales, rule gcp_deploy_returns)
    (auto simp: gcp_metrics_known gcp_deploy_def update_conv Let_def case_prod_unfold
       split: prod.splits sum.splits if_splits option.splits)

section \<open>Readings\<close>

lemma xml_values_hit:
  assumes "split_once (''<'' @ tag @ ''>'') xml = Some (a, v @ (''</'' @ tag @ ''>'') @ rest)"
    and "split_once (''</'' @ tag @ ''>'') (v @ (''</'' @ tag @ ''>'') @ rest) = Some (v, rest)"
  shows "xml_values xml tag = v # xml_values rest tag"
  using assms by (subst xml_values.simps) simp

text \<open>A text without the first character of a pattern does not hide the pattern behind it.\<close>

lemma split_once_skip:
  "c \<notin> set a \<Longrightarrow> split_once (c # p) (a @ c # p @ b) = Some (a, b)"
proof (induction a)
  case (Cons d a)
  then have "take (length (c # p)) ((d # a) @ c # p @ b) \<noteq> c # p" by auto
  then show ?case using Cons by simp
qed simp

lemma xml_values_concat:
  assumes "\<And>v. v \<in> set vs \<Longrightarrow> CHR ''<'' \<notin> set v"
  shows "xml_values (concat (map (\<lambda>v. ''<'' @ tag @ ''>'' @ v @ ''</'' @ tag @ ''>'') vs)) tag = vs"
  using assms
proof (induction vs)
  case Nil
  show ?case by (subst xml_values.simps) simp
next
  case (Cons v vs)
  let ?rest = "concat (map (\<lambda>v. ''<'' @ tag @ ''>'' @ v @ ''</'' @ tag @ ''>'') vs)"
  let ?xml = "''<'' @ tag @ ''>'' @ v @ ''</'' @ tag @ ''>'' @ ?rest"
  have o: "split_once (''<'' @ tag @ ''>'') ?xml = Some ([], v @ (''</'' @ tag @ ''>'') @ ?rest)"
    using split_once_skip [of "CHR ''<''" "[]" "tag @ ''>''" "v @ ''</'' @ tag @ ''>'' @ ?rest"] by simp
  have c: "split_once (''</'' @ tag @ ''>'') (v @ (''</'' @ tag @ ''>'') @ ?rest) = Some (v, ?rest)"
    using split_once_skip [of "CHR ''<''" v "''/'' @ tag @ ''>''" ?rest] Cons.prems by simp
  show ?case using xml_values_hit [OF o c] Cons by simp
qed

text \<open>
  An item is cut at the first closing tag, so an item that contains a list of its own is read
  only up to the end of the first inner item: what follows is lost.
\<close>

definition nested_reply :: string where
  "nested_reply = ''<instancesSet><item><groupSet><item>g</item></groupSet><instanceId>i-1</instanceId></item></instancesSet>''"

lemma nested_items_lost: "instance_items nested_reply = [''<groupSet><item>g'']"
  by (simp add: nested_reply_def instance_items_def xml_values.simps)

lemma parse_cpu_whole: "n < 2 ^ 32 \<Longrightarrow> parse_cpu (Some (nat_to_string n)) = n"
proof -
  assume n: "n < 2 ^ 32"
  have "strip_suffix ''m'' (nat_to_string n) = None"
  proof (rule ccontr)
    assume "strip_suffix ''m'' (nat_to_string n) \<noteq> None"
    then obtain r where "nat_to_string n = r @ ''m''" using strip_suffix_Some by blast
    then have "CHR ''m'' \<in> set (nat_to_string n)" by simp
    then show False using nat_to_string_digits [of n] by (auto simp: list_all_iff is_ascii_digit_def)
  qed
  then show "parse_cpu (Some (nat_to_string n)) = n" using parse_uint_nat_to_string [OF n] by (simp add: parse_cpu_def)
qed

lemma strip_suffix_append: "strip_suffix p (s @ p) = Some s"
  by (simp add: strip_suffix_def ends_with_def)

lemma parse_cpu_millis: "n < 2 ^ 32 \<Longrightarrow> parse_cpu (Some (nat_to_string n @ ''m'')) = max (n div 1000) 1"
  using strip_suffix_append [of "''m''" "nat_to_string n"] parse_uint_nat_to_string [of n 32] by (simp add: parse_cpu_def)

lemma parse_memory_suffix:
  assumes "(suffix, factor) \<in> {(''Ki'', 1024), (''Mi'', 1024 ^ 2), (''Gi'', 1024 ^ 3)}" and "n < 2 ^ 64"
  shows "parse_memory (Some (nat_to_string n @ suffix)) = (if n * factor < 2 ^ 64 then Ret (n * factor) else Panic)"
proof -
  have ends: "ends_with q (s @ r) = (r = q)" if "length q = length r" for q s r :: string
    using that by (simp add: ends_with_def)
  show ?thesis
    using assms(1) parse_uint_nat_to_string [OF assms(2)]
    by (auto simp: parse_memory_def ends Let_def)
qed

text \<open>An absolute link is cut down to its path, whatever its host.\<close>

lemma path_from_link_absolute:
  assumes "CHR '':'' \<notin> set scheme" "CHR ''/'' \<notin> set host"
  shows "path_from_link (scheme @ ''://'' @ host @ ''/'' @ path) = ''/'' @ path"
proof -
  have "split_once ''://'' (scheme @ ''://'' @ host @ ''/'' @ path) = Some (scheme, host @ ''/'' @ path)"
    using split_once_skip [OF assms(1), of "''//''" "host @ ''/'' @ path"] by simp
  moreover have "split_once ''/'' (host @ ''/'' @ path) = Some (host, path)"
    using split_once_char [OF assms(2), of path] by simp
  ultimately show ?thesis by (simp add: path_from_link_def occurs_def)
qed

section \<open>Deploying\<close>

text \<open>
  An operation that is already finished is not asked for its error: a creation refused in the
  first answer counts as deployed.
\<close>

lemma gcp_done_with_error:
  assumes "post_json (ce_to_vec env) (ce_operation env) (ce_crypto env) (ce_serve env) (gcp_client p)
             (gcp_instances_path p) (instance_body p (worker_name env n) spec) w = (Inr op, w')"
    and "op_status op = Some ''DONE''" and "op_error op = Some err"
  shows "\<exists>d p'. gcp_deploy env p n r spec w = Some (Inr d, p', w')"
  using assms by (simp add: gcp_deploy_def gcp_await_def Let_def)

text \<open>
  A creation is repeated after a server error like any other request. Here the remote end makes
  the machine and then answers 503: one deployment leaves two machines behind.
\<close>

definition flaky_service :: "nat service" where
  "flaky_service rq n = (if n = 0 then Reply 503 ''late'' else Reply 200 ''{}'', 0, Suc n)"

definition plain_env :: "nat service \<Rightarrow> (bytes, nat) cloud_env" where
  "plain_env serve = \<lparr> ce_crypto = plain_crypto, ce_serve = serve, ce_build = (\<lambda>_. None),
     ce_to_vec = (\<lambda>_. Inr []), ce_json_text = (\<lambda>_. []), ce_base64 = (\<lambda>_. []),
     ce_show_id = (\<lambda>n. case n of NodeId i \<Rightarrow> nat_to_string (unat i)), ce_value = (\<lambda>_. Inr JNull),
     ce_node_list = (\<lambda>_. Inl ''no''), ce_node = (\<lambda>_. Inl ''no''), ce_vm_list = (\<lambda>_. Inl ''no''),
     ce_vm = (\<lambda>_. Inl ''no''), ce_instance_list = (\<lambda>_. Inl ''no''),
     ce_instance = (\<lambda>_. Inr \<lparr> in_name = ''i'', in_machine_type = ''m'', in_zone = ''z'', in_status = Some ''RUNNING'' \<rparr>),
     ce_operation = (\<lambda>_. Inr \<lparr> op_name = ''op'', op_status = Some ''DONE'', op_error = None \<rparr>) \<rparr>"

definition sample_k8s :: k8s_provider where
  "sample_k8s = \<lparr> k_client = sample_client, k_namespace = ''ns'', k_image = ''img'', k_workers = [] \<rparr>"

lemma one_deploy_two_machines:
  "case k8s_deploy (plain_env flaky_service) sample_k8s (NodeId 7) ''r'' (worker_spec_new ''c'') (sample_world 0) of
     (Inr d, p, w) \<Rightarrow> remote w = 2 \<and> length (k_workers p) = 1 | _ \<Rightarrow> False"
  by (simp add: k8s_deploy_def plain_env_def sample_k8s_def post_json_def send_json_def send_def sample_client_def
      send_once_def build_request_def exchange_def flaky_service_def sample_world_def status_error_def
      sleep_def numeral_eq_Suc Let_def worker_spec_new_def)

section \<open>Properties\<close>

text \<open>
  Compute Engine: every deployment of any sequence returns, whatever the remote end answers,
  and afterwards the provider answers a query with ``not known'' for exactly the identities that
  no successful deployment of the sequence carried.
\<close>

lemma gcp_fleet:
  assumes "gcp_with_endpoint env endpoint project zone token template = Inr p"
  shows "\<exists>xs p' w'. deploy_all (gcp_deploy env) p reqs w = Some (xs, p', w') \<and> length xs = length reqs
    \<and> (\<forall>n v. fst (gcp_get_metrics env p' n v) = Inl (UnknownResource (ce_show_id env n)) \<longleftrightarrow> \<not> granted reqs xs n)"
proof -
  have "\<not> map_of (gcp_workers p) m \<noteq> None" for m
    using assms by (auto simp: gcp_with_endpoint_def split: sum.splits)
  from gcp_cloud.metrics_after_deploys [OF this, of env reqs w] show ?thesis
    by (simp add: case_prod_unfold)
qed

definition sample_gcp :: gcp_provider where
  "sample_gcp = \<lparr> gcp_client = \<lparr> hc_base_url = ''http://h'', hc_credentials = Bearer ''t'',
     hc_max_attempts = 4, hc_backoff = DEFAULT_BACKOFF \<rparr>, gcp_project = ''p'', gcp_zone = ''z'',
     gcp_template = instance_template_new ''m'' ''i'' ''a'', gcp_workers = [] \<rparr>"

end
