(* ===== verification/Sandbox.thy ===== *)
theory Sandbox
  imports Executor Parsing "HOL-Library.Word"
begin

unbundle bit_operations_syntax

text \<open>
  The WebAssembly sandbox (\<^verbatim>\<open>crates/aether-wasm/src/lib.rs\<close> and the two backends
  \<^verbatim>\<open>wasmi_backend.rs\<close> and \<^verbatim>\<open>wasmtime_backend.rs\<close>): the limits and capabilities of a module, the
  host functions it may call, and the run that loads a module, gives it its input, and reads
  its output back.

  The engine is a parameter: it loads a module, and a call into the module either faults,
  finishes, or asks for an imported function, whose answer resumes it. Files, the clock and the
  entropy of the operating system are parameters too; files do not change during a run.
\<close>

section \<open>Capabilities, limits, errors\<close>

record wasm_capabilities =
  cap_log :: bool
  cap_clock :: bool
  cap_random :: bool
  cap_read_dir :: "string option"

definition capabilities_none :: wasm_capabilities where
  "capabilities_none = \<lparr> cap_log = False, cap_clock = False, cap_random = False, cap_read_dir = None \<rparr>"

definition capabilities_all :: wasm_capabilities where
  "capabilities_all = \<lparr> cap_log = True, cap_clock = True, cap_random = True, cap_read_dir = None \<rparr>"

definition with_read_dir :: "wasm_capabilities \<Rightarrow> string \<Rightarrow> wasm_capabilities" where
  "with_read_dir c root = c\<lparr>cap_read_dir := Some root\<rparr>"

definition with_log :: "wasm_capabilities \<Rightarrow> bool \<Rightarrow> wasm_capabilities" where
  "with_log c b = c\<lparr>cap_log := b\<rparr>"

definition with_clock :: "wasm_capabilities \<Rightarrow> bool \<Rightarrow> wasm_capabilities" where
  "with_clock c b = c\<lparr>cap_clock := b\<rparr>"

definition with_random :: "wasm_capabilities \<Rightarrow> bool \<Rightarrow> wasm_capabilities" where
  "with_random c b = c\<lparr>cap_random := b\<rparr>"

record wasm_limits =
  wl_fuel :: nat
  wl_memory_bytes :: nat
  wl_max_output_bytes :: nat
  wl_capabilities :: wasm_capabilities

definition wasm_limits_default :: wasm_limits where
  "wasm_limits_default = \<lparr> wl_fuel = 100000000, wl_memory_bytes = 64 * 1024 * 1024,
     wl_max_output_bytes = 64 * 1024 * 1024, wl_capabilities = capabilities_none \<rparr>"

definition with_capabilities :: "wasm_limits \<Rightarrow> wasm_capabilities \<Rightarrow> wasm_limits" where
  "with_capabilities l c = l\<lparr>wl_capabilities := c\<rparr>"

datatype wasm_error =
    LoadError string
  | InstantiateError string
  | MissingExport string
  | OutOfFuel nat
  | OutOfMemory nat
  | WasmTrap string
  | BadOutputRange nat nat
  | OutputTooLarge nat nat
  | NoBackend

fun wasm_error_display :: "wasm_error \<Rightarrow> string" where
  "wasm_error_display (LoadError e) = ''module could not be loaded: '' @ e"
| "wasm_error_display (InstantiateError e) = ''module could not be instantiated: '' @ e"
| "wasm_error_display (MissingExport e) = ''module does not export '' @ e"
| "wasm_error_display (OutOfFuel n) = ''module ran out of fuel after '' @ nat_to_string n @ '' units''"
| "wasm_error_display (OutOfMemory n) = ''module exceeded its memory limit of '' @ nat_to_string n @ '' bytes''"
| "wasm_error_display (WasmTrap e) = ''module trapped: '' @ e"
| "wasm_error_display (BadOutputRange ptr len) =
     ''module returned '' @ nat_to_string len @ '' bytes at offset '' @ nat_to_string ptr
       @ '', which is outside its memory''"
| "wasm_error_display (OutputTooLarge len lim) =
     ''module returned '' @ nat_to_string len @ '' bytes, over the '' @ nat_to_string lim @ '' byte limit''"
| "wasm_error_display NoBackend = ''no WebAssembly backend was compiled in''"

text \<open>The capabilities an agent grants, from its environment (\<^verbatim>\<open>executor.rs\<close>).\<close>

definition granted_capabilities :: "(string \<Rightarrow> string option) \<Rightarrow> wasm_capabilities" where
  "granted_capabilities var =
     (let enabled = (\<lambda>name. case var name of Some v \<Rightarrow> v \<in> {''1'', ''true'', ''yes''} | None \<Rightarrow> False);
          c = with_random (with_clock (with_log capabilities_none (enabled ''AETHERMESH_WASM_LOG''))
                (enabled ''AETHERMESH_WASM_CLOCK'')) (enabled ''AETHERMESH_WASM_RANDOM'')
      in case var ''AETHERMESH_WASM_READ_DIR'' of
           Some dir \<Rightarrow> (if dir \<noteq> [] then with_read_dir c dir else c)
         | None \<Rightarrow> c)"

definition agent_wasm_limits :: "(string \<Rightarrow> string option) \<Rightarrow> wasm_limits" where
  "agent_wasm_limits var = with_capabilities wasm_limits_default (granted_capabilities var)"

section \<open>Memory\<close>

text \<open>\<^verbatim>\<open>usize::try_from\<close> of a signed number, the cast to \<^verbatim>\<open>i32\<close>, and slices of the linear memory.\<close>

definition to_usize :: "int \<Rightarrow> nat option" where
  "to_usize i = (if i < 0 then None else Some (nat i))"

definition as_i32 :: "nat \<Rightarrow> int" where
  "as_i32 n = sint (of_nat n :: 32 word)"

definition slice :: "bytes \<Rightarrow> nat \<Rightarrow> nat \<Rightarrow> bytes option" where
  "slice mem ptr len = (if ptr + len \<le> length mem then Some (take len (drop ptr mem)) else None)"

definition write_at :: "bytes \<Rightarrow> nat \<Rightarrow> bytes \<Rightarrow> bytes" where
  "write_at mem ptr bs = take ptr mem @ bs @ drop (ptr + length bs) mem"

definition read_input :: "bytes list \<Rightarrow> int \<Rightarrow> int \<Rightarrow> bytes \<Rightarrow> int \<Rightarrow> int \<times> bytes" where
  "read_input ins index len mem ptr =
     (case (to_usize index, to_usize len, to_usize ptr) of
        (Some i, Some n, Some p) \<Rightarrow>
          (if length ins \<le> i then (-1, mem)
           else let data = ins ! i; k = min n (length data) in
             (case slice mem p k of
                None \<Rightarrow> (-1, mem)
              | Some _ \<Rightarrow> (as_i32 k, write_at mem p (take k data))))
      | _ \<Rightarrow> (-1, mem))"

definition input_len :: "bytes list \<Rightarrow> int \<Rightarrow> int" where
  "input_len ins index =
     (case to_usize index of
        Some i \<Rightarrow>
          (if i < length ins \<and> length (ins ! i) < 2 ^ 31 then int (length (ins ! i)) else -1)
      | None \<Rightarrow> -1)"

text \<open>\<^verbatim>\<open>lossy\<close> is \<^verbatim>\<open>String::from_utf8_lossy\<close>: the texts of the model do not cover all of Unicode.\<close>

definition read_text :: "(bytes \<Rightarrow> string) \<Rightarrow> bytes \<Rightarrow> int \<Rightarrow> int \<Rightarrow> string option" where
  "read_text lossy mem ptr len =
     (case (to_usize ptr, to_usize len) of
        (Some p, Some n) \<Rightarrow> map_option lossy (slice mem p n)
      | _ \<Rightarrow> None)"

definition unpack :: "64 word \<Rightarrow> nat \<times> nat" where
  "unpack packed = (unat (drop_bit 32 packed), unat (packed AND 0xffffffff))"

definition check_output :: "nat \<Rightarrow> nat \<Rightarrow> nat \<Rightarrow> wasm_limits \<Rightarrow> wasm_error + nat \<times> nat" where
  "check_output ptr len memory_len limits =
     (if wl_max_output_bytes limits < len then Inl (OutputTooLarge len (wl_max_output_bytes limits))
      else if 2 ^ 64 \<le> ptr + len then Inl (BadOutputRange ptr len)
      else if memory_len < ptr + len then Inl (BadOutputRange ptr len)
      else Inr (ptr, len))"

section \<open>Files\<close>

text \<open>
  What the host needs of the operating system. A read returns at most as many bytes as it was
  asked for; none at the end of the file.
\<close>

record ('f, 'w) host_os =
  ho_canonicalize :: "string \<Rightarrow> string option"
  ho_metadata :: "string \<Rightarrow> (bool \<times> nat) option"
  ho_open :: "string \<Rightarrow> 'f option"
  ho_seek :: "'f \<Rightarrow> nat \<Rightarrow> 'f option"
  ho_read :: "'f \<Rightarrow> nat \<Rightarrow> (bytes \<times> 'f) option"
  ho_random :: "nat \<Rightarrow> 'w \<Rightarrow> bytes option \<times> 'w"
  ho_clock :: "'w \<Rightarrow> nat option \<times> 'w"
  ho_lossy :: "bytes \<Rightarrow> string"

text \<open>The outside world, with a record of what a module reached in it.\<close>

record 'w host_world =
  outside :: 'w
  logged :: "string list"
  opened :: "string list"
  draws :: nat
  clock_reads :: nat

definition is_absolute :: "string \<Rightarrow> bool" where
  "is_absolute p = starts_with ''/'' p"

definition path_components :: "string \<Rightarrow> string list" where
  "path_components p = filter (\<lambda>c. c \<noteq> [] \<and> c \<noteq> ''.'') (split_at (CHR ''/'') p)"

text \<open>\<^verbatim>\<open>Path::starts_with\<close> compares whole components.\<close>

definition path_starts_with :: "string \<Rightarrow> string \<Rightarrow> bool" where
  "path_starts_with p base =
     (is_absolute p = is_absolute base
      \<and> take (length (path_components base)) (path_components p) = path_components base)"

definition join_path :: "string \<Rightarrow> string \<Rightarrow> string" where
  "join_path root rel =
     (if is_absolute rel then rel else if root = [] \<or> ends_with ''/'' root then root @ rel else root @ ''/'' @ rel)"

definition resolve_in_root :: "('f, 'w) host_os \<Rightarrow> string \<Rightarrow> string \<Rightarrow> string option" where
  "resolve_in_root os root requested =
     (if is_absolute requested \<or> char_of (0 :: nat) \<in> set requested then None
      else case ho_canonicalize os root of
        None \<Rightarrow> None
      | Some real_root \<Rightarrow>
          (case ho_canonicalize os (join_path root requested) of
             None \<Rightarrow> None
           | Some real_path \<Rightarrow> (if path_starts_with real_path real_root then Some real_path else None)))"

definition file_size :: "('f, 'w) host_os \<Rightarrow> string option \<Rightarrow> string \<Rightarrow> int" where
  "file_size os root requested =
     (case root of
        None \<Rightarrow> -1
      | Some r \<Rightarrow>
          (case resolve_in_root os r requested of
             None \<Rightarrow> -1
           | Some path \<Rightarrow>
               (case ho_metadata os path of
                  Some (is_file, n) \<Rightarrow> (if is_file \<and> n < 2 ^ 63 then int n else -1)
                | None \<Rightarrow> -1)))"

text \<open>
  The read loop of \<^verbatim>\<open>file_read\<close>: the bytes gathered so far, and whether an error ended it. A read
  never returns more than it was asked for, which \<^verbatim>\<open>take\<close> makes part of the definition.
\<close>

function read_file :: "('f, 'w) host_os \<Rightarrow> 'f \<Rightarrow> nat \<Rightarrow> bytes \<Rightarrow> bool \<times> bytes" where
  "read_file os f len acc =
     (if len \<le> length acc then (True, acc)
      else case ho_read os f (len - length acc) of
        None \<Rightarrow> (False, acc)
      | Some (bs, f') \<Rightarrow>
          (if bs = [] then (True, acc) else read_file os f' len (acc @ take (len - length acc) bs)))"
  by auto

termination
  by (relation "measure (\<lambda>(os, f, len, acc). len - length acc)") (auto simp: min_def simp flip: length_greater_0_conv)

declare read_file.simps [simp del]

definition file_read ::
    "('f, 'w) host_os \<Rightarrow> string option \<Rightarrow> string \<Rightarrow> int \<Rightarrow> bytes \<Rightarrow> int \<Rightarrow> int \<Rightarrow> 'w host_world
     \<Rightarrow> int \<times> bytes \<times> 'w host_world" where
  "file_read os root requested offset mem ptr len w =
     (case root of
        None \<Rightarrow> (-1, mem, w)
      | Some r \<Rightarrow>
          (case resolve_in_root os r requested of
             None \<Rightarrow> (-1, mem, w)
           | Some path \<Rightarrow>
               (case (to_usize ptr, to_usize len, to_usize offset) of
                  (Some p, Some n, Some off) \<Rightarrow>
                    (case slice mem p n of
                       None \<Rightarrow> (-1, mem, w)
                     | Some _ \<Rightarrow>
                         (case ho_open os path of
                            None \<Rightarrow> (-1, mem, w)
                          | Some f \<Rightarrow>
                              let w' = w\<lparr>opened := opened w @ [path]\<rparr> in
                              (case ho_seek os f off of
                                 None \<Rightarrow> (-1, mem, w')
                               | Some f' \<Rightarrow>
                                   (case read_file os f' n [] of
                                      (fine, bs) \<Rightarrow>
                                        (if fine then as_i32 (length bs) else -1, write_at mem p bs, w')))))
                | _ \<Rightarrow> (-1, mem, w))))"

definition fill_random ::
    "('f, 'w) host_os \<Rightarrow> bytes \<Rightarrow> int \<Rightarrow> int \<Rightarrow> 'w host_world \<Rightarrow> int \<times> bytes \<times> 'w host_world" where
  "fill_random os mem ptr len w =
     (case (to_usize ptr, to_usize len) of
        (Some p, Some n) \<Rightarrow>
          (case slice mem p n of
             None \<Rightarrow> (-1, mem, w)
           | Some _ \<Rightarrow>
               (case ho_random os n (outside w) of
                  (Some bs, o') \<Rightarrow>
                    (as_i32 n, write_at mem p (take n bs), w\<lparr>outside := o', draws := Suc (draws w)\<rparr>)
                | (None, o') \<Rightarrow> (-2, mem, w\<lparr>outside := o', draws := Suc (draws w)\<rparr>)))
      | _ \<Rightarrow> (-1, mem, w))"

text \<open>\<^verbatim>\<open>as_millis() as i64\<close> stays in range for any clock of the next centuries; before the epoch it is zero.\<close>

definition now_unix_millis :: "('f, 'w) host_os \<Rightarrow> 'w host_world \<Rightarrow> int \<times> 'w host_world" where
  "now_unix_millis os w =
     (case ho_clock os (outside w) of
        (t, o') \<Rightarrow> (case t of Some ns \<Rightarrow> sint (of_nat (ns div 10 ^ 6) :: 64 word) | None \<Rightarrow> 0,
                   w\<lparr>outside := o', clock_reads := Suc (clock_reads w)\<rparr>))"

section \<open>Host functions\<close>

text \<open>The imports of the namespace \<^verbatim>\<open>aether\<close>, with the arguments of a call.\<close>

datatype ask =
    AskInputCount
  | AskInputLen int
  | AskInputRead int int int
  | AskLog int int
  | AskNow
  | AskRandom int int
  | AskFileSize int int
  | AskFileRead int int int int int

fun ask_name :: "ask \<Rightarrow> string" where
  "ask_name AskInputCount = ''input_count''"
| "ask_name (AskInputLen _) = ''input_len''"
| "ask_name (AskInputRead _ _ _) = ''input_read''"
| "ask_name (AskLog _ _) = ''log''"
| "ask_name AskNow = ''now_unix_millis''"
| "ask_name (AskRandom _ _) = ''random''"
| "ask_name (AskFileSize _ _) = ''file_size''"
| "ask_name (AskFileRead _ _ _ _ _) = ''file_read''"

definition HOST_MODULE :: string where
  "HOST_MODULE = ''aether''"

text \<open>What the linker of a run defines: the inputs always, the rest as granted.\<close>

definition linked :: "wasm_capabilities \<Rightarrow> string list" where
  "linked caps =
     [''input_count'', ''input_len'', ''input_read'']
     @ (if cap_log caps then [''log''] else [])
     @ (if cap_clock caps then [''now_unix_millis''] else [])
     @ (if cap_random caps then [''random''] else [])
     @ (if cap_read_dir caps \<noteq> None then [''file_size'', ''file_read''] else [])"

text \<open>
  One call of a host function. Without an exported memory the functions that need one answer
  \<open>-1\<close>; \<^verbatim>\<open>log\<close> answers nothing, here zero.
\<close>

fun host_call ::
    "('f, 'w) host_os \<Rightarrow> bytes list \<Rightarrow> string option \<Rightarrow> bool \<Rightarrow> ask \<Rightarrow> bytes \<Rightarrow> 'w host_world
     \<Rightarrow> int \<times> bytes \<times> 'w host_world" where
  "host_call os ins dir has_memory AskInputCount mem w = (as_i32 (length ins), mem, w)"
| "host_call os ins dir has_memory (AskInputLen index) mem w = (input_len ins index, mem, w)"
| "host_call os ins dir has_memory (AskInputRead index ptr len) mem w =
     (if \<not> has_memory then (-1, mem, w)
      else case read_input ins index len mem ptr of (v, mem') \<Rightarrow> (v, mem', w))"
| "host_call os ins dir has_memory (AskLog ptr len) mem w =
     (case if has_memory then read_text (ho_lossy os) mem ptr len else None of
        Some line \<Rightarrow> (0, mem, w\<lparr>logged := logged w @ [line]\<rparr>)
      | None \<Rightarrow> (0, mem, w))"
| "host_call os ins dir has_memory AskNow mem w =
     (case now_unix_millis os w of (v, w') \<Rightarrow> (v, mem, w'))"
| "host_call os ins dir has_memory (AskRandom ptr len) mem w =
     (if \<not> has_memory then (-1, mem, w) else fill_random os mem ptr len w)"
| "host_call os ins dir has_memory (AskFileSize path_ptr path_len) mem w =
     (case if has_memory then read_text (ho_lossy os) mem path_ptr path_len else None of
        Some path \<Rightarrow> (file_size os dir path, mem, w)
      | None \<Rightarrow> (-1, mem, w))"
| "host_call os ins dir has_memory (AskFileRead path_ptr path_len offset ptr len) mem w =
     (case if has_memory then read_text (ho_lossy os) mem path_ptr path_len else None of
        Some path \<Rightarrow> file_read os dir path offset mem ptr len w
      | None \<Rightarrow> (-1, mem, w))"

section \<open>The engine and a run\<close>

text \<open>
  An engine error is its text and whether it is the trap for spent fuel. Code in the module
  runs until it fails, ends with a value, or asks for an import; the linear memory at that point
  comes with it.
\<close>

record engine_error =
  ee_out_of_fuel :: bool
  ee_text :: string

datatype 'g outcome =
    Faults engine_error
  | Finishes "64 word" bytes 'g
  | Asks ask bytes 'g

record ('m, 'g) engine =
  eng_new :: "string option"
  eng_load :: "bytes \<Rightarrow> string + 'm"
  eng_set_fuel :: "nat \<Rightarrow> string option"
  eng_imports :: "'m \<Rightarrow> (string \<times> string) list"
  eng_unresolved :: "string \<times> string \<Rightarrow> engine_error"
  eng_start :: "nat \<Rightarrow> nat \<Rightarrow> 'm \<Rightarrow> 'g outcome"
  eng_exports :: "'g \<Rightarrow> string \<Rightarrow> bool"
  eng_call :: "'g \<Rightarrow> bytes \<Rightarrow> string \<Rightarrow> int list \<Rightarrow> 'g outcome"
  eng_resume :: "'g \<Rightarrow> bytes \<Rightarrow> int \<Rightarrow> 'g outcome"

text \<open>
  Driving a call to its end. An import that the linker does not define has no function behind
  it: the engine reports it as unresolved.
\<close>

partial_function (option) drive ::
    "('m, 'g) engine \<Rightarrow> ('f, 'w) host_os \<Rightarrow> bytes list \<Rightarrow> wasm_capabilities \<Rightarrow> 'g outcome \<Rightarrow> 'w host_world
     \<Rightarrow> ((engine_error + 64 word \<times> bytes \<times> 'g) \<times> 'w host_world) option" where
  "drive eng os ins caps out w =
     (case out of
        Faults e \<Rightarrow> Some (Inl e, w)
      | Finishes v mem g \<Rightarrow> Some (Inr (v, mem, g), w)
      | Asks q mem g \<Rightarrow>
          (if ask_name q \<notin> set (linked caps) then Some (Inl (eng_unresolved eng (HOST_MODULE, ask_name q)), w)
           else case host_call os ins (cap_read_dir caps) (eng_exports eng g ''memory'') q mem w of
             (v, mem', w') \<Rightarrow> drive eng os ins caps (eng_resume eng g mem' v) w'))"

definition instantiate ::
    "('m, 'g) engine \<Rightarrow> ('f, 'w) host_os \<Rightarrow> bytes list \<Rightarrow> wasm_limits \<Rightarrow> 'm \<Rightarrow> 'w host_world
     \<Rightarrow> ((engine_error + 64 word \<times> bytes \<times> 'g) \<times> 'w host_world) option" where
  "instantiate eng os ins limits m w =
     (case find (\<lambda>(ns, name). ns \<noteq> HOST_MODULE \<or> name \<notin> set (linked (wl_capabilities limits))) (eng_imports eng m) of
        Some missing \<Rightarrow> Some (Inl (eng_unresolved eng missing), w)
      | None \<Rightarrow> drive eng os ins (wl_capabilities limits) (eng_start eng (wl_memory_bytes limits) (wl_fuel limits) m) w)"

text \<open>The two backends tell the kinds of an engine error apart by its text; one looks at the trap first.\<close>

definition classify_text :: "string \<Rightarrow> wasm_limits \<Rightarrow> wasm_error" where
  "classify_text t limits =
     (if occurs ''fuel'' t then OutOfFuel (wl_fuel limits)
      else if occurs ''memory'' t \<and> occurs ''limit'' t then OutOfMemory (wl_memory_bytes limits)
      else WasmTrap t)"

definition wasmi_classify :: "engine_error \<Rightarrow> wasm_limits \<Rightarrow> wasm_error" where
  "wasmi_classify e limits = classify_text (ee_text e) limits"

definition wasmtime_classify :: "engine_error \<Rightarrow> wasm_limits \<Rightarrow> wasm_error" where
  "wasmtime_classify e limits =
     (if ee_out_of_fuel e then OutOfFuel (wl_fuel limits) else classify_text (ee_text e) limits)"

text \<open>The output of a module: the slice its result names, once that was checked.\<close>

definition collect_output :: "64 word \<Rightarrow> bytes \<Rightarrow> wasm_limits \<Rightarrow> (wasm_error + bytes) exec" where
  "collect_output packed mem limits =
     (case unpack packed of (out_ptr, out_len) \<Rightarrow>
        (case check_output out_ptr out_len (length mem) limits of
           Inl e \<Rightarrow> Ret (Inl e)
         | Inr (p, n) \<Rightarrow> (case slice mem p n of None \<Rightarrow> Panic | Some output \<Rightarrow> Ret (Inr output))))"

text \<open>
  The run both backends share, after the engine was made. The offset that \<^verbatim>\<open>alloc\<close> returns is
  an \<^verbatim>\<open>i32\<close>, the low half of the result; as an address or in an error it is sign-extended.
\<close>

definition run_module ::
    "(engine_error \<Rightarrow> wasm_limits \<Rightarrow> wasm_error) \<Rightarrow> ('m, 'g) engine \<Rightarrow> ('f, 'w) host_os \<Rightarrow> bytes \<Rightarrow> bytes
     \<Rightarrow> bytes list \<Rightarrow> wasm_limits \<Rightarrow> 'w host_world \<Rightarrow> ((wasm_error + bytes) exec \<times> 'w host_world) option" where
  "run_module classify eng os module_bytes input ins limits w =
     (case eng_load eng module_bytes of
        Inl e \<Rightarrow> Some (Ret (Inl (LoadError e)), w)
      | Inr m \<Rightarrow>
     (case eng_set_fuel eng (wl_fuel limits) of
        Some e \<Rightarrow> Some (Ret (Inl (InstantiateError e)), w)
      | None \<Rightarrow>
     (case instantiate eng os ins limits m w of
        None \<Rightarrow> None
      | Some (Inl e, w1) \<Rightarrow> Some (Ret (Inl (classify e limits)), w1)
      | Some (Inr (_, mem1, g1), w1) \<Rightarrow>
     (if \<not> eng_exports eng g1 ''memory'' then Some (Ret (Inl (MissingExport ''memory'')), w1)
      else if \<not> eng_exports eng g1 ''alloc'' then Some (Ret (Inl (MissingExport ''alloc'')), w1)
      else if \<not> eng_exports eng g1 ''run'' then Some (Ret (Inl (MissingExport ''run'')), w1)
      else case drive eng os ins (wl_capabilities limits)
                  (eng_call eng g1 mem1 ''alloc'' [as_i32 (length input)]) w1 of
        None \<Rightarrow> None
      | Some (Inl e, w2) \<Rightarrow> Some (Ret (Inl (classify e limits)), w2)
      | Some (Inr (a, mem2, g2), w2) \<Rightarrow>
     (let ptr = sint (ucast a :: 32 word); addr = unat (scast (ucast a :: 32 word) :: 64 word) in
      if length mem2 < addr + length input then Some (Ret (Inl (BadOutputRange addr (length input))), w2)
      else case drive eng os ins (wl_capabilities limits)
                  (eng_call eng g2 (write_at mem2 addr input) ''run'' [ptr, as_i32 (length input)]) w2 of
        None \<Rightarrow> None
      | Some (Inl e, w3) \<Rightarrow> Some (Ret (Inl (classify e limits)), w3)
      | Some (Inr (packed, mem3, g3), w3) \<Rightarrow>
     Some (collect_output packed mem3 limits, w3))))))"

definition wasmi_run ::
    "('m, 'g) engine \<Rightarrow> ('f, 'w) host_os \<Rightarrow> bytes \<Rightarrow> bytes \<Rightarrow> bytes list \<Rightarrow> wasm_limits \<Rightarrow> 'w host_world
     \<Rightarrow> ((wasm_error + bytes) exec \<times> 'w host_world) option" where
  "wasmi_run = run_module wasmi_classify"

definition wasmtime_run ::
    "('m, 'g) engine \<Rightarrow> ('f, 'w) host_os \<Rightarrow> bytes \<Rightarrow> bytes \<Rightarrow> bytes list \<Rightarrow> wasm_limits \<Rightarrow> 'w host_world
     \<Rightarrow> ((wasm_error + bytes) exec \<times> 'w host_world) option" where
  "wasmtime_run eng os module_bytes input ins limits w =
     (case eng_new eng of
        Some e \<Rightarrow> Some (Ret (Inl (LoadError e)), w)
      | None \<Rightarrow> run_module wasmtime_classify eng os module_bytes input ins limits w)"

text \<open>The features of a build decide the backend; the interpreter wins over the compiler.\<close>

datatype backend = Interpreter | Jit | Absent

definition backend_of :: "bool \<Rightarrow> bool \<Rightarrow> backend" where
  "backend_of wasmi wasmtime = (if wasmi then Interpreter else if wasmtime then Jit else Absent)"

fun backend_display :: "backend \<Rightarrow> string" where
  "backend_display Interpreter = ''wasmi''"
| "backend_display Jit = ''wasmtime''"
| "backend_display Absent = ''none''"

definition run_with_inputs ::
    "backend \<Rightarrow> ('m, 'g) engine \<Rightarrow> ('f, 'w) host_os \<Rightarrow> bytes \<Rightarrow> bytes \<Rightarrow> bytes list \<Rightarrow> wasm_limits \<Rightarrow> 'w host_world
     \<Rightarrow> ((wasm_error + bytes) exec \<times> 'w host_world) option" where
  "run_with_inputs b eng os module_bytes input ins limits w =
     (case b of
        Interpreter \<Rightarrow> wasmi_run eng os module_bytes input ins limits w
      | Jit \<Rightarrow> wasmtime_run eng os module_bytes input ins limits w
      | Absent \<Rightarrow> Some (Ret (Inl NoBackend), w))"

definition wasm_run ::
    "backend \<Rightarrow> ('m, 'g) engine \<Rightarrow> ('f, 'w) host_os \<Rightarrow> bytes \<Rightarrow> bytes \<Rightarrow> wasm_limits \<Rightarrow> 'w host_world
     \<Rightarrow> ((wasm_error + bytes) exec \<times> 'w host_world) option" where
  "wasm_run b eng os module_bytes input limits w = run_with_inputs b eng os module_bytes input [] limits w"

lemma drive_simps:
  "drive eng os ins caps (Faults e) w = Some (Inl e, w)"
  "drive eng os ins caps (Finishes v mem g) w = Some (Inr (v, mem, g), w)"
  "drive eng os ins caps (Asks q mem g) w =
     (if ask_name q \<notin> set (linked caps) then Some (Inl (eng_unresolved eng (HOST_MODULE, ask_name q)), w)
      else case host_call os ins (cap_read_dir caps) (eng_exports eng g ''memory'') q mem w of
        (v, mem', w') \<Rightarrow> drive eng os ins caps (eng_resume eng g mem' v) w')"
  by (subst drive.simps, simp)+

section \<open>Memory is respected\<close>

text \<open>The range of the memory a call may write: nothing for the calls that only read.\<close>

fun ask_range :: "ask \<Rightarrow> int \<times> int" where
  "ask_range (AskInputRead _ ptr len) = (ptr, len)"
| "ask_range (AskRandom ptr len) = (ptr, len)"
| "ask_range (AskFileRead _ _ _ ptr len) = (ptr, len)"
| "ask_range _ = (0, 0)"

definition within :: "int \<times> int \<Rightarrow> bytes \<Rightarrow> bytes \<Rightarrow> bool" where
  "within r mem mem' =
     (length mem' = length mem
      \<and> (\<forall>i < length mem. (int i < fst r \<or> fst r + snd r \<le> int i) \<longrightarrow> mem' ! i = mem ! i))"

lemma within_refl [simp]: "within r mem mem"
  by (simp add: within_def)

lemma within_write:
  assumes "to_usize ptr = Some p" "to_usize len = Some n" "p + n \<le> length mem" "length bs \<le> n"
  shows "within (ptr, len) mem (write_at mem p bs)"
  using assms by (auto simp: within_def write_at_def to_usize_def nth_append min_def split: if_splits)

lemma slice_Some: "slice mem p n = Some bs \<longleftrightarrow> p + n \<le> length mem \<and> bs = take n (drop p mem)"
  by (auto simp: slice_def)

lemma read_input_within: "within (ptr, len) mem (snd (read_input ins i len mem ptr))"
proof (cases "\<exists>a n p. to_usize i = Some a \<and> to_usize len = Some n \<and> to_usize ptr = Some p \<and> a < length ins
    \<and> p + min n (length (ins ! a)) \<le> length mem")
  case True
  then obtain a n p where c: "to_usize i = Some a" "to_usize len = Some n" "to_usize ptr = Some p"
    "a < length ins" "p + min n (length (ins ! a)) \<le> length mem" by blast
  have "snd (read_input ins i len mem ptr) = write_at mem p (take (min n (length (ins ! a))) (ins ! a))"
    using c by (simp add: read_input_def slice_def Let_def)
  moreover have "length (write_at mem p bs) = length mem \<and> (\<forall>j < length mem. j < p \<or> p + length bs \<le> j \<longrightarrow> write_at mem p bs ! j = mem ! j)"
    if "p + length bs \<le> length mem" for bs
    using that by (auto simp: write_at_def nth_append min_def)
  ultimately show ?thesis using c by (auto simp: within_def to_usize_def split: if_splits)
next
  case False
  then have "snd (read_input ins i len mem ptr) = mem"
    by (auto simp: read_input_def slice_def Let_def split: option.splits)
  then show ?thesis by simp
qed

lemma read_file_length: "length acc \<le> len \<Longrightarrow> length (snd (read_file os f len acc)) \<le> len"
proof (induction os f len acc rule: read_file.induct)
  case (1 os f len acc)
  show ?case
  proof (cases "len \<le> length acc")
    case True
    then show ?thesis using "1.prems" by (subst read_file.simps) simp
  next
    case False
    then show ?thesis
    proof (cases "ho_read os f (len - length acc)")
      case (Some r)
      obtain bs f' where r: "r = (bs, f')" by (cases r)
      moreover have "length (acc @ take (len - length acc) bs) \<le> len" using False by simp
      ultimately show ?thesis
        using "1.IH" [OF False Some r [symmetric]] False Some "1.prems" by (subst read_file.simps) simp
    qed (subst read_file.simps, simp add: "1.prems")
  qed
qed

lemma file_read_within: "within (ptr, len) mem (fst (snd (file_read os root path off mem ptr len w)))"
proof -
  have "within (ptr, len) mem (write_at mem p (snd (read_file os f n [])))"
    if "to_usize ptr = Some p" "to_usize len = Some n" "p + n \<le> length mem" for p n f
    using within_write [OF that] read_file_length [of "[]" n os f] by simp
  then show ?thesis
    by (auto simp: file_read_def Let_def slice_Some case_prod_unfold split: option.splits)
qed

lemma fill_random_within: "within (ptr, len) mem (fst (snd (fill_random os mem ptr len w)))"
  by (auto simp: fill_random_def slice_Some case_prod_unfold intro!: within_write split: option.splits)

section \<open>The world is reached only as granted\<close>

definition confined :: "('f, 'w) host_os \<Rightarrow> wasm_capabilities \<Rightarrow> 'w host_world \<Rightarrow> 'w host_world \<Rightarrow> bool" where
  "confined os caps w w' =
     ((\<exists>new. opened w' = opened w @ new
        \<and> (\<forall>p \<in> set new. \<exists>root real. cap_read_dir caps = Some root \<and> ho_canonicalize os root = Some real
              \<and> path_starts_with p real))
      \<and> (\<not> cap_log caps \<longrightarrow> logged w' = logged w)
      \<and> (\<not> cap_clock caps \<longrightarrow> clock_reads w' = clock_reads w)
      \<and> (\<not> cap_random caps \<longrightarrow> draws w' = draws w)
      \<and> (\<not> cap_clock caps \<and> \<not> cap_random caps \<longrightarrow> outside w' = outside w))"

lemma confined_refl [simp]: "confined os caps w w"
  by (simp add: confined_def)

lemma confined_trans:
  assumes "confined os caps u v" "confined os caps v w"
  shows "confined os caps u w"
proof -
  let ?inside = "\<lambda>p. \<exists>root real. cap_read_dir caps = Some root \<and> ho_canonicalize os root = Some real \<and> path_starts_with p real"
  obtain n1 n2 where "opened v = opened u @ n1" "\<forall>p \<in> set n1. ?inside p" "opened w = opened v @ n2" "\<forall>p \<in> set n2. ?inside p"
    using assms unfolding confined_def by blast
  then have "opened w = opened u @ (n1 @ n2)" "\<forall>p \<in> set (n1 @ n2). ?inside p" by auto
  then show ?thesis using assms unfolding confined_def by (intro conjI exI [of _ "n1 @ n2"]) simp_all
qed

lemma resolve_in_root_inside:
  "resolve_in_root os root requested = Some p \<Longrightarrow> \<exists>real. ho_canonicalize os root = Some real \<and> path_starts_with p real"
  by (auto simp: resolve_in_root_def split: if_splits option.splits)

lemma file_read_confined: "confined os caps w (snd (snd (file_read os (cap_read_dir caps) path off mem ptr len w)))"
  by (auto simp: file_read_def confined_def Let_def case_prod_unfold dest: resolve_in_root_inside split: option.splits)

lemma host_call_confined:
  assumes "ask_name q \<in> set (linked caps)"
  shows "confined os caps w (snd (snd (host_call os ins (cap_read_dir caps) has q mem w)))"
proof (cases q)
  case (AskFileRead a b c d e)
  then show ?thesis by (auto simp: file_read_confined split: option.split)
qed (use assms in \<open>auto simp: linked_def confined_def now_unix_millis_def fill_random_def case_prod_unfold
       split: option.splits if_splits\<close>)

lemma drive_confined: "drive eng os ins caps out w = Some y \<Longrightarrow> confined os caps w (snd y)"
proof (rule drive.raw_induct [where P = "\<lambda>eng os ins caps out w y. confined os caps w (snd y)"])
  fix drive' eng os ins caps out w y
  assume IH: "\<And>eng os ins caps out w y. drive' eng os ins caps out w = Some y \<Longrightarrow> confined os caps w (snd y)"
    and body: "(case out of Faults e \<Rightarrow> Some (Inl e, w) | Finishes v mem g \<Rightarrow> Some (Inr (v, mem, g), w)
      | Asks q mem g \<Rightarrow>
          (if ask_name q \<notin> set (linked caps) then Some (Inl (eng_unresolved eng (HOST_MODULE, ask_name q)), w)
           else case host_call os ins (cap_read_dir caps) (eng_exports eng g ''memory'') q mem w of
             (v, mem', w') \<Rightarrow> drive' eng os ins caps (eng_resume eng g mem' v) w')) = Some y"
  show "confined os caps w (snd y)"
  proof (cases "\<exists>q mem g. out = Asks q mem g \<and> ask_name q \<in> set (linked caps)")
    case False
    then have "snd y = w" using body by (auto split: outcome.splits if_splits)
    then show ?thesis by simp
  next
    case True
    then obtain q mem g where q: "out = Asks q mem g" "ask_name q \<in> set (linked caps)" by blast
    obtain v mem' w' where h: "host_call os ins (cap_read_dir caps) (eng_exports eng g ''memory'') q mem w = (v, mem', w')"
      using prod_cases3 by blast
    then have "confined os caps w w'" using host_call_confined [OF q(2)] by (metis snd_conv)
    moreover have "drive' eng os ins caps (eng_resume eng g mem' v) w' = Some y" using body q h by simp
    then have "confined os caps w' (snd y)" by (rule IH)
    ultimately show ?thesis by (rule confined_trans)
  qed
qed

lemma instantiate_confined: "instantiate eng os ins limits m w = Some y \<Longrightarrow> confined os (wl_capabilities limits) w (snd y)"
  by (auto simp: instantiate_def split: option.splits dest: drive_confined)

lemma collect_output_ok:
  "collect_output packed mem limits \<noteq> Panic
   \<and> (\<forall>out. collect_output packed mem limits = Ret (Inr out) \<longrightarrow>
        length out \<le> wl_max_output_bytes limits
        \<and> out = take (unat packed mod 2 ^ 32) (drop (unat packed div 2 ^ 32) mem)
        \<and> unat packed div 2 ^ 32 + unat packed mod 2 ^ 32 \<le> length mem)"
proof -
  have "unpack packed = (unat packed div 2 ^ 32, unat packed mod 2 ^ 32)"
  proof -
    have "packed AND 0xffffffff = take_bit 32 packed" by (simp add: take_bit_eq_mask mask_eq_exp_minus_1)
    moreover have "unat packed < 2 ^ 64" using unsigned_less [of packed, where ?'a = nat] by simp
    ultimately show ?thesis
      unfolding unpack_def by (simp only: unsigned_drop_bit_eq unsigned_take_bit_eq)
        (simp add: drop_bit_eq_div take_bit_eq_mod)
  qed
  then show ?thesis by (auto simp: collect_output_def check_output_def slice_def)
qed

text \<open>What every run promises, whatever the module does.\<close>

definition run_safe :: "('f, 'w) host_os \<Rightarrow> wasm_limits \<Rightarrow> 'w host_world \<Rightarrow> (wasm_error + bytes) exec \<times> 'w host_world \<Rightarrow> bool" where
  "run_safe os limits w y =
     (confined os (wl_capabilities limits) w (snd y) \<and> fst y \<noteq> Panic
      \<and> (\<forall>out. fst y = Ret (Inr out) \<longrightarrow> length out \<le> wl_max_output_bytes limits))"

lemma run_safe_error: "confined os (wl_capabilities limits) w w' \<Longrightarrow> run_safe os limits w (Ret (Inl e), w')"
  by (simp add: run_safe_def)

lemma run_module_safe:
  assumes "run_module classify eng os module_bytes input ins limits w = Some y"
  shows "run_safe os limits w y"
proof -
  note steps = instantiate_confined drive_confined
  have c: "run_safe os limits w (collect_output packed mem limits, w')"
    if "confined os (wl_capabilities limits) w w'" for packed mem w'
    using that collect_output_ok [of packed mem limits] by (auto simp: run_safe_def)
  show ?thesis
    using assms unfolding run_module_def Let_def
    by (auto split: sum.splits option.splits prod.splits if_splits intro!: run_safe_error c
        dest!: steps intro: confined_trans confined_trans [OF confined_trans] simp del: One_nat_def)
qed

section \<open>Fuel ends a run\<close>

text \<open>
  What the engines document of fuel: a call into a module can only go on as long as fuel is
  left, and every import the module asks for has used some since the last one. \<^verbatim>\<open>left\<close> is the fuel
  left in a suspended call.
\<close>

definition spends_fuel :: "('m, 'g) engine \<Rightarrow> ('g \<Rightarrow> nat) \<Rightarrow> bool" where
  "spends_fuel eng left = (\<forall>g mem v q mem' g'. eng_resume eng g mem v = Asks q mem' g' \<longrightarrow> left g' < left g)"

lemma drive_ends:
  assumes "spends_fuel eng left"
  shows "\<exists>y. drive eng os ins caps out w = Some y"
proof (cases out)
  case (Asks q mem g)
  have "\<exists>y. drive eng os ins caps (Asks q mem g) w = Some y" for q mem g w
  proof (induction "left g" arbitrary: q mem g w rule: less_induct)
    case less
    obtain v mem' w' where h: "host_call os ins (cap_read_dir caps) (eng_exports eng g ''memory'') q mem w = (v, mem', w')"
      using prod_cases3 by blast
    have "\<exists>y. drive eng os ins caps (eng_resume eng g mem' v) w' = Some y"
    proof (cases "eng_resume eng g mem' v")
      case (Asks q' mem'' g')
      then have "left g' < left g" using assms by (auto simp: spends_fuel_def)
      then show ?thesis using less [of g'] Asks by simp
    qed (simp_all add: drive_simps)
    then show ?case using h by (simp add: drive_simps)
  qed
  then show ?thesis using Asks by simp
qed (simp_all add: drive_simps)

lemma run_module_ends:
  assumes "spends_fuel eng left"
  shows "\<exists>y. run_module classify eng os module_bytes input ins limits w = Some y"
proof -
  obtain run where d: "drive eng os ins caps out w = Some (run caps out w)" for caps out w
    using drive_ends [OF assms, of os ins] by metis
  have "\<exists>y. instantiate eng os ins limits m w = Some y" for m w
    by (simp add: instantiate_def d split: option.split)
  then obtain inst where "instantiate eng os ins limits m w = Some (inst m w)" for m w by metis
  then show ?thesis
    by (auto simp: run_module_def d Let_def case_prod_unfold split: sum.split option.split)
qed

section \<open>Properties\<close>

text \<open>
  C38. A module reaches nothing it was not granted: over any run, on either backend and for any
  behaviour of the module, every file it opened lies, after resolution of links and dots, under
  the granted directory, and log, clock and randomness are untouched without their grants; the
  host does not panic, and an output is never over the limit.
\<close>

theorem module_is_confined:
  assumes "run_with_inputs b eng os module_bytes input ins limits w = Some (r, w')"
  shows "confined os (wl_capabilities limits) w w' \<and> r \<noteq> Panic
    \<and> (\<forall>out. r = Ret (Inr out) \<longrightarrow> length out \<le> wl_max_output_bytes limits)"
proof -
  have "run_safe os limits w (r, w')"
    using assms run_module_safe
    by (auto simp: run_with_inputs_def wasmi_run_def wasmtime_run_def intro: run_safe_error
        split: backend.splits option.splits)
  then show ?thesis by (simp add: run_safe_def)
qed

text \<open>A small engine: a module that copies two bytes of its first dataset and returns them.\<close>

definition copy_engine :: "(unit, bool) engine" where
  "copy_engine = \<lparr> eng_new = None, eng_load = (\<lambda>_. Inr ()), eng_set_fuel = (\<lambda>_. None),
     eng_imports = (\<lambda>_. [(HOST_MODULE, ''input_read'')]),
     eng_unresolved = (\<lambda>i. \<lparr> ee_out_of_fuel = False, ee_text = ''unknown import: '' @ snd i \<rparr>),
     eng_start = (\<lambda>_ _ _. Finishes 0 [0, 0, 0, 0] False), eng_exports = (\<lambda>_ _. True),
     eng_call = (\<lambda>g mem name _. if name = ''run'' then Asks (AskInputRead 0 0 2) mem g else Finishes 0 mem g),
     eng_resume = (\<lambda>g mem v. Finishes 2 mem True) \<rparr>"

definition bare_os :: "(unit, unit) host_os" where
  "bare_os = \<lparr> ho_canonicalize = Some, ho_metadata = (\<lambda>_. None), ho_open = (\<lambda>_. None),
     ho_seek = (\<lambda>_ _. None), ho_read = (\<lambda>_ _. None), ho_random = (\<lambda>_ w. (None, w)), ho_clock = (\<lambda>w. (None, w)),
     ho_lossy = (\<lambda>_. []) \<rparr>"

definition bare_world :: "unit host_world" where
  "bare_world = \<lparr> outside = (), logged = [], opened = [], draws = 0, clock_reads = 0 \<rparr>"

lemma copy_engine_run:
  "run_with_inputs Interpreter copy_engine bare_os [] [7] [[1, 2, 3]] wasm_limits_default bare_world
   = Some (Ret (Inr [1, 2]), bare_world)"
proof -
  let ?caps = "wl_capabilities wasm_limits_default"
  note eng = copy_engine_def
  have l: "''input_read'' \<in> set (linked ?caps)" by (simp add: linked_def)
  have i: "instantiate copy_engine bare_os [[1, 2, 3]] wasm_limits_default () bare_world
      = Some (Inr (0, [0, 0, 0, 0], False), bare_world)"
    using l by (simp add: instantiate_def eng drive_simps)
  have a: "drive copy_engine bare_os [[1, 2, 3]] ?caps (eng_call copy_engine False [0, 0, 0, 0] ''alloc'' args) bare_world
      = Some (Inr (0, [0, 0, 0, 0], False), bare_world)" for args
    by (simp add: eng drive_simps)
  have "read_input [[1, 2, 3]] 0 2 [7, 0, 0, 0] 0 = (2, [1, 2, 0, 0])" by code_simp
  then have r: "drive copy_engine bare_os [[1, 2, 3]] ?caps (eng_call copy_engine False [7, 0, 0, 0] ''run'' args) bare_world
      = Some (Inr (2, [1, 2, 0, 0], True), bare_world)" for args
    using l by (simp add: eng drive_simps)
  have "unpack 2 = (0, 2)" by code_simp
  then have "collect_output 2 [1, 2, 0, 0] wasm_limits_default = Ret (Inr [1, 2])"
    by (simp add: collect_output_def check_output_def slice_def wasm_limits_default_def)
  moreover have "write_at [0, 0, 0, 0] 0 [7] = [7, 0, 0, 0 :: byte]" by code_simp
  moreover have "eng_load copy_engine [] = Inr ()" "eng_set_fuel copy_engine f = None" "eng_exports copy_engine g x" for f g x
    by (simp_all add: eng)
  ultimately show ?thesis
    by (simp add: run_with_inputs_def wasmi_run_def run_module_def i a r Let_def)
qed

theorem module_is_confined_witness:
  "confined bare_os capabilities_none bare_world bare_world \<and> length [1, 2 :: byte] \<le> 64 * 1024 * 1024"
  using module_is_confined [OF copy_engine_run] by (simp add: wasm_limits_default_def)

text \<open>
  A host function called by a module writes only into the range of the module's memory that
  the call names, never changes the size of that memory, and leaves all of it alone when the range
  is not inside.
\<close>

lemma host_call_in_bounds:
  "within (ask_range q) mem (fst (snd (host_call os ins dir has q mem w)))"
  using read_input_within file_read_within fill_random_within
  by (cases q) (auto simp: case_prod_unfold split: option.split)



text \<open>
  The kind of an error is read off its text, which names the import that could not be resolved:
  a module that imports a function whose name contains the word is reported as out of fuel.
\<close>

lemma import_named_fuel:
  "wasmi_classify (eng_unresolved copy_engine (HOST_MODULE, ''refuel'')) limits = OutOfFuel (wl_fuel limits)"
proof -
  have "occurs ''fuel'' (''unknown import: '' @ ''refuel'')" by code_simp
  then show ?thesis by (simp add: wasmi_classify_def classify_text_def copy_engine_def)
qed

end
