(* ===== verification/Dashboard.thy ===== *)
theory Dashboard
  imports ClientCall Autoscale Executor Parsing "HOL-Library.List_Lexorder" "HOL-Library.Char_ord"
    "HOL-Library.Product_Lexorder"
begin

text \<open>
  The terminal dashboard: what it knows and how a keystroke or a reading changes it
  (\<^verbatim>\<open>crates/aether-tui/src/app.rs\<close>), and the loop around it (\<^verbatim>\<open>main.rs\<close>). Drawing is in Screen.
  The answers of the controller to one round of the loop are its input; the texts of errors of
  the connection are a parameter.
\<close>

section \<open>Data\<close>

definition HISTORY :: nat where "HISTORY = 120"
definition LOG_LINES :: nat where "LOG_LINES = 64"
definition MIN_POLL :: duration where "MIN_POLL = from_millis 250"
definition MAX_POLL :: duration where "MAX_POLL = from_secs 10"

datatype link_state = Connecting | Live | Lost string

record totals =
  tt_nodes :: nat
  tt_nodes_connected :: nat
  tt_datasets :: nat
  tt_dataset_bytes :: nat

definition totals_default :: totals where
  "totals_default = \<lparr> tt_nodes = 0, tt_nodes_connected = 0, tt_datasets = 0, tt_dataset_bytes = 0 \<rparr>"

datatype mode = Watching | Submitting | Help

datatype field = Kind | Payload | Constraints | PriorityField

fun field_next :: "field \<Rightarrow> field" where
  "field_next Kind = Payload"
| "field_next Payload = Constraints"
| "field_next Constraints = PriorityField"
| "field_next PriorityField = Kind"

record form =
  f_kind :: string
  f_payload :: string
  f_constraints :: string
  f_priority :: priority
  f_focus :: field

definition form_default :: form where
  "form_default = \<lparr> f_kind = ''echo'', f_payload = ''hello'', f_constraints = [], f_priority = Normal, f_focus = Kind \<rparr>"

text \<open>The text field with the focus, changed; the priority stands for the constraints here.\<close>

definition field_update :: "(string \<Rightarrow> string) \<Rightarrow> form \<Rightarrow> form" where
  "field_update g f =
     (case f_focus f of
        Kind \<Rightarrow> f\<lparr>f_kind := g (f_kind f)\<rparr>
      | Payload \<Rightarrow> f\<lparr>f_payload := g (f_payload f)\<rparr>
      | Constraints \<Rightarrow> f\<lparr>f_constraints := g (f_constraints f)\<rparr>
      | PriorityField \<Rightarrow> f\<lparr>f_constraints := g (f_constraints f)\<rparr>)"

fun position :: "'a \<Rightarrow> 'a list \<Rightarrow> nat option" where
  "position x [] = None"
| "position x (y # ys) = (if x = y then Some 0 else map_option Suc (position x ys))"

definition shift_priority :: "bool \<Rightarrow> form \<Rightarrow> form" where
  "shift_priority up f =
     (let index = (case position (f_priority f) PRIORITY_ALL of Some i \<Rightarrow> i | None \<Rightarrow> 2);
          target = (if up then min (index + 1) (length PRIORITY_ALL - 1) else index - 1)
      in f\<lparr>f_priority := PRIORITY_ALL ! target\<rparr>)"

text \<open>\<^verbatim>\<open>Debug\<close> of a string: quoted, with control and unprintable characters escaped.\<close>

definition debug_char :: "char \<Rightarrow> string" where
  "debug_char c =
     (let n = of_char c :: nat; bs = CHR 0x5C in
      if n = 0 then [bs, CHR ''0'']
      else if n = 9 then [bs, CHR ''t'']
      else if n = 10 then [bs, CHR ''n'']
      else if n = 13 then [bs, CHR ''r'']
      else if c = bs \<or> n = 34 then [bs, c]
      else if n < 32 \<or> 127 \<le> n \<and> n \<le> 160 \<or> n = 173 then
        [bs] @ ''u{'' @ (if n < 16 then [hex_digit n] else [hex_digit (n div 16), hex_digit (n mod 16)]) @ ''}''
      else [c])"

definition debug_text :: "string \<Rightarrow> string" where
  "debug_text s = [CHR 0x22] @ concat (map debug_char s) @ [CHR 0x22]"

definition payload_bytes :: "form \<Rightarrow> string + bytes" where
  "payload_bytes f =
     (if trim (f_kind f) = ''cpu'' then
        (case parse_uint 64 (trim (f_payload f)) of
           None \<Rightarrow> Inl (''cpu takes an iteration count, not '' @ debug_text (trim (f_payload f)))
         | Some n \<Rightarrow> Inr (word_to_le_bytes (of_nat n)))
      else Inr (str_bytes (f_payload f)))"

definition constraint_list :: "form \<Rightarrow> string list" where
  "constraint_list f =
     filter (\<lambda>t. t \<noteq> [])
       (map trim (split_at (CHR '' '') (replace_char (CHR '','') '' '' (f_constraints f))))"

datatype line_kind = Info | Good | Bad

record line =
  l_text :: string
  l_kind :: line_kind

section \<open>Throughput\<close>

record throughput =
  tp_samples :: "nat list"
  tp_last_total :: "nat option"
  tp_last_at :: "instant option"
  tp_latest :: nat

definition throughput_default :: throughput where
  "throughput_default = \<lparr> tp_samples = [], tp_last_total = None, tp_last_at = None, tp_latest = 0 \<rparr>"

definition throughput_record :: "throughput \<Rightarrow> nat \<Rightarrow> instant \<Rightarrow> throughput" where
  "throughput_record t tot now =
     (let rate = (case (tp_last_total t, tp_last_at t) of
            (Some previous, Some earlier) \<Rightarrow>
              let elapsed = as_secs_f64 (saturating_duration_since now earlier);
                  moved = tot - previous
              in if fle elapsed (Num False 0) then 0
                 else to_uint 64 (fdiv f64 (of_nat_f f64 moved) elapsed)
          | _ \<Rightarrow> 0);
          samples = tp_samples t @ [rate]
      in \<lparr> tp_samples = drop (length samples - HISTORY) samples, tp_last_total = Some tot,
           tp_last_at = Some now, tp_latest = rate \<rparr>)"

definition throughput_peak :: "throughput \<Rightarrow> nat" where
  "throughput_peak t = fold max (tp_samples t) 0"

section \<open>The application\<close>

record app =
  a_addr :: string
  a_poll :: duration
  a_connection :: link_state
  a_traffic :: "traffic_summary option"
  a_mesh :: "mesh_metrics option"
  a_queue :: "queue_snapshot option"
  a_totals :: totals
  a_nodes :: "node_summary list"
  a_recent :: "finished_task list"
  a_selected :: nat
  a_throughput :: throughput
  a_log :: "line list"
  a_mode :: mode
  a_form :: form
  a_quit :: bool
  a_submitting :: bool
  a_refresh :: bool

definition app_new :: "string \<Rightarrow> duration \<Rightarrow> app" where
  "app_new addr poll =
     \<lparr> a_addr = addr, a_poll = max MIN_POLL (min MAX_POLL poll), a_connection = Connecting, a_traffic = None,
       a_mesh = None, a_queue = None, a_totals = totals_default, a_nodes = [], a_recent = [], a_selected = 0,
       a_throughput = throughput_default, a_log = [], a_mode = Watching, a_form = form_default, a_quit = False,
       a_submitting = False, a_refresh = False \<rparr>"

definition apply_recent :: "finished_task list \<Rightarrow> app \<Rightarrow> app" where
  "apply_recent rs a = a\<lparr>a_recent := rs\<rparr>"

definition apply_stats :: "mesh_stats \<Rightarrow> instant \<Rightarrow> app \<Rightarrow> app" where
  "apply_stats s now a =
     a\<lparr>a_throughput := throughput_record (a_throughput a) (ts_bytes_sent (st_traffic s)) now,
       a_traffic := Some (st_traffic s), a_mesh := Some (st_mesh s), a_queue := Some (st_queue s),
       a_totals := \<lparr> tt_nodes = st_nodes s, tt_nodes_connected = st_nodes_connected s,
                     tt_datasets = st_datasets s, tt_dataset_bytes = st_dataset_bytes s \<rparr>,
       a_connection := Live\<rparr>"

definition clamp_selection :: "app \<Rightarrow> app" where
  "clamp_selection a =
     (if a_nodes a = [] then a\<lparr>a_selected := 0\<rparr>
      else if length (a_nodes a) \<le> a_selected a then a\<lparr>a_selected := length (a_nodes a) - 1\<rparr>
      else a)"

definition apply_nodes :: "node_summary list \<Rightarrow> app \<Rightarrow> app" where
  "apply_nodes nodes a =
     (clamp_selection (a\<lparr>a_nodes := sort_key (\<lambda>n. (ns_hostname n, ns_node_id n)) nodes\<rparr>))\<lparr>a_connection := Live\<rparr>"

definition push_log :: "string \<Rightarrow> line_kind \<Rightarrow> app \<Rightarrow> app" where
  "push_log t k a = a\<lparr>a_log := take LOG_LINES (\<lparr> l_text = t, l_kind = k \<rparr> # a_log a)\<rparr>"

definition lose :: "string \<Rightarrow> app \<Rightarrow> app" where
  "lose reason a =
     (let a' = (if a_connection a \<noteq> Lost reason then push_log (''controller: '' @ reason) Bad a else a)
      in a'\<lparr>a_connection := Lost reason\<rparr>)"

definition short :: "string \<Rightarrow> string" where
  "short i = hd (split_at (CHR ''-'') i)"

definition apply_result :: "finished_call \<Rightarrow> app \<Rightarrow> app" where
  "apply_result r a =
     (let a' = a\<lparr>a_submitting := False\<rparr>; place = short (fc_node_id r); ms = fmt_fixed 1 (fc_duration_ms r) in
      if fc_success r then push_log (''ran on '' @ place @ '' in '' @ ms @ '' ms'') Good a'
      else push_log (''failed on '' @ place @ '' after '' @ ms @ '' ms: ''
             @ (case fc_error r of Some e \<Rightarrow> e | None \<Rightarrow> ''no reason given'')) Bad a')"

definition selected_node :: "app \<Rightarrow> node_summary option" where
  "selected_node a = (if a_selected a < length (a_nodes a) then Some (a_nodes a ! a_selected a) else None)"

definition select_next :: "app \<Rightarrow> app" where
  "select_next a =
     (if a_nodes a = [] then a else a\<lparr>a_selected := (a_selected a + 1) mod length (a_nodes a)\<rparr>)"

definition select_previous :: "app \<Rightarrow> app" where
  "select_previous a =
     (if a_nodes a = [] then a
      else a\<lparr>a_selected := (if a_selected a = 0 then length (a_nodes a) - 1 else a_selected a - 1)\<rparr>)"

definition poll_faster :: "app \<Rightarrow> app" where
  "poll_faster a = a\<lparr>a_poll := max (a_poll a div 2) MIN_POLL\<rparr>"

definition poll_slower :: "app \<Rightarrow> app" where
  "poll_slower a = a\<lparr>a_poll := min (a_poll a * 2) MAX_POLL\<rparr>"

text \<open>\<^verbatim>\<open>first_label\<close> is the first entry of a node's ordered label map.\<close>

definition open_form :: "(node_summary \<Rightarrow> (string \<times> string) option) \<Rightarrow> app \<Rightarrow> app" where
  "open_form first_label a =
     (let a' = (if f_constraints (a_form a) = [] then
                  (case selected_node a of
                     Some node \<Rightarrow>
                       (case first_label node of
                          Some (key, val) \<Rightarrow> a\<lparr>a_form := (a_form a)\<lparr>f_constraints := key @ ''='' @ val\<rparr>\<rparr>
                        | None \<Rightarrow> a)
                   | None \<Rightarrow> a)
                else a)
      in a'\<lparr>a_mode := Submitting\<rparr>)"

datatype key = KChar char | Backspace | Enter | Tab | Escape | Left | Right

record submission =
  s_kind :: string
  s_payload :: bytes
  s_constraints :: "string list"
  s_priority :: priority

definition finish_form :: "app \<Rightarrow> submission option \<times> app" where
  "finish_form a =
     (case payload_bytes (a_form a) of
        Inl message \<Rightarrow> (None, push_log message Bad a)
      | Inr bs \<Rightarrow>
          let kind = trim (f_kind (a_form a)) in
          if kind = [] then (None, push_log ''a task needs a kind'' Bad a)
          else
            let cs = constraint_list (a_form a); p = f_priority (a_form a);
                msg = ''submitting '' @ kind @ '' ('' @ priority_as_str p @ '')''
                  @ (if cs = [] then [] else '' where '' @ joined '', '' cs)
            in (Some \<lparr> s_kind = kind, s_payload = bs, s_constraints = cs, s_priority = p \<rparr>,
                push_log msg Info (a\<lparr>a_mode := Watching, a_submitting := True\<rparr>)))"

fun edit_form :: "app \<Rightarrow> key \<Rightarrow> submission option \<times> app" where
  "edit_form a Escape = (None, a\<lparr>a_mode := Watching\<rparr>)"
| "edit_form a Tab = (None, a\<lparr>a_form := (a_form a)\<lparr>f_focus := field_next (f_focus (a_form a))\<rparr>\<rparr>)"
| "edit_form a Left =
     (None, if f_focus (a_form a) = PriorityField then a\<lparr>a_form := shift_priority False (a_form a)\<rparr> else a)"
| "edit_form a Right =
     (None, if f_focus (a_form a) = PriorityField then a\<lparr>a_form := shift_priority True (a_form a)\<rparr> else a)"
| "edit_form a Backspace =
     (None, if f_focus (a_form a) \<noteq> PriorityField then a\<lparr>a_form := field_update butlast (a_form a)\<rparr> else a)"
| "edit_form a (KChar c) =
     (None, if f_focus (a_form a) \<noteq> PriorityField then a\<lparr>a_form := field_update (\<lambda>s. s @ [c]) (a_form a)\<rparr> else a)"
| "edit_form a Enter = finish_form a"

text \<open>A byte count as a person reads it.\<close>

fun scale_bytes :: "fl \<Rightarrow> string \<Rightarrow> string list \<Rightarrow> fl \<times> string" where
  "scale_bytes sz u [] = (sz, u)"
| "scale_bytes sz u (v # vs) =
     (if fle (fconst f64 1024) sz then scale_bytes (fdiv f64 sz (fconst f64 1024)) v vs else (sz, u))"

definition show_bytes :: "nat \<Rightarrow> string" where
  "show_bytes value =
     (case scale_bytes (of_nat_f f64 value) ''B'' [''KiB'', ''MiB'', ''GiB'', ''TiB''] of
        (sz, u) \<Rightarrow> if u = ''B'' then nat_to_string value @ '' B'' else fmt_fixed 1 sz @ '' '' @ u)"

section \<open>The loop\<close>

text \<open>The keys of the terminal the loop looks at; a key press comes with its control modifier.\<close>

datatype key_code = KcChar char | KcEsc | KcTab | KcDown | KcUp | KcLeft | KcRight | KcEnter | KcBackspace | KcOther

record key_event =
  ke_code :: key_code
  ke_control :: bool
  ke_press :: bool

fun form_key :: "key_code \<Rightarrow> key option" where
  "form_key KcEsc = Some Escape"
| "form_key KcTab = Some Tab"
| "form_key KcDown = Some Tab"
| "form_key KcLeft = Some Left"
| "form_key KcRight = Some Right"
| "form_key KcEnter = Some Enter"
| "form_key KcBackspace = Some Backspace"
| "form_key (KcChar c) = Some (KChar c)"
| "form_key _ = None"

fun watch_key :: "(node_summary \<Rightarrow> (string \<times> string) option) \<Rightarrow> key_code \<Rightarrow> app \<Rightarrow> app" where
  "watch_key first_label KcEsc a = a\<lparr>a_quit := True\<rparr>"
| "watch_key first_label KcDown a = select_next a"
| "watch_key first_label KcUp a = select_previous a"
| "watch_key first_label (KcChar c) a =
     (if c = CHR ''q'' then a\<lparr>a_quit := True\<rparr>
      else if c = CHR ''s'' then open_form first_label a
      else if c = CHR ''?'' \<or> c = CHR ''h'' then a\<lparr>a_mode := Help\<rparr>
      else if c = CHR ''j'' then select_next a
      else if c = CHR ''k'' then select_previous a
      else if c = CHR ''+'' \<or> c = CHR ''='' then poll_faster a
      else if c = CHR ''-'' \<or> c = CHR ''_'' then poll_slower a
      else if c = CHR ''r'' then a\<lparr>a_refresh := True\<rparr>
      else a)"
| "watch_key first_label _ a = a"

definition read_key ::
    "(node_summary \<Rightarrow> (string \<times> string) option) \<Rightarrow> key_event option \<Rightarrow> app \<Rightarrow> submission option \<times> app" where
  "read_key first_label ev a =
     (case ev of
        None \<Rightarrow> (None, a)
      | Some k \<Rightarrow>
          (if \<not> ke_press k then (None, a)
           else if ke_control k \<and> ke_code k = KcChar (CHR ''c'') then (None, a\<lparr>a_quit := True\<rparr>)
           else case a_mode a of
             Submitting \<Rightarrow> (case form_key (ke_code k) of Some key \<Rightarrow> edit_form a key | None \<Rightarrow> (None, a))
           | Help \<Rightarrow> (None, a\<lparr>a_mode := Watching\<rparr>)
           | Watching \<Rightarrow> (None, watch_key first_label (ke_code k) a)))"

text \<open>
  What the outside gives one round of the loop: a key, the clock, and the answers of the
  controller to the questions the round may ask.
\<close>

record round =
  rd_key :: "key_event option"
  rd_now :: instant
  rd_submit :: "submission \<Rightarrow> submit_options \<Rightarrow> connection_error + finished_call"
  rd_connect :: "connection_error + unit"
  rd_stats :: "connection_error + mesh_stats"
  rd_stats_at :: instant
  rd_nodes :: "connection_error + node_summary list"
  rd_recent :: "connection_error + finished_task list"

record dash =
  d_app :: app
  d_client :: bool
  d_next_poll :: instant
  d_next_attempt :: instant
  d_done :: bool

definition RECONNECT_DELAY :: duration where
  "RECONNECT_DELAY = from_secs 2"

definition poll_round :: "round \<Rightarrow> app \<Rightarrow> (connection_error + unit) \<times> app" where
  "poll_round rd a =
     (case rd_stats rd of
        Inl e \<Rightarrow> (Inl e, a)
      | Inr s \<Rightarrow>
          let a1 = apply_stats s (rd_stats_at rd) a in
          (case rd_nodes rd of
             Inl e \<Rightarrow> (Inl e, a1)
           | Inr ns \<Rightarrow>
               let a2 = apply_nodes ns a1 in
               (case rd_recent rd of Inl e \<Rightarrow> (Inl e, a2) | Inr rs \<Rightarrow> (Inr (), apply_recent rs a2))))"

fun is_refusal :: "connection_error \<Rightarrow> bool" where
  "is_refusal (RefusedBy _) = True"
| "is_refusal _ = False"

definition send_submission :: "(connection_error \<Rightarrow> string) \<Rightarrow> round \<Rightarrow> submission \<Rightarrow> bool \<Rightarrow> app \<Rightarrow> bool \<times> app" where
  "send_submission show_error rd s client a =
     (if client then
        let opts = options_with_priority (options_with_constraints options_default (s_constraints s)) (s_priority s) in
        (case rd_submit rd s opts of
           Inr r \<Rightarrow> (True, apply_result r a)
         | Inl e \<Rightarrow> (is_refusal e, push_log (show_error e) Bad (a\<lparr>a_submitting := False\<rparr>)))
      else (False, push_log ''not connected to a controller'' Bad (a\<lparr>a_submitting := False\<rparr>)))"

definition reconnect :: "(connection_error \<Rightarrow> string) \<Rightarrow> round \<Rightarrow> dash \<Rightarrow> dash" where
  "reconnect show_error rd d =
     (if \<not> d_client d \<and> d_next_attempt d \<le> rd_now rd then
        let d1 = d\<lparr>d_next_attempt := rd_now rd + RECONNECT_DELAY\<rparr>; a = d_app d1 in
        (case rd_connect rd of
           Inr _ \<Rightarrow> d1\<lparr>d_client := True, d_next_poll := rd_now rd,
                      d_app := push_log (''connected to '' @ a_addr a) Good (a\<lparr>a_connection := Live\<rparr>)\<rparr>
         | Inl e \<Rightarrow> d1\<lparr>d_app := lose (show_error e) a\<rparr>)
      else d)"

definition poll_due :: "(connection_error \<Rightarrow> string) \<Rightarrow> round \<Rightarrow> dash \<Rightarrow> dash" where
  "poll_due show_error rd d =
     (if d_client d \<and> (d_next_poll d \<le> rd_now rd \<or> a_refresh (d_app d)) then
        let a = (d_app d)\<lparr>a_refresh := False\<rparr>; d1 = d\<lparr>d_next_poll := rd_now rd + a_poll a\<rparr> in
        (case poll_round rd a of
           (Inr _, a') \<Rightarrow> d1\<lparr>d_app := a'\<rparr>
         | (Inl e, a') \<Rightarrow> d1\<lparr>d_app := lose (show_error e) a', d_client := False\<rparr>)
      else d)"

definition dash_round ::
    "(node_summary \<Rightarrow> (string \<times> string) option) \<Rightarrow> (connection_error \<Rightarrow> string) \<Rightarrow> dash \<Rightarrow> round \<Rightarrow> dash" where
  "dash_round first_label show_error d rd =
     (if d_done d then d
      else case read_key first_label (rd_key rd) (d_app d) of
        (sub, a) \<Rightarrow>
          let (client, a1) = (case sub of Some s \<Rightarrow> send_submission show_error rd s (d_client d) a
                                        | None \<Rightarrow> (d_client d, a));
              d1 = d\<lparr>d_app := a1, d_client := client\<rparr>
          in if a_quit a1 then d1\<lparr>d_done := True\<rparr>
             else poll_due show_error rd (reconnect show_error rd d1))"

definition dash_start :: "string \<Rightarrow> duration \<Rightarrow> instant \<Rightarrow> dash" where
  "dash_start addr poll now =
     \<lparr> d_app = app_new addr poll, d_client = False, d_next_poll = now, d_next_attempt = now, d_done = False \<rparr>"

section \<open>What holds of the view\<close>

definition app_inv :: "app \<Rightarrow> bool" where
  "app_inv a =
     (length (a_log a) \<le> LOG_LINES \<and> length (tp_samples (a_throughput a)) \<le> HISTORY
      \<and> MIN_POLL \<le> a_poll a \<and> a_poll a \<le> MAX_POLL
      \<and> (if a_nodes a = [] then a_selected a = 0 else a_selected a < length (a_nodes a)))"

named_theorems app_ops

lemma poll_limits [simp]: "MIN_POLL \<le> MAX_POLL"
  by (simp add: MIN_POLL_def MAX_POLL_def from_millis_def from_secs_def nanos_per_sec_def)

lemma app_new_inv: "app_inv (app_new addr poll)"
  by (auto simp: app_inv_def app_new_def throughput_default_def min_def max_def)

lemma push_log_inv [app_ops]: "app_inv a \<Longrightarrow> app_inv (push_log t k a)"
  by (simp add: app_inv_def push_log_def LOG_LINES_def)

lemma app_inv_update [app_ops]:
  "app_inv a \<Longrightarrow> app_inv (a\<lparr>a_connection := c\<rparr>)" "app_inv a \<Longrightarrow> app_inv (a\<lparr>a_mode := m\<rparr>)"
  "app_inv a \<Longrightarrow> app_inv (a\<lparr>a_form := f\<rparr>)" "app_inv a \<Longrightarrow> app_inv (a\<lparr>a_quit := q\<rparr>)"
  "app_inv a \<Longrightarrow> app_inv (a\<lparr>a_submitting := q\<rparr>)" "app_inv a \<Longrightarrow> app_inv (a\<lparr>a_refresh := q\<rparr>)"
  "app_inv a \<Longrightarrow> app_inv (a\<lparr>a_recent := rs\<rparr>)"
  by (simp_all add: app_inv_def)

lemma lose_inv [app_ops]: "app_inv a \<Longrightarrow> app_inv (lose r a)"
  by (simp add: lose_def Let_def app_ops)

lemma apply_result_inv [app_ops]: "app_inv a \<Longrightarrow> app_inv (apply_result r a)"
  by (simp add: apply_result_def Let_def app_ops)

lemma apply_recent_inv [app_ops]: "app_inv a \<Longrightarrow> app_inv (apply_recent rs a)"
  by (simp add: apply_recent_def app_ops)

lemma apply_stats_inv [app_ops]: "app_inv a \<Longrightarrow> app_inv (apply_stats s now a)"
  by (auto simp: app_inv_def apply_stats_def throughput_record_def Let_def split: option.splits)

lemma clamp_selection_inv:
  "app_inv (a\<lparr>a_nodes := [], a_selected := 0\<rparr>) \<Longrightarrow> app_inv (clamp_selection (a\<lparr>a_nodes := ns\<rparr>))"
  by (auto simp: app_inv_def clamp_selection_def)

lemma apply_nodes_inv [app_ops]: "app_inv a \<Longrightarrow> app_inv (apply_nodes ns a)"
  unfolding apply_nodes_def by (intro app_ops clamp_selection_inv) (simp add: app_inv_def)

lemma select_inv [app_ops]: "app_inv a \<Longrightarrow> app_inv (select_next a)" "app_inv a \<Longrightarrow> app_inv (select_previous a)"
  by (auto simp: app_inv_def select_next_def select_previous_def)

lemma poll_speed_inv [app_ops]: "app_inv a \<Longrightarrow> app_inv (poll_faster a)" "app_inv a \<Longrightarrow> app_inv (poll_slower a)"
  by (auto simp: app_inv_def poll_faster_def poll_slower_def min_def max_def)

lemma open_form_inv [app_ops]: "app_inv a \<Longrightarrow> app_inv (open_form fl a)"
  by (auto simp: open_form_def Let_def intro!: app_ops split: option.split)

lemma finish_form_inv [app_ops]: "app_inv a \<Longrightarrow> app_inv (snd (finish_form a))"
  by (auto simp: finish_form_def Let_def intro!: app_ops split: sum.split)

lemma edit_form_inv [app_ops]: "app_inv a \<Longrightarrow> app_inv (snd (edit_form a k))"
  by (cases k) (simp_all add: app_ops)

lemma watch_key_inv [app_ops]: "app_inv a \<Longrightarrow> app_inv (watch_key fl c a)"
  by (cases c) (simp_all add: app_ops)

lemma read_key_inv [app_ops]: "app_inv a \<Longrightarrow> app_inv (snd (read_key fl ev a))"
  by (auto simp: read_key_def intro!: app_ops split: option.split mode.split)

lemma send_submission_inv [app_ops]: "app_inv a \<Longrightarrow> app_inv (snd (send_submission se rd s client a))"
  by (auto simp: send_submission_def Let_def intro!: app_ops split: sum.split)

lemma poll_round_inv [app_ops]: "app_inv a \<Longrightarrow> app_inv (snd (poll_round rd a))"
  by (auto simp: poll_round_def Let_def intro!: app_ops split: sum.split)

definition dash_inv :: "dash \<Rightarrow> bool" where
  "dash_inv d = (app_inv (d_app d) \<and> \<not> a_submitting (d_app d))"

text \<open>Only the form starts a submission, and a round that starts one also ends it.\<close>

lemma submitting_kept [simp]:
  "a_submitting (push_log t k a) = a_submitting a" "a_submitting (lose r a) = a_submitting a"
  "a_submitting (select_next a) = a_submitting a" "a_submitting (select_previous a) = a_submitting a"
  "a_submitting (poll_faster a) = a_submitting a" "a_submitting (poll_slower a) = a_submitting a"
  "a_submitting (open_form fl a) = a_submitting a" "a_submitting (apply_stats s n a) = a_submitting a"
  "a_submitting (apply_nodes ns a) = a_submitting a" "a_submitting (apply_recent rs a) = a_submitting a"
  "a_submitting (watch_key fl c a) = a_submitting a"
proof -
  show k: "a_submitting (push_log t k a) = a_submitting a" "a_submitting (select_next a) = a_submitting a"
    "a_submitting (select_previous a) = a_submitting a" "a_submitting (poll_faster a) = a_submitting a"
    "a_submitting (poll_slower a) = a_submitting a" "a_submitting (open_form fl a) = a_submitting a"
    "a_submitting (apply_stats s n a) = a_submitting a" "a_submitting (apply_recent rs a) = a_submitting a"
    for t k fl s n rs a
    by (auto simp: push_log_def select_next_def select_previous_def poll_faster_def poll_slower_def open_form_def
        apply_stats_def apply_recent_def Let_def split: option.split)
  show "a_submitting (lose r a) = a_submitting a" by (simp add: lose_def Let_def k)
  show "a_submitting (apply_nodes ns a) = a_submitting a" by (simp add: apply_nodes_def clamp_selection_def)
  show "a_submitting (watch_key fl c a) = a_submitting a" by (cases c) (simp_all add: k)
qed

lemma edit_form_submitting:
  "fst (edit_form a k) = None \<Longrightarrow> a_submitting (snd (edit_form a k)) = a_submitting a"
  by (cases k) (auto simp: finish_form_def Let_def split: sum.splits if_splits)

lemma read_key_submitting:
  "fst (read_key fl ev a) = None \<Longrightarrow> a_submitting (snd (read_key fl ev a)) = a_submitting a"
  by (auto simp: read_key_def edit_form_submitting split: option.splits mode.splits if_splits)

lemma send_submission_ends: "\<not> a_submitting (snd (send_submission se rd s client a))"
  by (auto simp: send_submission_def apply_result_def Let_def split: sum.split)

lemma reconnect_inv: "dash_inv d \<Longrightarrow> dash_inv (reconnect se rd d)"
  by (auto simp: dash_inv_def reconnect_def Let_def intro!: app_ops split: sum.split)

lemma poll_due_inv: "dash_inv d \<Longrightarrow> dash_inv (poll_due se rd d)"
proof -
  assume d: "dash_inv d"
  define a where "a = (d_app d)\<lparr>a_refresh := False\<rparr>"
  have "app_inv a" "\<not> a_submitting a" using d by (simp_all add: dash_inv_def a_def app_ops)
  moreover have "a_submitting (snd (poll_round rd a)) = a_submitting a"
    by (auto simp: poll_round_def Let_def split: sum.split)
  ultimately have "app_inv (snd (poll_round rd a)) \<and> \<not> a_submitting (snd (poll_round rd a))"
    by (simp add: app_ops)
  then show "dash_inv (poll_due se rd d)"
    using d unfolding poll_due_def a_def [symmetric]
    by (cases "poll_round rd a") (auto simp: dash_inv_def Let_def app_ops split: sum.split)
qed

lemma dash_round_inv: "dash_inv d \<Longrightarrow> dash_inv (dash_round fl se d rd)"
proof -
  assume d: "dash_inv d"
  obtain sub a where k: "read_key fl (rd_key rd) (d_app d) = (sub, a)" by fastforce
  then have a: "app_inv a" using read_key_inv [of "d_app d" fl "rd_key rd"] d by (simp add: dash_inv_def)
  define step where "step = (case sub of Some s \<Rightarrow> send_submission se rd s (d_client d) a | None \<Rightarrow> (d_client d, a))"
  have "app_inv (snd step)" using a by (simp add: step_def app_ops split: option.split)
  moreover have "\<not> a_submitting (snd step)"
    using d k read_key_submitting [of fl "rd_key rd" "d_app d"]
    by (auto simp: step_def send_submission_ends dash_inv_def split: option.split)
  ultimately have i: "dash_inv (d\<lparr>d_app := snd step, d_client := fst step\<rparr>)" by (simp add: dash_inv_def)
  then have "dash_inv (d\<lparr>d_app := snd step, d_client := fst step, d_done := True\<rparr>)" by (simp add: dash_inv_def)
  then show "dash_inv (dash_round fl se d rd)"
    using d i unfolding dash_round_def k prod.case step_def [symmetric]
    by (simp add: case_prod_unfold poll_due_inv reconnect_inv Let_def)
qed

section \<open>Properties\<close>

text \<open>
  C40. Whatever is typed and whatever the controller answers, in any order and over any number of
  rounds, the dashboard stays presentable: the cursor is on a row that exists whenever there is
  one, the log and the graph stay within their sizes, the polling interval stays within its
  bounds, and no submission is left marked as in flight once its round is over.
\<close>

theorem dashboard_stays_valid:
  "let a = d_app (foldl (dash_round fl se) (dash_start addr poll now) rounds) in
   (a_nodes a \<noteq> [] \<longrightarrow> selected_node a = Some (a_nodes a ! a_selected a))
   \<and> length (a_log a) \<le> 64 \<and> length (tp_samples (a_throughput a)) \<le> 120
   \<and> from_millis 250 \<le> a_poll a \<and> a_poll a \<le> from_secs 10 \<and> \<not> a_submitting a"
proof -
  have "dash_inv (foldl (dash_round fl se) d rounds)" if "dash_inv d" for d
    using that by (induction rounds arbitrary: d) (simp_all add: dash_round_inv)
  moreover have "dash_inv (dash_start addr poll now)"
    by (simp add: dash_inv_def dash_start_def app_new_inv) (simp add: app_new_def)
  ultimately have "dash_inv (foldl (dash_round fl se) (dash_start addr poll now) rounds)" by blast
  then show ?thesis
    by (auto simp: Let_def dash_inv_def app_inv_def selected_node_def LOG_LINES_def HISTORY_def MIN_POLL_def MAX_POLL_def)
qed

theorem dashboard_stays_valid_witness:
  "from_millis 250 \<le> a_poll (d_app (dash_start ''c'' 0 0)) \<and> a_nodes (d_app (dash_start ''c'' 0 0)) = []"
  using dashboard_stays_valid [of "\<lambda>_. None" "\<lambda>_. []" "''c''" 0 0 "[]"]
  by (simp add: Let_def) (simp add: dash_start_def app_new_def)

text \<open>
  Typing a number for the arithmetic task does what it says: the form turns the digits of
  any count within the task's limit into a payload that the executor on a node accepts and runs
  for exactly that many iterations.
\<close>

lemma dashboard_cpu_count:
  assumes "trim (f_kind f) = ''cpu''" "trim (f_payload f) = nat_to_string n" "n \<le> MAX_CPU_ITERATIONS"
  shows "\<exists>p. payload_bytes f = Inr p \<and> cpu_task p = Inr (word_to_le_bytes (cpu_loop n))"
proof -
  have n: "n < 2 ^ 64" using assms(3) by (simp add: MAX_CPU_ITERATIONS_def)
  then have "parse_uint 64 (nat_to_string n) = Some n" by (rule parse_uint_nat_to_string)
  then have "payload_bytes f = Inr (word_to_le_bytes (of_nat n))" using assms by (simp add: payload_bytes_def)
  moreover have "unat (of_nat n :: 64 word) = n" using n by (simp add: unat_of_nat)
  then have "cpu_task (word_to_le_bytes (of_nat n)) = Inr (word_to_le_bytes (cpu_loop n))"
    using assms(3) by (simp add: cpu_task_def le_bytes_round_trip Let_def) (simp add: word_to_le_bytes_def)
  ultimately show ?thesis by blast
qed

end
