(* ===== verification/Bench.thy ===== *)
theory Bench
  imports Dashboard SigV4
begin

text \<open>
  The benchmark: measuring a running mesh as a client (\<^verbatim>\<open>crates/aether-benchmark/src/network.rs\<close>),
  the regression check on two of its reports (\<^verbatim>\<open>regression.rs\<close>), and the figures of the in-process
  benchmark (\<^verbatim>\<open>lib.rs\<close>). The client calls are parameters with the state they change; so are reading
  and parsing a file, the operating system's description of itself, and the test for a loopback
  address.
\<close>

section \<open>The mesh that is expected\<close>

record expected_node =
  en_name :: string
  en_hostname :: "string option"
  en_labels :: "string list"

record nodes_config =
  nc_controller :: "string option"
  nc_token :: "string option"
  nc_nodes :: "expected_node list"

datatype network_error =
    ConnectionFailed connection_error
  | IoFailed string string
  | ParseFailed string string
  | WrongMesh nat nat
  | MissingNode string string
  | MissingLabel string string
  | EmptyMesh
  | TaskFailed nat string

definition load_config ::
    "(string \<Rightarrow> string + string) \<Rightarrow> (string \<Rightarrow> string + nodes_config) \<Rightarrow> string \<Rightarrow> network_error + nodes_config" where
  "load_config read_file from_toml path =
     (case read_file path of
        Inl e \<Rightarrow> Inl (IoFailed path e)
      | Inr contents \<Rightarrow> (case from_toml contents of Inl e \<Rightarrow> Inl (ParseFailed path e) | Inr c \<Rightarrow> Inr c))"

definition label_matches :: "node_summary \<Rightarrow> string \<Rightarrow> bool" where
  "label_matches found label =
     (case (case split_once ''='' label of Some kv \<Rightarrow> kv | None \<Rightarrow> (label, '''')) of
        (key, val) \<Rightarrow> if val = [] then ns_labels found key \<noteq> None else ns_labels found key = Some val)"

fun check_labels :: "string \<Rightarrow> node_summary \<Rightarrow> string list \<Rightarrow> network_error + unit" where
  "check_labels name found [] = Inr ()"
| "check_labels name found (l # ls) =
     (if label_matches found l then check_labels name found ls else Inl (MissingLabel name l))"

definition wanted_host :: "expected_node \<Rightarrow> string" where
  "wanted_host e = (case en_hostname e of Some h \<Rightarrow> h | None \<Rightarrow> en_name e)"

fun check_expected :: "node_summary list \<Rightarrow> expected_node list \<Rightarrow> network_error + unit" where
  "check_expected nodes [] = Inr ()"
| "check_expected nodes (e # es) =
     (case find (\<lambda>n. ns_hostname n = wanted_host e) nodes of
        None \<Rightarrow> Inl (MissingNode (wanted_host e) (joined '', '' (map ns_hostname nodes)))
      | Some found \<Rightarrow>
          (case check_labels (en_name e) found (en_labels e) of
             Inl err \<Rightarrow> Inl err
           | Inr _ \<Rightarrow> check_expected nodes es))"

definition check_config :: "nodes_config \<Rightarrow> node_summary list \<Rightarrow> network_error + unit" where
  "check_config c nodes =
     (if nodes = [] then Inl EmptyMesh
      else if nc_nodes c = [] then Inr ()
      else if length nodes \<noteq> length (nc_nodes c) then Inl (WrongMesh (length (nc_nodes c)) (length nodes))
      else check_expected nodes (nc_nodes c))"

section \<open>Options and datasets\<close>

record network_options =
  no_nodes_config :: "string option"
  no_controller :: string
  no_token :: "string option"
  no_tasks :: nat
  no_dataset_bytes :: nat
  no_seed :: "64 word"

definition fresh_seed :: "int \<Rightarrow> 64 word" where
  "fresh_seed now = (if now < 0 then 1 else of_int now)"

definition options_start :: "int \<Rightarrow> network_options" where
  "options_start now = \<lparr> no_nodes_config = None, no_controller = ''127.0.0.1:7100'', no_token = None,
     no_tasks = 20, no_dataset_bytes = 4 * 1024 * 1024, no_seed = fresh_seed now \<rparr>"

definition options_command :: "network_options \<Rightarrow> string" where
  "options_command opts =
     joined '' ''
       ([''cargo run --release -p aether-benchmark -- network'',
         ''--controller '' @ no_controller opts,
         ''--tasks '' @ nat_to_string (no_tasks opts),
         ''--dataset-bytes '' @ nat_to_string (no_dataset_bytes opts),
         ''--seed '' @ nat_to_string (unat (no_seed opts))]
        @ (case no_nodes_config opts of Some path \<Rightarrow> [''--nodes-config '' @ path] | None \<Rightarrow> []))"

text \<open>The generator of incompressible bytes: a linear congruence on 64 bits, eight bytes a step.\<close>

definition lcg_step :: "64 word \<Rightarrow> 64 word" where
  "lcg_step state = state * 6364136223846793005 + 1442695040888963407"

fun lcg_bytes :: "nat \<Rightarrow> 64 word \<Rightarrow> bytes" where
  "lcg_bytes 0 state = []"
| "lcg_bytes (Suc n) state = word_to_le_bytes (lcg_step state) @ lcg_bytes n (lcg_step state)"

definition bench_dataset :: "64 word \<Rightarrow> nat \<Rightarrow> bytes" where
  "bench_dataset seed sz = take sz (lcg_bytes ((sz + 7) div 8) (seed * 6364136223846793005 + 1))"

definition baseline_seed :: "64 word \<Rightarrow> nat \<Rightarrow> 64 word" where
  "baseline_seed seed index = seed + 1 + of_nat index"

section \<open>What is measured\<close>

record measured =
  ms_bytes :: nat
  ms_bytes_uncompressed :: nat
  ms_transfers_skipped :: nat
  ms_chunks_skipped :: nat
  ms_tasks :: nat
  ms_wall_ms :: fl
  ms_node_ms :: fl

definition mean_task_ms :: "measured \<Rightarrow> fl" where
  "mean_task_ms m =
     (if ms_tasks m = 0 then Num False 0 else fdiv f64 (ms_node_ms m) (of_nat_f f64 (ms_tasks m)))"

record node_record =
  nr_hostname :: string
  nr_address :: string
  nr_cpu_cores :: nat
  nr_latency_ms :: "fl option"
  nr_bandwidth :: "nat option"
  nr_labels :: labels

definition node_record_of :: "node_summary \<Rightarrow> node_record" where
  "node_record_of n = \<lparr> nr_hostname = ns_hostname n, nr_address = ns_address n, nr_cpu_cores = ns_cpu_cores n,
     nr_latency_ms = ns_latency_ms n, nr_bandwidth = ns_bandwidth n, nr_labels = ns_labels n \<rparr>"

record environment =
  ev_measured_at :: string
  ev_client_os :: string
  ev_client_arch :: string
  ev_client_cpus :: nat
  ev_controller :: string
  ev_version :: string
  ev_nodes :: "node_record list"
  ev_loopback_only :: bool
  ev_command :: string

record network_report =
  rp_environment :: environment
  rp_tasks :: nat
  rp_dataset_bytes :: nat
  rp_seed :: "64 word"
  rp_baseline :: measured
  rp_aethermesh :: measured
  rp_baseline_bytes :: nat
  rp_aethermesh_bytes :: nat
  rp_reduction_percent :: fl
  rp_warnings :: "string list"

text \<open>Seconds since the epoch as a UTC time stamp; the date is the calendar arithmetic of the signer, written out again.\<close>

definition utc :: "nat \<Rightarrow> string" where
  "utc seconds =
     (let days = seconds div 86400; rest = seconds mod 86400 in
      case civil_from_days (int days) of (year, month, day) \<Rightarrow>
        zero_padded 4 (nat year) @ ''-'' @ zero_padded 2 (nat month) @ ''-'' @ zero_padded 2 (nat day)
        @ ''T'' @ zero_padded 2 (rest div 3600) @ '':'' @ zero_padded 2 (rest mod 3600 div 60)
        @ '':'' @ zero_padded 2 (rest mod 60) @ ''Z'')"

definition utc_now :: "int \<Rightarrow> string" where
  "utc_now now = utc (if now < 0 then 0 else nat (now div 10 ^ 9))"

fun rsplit_once :: "char \<Rightarrow> string \<Rightarrow> (string \<times> string) option" where
  "rsplit_once d [] = None"
| "rsplit_once d (c # cs) =
     (case rsplit_once d cs of
        Some (a, b) \<Rightarrow> Some (c # a, b)
      | None \<Rightarrow> (if c = d then Some ([], cs) else None))"

text \<open>\<^verbatim>\<open>ip_loopback\<close> reads a text as an address of either family and tells whether it is a loopback one.\<close>

definition is_loopback :: "(string \<Rightarrow> bool) \<Rightarrow> string \<Rightarrow> bool" where
  "is_loopback ip_loopback addr =
     (let host = (case rsplit_once (CHR '']'') addr of
            Some (bracketed, _) \<Rightarrow> trim_start_matches (CHR ''['') bracketed
          | None \<Rightarrow>
              (if 1 < length (filter (\<lambda>c. c = CHR '':'') addr) then addr
               else case rsplit_once (CHR '':'') addr of Some (h, _) \<Rightarrow> h | None \<Rightarrow> addr))
      in host = ''localhost'' \<or> ip_loopback host)"

definition report_warnings :: "measured \<Rightarrow> measured \<Rightarrow> string list" where
  "report_warnings baseline reused =
     (if ms_bytes baseline = 0 then
        [joined '' '' [''The baseline moved no bytes, so there is nothing to compare against.'',
           ''The nodes most likely still hold this run's datasets from a previous'',
           ''one - pass a different --seed, or restart the agents.'']]
      else if ms_tasks reused \<le> ms_transfers_skipped reused then
        [joined '' '' [''Every AetherMesh task found its input already in place, including'',
           ''the first. The dataset was on a node before the run started, so the'',
           ''saving shown is larger than a cold mesh would give.'']]
      else [])"

text \<open>The difference between two readings of the counters.\<close>

definition measured_between :: "mesh_stats \<Rightarrow> mesh_stats \<Rightarrow> nat \<Rightarrow> duration \<Rightarrow> fl \<Rightarrow> measured" where
  "measured_between st0 st1 tasks elapsed node_ms =
     (let b = st_traffic st0; a = st_traffic st1 in
      \<lparr> ms_bytes = ts_bytes_sent a - ts_bytes_sent b,
        ms_bytes_uncompressed = ts_bytes_uncompressed a - ts_bytes_uncompressed b,
        ms_transfers_skipped = ts_transfers_skipped a - ts_transfers_skipped b,
        ms_chunks_skipped = ts_chunks_skipped a - ts_chunks_skipped b,
        ms_tasks = tasks,
        ms_wall_ms = fmul f64 (as_secs_f64 elapsed) (fconst f64 1000),
        ms_node_ms = node_ms \<rparr>)"

section \<open>A run over a live mesh\<close>

record 'w mesh_ops =
  mo_connect :: "string \<Rightarrow> string option \<Rightarrow> 'w \<Rightarrow> (connection_error + unit) \<times> 'w"
  mo_nodes :: "'w \<Rightarrow> (connection_error + node_summary list) \<times> 'w"
  mo_stats :: "'w \<Rightarrow> (connection_error + mesh_stats) \<times> 'w"
  mo_publish :: "bytes \<Rightarrow> 'w \<Rightarrow> (connection_error + data_id) \<times> 'w"
  mo_submit :: "string \<Rightarrow> bytes \<Rightarrow> submit_options \<Rightarrow> 'w \<Rightarrow> (connection_error + finished_call) \<times> 'w"
  mo_now :: "'w \<Rightarrow> instant"

definition run_one :: "'w mesh_ops \<Rightarrow> nat \<Rightarrow> data_id \<Rightarrow> 'w \<Rightarrow> (network_error + fl) \<times> 'w" where
  "run_one ops index i w =
     (case mo_submit ops ''hash'' (str_bytes (nat_to_string index)) (options_reading [i]) w of
        (Inl e, w') \<Rightarrow> (Inl (ConnectionFailed e), w')
      | (Inr r, w') \<Rightarrow>
          (if fc_success r then (Inr (fc_duration_ms r), w')
           else (Inl (TaskFailed index (case fc_error r of Some e \<Rightarrow> e | None \<Rightarrow> ''no reason given'')), w')))"

text \<open>One round of the naive mode publishes a dataset of its own; of the other, none.\<close>

fun naive_rounds :: "'w mesh_ops \<Rightarrow> network_options \<Rightarrow> nat list \<Rightarrow> fl \<Rightarrow> 'w \<Rightarrow> (network_error + fl) \<times> 'w" where
  "naive_rounds ops opts [] acc w = (Inr acc, w)"
| "naive_rounds ops opts (i # is) acc w =
     (case mo_publish ops (bench_dataset (baseline_seed (no_seed opts) i) (no_dataset_bytes opts)) w of
        (Inl e, w') \<Rightarrow> (Inl (ConnectionFailed e), w')
      | (Inr d, w') \<Rightarrow>
          (case run_one ops i d w' of
             (Inl e, w'') \<Rightarrow> (Inl e, w'')
           | (Inr ms, w'') \<Rightarrow> naive_rounds ops opts is (fadd f64 acc ms) w''))"

fun reused_rounds :: "'w mesh_ops \<Rightarrow> data_id \<Rightarrow> nat list \<Rightarrow> fl \<Rightarrow> 'w \<Rightarrow> (network_error + fl) \<times> 'w" where
  "reused_rounds ops d [] acc w = (Inr acc, w)"
| "reused_rounds ops d (i # is) acc w =
     (case run_one ops i d w of
        (Inl e, w') \<Rightarrow> (Inl e, w')
      | (Inr ms, w') \<Rightarrow> reused_rounds ops d is (fadd f64 acc ms) w')"

definition measure_naive :: "'w mesh_ops \<Rightarrow> network_options \<Rightarrow> 'w \<Rightarrow> (network_error + measured) \<times> 'w" where
  "measure_naive ops opts w =
     (case mo_stats ops w of
        (Inl e, w1) \<Rightarrow> (Inl (ConnectionFailed e), w1)
      | (Inr st0, w1) \<Rightarrow>
          (case naive_rounds ops opts [0..<no_tasks opts] (Num False 0) w1 of
             (Inl e, w2) \<Rightarrow> (Inl e, w2)
           | (Inr node_ms, w2) \<Rightarrow>
               (case mo_stats ops w2 of
                  (Inl e, w3) \<Rightarrow> (Inl (ConnectionFailed e), w3)
                | (Inr st1, w3) \<Rightarrow>
                    (Inr (measured_between st0 st1 (no_tasks opts)
                       (saturating_duration_since (mo_now ops w3) (mo_now ops w1)) node_ms), w3))))"

definition measure_reused :: "'w mesh_ops \<Rightarrow> network_options \<Rightarrow> 'w \<Rightarrow> (network_error + measured) \<times> 'w" where
  "measure_reused ops opts w =
     (case mo_stats ops w of
        (Inl e, w1) \<Rightarrow> (Inl (ConnectionFailed e), w1)
      | (Inr st0, w1) \<Rightarrow>
          (case mo_publish ops (bench_dataset (no_seed opts) (no_dataset_bytes opts)) w1 of
             (Inl e, w2) \<Rightarrow> (Inl (ConnectionFailed e), w2)
           | (Inr d, w2) \<Rightarrow>
               (case reused_rounds ops d [0..<no_tasks opts] (Num False 0) w2 of
                  (Inl e, w3) \<Rightarrow> (Inl e, w3)
                | (Inr node_ms, w3) \<Rightarrow>
                    (case mo_stats ops w3 of
                       (Inl e, w4) \<Rightarrow> (Inl (ConnectionFailed e), w4)
                     | (Inr st1, w4) \<Rightarrow>
                         (Inr (measured_between st0 st1 (no_tasks opts)
                            (saturating_duration_since (mo_now ops w4) (mo_now ops w2)) node_ms), w4)))))"

definition reduction_percent :: "measured \<Rightarrow> measured \<Rightarrow> fl" where
  "reduction_percent baseline reused =
     (if ms_bytes baseline = 0 then Num False 0
      else fmul f64 (fsub f64 (fconst f64 1)
             (fdiv f64 (of_nat_f f64 (ms_bytes reused)) (of_nat_f f64 (ms_bytes baseline)))) (fconst f64 100))"

text \<open>\<^verbatim>\<open>host\<close> is what the machine says of itself: system, architecture, processors, program version.\<close>

definition network_run ::
    "'w mesh_ops \<Rightarrow> (string \<Rightarrow> bool) \<Rightarrow> string \<times> string \<times> nat \<times> string \<Rightarrow> (instant \<Rightarrow> int) \<Rightarrow> network_options \<Rightarrow> nodes_config
     \<Rightarrow> 'w \<Rightarrow> (network_error + network_report) \<times> 'w" where
  "network_run ops ip_loopback host wall opts expected w =
     (case mo_connect ops (no_controller opts) (no_token opts) w of
        (Inl e, w1) \<Rightarrow> (Inl (ConnectionFailed e), w1)
      | (Inr _, w1) \<Rightarrow>
     (case mo_nodes ops w1 of
        (Inl e, w2) \<Rightarrow> (Inl (ConnectionFailed e), w2)
      | (Inr nodes, w2) \<Rightarrow>
     (case check_config expected nodes of
        Inl e \<Rightarrow> (Inl e, w2)
      | Inr _ \<Rightarrow>
     (case host of (sys, arch, cpus, version) \<Rightarrow>
      let env = \<lparr> ev_measured_at = utc_now (wall (mo_now ops w2)), ev_client_os = sys, ev_client_arch = arch,
                  ev_client_cpus = cpus, ev_controller = no_controller opts, ev_version = version,
                  ev_nodes = map node_record_of nodes,
                  ev_loopback_only = list_all (\<lambda>n. is_loopback ip_loopback (ns_address n)) nodes,
                  ev_command = options_command opts \<rparr> in
     (case measure_naive ops opts w2 of
        (Inl e, w3) \<Rightarrow> (Inl e, w3)
      | (Inr baseline, w3) \<Rightarrow>
     (case measure_reused ops opts w3 of
        (Inl e, w4) \<Rightarrow> (Inl e, w4)
      | (Inr reused, w4) \<Rightarrow>
          (Inr \<lparr> rp_environment = env, rp_tasks = no_tasks opts, rp_dataset_bytes = no_dataset_bytes opts,
                 rp_seed = no_seed opts, rp_baseline = baseline, rp_aethermesh = reused,
                 rp_baseline_bytes = ms_bytes baseline, rp_aethermesh_bytes = ms_bytes reused,
                 rp_reduction_percent = reduction_percent baseline reused,
                 rp_warnings = report_warnings baseline reused \<rparr>, w4)))))))"

section \<open>The regression check\<close>

definition DEFAULT_TIMING_TOLERANCE_PERCENT :: fl where
  "DEFAULT_TIMING_TOLERANCE_PERCENT = fconst f64 50"

datatype direction = HigherIsBetter | LowerIsBetter

record check =
  ck_metric :: string
  ck_direction :: direction
  ck_baseline :: fl
  ck_current :: fl
  ck_change_percent :: fl
  ck_tolerance_percent :: fl
  ck_gating :: bool
  ck_regressed :: bool

definition change_percent :: "fl \<Rightarrow> fl \<Rightarrow> fl" where
  "change_percent baseline current =
     (if feq baseline (Num False 0) then (if feq current (Num False 0) then Num False 0 else fconst f64 100)
      else fmul f64 (fdiv f64 (fsub f64 current baseline) baseline) (fconst f64 100))"

definition check_new :: "string \<Rightarrow> direction \<Rightarrow> fl \<Rightarrow> fl \<Rightarrow> fl \<Rightarrow> bool \<Rightarrow> check" where
  "check_new metric dir baseline current tol gating =
     (let change = change_percent baseline current in
      \<lparr> ck_metric = metric, ck_direction = dir, ck_baseline = baseline, ck_current = current,
        ck_change_percent = change, ck_tolerance_percent = tol, ck_gating = gating,
        ck_regressed = (case dir of HigherIsBetter \<Rightarrow> flt change (fneg tol) | LowerIsBetter \<Rightarrow> flt tol change) \<rparr>)"

datatype mismatch_error = DifferentWork string string string

record comparison =
  cm_checks :: "check list"
  cm_baseline_measured_at :: string
  cm_current_measured_at :: string
  cm_baseline_command :: string

definition comparison_of ::
    "network_report \<Rightarrow> network_report \<Rightarrow> fl \<Rightarrow> fl option \<Rightarrow> mismatch_error + comparison" where
  "comparison_of b c tol timing =
     (if rp_tasks b \<noteq> rp_tasks c then
        Inl (DifferentWork ''tasks'' (nat_to_string (rp_tasks b)) (nat_to_string (rp_tasks c)))
      else if rp_dataset_bytes b \<noteq> rp_dataset_bytes c then
        Inl (DifferentWork ''dataset bytes'' (nat_to_string (rp_dataset_bytes b)) (nat_to_string (rp_dataset_bytes c)))
      else
        let gate_timing = (timing \<noteq> None);
            timing_tol = (case timing of Some t \<Rightarrow> t | None \<Rightarrow> DEFAULT_TIMING_TOLERANCE_PERCENT);
            mb = rp_aethermesh b; mc = rp_aethermesh c
        in Inr \<lparr> cm_checks =
             [check_new ''bytes moved'' LowerIsBetter (of_nat_f f64 (ms_bytes_uncompressed mb))
                (of_nat_f f64 (ms_bytes_uncompressed mc)) tol True,
              check_new ''traffic reduction %'' HigherIsBetter (rp_reduction_percent b) (rp_reduction_percent c) tol True,
              check_new ''sends skipped'' HigherIsBetter (of_nat_f f64 (ms_transfers_skipped mb))
                (of_nat_f f64 (ms_transfers_skipped mc)) tol True,
              check_new ''wall clock ms'' LowerIsBetter (ms_wall_ms mb) (ms_wall_ms mc) timing_tol gate_timing,
              check_new ''mean task ms'' LowerIsBetter (mean_task_ms mb) (mean_task_ms mc) timing_tol gate_timing],
             cm_baseline_measured_at = ev_measured_at (rp_environment b),
             cm_current_measured_at = ev_measured_at (rp_environment c),
             cm_baseline_command = ev_command (rp_environment b) \<rparr>)"

definition comparison_failed :: "comparison \<Rightarrow> bool" where
  "comparison_failed c = list_ex (\<lambda>k. ck_gating k \<and> ck_regressed k) (cm_checks c)"

definition comparison_warnings :: "comparison \<Rightarrow> check list" where
  "comparison_warnings c = filter (\<lambda>k. ck_regressed k \<and> \<not> ck_gating k) (cm_checks c)"

text \<open>Padding of a column: by characters, never cutting.\<close>

definition pad_right :: "nat \<Rightarrow> string \<Rightarrow> string" where
  "pad_right k s = s @ replicate (k - length s) (CHR '' '')"

definition pad_left :: "nat \<Rightarrow> string \<Rightarrow> string" where
  "pad_left k s = replicate (k - length s) (CHR '' '') @ s"

definition check_mark :: "check \<Rightarrow> string" where
  "check_mark k = (if ck_regressed k then (if ck_gating k then ''FAIL'' else ''warn'') else ''ok'')"

definition comparison_text :: "comparison \<Rightarrow> string" where
  "comparison_text c =
     ''Regression check'' @ nl @ ''  baseline '' @ cm_baseline_measured_at c @ nl
     @ ''  current  '' @ cm_current_measured_at c @ nl @ nl
     @ ''  '' @ pad_right 20 [] @ pad_left 14 ''baseline'' @ pad_left 14 ''current'' @ pad_left 10 ''change'' @ nl
     @ concat (map (\<lambda>k. ''  '' @ pad_right 20 (ck_metric k) @ pad_left 14 (fmt_fixed 1 (ck_baseline k))
         @ pad_left 14 (fmt_fixed 1 (ck_current k)) @ pad_left 9 (fmt_fixed 1 (ck_change_percent k)) @ ''%  ''
         @ check_mark k @ nl) (cm_checks c))
     @ (if comparison_failed c then
          nl @ ''  A gated metric regressed. Reproduce the baseline with:'' @ nl @ ''    '' @ cm_baseline_command c @ nl
        else nl @ ''  No gated regression.'' @ nl)"

section \<open>The in-process benchmark\<close>

datatype bench_mode = Baseline | AetherMesh

fun bench_mode_as_str :: "bench_mode \<Rightarrow> string" where
  "bench_mode_as_str Baseline = ''baseline''"
| "bench_mode_as_str AetherMesh = ''aethermesh''"

record bench_config =
  bc_tasks :: nat
  bc_nodes :: nat
  bc_kind :: string
  bc_payload_bytes :: nat
  bc_cpu_iterations :: nat
  bc_dataset_bytes :: nat
  bc_chunk_size :: nat
  bc_bandwidth :: nat

definition bench_config_default :: bench_config where
  "bench_config_default = \<lparr> bc_tasks = 100, bc_nodes = 3, bc_kind = ''hash'', bc_payload_bytes = 4096,
     bc_cpu_iterations = 100000, bc_dataset_bytes = 4 * 1024 * 1024, bc_chunk_size = 1024 * 1024,
     bc_bandwidth = 10 * 1024 * 1024 \<rparr>"

definition bench_payload :: "bench_config \<Rightarrow> bytes" where
  "bench_payload c =
     (if bc_kind c = ''cpu'' then word_to_le_bytes (of_nat (bc_cpu_iterations c))
      else replicate (bc_payload_bytes c) 0xab)"

definition shared_dataset :: "bench_config \<Rightarrow> bytes option" where
  "shared_dataset c =
     (if 0 < bc_dataset_bytes c then Some (map (\<lambda>i. of_nat (i div 64 mod 251)) [0..<bc_dataset_bytes c]) else None)"

text \<open>The nearest rank, counted from one; the index panics when it is out of range.\<close>

definition percentile_ms :: "duration list \<Rightarrow> fl \<Rightarrow> fl exec" where
  "percentile_ms sorted_list quantile =
     (if sorted_list = [] then Ret (Num False 0)
      else let rank = to_uint 64 (fmax (fceil (fmul f64 quantile (of_nat_f f64 (length sorted_list)))) (Num False 1));
               i = min rank (length sorted_list)
           in if i = 0 then Panic
              else Ret (fmul f64 (as_secs_f64 (sorted_list ! (i - 1))) (fconst f64 1000)))"

definition traffic_reduction :: "nat \<Rightarrow> nat \<Rightarrow> fl" where
  "traffic_reduction baseline reused =
     (if baseline = 0 then Num False 0
      else fmul f64 (fdiv f64 (fsub f64 (of_nat_f f64 baseline) (of_nat_f f64 reused)) (of_nat_f f64 baseline))
             (fconst f64 100))"

definition bench_speedup :: "fl \<Rightarrow> fl \<Rightarrow> fl" where
  "bench_speedup baseline_ms mesh_ms = (if feq mesh_ms (Num False 0) then Num False 0 else fdiv f64 baseline_ms mesh_ms)"

section \<open>Datasets do not repeat\<close>

lemma lcg_multiplier_inverse: "(6364136223846793005 :: 64 word) * 13877824140714322085 = 1"
  by simp

lemma lcg_mult_inj: "x * 6364136223846793005 = y * 6364136223846793005 \<Longrightarrow> x = (y :: 64 word)"
proof -
  assume "x * 6364136223846793005 = y * 6364136223846793005"
  from arg_cong [OF this, of "\<lambda>z. z * 13877824140714322085"]
  have "x * (6364136223846793005 * 13877824140714322085) = y * (6364136223846793005 * 13877824140714322085)"
    by (simp only: mult.assoc)
  then show "x = y" unfolding lcg_multiplier_inverse by simp
qed

lemma bench_dataset_head:
  assumes "8 \<le> sz"
  shows "take 8 (bench_dataset seed sz) = word_to_le_bytes (lcg_step (seed * 6364136223846793005 + 1))"
proof -
  have "0 < (sz + 7) div 8" using assms by (simp add: div_greater_zero_iff)
  then obtain k where k: "(sz + 7) div 8 = Suc k" using gr0_implies_Suc by blast
  have "length (word_to_le_bytes v) = 8" for v by (simp add: word_to_le_bytes_def)
  then show ?thesis using assms by (simp add: bench_dataset_def k min_def)
qed

lemma bench_dataset_inj:
  assumes "8 \<le> sz" "bench_dataset a sz = bench_dataset b sz"
  shows "a = b"
proof -
  have "word_to_le_bytes (lcg_step (a * 6364136223846793005 + 1)) = word_to_le_bytes (lcg_step (b * 6364136223846793005 + 1))"
    using bench_dataset_head [OF assms(1)] assms(2) by metis
  then have "lcg_step (a * 6364136223846793005 + 1) = lcg_step (b * 6364136223846793005 + 1)"
    by (metis le_bytes_round_trip)
  then have "a * 6364136223846793005 + 1 = b * 6364136223846793005 + 1"
    unfolding lcg_step_def by (metis add_right_cancel lcg_mult_inj)
  then show ?thesis by (metis add_right_cancel lcg_mult_inj)
qed

section \<open>The regression check\<close>

lemma fconst_100: "fconst f64 100 = Num False 100"
  using of_nat_f64 [of 100] by (simp add: fconst_def of_nat_f_def)

text \<open>A value compared with itself has not changed, or cannot be compared.\<close>

lemma change_percent_same: "change_percent x x = NaN \<or> (\<exists>s. change_percent x x = Num s 0)"
proof (cases x)
  case (Num s a)
  show ?thesis
  proof (cases "a = 0")
    case False
    have "fsub f64 x x = Num False 0" using Num by (simp add: fsub_def fround_def)
    then show ?thesis using Num False by (auto simp: change_percent_def feq_def fconst_100 fround_def split: if_splits)
  qed (use Num in \<open>auto simp: change_percent_def feq_def\<close>)
qed (simp_all add: change_percent_def feq_def fsub_def)

lemma check_same_passes:
  assumes "\<not> flt tol (Num False 0)"
  shows "\<not> ck_regressed (check_new metric dir x x tol gating)"
proof -
  have "\<not> flt tol (Num s 0)" "\<not> flt (Num s 0) (fneg tol)" for s using assms by (cases tol; auto)+
  moreover have "\<not> flt tol NaN" "\<not> flt NaN (fneg tol)" by (cases tol; simp)+
  ultimately show ?thesis
    using change_percent_same [of x] by (auto simp: check_new_def Let_def split: direction.splits)
qed

text \<open>
  A reduction that turns negative is not noticed when the baseline was zero, and a negative
  baseline turns the check round.
\<close>

lemma negative_reduction_passes:
  "\<not> ck_regressed (check_new ''traffic reduction %'' HigherIsBetter (Num False 0) (Num True 50) (Num False 2) True)"
  by (simp add: check_new_def change_percent_def feq_def fconst_100)

lemma negative_baseline_flips:
  "\<not> ck_regressed (check_new ''traffic reduction %'' HigherIsBetter (Num True 10) (Num True 20) (Num False 2) True)
   \<and> ck_regressed (check_new ''traffic reduction %'' HigherIsBetter (Num True 10) (Num False 0) (Num False 2) True)"
proof -
  have r: "fround f64 s (of_nat n) = Num False (of_nat n) \<and> fround f64 s (- of_nat n) = Num True (of_nat n)"
    if "0 < n" "n \<le> 2 ^ 53" for s n
    using of_nat_f64 [OF that(2)] that(1) by (auto simp: of_nat_f_def fround_def Let_def split: if_splits)
  show ?thesis
    using r [of 10] r [of 1] r [of 100]
    by (simp add: check_new_def change_percent_def feq_def fconst_100 fsub_def)
qed

section \<open>The expected mesh\<close>

lemma check_labels_ok: "check_labels name n ls = Inr () \<longleftrightarrow> list_all (label_matches n) ls"
  by (induction ls) auto

lemma check_expected_ok:
  "check_expected nodes es = Inr () \<Longrightarrow>
   \<forall>e \<in> set es. \<exists>n \<in> set nodes. ns_hostname n = wanted_host e \<and> list_all (label_matches n) (en_labels e)"
proof (induction es)
  case (Cons e es)
  then show ?case
    by (auto simp: find_Some_iff check_labels_ok split: option.splits sum.splits)
qed simp

text \<open>One node may stand for several expected ones: the count is compared, the nodes are not paired.\<close>

definition lone_node :: "string \<Rightarrow> node_summary" where
  "lone_node host = \<lparr> ns_node_id = [], ns_hostname = host, ns_cpu_cores = 1, ns_cpu_usage = Num False 0,
     ns_memory_usage = Num False 0, ns_labels = Map.empty, ns_address = [], ns_latency_ms = None, ns_bandwidth = None,
     datasets_held = 0, ns_bytes_held = 0, ns_connected = True \<rparr>"

lemma one_node_counts_twice:
  "check_config \<lparr> nc_controller = None, nc_token = None,
      nc_nodes = [\<lparr> en_name = ''pi'', en_hostname = None, en_labels = [] \<rparr>,
                  \<lparr> en_name = ''vm'', en_hostname = Some ''pi'', en_labels = [] \<rparr>] \<rparr>
     [lone_node ''pi'', lone_node ''stranger''] = Inr ()"
  by (simp add: check_config_def wanted_host_def lone_node_def)

lemma percentile_no_panic: "percentile_ms ds q \<noteq> Panic"
proof -
  have "1 \<le> to_uint 64 (fmax (fceil x) (Num False 1))" for x
  proof (cases x)
    case (Num s a)
    have "1 \<le> nat \<lfloor>\<bar>of_int c :: rat\<bar>\<rfloor>" if "\<not> \<bar>of_int c :: rat\<bar> < 1" for c
      using that by linarith
    then show ?thesis using Num by (auto simp: fmax_def Let_def)
  qed (auto simp: fmax_def)
  from this [of "fmul f64 q (of_nat_f f64 (length ds))"] show ?thesis
    by (auto simp: percentile_ms_def Let_def min_def)
qed

section \<open>Properties\<close>

text \<open>
  The naive mode never benefits from reuse: the dataset that both modes could share and the
  datasets of all naive tasks are pairwise different, for every seed, so no node holds one of them
  because of another.
\<close>

lemma datasets_never_repeat:
  assumes "8 \<le> sz" and "tasks < 2 ^ 64"
  shows "distinct (bench_dataset seed sz # map (\<lambda>i. bench_dataset (baseline_seed seed i) sz) [0..<tasks])"
proof -
  have inj: "(of_nat a :: 64 word) = of_nat b \<longleftrightarrow> a = b" if "a < 2 ^ 64" "b < 2 ^ 64" for a b
  proof -
    have "unat (of_nat a :: 64 word) = a" "unat (of_nat b :: 64 word) = b" using that by (simp_all add: unat_of_nat)
    then show ?thesis by metis
  qed
  have "baseline_seed seed i = baseline_seed seed j \<Longrightarrow> i = j" if "i < tasks" "j < tasks" for i j
    using that assms(2) inj [of i j] by (simp add: baseline_seed_def)
  moreover have "baseline_seed seed i \<noteq> seed" if "i < tasks" for i
  proof -
    have "(of_nat (Suc i) :: 64 word) \<noteq> of_nat 0" using inj [of "Suc i" 0] that assms(2) by simp
    then show ?thesis by (simp add: baseline_seed_def add.assoc)
  qed
  ultimately show ?thesis
    using bench_dataset_inj [OF assms(1)] by (auto simp: distinct_map inj_on_def) metis+
qed

text \<open>
  A report compared with itself passes: whatever it measured, infinities and
  not-a-number included, no check regresses as long as the tolerances are not negative.
\<close>

lemma same_report_passes:
  assumes "\<not> flt tol (Num False 0)" and "\<And>t. timing = Some t \<Longrightarrow> \<not> flt t (Num False 0)"
  shows "\<exists>c. comparison_of r r tol timing = Inr c \<and> \<not> comparison_failed c \<and> comparison_warnings c = []"
proof -
  have "fconst f64 50 = Num False 50" using of_nat_f64 [of 50] by (simp add: fconst_def of_nat_f_def)
  then have "\<not> flt DEFAULT_TIMING_TOLERANCE_PERCENT (Num False 0)" by (simp add: DEFAULT_TIMING_TOLERANCE_PERCENT_def)
  then have "\<not> flt (case timing of Some t \<Rightarrow> t | None \<Rightarrow> DEFAULT_TIMING_TOLERANCE_PERCENT) (Num False 0)"
    using assms(2) by (cases timing) auto
  then show ?thesis
    using assms(1) by (auto simp: comparison_of_def comparison_failed_def comparison_warnings_def Let_def check_same_passes)
qed

end
