(* ===== verification/Sim.thy ===== *)
theory Sim
  imports Dispatch Framing Executor "HOL-Library.Code_Target_Nat"
begin

text \<open>
  The simulated mesh (crates/aether-controller/src/sim.rs), the in-process transport that tests
  and benchmarks put under a controller. Every message goes through the encoding, so that its
  bytes are counted, and all nodes share one store and one assembler.

  A panic of the assembler would unwind through the submission; the functions of a transport
  only return, so the state notes it.
\<close>

record sim_mesh =
  bytes_transferred :: nat
  sim_store :: store
  sim_assembler :: assembler
  sim_panicked :: bool

type_synonym execute_fn = "node_id \<Rightarrow> task \<Rightarrow> store \<Rightarrow> task_result \<times> store"

definition sim_new :: sim_mesh where
  "sim_new = \<lparr>bytes_transferred = 0, sim_store = store_new, sim_assembler = assembler_new, sim_panicked = False\<rparr>"

text \<open>What is taken from elsewhere: digest, decompression, serialisation, and the texts of its errors.\<close>

record sim_env =
  se_hash :: digest
  se_unlz4 :: "bytes \<Rightarrow> bytes option"
  se_enc :: "message \<Rightarrow> bytes option"
  se_dec :: "bytes \<Rightarrow> (message \<times> nat) option"
  se_codec_text :: "codec_error \<Rightarrow> string"
  se_lz4_text :: string

text \<open>The counter is a 64-bit atomic: it wraps.\<close>

definition sim_transfer :: "sim_env \<Rightarrow> sim_mesh \<Rightarrow> node_id \<Rightarrow> message \<Rightarrow> (dispatch_error + message) \<times> sim_mesh" where
  "sim_transfer e t n m =
     (case se_enc e m of
        None \<Rightarrow> (Inl (Unreachable n (se_codec_text e EncodeFailed)), t)
      | Some bs \<Rightarrow>
          (let t1 = t\<lparr>bytes_transferred := (bytes_transferred t + length bs) mod 2 ^ 64\<rparr> in
           case decode_message (se_dec e) bs of
             Inl err \<Rightarrow> (Inl (Unreachable n (se_codec_text e err)), t1)
           | Inr m' \<Rightarrow> (Inr m', t1)))"

definition sim_dispatch :: "sim_env \<Rightarrow> execute_fn \<Rightarrow> sim_mesh \<Rightarrow> node_id \<Rightarrow> task \<Rightarrow> (dispatch_error + task_result) \<times> sim_mesh" where
  "sim_dispatch e ex t n task =
     (case sim_transfer e t n (TaskAssignment n task None) of
        (Inl err, t1) \<Rightarrow> (Inl err, t1)
      | (Inr (TaskAssignment n' task' _), t1) \<Rightarrow>
          (let (r, s) = ex n' task' (sim_store t1); t2 = t1\<lparr>sim_store := s\<rparr> in
           case sim_transfer e t2 n' (TaskCompleted r) of
             (Inl err, t3) \<Rightarrow> (Inl err, t3)
           | (Inr (TaskCompleted r'), t3) \<Rightarrow> (Inr r', t3)
           | (Inr _, t3) \<Rightarrow> (Inl (Unreachable n' ''unexpected message on the result path''), t3))
      | (Inr _, t1) \<Rightarrow> (Inl (Unreachable n ''unexpected message on the assignment path''), t1))"

text \<open>The texts of the errors of store and assembler.\<close>

fun store_error_display :: "store_error \<Rightarrow> string" where
  "store_error_display (HashMismatch expected actual) =
     ''data hash mismatch: expected '' @ data_id_display expected @ '', got '' @ data_id_display actual"

fun chunk_error_display :: "chunk_error \<Rightarrow> string" where
  "chunk_error_display (UnknownData i) = ''no manifest received for data '' @ data_id_display i"
| "chunk_error_display (IndexOutOfRange i idx len) =
     ''chunk index '' @ nat_to_string idx @ '' is out of range for data '' @ data_id_display i @ '' ('' @ nat_to_string len @ '' chunks)''"
| "chunk_error_display (ChunkMismatch i idx) =
     ''chunk '' @ nat_to_string idx @ '' of '' @ data_id_display i @ '' does not match its descriptor''"
| "chunk_error_display (DataMismatch expected actual) =
     ''reassembled data '' @ data_id_display expected @ '' hashed as '' @ data_id_display actual"

definition sim_send_data ::
    "sim_env \<Rightarrow> sim_mesh \<Rightarrow> node_id \<Rightarrow> data_descriptor \<Rightarrow> codec \<Rightarrow> bytes \<Rightarrow> (dispatch_error + unit) \<times> sim_mesh" where
  "sim_send_data e t n d codec bs =
     (case sim_transfer e t n (DataTransfer n d codec bs) of
        (Inl err, t1) \<Rightarrow> (Inl err, t1)
      | (Inr (DataTransfer _ d' codec' bs'), t1) \<Rightarrow>
          (case decompress_with (se_unlz4 e) codec' bs' of
             None \<Rightarrow> (Inl (Unreachable n (se_lz4_text e)), t1)
           | Some plain \<Rightarrow>
               (case insert_data (se_hash e) (sim_store t1) d' plain of
                  (Inl err, s) \<Rightarrow> (Inl (Unreachable n (store_error_display err)), t1\<lparr>sim_store := s\<rparr>)
                | (Inr _, s) \<Rightarrow> (Inr (), t1\<lparr>sim_store := s\<rparr>)))
      | (Inr _, t1) \<Rightarrow> (Inl (Unreachable n ''unexpected message on the data path''), t1))"

text \<open>What the assembler answered, for a manifest and for a chunk alike: complete data is stored.\<close>

definition sim_assembled ::
    "sim_env \<Rightarrow> sim_mesh \<Rightarrow> node_id \<Rightarrow> chunk_result \<times> assembler \<times> store \<Rightarrow> (dispatch_error + unit) \<times> sim_mesh" where
  "sim_assembled e t n x =
     (case x of (r, asm, s) \<Rightarrow>
        (let t1 = t\<lparr>sim_assembler := asm, sim_store := s\<rparr> in
         case r of
           Panic \<Rightarrow> (Inl (Unreachable n []), t1\<lparr>sim_panicked := True\<rparr>)
         | Ret (Inl err) \<Rightarrow> (Inl (Unreachable n (chunk_error_display err)), t1)
         | Ret (Inr None) \<Rightarrow> (Inr (), t1)
         | Ret (Inr (Some whole)) \<Rightarrow> (Inr (), t1\<lparr>sim_store := snd (put (se_hash e) s whole)\<rparr>)))"

definition sim_send_manifest ::
    "sim_env \<Rightarrow> sim_mesh \<Rightarrow> node_id \<Rightarrow> chunk_manifest \<Rightarrow> (dispatch_error + unit) \<times> sim_mesh" where
  "sim_send_manifest e t n m =
     (case sim_transfer e t n (DataManifest n m) of
        (Inl err, t1) \<Rightarrow> (Inl err, t1)
      | (Inr (DataManifest _ m'), t1) \<Rightarrow>
          sim_assembled e t1 n (begin_with (se_hash e) (sim_assembler t1) m' (sim_store t1))
      | (Inr _, t1) \<Rightarrow> (Inl (Unreachable n ''unexpected message on the manifest path''), t1))"

definition sim_send_chunk ::
    "sim_env \<Rightarrow> sim_mesh \<Rightarrow> node_id \<Rightarrow> data_id \<Rightarrow> nat \<Rightarrow> codec \<Rightarrow> bytes \<Rightarrow> (dispatch_error + unit) \<times> sim_mesh" where
  "sim_send_chunk e t n i idx codec bs =
     (case sim_transfer e t n (DataChunk n i idx codec bs) of
        (Inl err, t1) \<Rightarrow> (Inl err, t1)
      | (Inr (DataChunk _ i' idx' codec' bs'), t1) \<Rightarrow>
          (case decompress_with (se_unlz4 e) codec' bs' of
             None \<Rightarrow> (Inl (Unreachable n (se_lz4_text e)), t1)
           | Some plain \<Rightarrow>
               sim_assembled e t1 n (add_stored (se_hash e) (sim_assembler t1) (sim_store t1) i' idx' plain))
      | (Inr _, t1) \<Rightarrow> (Inl (Unreachable n ''unexpected message on the chunk path''), t1))"

text \<open>Batches and availability are the defaults of the trait.\<close>

definition sim_transport :: "sim_env \<Rightarrow> execute_fn \<Rightarrow> sim_mesh transport" where
  "sim_transport e ex =
     \<lparr>t_dispatch = sim_dispatch e ex, t_send_data = sim_send_data e, t_send_manifest = sim_send_manifest e,
      t_send_chunks = send_chunks_default (sim_send_chunk e), t_available = (\<lambda>t n. True)\<rparr>"

text \<open>The executor used when none is given: it knows one kind.\<close>

definition sim_run :: "duration \<Rightarrow> execute_fn" where
  "sim_run elapsed n task s =
     (if task_kind task = ''echo'' then result_success (task_id task) n (payload task) elapsed
      else result_failure (task_id task) n (''unknown task kind: '' @ task_kind task) elapsed, s)"

section \<open>The simulated mesh fails as a node would\<close>

text \<open>Every failure is one the controller retries elsewhere.\<close>

lemma sim_transfer_fails: "sim_transfer e t n m = (Inl err, t') \<Longrightarrow> is_retryable err"
  by (auto simp: sim_transfer_def Let_def split: option.splits sum.splits)

lemma sim_assembled_fails: "sim_assembled e t n x = (Inl err, t') \<Longrightarrow> is_retryable err"
  by (auto simp: sim_assembled_def Let_def split: prod.splits exec.splits sum.splits option.splits)

lemma sim_send_chunks_fails:
  "send_chunks_default (sim_send_chunk e) t n i batch = (Inl err, t') \<Longrightarrow> is_retryable err"
proof (induction batch arbitrary: t)
  case (Cons b batch)
  obtain idx codec bs where b: "b = (idx, codec, bs)" by (metis prod_cases3)
  have "sim_send_chunk e t n i idx codec bs = (Inl err', t1) \<Longrightarrow> is_retryable err'" for err' t1
    unfolding sim_send_chunk_def
    by (auto dest: sim_transfer_fails sim_assembled_fails split: prod.splits sum.splits message.splits option.splits)
  then show ?case using Cons by (auto simp: b split: prod.splits sum.splits)
qed simp

lemma sim_fails_retryably: "fails_retryably (sim_transport e ex)"
  unfolding fails_retryably_def sim_transport_def transport.simps
  by (intro conjI allI impI)
    (auto simp: sim_dispatch_def sim_send_data_def sim_send_manifest_def Let_def
      dest: sim_transfer_fails sim_assembled_fails sim_send_chunks_fails
      split: prod.splits sum.splits message.splits option.splits)

section \<open>One store for all nodes\<close>

text \<open>What the serialisation documents: every message of a run has an encoding, and it decodes to itself.\<close>

definition wire_ok :: "sim_env \<Rightarrow> bool" where
  "wire_ok e = (\<forall>m. \<exists>bs. se_enc e m = Some bs \<and> se_dec e bs = Some (m, length bs))"

lemma sim_transfer_ok:
  assumes "wire_ok e"
  obtains b where "sim_transfer e t n m = (Inr m, t\<lparr>bytes_transferred := b\<rparr>)"
proof -
  obtain bs where "se_enc e m = Some bs" "se_dec e bs = Some (m, length bs)" using assms by (auto simp: wire_ok_def)
  then show thesis using that by (simp add: sim_transfer_def decode_message_def)
qed

text \<open>A task runs on the shared store, whatever node it is sent to.\<close>

lemma sim_dispatch_executes:
  assumes "wire_ok e" "ex n task (sim_store t) = (r, s)"
  shows "fst (sim_dispatch e ex t n task) = Inr r \<and> sim_store (snd (sim_dispatch e ex t n task)) = s"
proof -
  obtain b where b: "sim_transfer e t n (TaskAssignment n task None) = (Inr (TaskAssignment n task None), t\<lparr>bytes_transferred := b\<rparr>)"
    by (rule sim_transfer_ok [OF assms(1)])
  obtain b2 where b2: "sim_transfer e (t\<lparr>bytes_transferred := b, sim_store := s\<rparr>) n (TaskCompleted r) =
      (Inr (TaskCompleted r), t\<lparr>bytes_transferred := b, sim_store := s\<rparr>\<lparr>bytes_transferred := b2\<rparr>)"
    by (rule sim_transfer_ok [OF assms(1)])
  show ?thesis using assms(2) b2 by (simp add: sim_dispatch_def b)
qed

text \<open>
  Since the store is shared, a dataset that was sent to one node in chunks completes at once
  when its manifest is sent to a second one. The chunks that follow find no manifest any more,
  and the second node is reported as unreachable.
\<close>

lemma completed_is_not_pending:
  assumes "fst (add_all hash a i r known) = Ret (Inr (Some whole))" "r \<noteq> None \<longrightarrow> map_of a i = None"
  shows "map_of (snd (add_all hash a i r known)) i = None"
  using assms
proof (induction hash a i r known rule: add_all.induct)
  case (2 hash a i assembled idx bs rest)
  obtain x a1 where x: "add_chunk hash a i idx bs = (x, a1)" by fastforce
  have gone: "map_of a1 i = None" if "x = Ret (Inr (Some y))" for y
    using x that by (auto simp: add_chunk_def Let_def delete_conv' split: option.splits if_splits)
  obtain r1 where "x = Ret (Inr r1)" using "2.prems"(1) x by (auto split: exec.splits sum.splits)
  then show ?case using "2.IH" x gone "2.prems"(1) by (cases r1) auto
qed auto

lemma second_node_is_unreachable:
  assumes "wire_ok e" "inj (se_hash e)" "store_inv (se_hash e) (sim_store t)"
    and "parts = slice_chunks (effective_chunk_size sz) data" "data \<noteq> []" "length parts < 2 ^ 32"
    and "\<forall>part \<in> set parts. contains (sim_store t) (se_hash e part)"
  shows "\<exists>t1. sim_send_manifest e t n (manifest_split (se_hash e) data sz) = (Inr (), t1) \<and>
    fst (sim_send_chunk e t1 n (se_hash e data) idx CodecNone bs) =
      Inl (Unreachable n (chunk_error_display (UnknownData (se_hash e data))))"
proof -
  let ?m = "manifest_split (se_hash e) data sz" and ?i = "se_hash e data"
  have i: "desc_id (m_data ?m) = ?i" by (simp add: manifest_split_def Let_def descriptor_of_def descriptor_new_def)
  obtain b where b: "sim_transfer e t n (DataManifest n ?m) = (Inr (DataManifest n ?m), t\<lparr>bytes_transferred := b\<rparr>)"
    by (rule sim_transfer_ok [OF assms(1)])
  obtain r asm s where w: "begin_with (se_hash e) (sim_assembler t) ?m (sim_store t) = (r, asm, s)" by (metis prod_cases3)
  have r: "r = Ret (Inr (Some data))"
    using begin_with_all_chunks_held [OF assms(2-7), of "sim_assembler t"] w by simp
  then have "\<exists>a known. add_all (se_hash e) a ?i None known = (Ret (Inr (Some data)), asm)"
    using w by (auto simp: begin_with_def fill_from_store_def i split: option.splits prod.splits)
  then have gone: "map_of asm ?i = None" using completed_is_not_pending by (metis fst_conv snd_conv)
  define t1 where "t1 = t\<lparr>bytes_transferred := b, sim_assembler := asm, sim_store := snd (put (se_hash e) s data)\<rparr>"
  have m: "sim_send_manifest e t n ?m = (Inr (), t1)"
    using b w r by (simp add: sim_send_manifest_def sim_assembled_def t1_def)
  obtain b2 where b2: "sim_transfer e t1 n (DataChunk n ?i idx CodecNone bs) =
      (Inr (DataChunk n ?i idx CodecNone bs), t1\<lparr>bytes_transferred := b2\<rparr>)"
    by (rule sim_transfer_ok [OF assms(1)])
  have "fst (sim_send_chunk e t1 n ?i idx CodecNone bs) = Inl (Unreachable n (chunk_error_display (UnknownData ?i)))"
    using b2 gone
    by (simp add: sim_send_chunk_def decompress_with_def add_stored_def add_chunk_def sim_assembled_def t1_def Let_def)
  with m show ?thesis by blast
qed

end
