(* ===== verification/BenchRun.thy ===== *)
theory BenchRun
  imports Bench Sim
begin

text \<open>
  The in-process benchmark (\<^verbatim>\<open>crates/aether-benchmark/src/lib.rs\<close>): the same work on a controller
  over the simulated mesh, once without and once with what the project is about. Generated ids and
  the readings of the clock are parameters.
\<close>

section \<open>Reports\<close>

record bench_report =
  br_mode :: bench_mode
  br_tasks :: nat
  br_nodes :: nat
  br_kind :: string
  br_payload_bytes :: nat
  br_dataset_bytes :: nat
  br_succeeded :: nat
  br_failed :: nat
  br_total_duration_ms :: fl
  br_avg_latency_ms :: fl
  br_p50_latency_ms :: fl
  br_p95_latency_ms :: fl
  br_p99_latency_ms :: fl
  br_throughput :: fl
  br_transferred_bytes :: nat
  br_data_bytes_sent :: nat
  br_data_bytes_uncompressed :: nat

definition labelled :: "string \<Rightarrow> string \<Rightarrow> string" where
  "labelled label v = label @ replicate (18 - length label) CHR '' '' @ v"

definition report_text :: "bench_report \<Rightarrow> string" where
  "report_text r =
     joined [newline]
       [labelled ''mode:'' (bench_mode_as_str (br_mode r)),
        labelled ''tasks:'' (nat_to_string (br_tasks r)),
        labelled ''nodes:'' (nat_to_string (br_nodes r)),
        labelled ''kind:'' (br_kind r),
        labelled ''payload bytes:'' (nat_to_string (br_payload_bytes r)),
        labelled ''dataset bytes:'' (nat_to_string (br_dataset_bytes r)),
        labelled ''succeeded:'' (nat_to_string (br_succeeded r)),
        labelled ''failed:'' (nat_to_string (br_failed r)),
        labelled ''total time:'' (fmt_fixed 3 (br_total_duration_ms r) @ '' ms''),
        labelled ''avg latency:'' (fmt_fixed 3 (br_avg_latency_ms r) @ '' ms''),
        labelled ''p50 latency:'' (fmt_fixed 3 (br_p50_latency_ms r) @ '' ms''),
        labelled ''p95 latency:'' (fmt_fixed 3 (br_p95_latency_ms r) @ '' ms''),
        labelled ''p99 latency:'' (fmt_fixed 3 (br_p99_latency_ms r) @ '' ms''),
        labelled ''throughput:'' (fmt_fixed 1 (br_throughput r) @ '' tasks/s''),
        labelled ''transferred:'' (nat_to_string (br_transferred_bytes r) @ '' bytes''),
        labelled ''data sent:'' (nat_to_string (br_data_bytes_sent r) @ '' bytes (uncompressed ''
          @ nat_to_string (br_data_bytes_uncompressed r) @ '')'')]"

record comparison_report =
  cr_baseline :: bench_report
  cr_aethermesh :: bench_report
  cr_traffic_reduction :: fl
  cr_speedup :: fl

definition comparison_report_text :: "comparison_report \<Rightarrow> string" where
  "comparison_report_text c =
     (let b = cr_baseline c; a = cr_aethermesh c; nl = [newline] in
      report_text b @ nl @ nl @ report_text a @ nl @ nl
      @ ''transferred bytes: '' @ nat_to_string (br_transferred_bytes b) @ '' -> '' @ nat_to_string (br_transferred_bytes a) @ nl
      @ ''traffic reduction: '' @ fmt_fixed 1 (cr_traffic_reduction c) @ '' %'' @ nl
      @ ''execution time:    '' @ fmt_fixed 3 (br_total_duration_ms b) @ '' ms -> '' @ fmt_fixed 3 (br_total_duration_ms a) @ '' ms'' @ nl
      @ ''speedup:           '' @ fmt_fixed 2 (cr_speedup c) @ ''x'' @ nl
      @ ''p50 / p95 / p99:   '' @ fmt_fixed 3 (br_p50_latency_ms b) @ '' / '' @ fmt_fixed 3 (br_p95_latency_ms b) @ '' / ''
      @ fmt_fixed 3 (br_p99_latency_ms b) @ '' ms -> '' @ fmt_fixed 3 (br_p50_latency_ms a) @ '' / ''
      @ fmt_fixed 3 (br_p95_latency_ms a) @ '' / '' @ fmt_fixed 3 (br_p99_latency_ms a) @ '' ms'')"

section \<open>One run\<close>

text \<open>The controller of a mode and the scheduler it uses.\<close>

fun controller_for :: "bench_mode \<Rightarrow> bench_config \<Rightarrow> controller \<times> scheduler_kind" where
  "controller_for Baseline cfg =
     (with_data_reuse (with_chunk_size (with_compression (controller_new catalog_new) policy_disabled) (2 ^ 64 - 1)) False,
      LeastLoaded)"
| "controller_for AetherMesh cfg = (with_chunk_size (controller_new catalog_new) (bc_chunk_size cfg), ByScore weights_default)"

text \<open>The load of the nodes is spread, so that a scheduler has a reason to prefer one.\<close>

definition bench_node :: "bench_config \<Rightarrow> node_id \<Rightarrow> nat \<Rightarrow> node_info" where
  "bench_node cfg n index =
     update_metrics
       (with_latency_ms (with_bandwidth (node_info_new n (''bench-node-'' @ nat_to_string index) ''127.0.0.1:7000'' 4)
          (bc_bandwidth cfg)) (fconst f32 5))
       (metrics_new (fdiv f32 (of_nat_f f32 index) (of_nat_f f32 (bc_nodes cfg))) (fconst f32 (1 / 2)) 0)"

record bench_world =
  bw_sim :: sim_env
  bw_lz4 :: "bytes \<Rightarrow> bytes"
  bw_execute :: execute_fn
  bw_node_id :: "nat \<Rightarrow> node_id"
  bw_task_id :: "nat \<Rightarrow> task_id"
  bw_now :: "nat \<Rightarrow> instant"
  bw_ticks :: "nat \<Rightarrow> nat \<Rightarrow> instant"
  bw_latency :: "nat \<Rightarrow> duration"
  bw_total :: duration

record tally =
  ta_succeeded :: nat
  ta_failed :: nat
  ta_latencies :: "duration list"

text \<open>The loop over the tasks; an error of a submission ends the run.\<close>

fun bench_rounds ::
    "bench_world \<Rightarrow> scheduler_kind \<Rightarrow> string \<Rightarrow> bytes \<Rightarrow> data_id list \<Rightarrow> nat list \<Rightarrow> tally \<Rightarrow> controller \<Rightarrow> sim_mesh
     \<Rightarrow> (dispatch_error + tally) exec \<times> controller \<times> sim_mesh" where
  "bench_rounds w kind k p ins [] acc c t = (Ret (Inr acc), c, t)"
| "bench_rounds w kind k p ins (i # is) acc c t =
     (case submit (se_hash (bw_sim w)) (bw_lz4 w) (select_node kind) (sim_transport (bw_sim w) (bw_execute w)) (bw_ticks w i)
             (bw_now w i) (with_inputs (task_new (bw_task_id w i) k p) ins) c t of
        (Panic, c1, t1) \<Rightarrow> (Panic, c1, t1)
      | (Ret (Inl e), c1, t1) \<Rightarrow> (Ret (Inl e), c1, t1)
      | (Ret (Inr r), c1, t1) \<Rightarrow>
          bench_rounds w kind k p ins is
            (if is_success r
             then acc\<lparr>ta_succeeded := ta_succeeded acc + 1, ta_latencies := ta_latencies acc @ [bw_latency w i]\<rparr>
             else acc\<lparr>ta_failed := ta_failed acc + 1, ta_latencies := ta_latencies acc @ [bw_latency w i]\<rparr>) c1 t1)"

definition bench_report_of ::
    "bench_config \<Rightarrow> bench_mode \<Rightarrow> bytes \<Rightarrow> duration \<Rightarrow> tally \<Rightarrow> controller \<Rightarrow> sim_mesh \<Rightarrow> bench_report exec" where
  "bench_report_of cfg mode p whole acc c t =
     (let latencies = sort (ta_latencies acc);
          ms = (\<lambda>d. fmul f64 (as_secs_f64 d) (fconst f64 1000))
      in case (percentile_ms latencies (fconst f64 (1 / 2)), percentile_ms latencies (fconst f64 (19 / 20)),
               percentile_ms latencies (fconst f64 (99 / 100))) of
           (Ret p50, Ret p95, Ret p99) \<Rightarrow>
             Ret \<lparr>br_mode = mode, br_tasks = bc_tasks cfg, br_nodes = bc_nodes cfg, br_kind = bc_kind cfg,
               br_payload_bytes = length p, br_dataset_bytes = bc_dataset_bytes cfg, br_succeeded = ta_succeeded acc,
               br_failed = ta_failed acc, br_total_duration_ms = ms whole,
               br_avg_latency_ms = fdiv f64 (ms (sum_list latencies)) (of_nat_f f64 (max (bc_tasks cfg) 1)),
               br_p50_latency_ms = p50, br_p95_latency_ms = p95, br_p99_latency_ms = p99,
               br_throughput = (if whole = 0 then Num False 0 else fdiv f64 (of_nat_f f64 (bc_tasks cfg)) (as_secs_f64 whole)),
               br_transferred_bytes = bytes_transferred t, br_data_bytes_sent = data_bytes_sent (c_traffic c),
               br_data_bytes_uncompressed = data_bytes_uncompressed (c_traffic c)\<rparr>
         | _ \<Rightarrow> Panic)"

definition bench_start :: "bench_world \<Rightarrow> bench_config \<Rightarrow> bench_mode \<Rightarrow> data_id list \<times> controller" where
  "bench_start w cfg mode =
     (let c = fold (\<lambda>i c. register_node c (bw_now w 0) (bench_node cfg (bw_node_id w i) i)) [0 ..< bc_nodes cfg]
                (fst (controller_for mode cfg))
      in case shared_dataset cfg of
           None \<Rightarrow> ([], c)
         | Some bs \<Rightarrow> (let (d, c1) = publish (se_hash (bw_sim w)) c bs in ([desc_id d], c1)))"

definition bench_run :: "bench_world \<Rightarrow> bench_config \<Rightarrow> bench_mode \<Rightarrow> (dispatch_error + bench_report) exec" where
  "bench_run w cfg mode =
     (let p = bench_payload cfg; (ins, c) = bench_start w cfg mode in
      case bench_rounds w (snd (controller_for mode cfg)) (bc_kind cfg) p ins [0 ..< bc_tasks cfg]
             \<lparr>ta_succeeded = 0, ta_failed = 0, ta_latencies = []\<rparr> c sim_new of
        (Panic, _) \<Rightarrow> Panic
      | (Ret (Inl e), _) \<Rightarrow> Ret (Inl e)
      | (Ret (Inr acc), c1, t1) \<Rightarrow>
          (case bench_report_of cfg mode p (bw_total w) acc c1 t1 of Panic \<Rightarrow> Panic | Ret r \<Rightarrow> Ret (Inr r)))"

text \<open>Both modes, each with its own readings of the clock.\<close>

definition bench_compare :: "(bench_mode \<Rightarrow> bench_world) \<Rightarrow> bench_config \<Rightarrow> (dispatch_error + comparison_report) exec" where
  "bench_compare w cfg =
     (case bench_run (w Baseline) cfg Baseline of
        Panic \<Rightarrow> Panic
      | Ret (Inl e) \<Rightarrow> Ret (Inl e)
      | Ret (Inr b) \<Rightarrow>
          (case bench_run (w AetherMesh) cfg AetherMesh of
             Panic \<Rightarrow> Panic
           | Ret (Inl e) \<Rightarrow> Ret (Inl e)
           | Ret (Inr a) \<Rightarrow>
               Ret (Inr \<lparr>cr_baseline = b, cr_aethermesh = a,
                 cr_traffic_reduction = traffic_reduction (br_transferred_bytes b) (br_transferred_bytes a),
                 cr_speedup = bench_speedup (br_total_duration_ms b) (br_total_duration_ms a)\<rparr>)))"

section \<open>What a report says\<close>

lemma bench_controller_inv: "controller_inv hash (snd (bench_start w cfg mode))" if "hash = se_hash (bw_sim w)"
proof -
  have "budget store_new = None" by (simp add: store_new_def)
  then have new: "controller_inv hash (fst (controller_for mode cfg))"
    by (cases mode) (simp_all add: controller_inv_def controller_new_def with_data_reuse_def with_chunk_size_def
        with_compression_def inv_intros)
  have reg: "controller_inv hash (register_node c now info)" if "controller_inv hash c" for c now info
    using that same_store_eq [of "register_node c now info" c]
    by (auto simp: controller_inv_def register_node_def same_store_def)
  have "controller_inv hash (fold (\<lambda>i c. register_node c now (f i)) is c)" if "controller_inv hash c" for f now "is" c
    using that by (induction "is" arbitrary: c) (simp_all add: reg)
  note registered = this [OF new]
  define c where "c = fold (\<lambda>i c. register_node c (bw_now w 0) (bench_node cfg (bw_node_id w i) i)) [0 ..< bc_nodes cfg]
    (fst (controller_for mode cfg))"
  have c: "controller_inv hash c" unfolding c_def by (rule registered)
  have "snd (bench_start w cfg mode) = c \<or> (\<exists>bs. snd (bench_start w cfg mode) = snd (publish hash c bs))"
    by (simp add: bench_start_def Let_def that c_def [symmetric] case_prod_unfold split: option.split) blast
  then show ?thesis using c publish_inv [OF c] by auto
qed

lemma bench_rounds_counts:
  assumes "controller_inv (se_hash (bw_sim w)) c"
  shows "\<exists>x c' t'. bench_rounds w kind k p ins is acc c t = (Ret x, c', t') \<and>
    (\<forall>acc'. x = Inr acc' \<longrightarrow> ta_succeeded acc' + ta_failed acc' = ta_succeeded acc + ta_failed acc + length is \<and>
       ta_latencies acc' = ta_latencies acc @ map (bw_latency w) is)"
  using assms
proof (induction "is" arbitrary: acc c t)
  case (Cons i "is")
  obtain r c1 t1 where s: "submit (se_hash (bw_sim w)) (bw_lz4 w) (select_node kind) (sim_transport (bw_sim w) (bw_execute w))
      (bw_ticks w i) (bw_now w i) (with_inputs (task_new (bw_task_id w i) k p) ins) c t = (Ret r, c1, t1)"
      "controller_inv (se_hash (bw_sim w)) c1"
    using submit_safe [OF Cons.prems] by metis
  show ?case
  proof (cases r)
    case (Inr y)
    then show ?thesis using Cons.IH [OF s(2)] s(1) by (fastforce simp del: map_append)
  qed (use s(1) in auto)
qed simp

text \<open>
  The benchmark never panics, and a report accounts for every task: as many succeeded and
  failed as there were, with one latency each.
\<close>

lemma bench_run_accounts:
  "\<exists>x. bench_run w cfg mode = Ret x \<and>
     (\<forall>r. x = Inr r \<longrightarrow> br_succeeded r + br_failed r = bc_tasks cfg \<and> br_tasks r = bc_tasks cfg)"
proof -
  obtain ins c where st: "bench_start w cfg mode = (ins, c)" by fastforce
  have inv: "controller_inv (se_hash (bw_sim w)) c" using bench_controller_inv [OF refl, of w cfg mode] st by simp
  have "\<exists>p. percentile_ms ds q = Ret p" for ds q
    using percentile_no_panic [of ds q] by (cases "percentile_ms ds q") auto
  then obtain pm where "percentile_ms ds q = Ret (pm ds q)" for ds q by metis
  then show ?thesis
    using bench_rounds_counts [OF inv, of "snd (controller_for mode cfg)" "bc_kind cfg" "bench_payload cfg" ins "[0 ..< bc_tasks cfg]"
        "\<lparr>ta_succeeded = 0, ta_failed = 0, ta_latencies = []\<rparr>" sim_new]
    by (auto simp: bench_run_def st bench_report_of_def Let_def split: sum.splits)
qed

section \<open>The report of a network measurement\<close>

fun unit_loop :: "fl \<Rightarrow> string list \<Rightarrow> fl \<times> string" where
  "unit_loop sz [] = (sz, '''')"
| "unit_loop sz [u] = (sz, u)"
| "unit_loop sz (u # v # us) =
     (if fle (fconst f64 1024) sz then unit_loop (fdiv f64 sz (fconst f64 1024)) (v # us) else (sz, u))"

definition report_bytes :: "nat \<Rightarrow> string" where
  "report_bytes value =
     (case unit_loop (of_nat_f f64 value) [''B'', ''KiB'', ''MiB'', ''GiB'', ''TiB''] of
        (sz, u) \<Rightarrow> if u = ''B'' then nat_to_string value @ '' B'' else fmt_fixed 1 sz @ '' '' @ u)"

definition mib :: "nat \<Rightarrow> string" where
  "mib n = fmt_fixed 1 (fdiv f64 (of_nat_f f64 n) (fmul f64 (fconst f64 1024) (fconst f64 1024)))"

definition dot_between :: string where
  "dot_between = [CHR '' '', char_of (183 :: nat), CHR '' '']"

definition report_node :: "node_record \<Rightarrow> string" where
  "report_node n =
     (let latency = (case nr_latency_ms n of Some ms \<Rightarrow> fmt_fixed 1 ms @ '' ms'' | None \<Rightarrow> ''unmeasured'');
          link = (case nr_bandwidth n of Some rate \<Rightarrow> mib rate @ '' MiB/s'' | None \<Rightarrow> ''unmeasured'')
      in ''  '' @ pad_right 16 (nr_hostname n) @ '' '' @ pad_right 22 (nr_address n) @ '' ''
         @ nat_to_string (nr_cpu_cores n) @ '' cores'' @ dot_between @ ''rtt '' @ latency @ dot_between @ ''link '' @ link @ [newline])"

definition report_columns :: "string \<Rightarrow> string \<Rightarrow> string \<Rightarrow> string" where
  "report_columns label x y = ''  '' @ pad_right 14 label @ pad_left 14 x @ pad_left 14 y @ [newline]"

definition network_report_text :: "network_report \<Rightarrow> string" where
  "network_report_text r =
     (let env = rp_environment r; eol = [newline]; naive = rp_baseline r; aether = rp_aethermesh r in
      ''AetherMesh network benchmark'' @ eol @ ''  '' @ ev_measured_at env @ eol
      @ ''  controller '' @ ev_controller env @ dot_between @ ''aethermesh '' @ ev_version env @ eol
      @ ''  client '' @ ev_client_os env @ '' '' @ ev_client_arch env @ dot_between @ nat_to_string (ev_client_cpus env) @ '' cpu'' @ eol
      @ eol @ nat_to_string (length (ev_nodes env)) @ '' node(s):'' @ eol
      @ concat (map report_node (ev_nodes env))
      @ (if ev_loopback_only env
         then eol @ ''  Every node is on loopback. This measures the software, not a network:'' @ eol
              @ ''  the transfer saving is real, the latency and bandwidth are not.'' @ eol
         else '''')
      @ eol @ nat_to_string (rp_tasks r) @ '' tasks over a '' @ mib (rp_dataset_bytes r) @ '' MiB dataset (seed ''
      @ nat_to_string (unat (rp_seed r)) @ '')'' @ eol @ eol
      @ report_columns '''' ''naive'' ''aethermesh''
      @ report_columns ''bytes sent'' (report_bytes (ms_bytes naive)) (report_bytes (ms_bytes aether))
      @ report_columns ''wall clock'' (fmt_fixed 0 (ms_wall_ms naive) @ '' ms'') (fmt_fixed 0 (ms_wall_ms aether) @ '' ms'')
      @ report_columns ''mean task'' (fmt_fixed 1 (mean_task_ms naive) @ '' ms'') (fmt_fixed 1 (mean_task_ms aether) @ '' ms'')
      @ report_columns ''sends skipped'' (nat_to_string (ms_transfers_skipped naive)) (nat_to_string (ms_transfers_skipped aether))
      @ eol @ ''  traffic reduction: '' @ fmt_fixed 1 (rp_reduction_percent r) @ '' %'' @ eol
      @ eol @ ''  reproduce with:'' @ eol @ ''    '' @ ev_command env @ eol
      @ concat (map (\<lambda>w. ''  ! '' @ w @ eol) (rp_warnings r)))"

text \<open>Reasons to distrust the figures are the last thing a reader sees, each on a line of its own.\<close>

lemma report_ends_with_warnings:
  "\<exists>body. network_report_text r = body @ concat (map (\<lambda>w. ''  ! '' @ w @ [newline]) (rp_warnings r))"
  unfolding network_report_text_def Let_def by (simp only: append_assoc [symmetric]) blast

section \<open>The command line\<close>

text \<open>
  The commands of \<^verbatim>\<open>crates/aether-benchmark/src/main.rs\<close>: what each measures, prints and how it
  exits. Reading files, printing JSON and the measurement of a live mesh are functions of the
  environment.
\<close>

datatype format = TextFormat | JsonFormat

record bench_options =
  bo_config :: bench_config
  bo_format :: format
  bo_output :: "string option"

datatype bench_command =
    RunCommand bench_options bench_mode
  | CompareCommand bench_options
  | NetworkCommand string "string option" "string option" nat nat "64 word option" format "string option"
  | RegressCommand string string "string option" fl "fl option" format "string option"

record bench_io =
  bi_world :: "bench_mode \<Rightarrow> bench_world"
  bi_network :: "network_options \<Rightarrow> nodes_config \<Rightarrow> network_error + network_report"
  bi_nodes_config :: "string \<Rightarrow> network_error + nodes_config"
  bi_baseline :: "string \<Rightarrow> string + network_report"
  bi_json_run :: "bench_report \<Rightarrow> string"
  bi_json_compare :: "comparison_report \<Rightarrow> string"
  bi_json_network :: "network_report \<Rightarrow> string"
  bi_json_regress :: "comparison \<Rightarrow> string"
  bi_seed :: "64 word"
  bi_writes :: "string \<Rightarrow> bool"

datatype cli_error =
    BenchFailed dispatch_error
  | NetworkFailed network_error
  | BaselineUnreadable string string
  | Mismatched mismatch_error
  | WriteFailed string
  | RegressedAgainst string

datatype printed = ToStdout string | ToFile string string

definition DEFAULT_CONTROLLER :: string where
  "DEFAULT_CONTROLLER = ''127.0.0.1:7100''"

definition nodes_config_default :: nodes_config where
  "nodes_config_default = \<lparr>nc_controller = None, nc_token = None, nc_nodes = []\<rparr>"

definition finish_report :: "bench_io \<Rightarrow> string option \<Rightarrow> string \<Rightarrow> printed list \<times> (cli_error + unit)" where
  "finish_report io out rendered =
     (case out of
        Some path \<Rightarrow>
          (if bi_writes io path
           then ([ToFile path (rendered @ [newline]), ToStdout (''report written to '' @ path @ [newline])], Inr ())
           else ([], Inl (WriteFailed path)))
      | None \<Rightarrow> ([ToStdout (rendered @ [newline])], Inr ()))"

definition run_command_line :: "bench_io \<Rightarrow> bench_options \<Rightarrow> bench_mode \<Rightarrow> (printed list \<times> (cli_error + unit)) exec" where
  "run_command_line io o1 mode =
     (case bench_run (bi_world io mode) (bo_config o1) mode of
        Panic \<Rightarrow> Panic
      | Ret (Inl e) \<Rightarrow> Ret ([], Inl (BenchFailed e))
      | Ret (Inr r) \<Rightarrow>
          Ret (finish_report io (bo_output o1) (case bo_format o1 of TextFormat \<Rightarrow> report_text r | JsonFormat \<Rightarrow> bi_json_run io r)))"

definition compare_command_line :: "bench_io \<Rightarrow> bench_options \<Rightarrow> (printed list \<times> (cli_error + unit)) exec" where
  "compare_command_line io o1 =
     (case bench_compare (bi_world io) (bo_config o1) of
        Panic \<Rightarrow> Panic
      | Ret (Inl e) \<Rightarrow> Ret ([], Inl (BenchFailed e))
      | Ret (Inr r) \<Rightarrow>
          Ret (finish_report io (bo_output o1)
            (case bo_format o1 of TextFormat \<Rightarrow> comparison_report_text r | JsonFormat \<Rightarrow> bi_json_compare io r)))"

text \<open>The controller measured: the file's, unless the flag differs from the default.\<close>

definition measured_controller :: "string \<Rightarrow> nodes_config \<Rightarrow> string" where
  "measured_controller flag expected =
     (if flag = DEFAULT_CONTROLLER then (case nc_controller expected of Some c \<Rightarrow> c | None \<Rightarrow> flag) else flag)"

definition network_command_line ::
    "bench_io \<Rightarrow> string \<Rightarrow> string option \<Rightarrow> string option \<Rightarrow> nat \<Rightarrow> nat \<Rightarrow> 64 word option \<Rightarrow> format \<Rightarrow> string option \<Rightarrow>
     printed list \<times> (cli_error + unit)" where
  "network_command_line io ctl token config n bytes_each seed fmt out =
     (case (case config of Some path \<Rightarrow> bi_nodes_config io path | None \<Rightarrow> Inr nodes_config_default) of
        Inl e \<Rightarrow> ([], Inl (NetworkFailed e))
      | Inr expected \<Rightarrow>
          (let opts = \<lparr>no_nodes_config = config, no_controller = measured_controller ctl expected,
                  no_token = (case token of Some t \<Rightarrow> Some t | None \<Rightarrow> nc_token expected), no_tasks = n,
                  no_dataset_bytes = bytes_each, no_seed = (case seed of Some s \<Rightarrow> s | None \<Rightarrow> bi_seed io)\<rparr>
           in case bi_network io opts expected of
                Inl e \<Rightarrow> ([], Inl (NetworkFailed e))
              | Inr r \<Rightarrow>
                  finish_report io out (case fmt of TextFormat \<Rightarrow> network_report_text r | JsonFormat \<Rightarrow> bi_json_network io r)))"

definition regress_options :: "string \<Rightarrow> string option \<Rightarrow> 64 word \<Rightarrow> network_report \<Rightarrow> network_options" where
  "regress_options ctl token seed previous =
     \<lparr>no_nodes_config = None, no_controller = ctl, no_token = token, no_tasks = rp_tasks previous,
      no_dataset_bytes = rp_dataset_bytes previous, no_seed = seed\<rparr>"

definition regress_command_line ::
    "bench_io \<Rightarrow> string \<Rightarrow> string \<Rightarrow> string option \<Rightarrow> fl \<Rightarrow> fl option \<Rightarrow> format \<Rightarrow> string option \<Rightarrow>
     printed list \<times> (cli_error + unit)" where
  "regress_command_line io baseline ctl token tol timing fmt out =
     (case bi_baseline io baseline of
        Inl e \<Rightarrow> ([], Inl (BaselineUnreadable baseline e))
      | Inr previous \<Rightarrow>
          (case bi_network io (regress_options ctl token (bi_seed io) previous) nodes_config_default of
             Inl e \<Rightarrow> ([], Inl (NetworkFailed e))
           | Inr current \<Rightarrow>
               (case comparison_of previous current tol timing of
                  Inl e \<Rightarrow> ([], Inl (Mismatched e))
                | Inr c \<Rightarrow>
                    (case finish_report io out (case fmt of TextFormat \<Rightarrow> comparison_text c | JsonFormat \<Rightarrow> bi_json_regress io c) of
                       (ps, Inl e) \<Rightarrow> (ps, Inl e)
                     | (ps, Inr _) \<Rightarrow> (ps, if comparison_failed c then Inl (RegressedAgainst baseline) else Inr ())))))"

fun bench_main :: "bench_io \<Rightarrow> bench_command \<Rightarrow> (printed list \<times> (cli_error + unit)) exec" where
  "bench_main io (RunCommand o1 mode) = run_command_line io o1 mode"
| "bench_main io (CompareCommand o1) = compare_command_line io o1"
| "bench_main io (NetworkCommand ctl token config n bytes_each seed fmt out) =
     Ret (network_command_line io ctl token config n bytes_each seed fmt out)"
| "bench_main io (RegressCommand baseline ctl token tol timing fmt out) =
     Ret (regress_command_line io baseline ctl token tol timing fmt out)"

lemma network_run_echoes:
  "fst (network_run ops ip_loopback host wall opts expected w) = Inr r \<Longrightarrow>
     rp_tasks r = no_tasks opts \<and> rp_dataset_bytes r = no_dataset_bytes opts"
  by (auto simp: network_run_def Let_def split: prod.splits sum.splits)

text \<open>
  The regression step of a build compares like with like and passes exactly when the mesh was
  measured, the report was written and no gated metric got worse; it never fails because the
  two reports measured different work.
\<close>

lemma regress_passes_iff:
  assumes "bi_network io = (\<lambda>opts expected. fst (network_run ops ip_loopback host wall opts expected w))"
    and "bi_baseline io baseline = Inr previous"
    and "regress_command_line io baseline ctl token tol timing fmt out = (ps, r)"
  shows "(r = Inr () \<longleftrightarrow>
      (\<exists>current c. bi_network io (regress_options ctl token (bi_seed io) previous) nodes_config_default = Inr current \<and>
         comparison_of previous current tol timing = Inr c \<and> \<not> comparison_failed c \<and>
         (case out of Some path \<Rightarrow> bi_writes io path | None \<Rightarrow> True)))
    \<and> (\<forall>e. r \<noteq> Inl (Mismatched e))"
proof (cases "bi_network io (regress_options ctl token (bi_seed io) previous) nodes_config_default")
  case (Inl e)
  then show ?thesis using assms(2,3) by (auto simp: regress_command_line_def)
next
  case (Inr current)
  then have "rp_tasks current = rp_tasks previous" "rp_dataset_bytes current = rp_dataset_bytes previous"
    using network_run_echoes unfolding assms(1) by (fastforce simp: regress_options_def)+
  then obtain c where c: "comparison_of previous current tol timing = Inr c"
    by (simp add: comparison_of_def Let_def)
  show ?thesis
    using assms(2,3) Inr c
    by (auto simp: regress_command_line_def finish_report_def split: option.splits if_splits)
qed

text \<open>
  A controller given on the command line gives way to the file when it happens to be the
  default address.
\<close>

lemma explicit_default_gives_way:
  "measured_controller ''127.0.0.1:7100'' (nodes_config_default\<lparr>nc_controller := Some ''10.0.0.1:7100''\<rparr>) = ''10.0.0.1:7100''"
  by (simp add: measured_controller_def DEFAULT_CONTROLLER_def nodes_config_default_def)

end
