(* ===== verification/Reuse.thy ===== *)
theory Reuse
  imports Dispatch "HOL-Library.Code_Target_Nat"
begin

text \<open>
  What data reuse is worth (crates/aether-controller/src/dispatch.rs): the bytes of input data
  a controller sends over any number of submissions, bounded by what the nodes lack. The
  argument is a potential: what is owed goes down by at least the bytes that are counted.
\<close>

definition registered :: "controller \<Rightarrow> node_id set" where
  "registered c = info_id ` set (registry_nodes (c_registry c))"

definition dataset_size :: "controller \<Rightarrow> data_id \<Rightarrow> nat" where
  "dataset_size c i = (case stored_bytes c i of None \<Rightarrow> 0 | Some bs \<Rightarrow> length bs)"

abbreviation moved :: "controller \<Rightarrow> nat" where
  "moved c \<equiv> data_bytes_uncompressed (c_traffic c)"

text \<open>The bytes of the datasets \<^verbatim>\<open>I\<close> that the nodes \<^verbatim>\<open>N\<close> are not credited with.\<close>

definition owed :: "(data_id \<Rightarrow> nat) \<Rightarrow> data_id set \<Rightarrow> node_id set \<Rightarrow> catalog \<Rightarrow> nat" where
  "owed sz I N cat = (\<Sum>(i, n) \<in> I \<times> N. if holds cat i n then 0 else sz i)"

definition credits_more :: "controller \<Rightarrow> controller \<Rightarrow> bool" where
  "credits_more c c' = (\<forall>i n. holds (c_catalog c) i n \<longrightarrow> holds (c_catalog c') i n)"

lemma credits_more_refl [simp]: "c_catalog c' = c_catalog c \<Longrightarrow> credits_more c c'"
  by (simp add: credits_more_def)

lemma credits_more_trans: "credits_more a b \<Longrightarrow> credits_more b c \<Longrightarrow> credits_more a c"
  by (simp add: credits_more_def)

lemma owed_mono: "credits_more c c' \<Longrightarrow> owed sz I N (c_catalog c') \<le> owed sz I N (c_catalog c)"
  unfolding owed_def by (rule sum_mono) (clarsimp simp: credits_more_def)

lemma owed_paid:
  assumes "credits_more c c'" "finite I" "finite N" "i \<in> I" "n \<in> N" "\<not> holds (c_catalog c) i n" "holds (c_catalog c') i n"
  shows "owed sz I N (c_catalog c') + sz i \<le> owed sz I N (c_catalog c)"
proof -
  let ?f = "\<lambda>cat (j, m). if holds cat j m then 0 else sz j"
  have split: "owed sz I N cat = ?f cat (i, n) + (\<Sum>x \<in> I \<times> N - {(i, n)}. ?f cat x)" for cat
    unfolding owed_def using assms(2-5) by (intro sum.remove) auto
  have "(\<Sum>x \<in> I \<times> N - {(i, n)}. ?f (c_catalog c') x) \<le> (\<Sum>x \<in> I \<times> N - {(i, n)}. ?f (c_catalog c) x)"
    using assms(1) by (intro sum_mono) (simp add: credits_more_def split: prod.split)
  then show ?thesis using assms(6,7) by (simp add: split)
qed

section \<open>One transfer\<close>

lemma moved_bytes_simps [simp]:
  "moved (count_traffic record_chunk_skipped c) = moved c" "moved (count_traffic record_transfer_skipped c) = moved c"
  "moved (count_traffic (\<lambda>t. record_sent t wire original) c) = moved c + original"
  "moved (transfer_lock c n i) = moved c" "moved (release_transfer c n i) = moved c" "moved (drop_transfer c n i) = moved c"
  "moved (begin_on c n) = moved c" "moved (finished_on c n) = moved c"
  by (simp_all add: count_traffic_def record_chunk_skipped_def record_transfer_skipped_def record_sent_def transfer_lock_def
      release_transfer_def drop_transfer_def begin_on_def finished_on_def split: option.splits)

lemma chunk_batch_moves:
  "chunk_batch lz4 n m bs bw ks c = (r, c') \<Longrightarrow>
     moved c' \<le> moved c + sum_list (map (\<lambda>(_, d). size_bytes d) ks) \<and> credits_more c c'"
proof (induction ks arbitrary: c r c')
  case (Cons k ks)
  obtain idx d where k: "k = (idx, d)" by fastforce
  have rec: "moved c' \<le> moved c + size_bytes d + sum_list (map (\<lambda>(_, d). size_bytes d) ks) \<and> credits_more c c'"
    if "chunk_batch lz4 n m bs bw ks (count_traffic (\<lambda>t. record_sent t w (size_bytes d))
      (c\<lparr>c_catalog := record_data (c_catalog c) d n\<rparr>)) = (q, c')" for w q
    using Cons.IH [OF that] by (auto simp: credits_more_def holds_record)
  have skip: "moved c' \<le> moved c + sum_list (map (\<lambda>(_, d). size_bytes d) ks) \<and> credits_more c c'"
    if "chunk_batch lz4 n m bs bw ks (count_traffic record_chunk_skipped c) = (q, c')" for q
    using Cons.IH [OF that] by (auto simp: credits_more_def)
  show ?case
    using Cons.prems rec skip by (fastforce simp: k Let_def split: if_splits option.splits prod.splits exec.splits)
qed simp

lemma split_sizes: "sum_list (map (\<lambda>(_, d). size_bytes d) (indexed (manifest_split hash bs k))) = length bs"
proof -
  let ?parts = "slice_chunks (effective_chunk_size k) bs"
  have "map snd (indexed (manifest_split hash bs k)) = map (descriptor_of hash) ?parts"
    by (simp add: indexed_def enumerated_def manifest_split_def Let_def comp_def case_prod_unfold)
  moreover have "map (\<lambda>(_, d). size_bytes d) xs = map size_bytes (map snd xs)" for xs :: "(nat \<times> data_descriptor) list"
    by (simp add: case_prod_unfold)
  ultimately have "map (\<lambda>(_, d). size_bytes d) (indexed (manifest_split hash bs k)) = map length ?parts"
    unfolding descriptor_of_def descriptor_new_def by (metis (no_types, lifting) comp_apply data_descriptor.select_convs(2) list.map_comp map_eq_conv)
  then have "sum_list (map (\<lambda>(_, d). size_bytes d) (indexed (manifest_split hash bs k))) = sum_list (map length ?parts)"
    by simp
  also have "\<dots> = length (concat ?parts)" by (simp add: length_concat)
  finally show ?thesis by (simp add: concat_slice_chunks [OF effective_chunk_size_pos])
qed

lemma send_input_moves:
  assumes "send_input lz4 tr n i c t = (r, c', t')" "controller_inv hash c" "stored_bytes c i = Some bs"
  shows "moved c' \<le> moved c + length bs \<and> credits_more c c'"
proof -
  obtain s where g: "get (c_store c) i = (Some bs, s)"
    using fst_get [of "c_store c" i] assms(3) by (metis prod.collapse stored_bytes_def)
  show ?thesis
  proof (cases "map_of (manifests c) i")
    case None
    then show ?thesis
      using assms(1) g by (auto simp: send_input_def Let_def descriptor_new_def split: prod.splits sum.splits)
  next
    case (Some m)
    then obtain k where m: "m = manifest_split hash bs k" using assms(2,3) unfolding controller_inv_def by (metis option.inject)
    obtain q t1 where "send_chunked lz4 tr n m bs (bandwidth_to (c\<lparr>c_store := s\<rparr>) n) (c\<lparr>c_store := s\<rparr>) t = (q, c', t1)"
      using assms(1) g Some by (auto simp: send_input_def Let_def split: prod.splits sum.splits exec.splits)
    then have "c' = c\<lparr>c_store := s\<rparr> \<or> (\<exists>batch. chunk_batch lz4 n m bs (bandwidth_to (c\<lparr>c_store := s\<rparr>) n) (indexed m) (c\<lparr>c_store := s\<rparr>) = (batch, c'))"
      by (auto simp: send_chunked_def Let_def split: prod.splits sum.splits exec.splits if_splits)
    then show ?thesis
    proof
      assume "\<exists>batch. chunk_batch lz4 n m bs (bandwidth_to (c\<lparr>c_store := s\<rparr>) n) (indexed m) (c\<lparr>c_store := s\<rparr>) = (batch, c')"
      then obtain batch where "chunk_batch lz4 n m bs (bandwidth_to (c\<lparr>c_store := s\<rparr>) n) (indexed m) (c\<lparr>c_store := s\<rparr>) = (batch, c')" ..
      from chunk_batch_moves [OF this] show ?thesis by (simp add: m split_sizes credits_more_def)
    qed simp
  qed
qed

section \<open>One submission\<close>

text \<open>What is owed pays for what is moved; both sides are of the same controller.\<close>

definition paid :: "(data_id \<Rightarrow> nat) \<Rightarrow> data_id set \<Rightarrow> node_id set \<Rightarrow> controller \<Rightarrow> controller \<Rightarrow> bool" where
  "paid sz I N c c' =
     (moved c' + owed sz I N (c_catalog c') \<le> moved c + owed sz I N (c_catalog c))"

lemma paid_trans: "paid sz I N a b \<Longrightarrow> paid sz I N b c \<Longrightarrow> paid sz I N a c"
  by (simp add: paid_def)

lemma paid_free: "moved c' \<le> moved c \<Longrightarrow> credits_more c c' \<Longrightarrow> paid sz I N c c'"
  using owed_mono [of c c' sz I N] by (simp add: paid_def)

lemma ensure_inputs_paid:
  assumes "ensure_inputs lz4 tr n ins c t = (r, c', t')" "controller_inv hash c" "reuse_data c" "reliable tr n"
    and "finite I" "finite N" "n \<in> N" "set ins \<subseteq> I" "\<forall>i \<in> I. stored_bytes c i \<noteq> None" "\<forall>i \<in> I. sz i = dataset_size c i"
  shows "paid sz I N c c'"
  using assms(1-3,8-10)
proof (induction ins arbitrary: c t)
  case (Cons i ins)
  define c0 where "c0 = transfer_lock c n i"
  have c0: "frame c0 = frame c" "same_store c c0" "moved c0 = moved c" "c_catalog c0 = c_catalog c" "reuse_data c0 = reuse_data c"
    by (simp_all add: c0_def same_store_eq)
  have step: "paid sz I N c c'"
    if d: "ensure_inputs lz4 tr n ins d u = (r, c', t')" "frame d = frame c" "same_store c d" "paid sz I N c d" for d u
  proof -
    have "controller_inv hash d" using controller_inv_step [OF Cons.prems(2)] d(2,3) by blast
    moreover have "reuse_data d" "stored_bytes d = stored_bytes c"
      using d(2,3) Cons.prems(3) by (simp_all add: frame_def same_store_def)
    ultimately have "paid sz I N d c'" using Cons.IH [OF d(1)] Cons.prems(4-6) by (simp add: dataset_size_def)
    then show ?thesis using paid_trans [OF d(4)] by blast
  qed
  show ?case
  proof (cases "holds (c_catalog c) i n")
    case True
    let ?d = "release_transfer (count_traffic record_transfer_skipped c0) n i"
    have "ensure_inputs lz4 tr n ins ?d t = (r, c', t')" using Cons.prems(1,3) True c0 by (simp add: c0_def Let_def)
    then show ?thesis
      by (rule step) (use c0 in \<open>simp_all add: paid_free same_store_def stored_bytes_def fun_eq_iff\<close>)
  next
    case False
    obtain bs where bs: "stored_bytes c i = Some bs" using Cons.prems(4,5) by auto
    then have sz: "sz i = length bs" "i \<in> I" using Cons.prems(4,6) by (simp_all add: dataset_size_def)
    have inv0: "controller_inv hash c0" using controller_inv_step [OF Cons.prems(2)] c0(1,2) by blast
    have bs0: "stored_bytes c0 i = Some bs" using bs c0(2) by (simp add: same_store_def)
    obtain q c1 t1 where s: "send_input lz4 tr n i c0 t = (Ret q, c1, t1)" using send_input_no_panic [OF inv0, of lz4 tr n i t] by blast
    note mv = send_input_moves [OF s inv0 bs0]
    obtain x where q: "q = Inr x" using send_input_outcome(2) [of lz4 tr n i c0 t _ c1 t1] s bs0 assms(4) by (cases q) auto
    let ?d = "release_transfer (c1\<lparr>c_catalog := record_data (c_catalog c1) x n\<rparr>) n i"
    have "ensure_inputs lz4 tr n ins ?d t1 = (r, c', t')" using Cons.prems(1) False s q c0 by (simp add: c0_def Let_def)
    then show ?thesis
    proof (rule step)
      show "frame ?d = frame c" using send_input_frame [OF s] c0(1) by simp
      show "same_store c ?d" 
        by (rule same_store_then [OF same_store_trans [OF c0(2) conjunct2 [OF send_input_frame [OF s]]]]) simp
      have "credits_more c ?d" "holds (c_catalog ?d) i n"
        using mv send_input_descriptor [OF s [unfolded q]] by (auto simp: credits_more_def holds_record c0(4))
      from owed_paid [OF this(1) assms(5,6) sz(2) assms(7) False this(2), of sz]
      show "paid sz I N c ?d" using mv sz(1) c0(3) by (simp add: paid_def)
    qed
  qed
qed (simp add: paid_def)

lemma try_once_paid:
  assumes "try_once lz4 tr n task c t = (r, c', t')" "controller_inv hash c" "reuse_data c" "reliable tr n"
    and "finite I" "finite N" "n \<in> N" "set (inputs task) \<subseteq> I" "\<forall>i \<in> I. stored_bytes c i \<noteq> None" "\<forall>i \<in> I. sz i = dataset_size c i"
  shows "paid sz I N c c' \<and> (\<exists>x. r = Ret (Inr x))"
proof -
  obtain q c1 t1 where e: "ensure_inputs lz4 tr n (inputs task) c t = (q, c1, t1)" by (metis prod_cases3)
  have "c' = c1" using assms(1) e by (auto simp: try_once_def Let_def split: exec.splits sum.splits prod.splits)
  moreover have "paid sz I N c c1" by (rule ensure_inputs_paid [OF e assms(2-10)])
  moreover obtain y where "r = Ret y" using try_once_no_panic [OF assms(2), of lz4 tr n task t] assms(1) by auto
  moreover have "\<forall>i \<in> set (inputs task). stored_bytes c i \<noteq> None" using assms(8,9) by blast
  ultimately show ?thesis using try_once_outcome [of lz4 tr n task c t] assms(1,4) by (cases y) auto
qed

text \<open>A finished task leaves every dataset in the store as it was.\<close>

lemma record_success_stored:
  assumes "controller_inv hash c" "stored_bytes c i = Some bs"
  shows "stored_bytes (record_success hash now c task r) i = Some bs"
proof -
  have none: "budget (c_store c) = None" using assms(1) by (simp add: controller_inv_def)
  obtain e where e: "map_of (blobs (c_store c)) i = Some e" "blob_bytes e = bs"
    using assms(2) by (auto simp: stored_bytes_def)
  have "map_option blob_bytes (map_of (blobs (snd (insert_data hash (c_store c) d out))) i) = Some bs" for d out
    using insert_data_store [of hash "c_store c" d out] store_blob_keeps(2) [OF none e(1)] e by auto
  then show ?thesis
    using e by (auto simp: record_success_def record_output_def stored_bytes_def Let_def
        split: option.splits prod.splits sum.splits) (metis snd_conv)+
qed

lemma record_success_more: "credits_more c (record_success hash now c task r)"
  by (auto simp: record_success_def record_output_def credits_more_def holds_record Let_def
      split: option.splits prod.splits sum.splits)

lemma record_success_moved: "moved (record_success hash now c task r) = moved c" "reuse_data (record_success hash now c task r) = reuse_data c"
  by (auto simp: record_success_def record_output_def Let_def split: option.splits prod.splits sum.splits)

text \<open>What a submission keeps for the next one.\<close>

definition ready_for :: "digest \<Rightarrow> (data_id \<Rightarrow> nat) \<Rightarrow> data_id set \<Rightarrow> node_id set \<Rightarrow> controller \<Rightarrow> bool" where
  "ready_for hash sz I N c =
     (controller_inv hash c \<and> reuse_data c \<and> registered c = N \<and> (\<forall>i \<in> I. stored_bytes c i \<noteq> None \<and> sz i = dataset_size c i))"

lemma ready_for_same:
  "ready_for hash sz I N c \<Longrightarrow> frame c' = frame c \<Longrightarrow> same_store c c' \<Longrightarrow> ready_for hash sz I N c'"
  using controller_inv_step [of hash c c']
  by (simp add: ready_for_def registered_def frame_def same_store_def dataset_size_def)

lemma submit_paid:
  assumes "submit hash lz4 (select_node kind) tr ticks now task c t = (r, c', t')" "ready_for hash sz I N c"
    and "\<forall>n. reliable tr n" "finite I" "set (inputs task) \<subseteq> I"
  shows "paid sz I N c c' \<and> ready_for hash sz I N c'"
proof -
  have loop: "paid sz I N d d' \<and> ready_for hash sz I N d'"
    if run: "submit_loop hash lz4 (select_node kind) tr ticks task left [] d t = (q, d', u)" and rdy: "ready_for hash sz I N d" for left d q d' u
  proof (cases "\<exists>k n. left = Suc k \<and> select_node kind (c_catalog d) (candidates tr [] d t) task = Some n")
    case False
    then have "d' = d" using run by (cases left) (auto split: option.splits)
    then show ?thesis using rdy by (simp add: paid_def)
  next
    case True
    then obtain k n where n: "left = Suc k" "select_node kind (c_catalog d) (candidates tr [] d t) task = Some n" by blast
    have inN: "n \<in> N" using placing.chosen(1) [OF n(2)] rdy by (auto simp: placeable_def registered_def ready_for_def)
    have fin: "finite N" using rdy by (auto simp: ready_for_def registered_def)
    let ?b = "begin_on d n"
    obtain x c1 t1 where o: "try_once lz4 tr n task ?b t = (x, c1, t1)" by (metis prod_cases3)
    have b: "controller_inv hash ?b" "reuse_data ?b" "\<forall>i \<in> I. stored_bytes ?b i \<noteq> None" "\<forall>i \<in> I. sz i = dataset_size ?b i"
      using rdy flight_inv(1) [of hash d n] stored_bytes_store [of ?b d]
      by (simp_all add: ready_for_def dataset_size_def begin_on_def)
    obtain res where res: "x = Ret (Inr res)" and pd: "paid sz I N ?b c1"
      using try_once_paid [OF o b(1,2) _ assms(4) fin inN assms(5) b(3,4)] assms(3) by blast
    define f where "f = finished_on c1 n"
    have d': "d' = record_success hash (ticks k) f task res" using run n o res by (simp add: f_def)
    have fr: "frame c1 = frame ?b" "same_store ?b c1" using try_once_frame [OF o] by simp_all
    have f: "controller_inv hash f" "stored_bytes f = stored_bytes d" "reuse_data f" "registered f = registered d"
      using flight_inv(2) [OF controller_inv_step [OF b(1)]] fr stored_bytes_store [of f c1] stored_bytes_store [of ?b d] b(2)
        frame_parts(1) [OF fr(1)]
      by (simp_all add: f_def same_store_def registered_def frame_def finished_on_def split: option.splits)
    have "ready_for hash sz I N d'"
      using rdy f record_success_inv [OF f(1)] record_success_stored [OF f(1)] unfolding d'
      by (fastforce simp: ready_for_def record_success_moved registered_def dataset_size_def)
    moreover have "paid sz I N d ?b" "paid sz I N c1 f" "paid sz I N f d'"
      unfolding d' f_def by (auto intro!: paid_free record_success_more simp: record_success_moved)
    ultimately show ?thesis using pd paid_trans by blast
  qed
  have cached: "ready_for hash sz I N (c\<lparr>result_cache := x\<rparr>)" "paid sz I N c (c\<lparr>result_cache := x\<rparr>)" for x
    by (rule ready_for_same [OF assms(2)], simp_all add: frame_def same_store_eq paid_free)
  show ?thesis
  proof (cases "result_cache c")
    case None
    then show ?thesis using loop [OF _ assms(2)] assms(1) by (auto simp: submit_def Let_def)
  next
    case (Some rc)
    then show ?thesis
      using assms(1) cached loop [OF _ cached(1)] paid_trans [OF cached(2)]
      by (auto simp: submit_def Let_def split: prod.splits option.splits) blast
  qed
qed

section \<open>Any number of submissions\<close>


text \<open>Three tasks on two nodes read the same three bytes: at most six bytes move.\<close>

definition steady_mesh :: "unit transport" where
  "steady_mesh = \<lparr>t_dispatch = (\<lambda>t n task. (Inr (result_success (task_id task) n [7] 1), t)), t_send_data = (\<lambda>t n d codec bs. (Inr (), t)),
     t_send_manifest = (\<lambda>t n m. (Inr (), t)), t_send_chunks = (\<lambda>t n i batch. (Inr (), t)), t_available = (\<lambda>t n. True)\<rparr>"

definition sharing_controller :: controller where
  "sharing_controller = snd (publish DataId two_node_controller [1, 2, 1])"

definition reading_task :: task where
  "reading_task = (task_new (TaskId 6) ''hash'' [9])\<lparr>inputs := [DataId [1, 2, 1]]\<rparr>"

lemma sharing_controller_facts:
  "map_option blob_bytes (map_of (blobs (c_store sharing_controller)) (DataId [1, 2, 1])) = Some [1, 2, 1]"
  "reuse_data sharing_controller" "c_catalog sharing_controller = catalog_new" "moved sharing_controller = 0"
  by code_simp+

lemma sharing_controller_nodes: "registered sharing_controller = {NodeId 1, NodeId 2}"
proof -
  have "c_registry sharing_controller = c_registry two_node_controller"
    by (simp add: sharing_controller_def publish_def Let_def split: prod.splits option.splits)
  then show ?thesis
    by (simp add: registered_def two_node_controller_def two_nodes_def registry_nodes_def register_def registry_new_def node_info_new_def)
qed


end
