(* ===== verification/Config.thy ===== *)
theory Config
  imports Bench Sandbox Queue Scheduler Ledger Protocol
begin

text \<open>
  Configuration of the two processes (\<^verbatim>\<open>crates/aether-controller/src/config.rs\<close>,
  \<^verbatim>\<open>crates/aether-agent/src/config.rs\<close>) and the file that keeps the id of a node
  (\<^verbatim>\<open>crates/aether-agent/src/identity.rs\<close>). The TOML parser is a parameter, which fills in the
  default for what the file leaves out; so is what the file system answers.
\<close>

section \<open>The controller\<close>

record controller_config =
  cc_listen :: string
  cc_client_listen :: "string option"
  cc_heartbeat_timeout_secs :: nat
  cc_auth_token :: "string option"
  cc_node_tokens :: "(string \<times> string) list"
  cc_tls_cert_path :: "string option"
  cc_tls_key_path :: "string option"
  cc_tls_client_ca_path :: "string option"
  cc_queue_aging_secs :: nat
  cc_max_queue_size :: nat
  cc_queue_timeout_secs :: nat
  cc_queue_rejection :: rejection
  cc_metrics_interval_secs :: nat
  cc_metrics_listen :: "string option"
  cc_autoscale_interval_secs :: nat
  cc_autoscale :: policy
  cc_scheduler_weights :: score_weights
  cc_probe_interval_secs :: nat
  cc_probe_bytes :: nat
  cc_result_cache_entries :: nat
  cc_result_cache_ttl_secs :: nat
  cc_otlp_endpoint :: "string option"
  cc_checkpoint_path :: "string option"

definition DEFAULT_PROBE_BYTES :: nat where
  "DEFAULT_PROBE_BYTES = 256 * 1024"

definition controller_config_default :: controller_config where
  "controller_config_default =
     \<lparr>cc_listen = ''127.0.0.1:7000'', cc_client_listen = Some ''127.0.0.1:7100'', cc_heartbeat_timeout_secs = 30,
      cc_auth_token = None, cc_node_tokens = [], cc_tls_cert_path = None, cc_tls_key_path = None, cc_tls_client_ca_path = None,
      cc_queue_aging_secs = DEFAULT_AGING div nanos_per_sec, cc_max_queue_size = 0, cc_queue_timeout_secs = 0,
      cc_queue_rejection = Reject, cc_metrics_interval_secs = 60, cc_metrics_listen = None, cc_autoscale_interval_secs = 0,
      cc_autoscale = scale_policy_default, cc_scheduler_weights = weights_default, cc_probe_interval_secs = 60,
      cc_probe_bytes = DEFAULT_PROBE_BYTES, cc_result_cache_entries = 0, cc_result_cache_ttl_secs = 0,
      cc_otlp_endpoint = None, cc_checkpoint_path = None\<rparr>"

datatype config_error =
    ConfigIo string string
  | ConfigParse string string
  | IncompleteTls

definition config_validate :: "controller_config \<Rightarrow> config_error + unit" where
  "config_validate c =
     (case (cc_tls_cert_path c, cc_tls_key_path c) of
        (Some _, None) \<Rightarrow> Inl IncompleteTls
      | (None, Some _) \<Rightarrow> Inl IncompleteTls
      | _ \<Rightarrow> Inr ())"

definition controller_config_load ::
    "(string \<Rightarrow> string + string) \<Rightarrow> (string \<Rightarrow> string + controller_config) \<Rightarrow> string \<Rightarrow> config_error + controller_config" where
  "controller_config_load read from_toml path =
     (case read path of
        Inl e \<Rightarrow> Inl (ConfigIo path e)
      | Inr contents \<Rightarrow>
          (case from_toml contents of
             Inl e \<Rightarrow> Inl (ConfigParse path e)
           | Inr c \<Rightarrow> (case config_validate c of Inl e \<Rightarrow> Inl e | Inr _ \<Rightarrow> Inr c)))"

definition controller_config_load_or_default ::
    "(string \<Rightarrow> bool) \<Rightarrow> (string \<Rightarrow> string + string) \<Rightarrow> (string \<Rightarrow> string + controller_config) \<Rightarrow> string option
     \<Rightarrow> config_error + controller_config" where
  "controller_config_load_or_default exists read from_toml path =
     (case path of
        Some p \<Rightarrow>
          (if exists p then controller_config_load read from_toml p
           else Inl (ConfigIo p ''configuration file not found''))
      | None \<Rightarrow> Inr controller_config_default)"

definition config_security :: "controller_config \<Rightarrow> security_config" where
  "config_security c = \<lparr>auth_token = cc_auth_token c, node_tokens = cc_node_tokens c\<rparr>"

definition config_heartbeat_timeout :: "controller_config \<Rightarrow> duration" where
  "config_heartbeat_timeout c = from_secs (cc_heartbeat_timeout_secs c)"

definition config_task_queue :: "controller_config \<Rightarrow> 'p queue" where
  "config_task_queue c =
     with_rejection
       (Queue.with_timeout
         (with_max_size (with_aging queue_new (from_secs (cc_queue_aging_secs c))) (cc_max_queue_size c))
         (from_secs (cc_queue_timeout_secs c)))
       (cc_queue_rejection c)"

definition config_tls_paths :: "controller_config \<Rightarrow> (string \<times> string) option" where
  "config_tls_paths c =
     (case (cc_tls_cert_path c, cc_tls_key_path c) of (Some a, Some b) \<Rightarrow> Some (a, b) | _ \<Rightarrow> None)"

definition config_client_ca_path :: "controller_config \<Rightarrow> string option" where
  "config_client_ca_path c = cc_tls_client_ca_path c"

definition config_result_cache :: "controller_config \<Rightarrow> cache option" where
  "config_result_cache c =
     (if cc_result_cache_entries c = 0 then None
      else let rc = cache_new (cc_result_cache_entries c) in
        Some (if cc_result_cache_ttl_secs c = 0 then rc else with_ttl rc (from_secs (cc_result_cache_ttl_secs c))))"

section \<open>The agent\<close>

record agent_config =
  ac_controller :: string
  ac_advertise :: string
  ac_heartbeat_secs :: nat
  ac_auth_token :: "string option"
  ac_identity_path :: "string option"
  ac_tls_ca_path :: "string option"
  ac_tls_server_name :: "string option"
  ac_tls_client_cert_path :: "string option"
  ac_tls_client_key_path :: "string option"
  ac_labels :: "string list"
  ac_max_concurrent_tasks :: "nat option"
  ac_storage_budget_bytes :: "nat option"
  ac_bandwidth_bytes_per_sec :: "nat option"
  ac_data_channels :: nat
  ac_reconnect_max_secs :: nat

definition agent_config_default :: agent_config where
  "agent_config_default =
     \<lparr>ac_controller = ''127.0.0.1:7000'', ac_advertise = ''127.0.0.1:7001'', ac_heartbeat_secs = 5, ac_auth_token = None,
      ac_identity_path = None, ac_tls_ca_path = None, ac_tls_server_name = None, ac_tls_client_cert_path = None,
      ac_tls_client_key_path = None, ac_labels = [], ac_max_concurrent_tasks = None, ac_storage_budget_bytes = None,
      ac_bandwidth_bytes_per_sec = None, ac_data_channels = 0, ac_reconnect_max_secs = 30\<rparr>"

definition agent_config_load ::
    "(string \<Rightarrow> string + string) \<Rightarrow> (string \<Rightarrow> string + agent_config) \<Rightarrow> string \<Rightarrow> config_error + agent_config" where
  "agent_config_load read from_toml path =
     (case read path of
        Inl e \<Rightarrow> Inl (ConfigIo path e)
      | Inr contents \<Rightarrow> (case from_toml contents of Inl e \<Rightarrow> Inl (ConfigParse path e) | Inr c \<Rightarrow> Inr c))"

definition agent_config_load_or_default ::
    "(string \<Rightarrow> bool) \<Rightarrow> (string \<Rightarrow> string + string) \<Rightarrow> (string \<Rightarrow> string + agent_config) \<Rightarrow> string option
     \<Rightarrow> config_error + agent_config" where
  "agent_config_load_or_default exists read from_toml path =
     (case path of
        Some p \<Rightarrow>
          (if exists p then agent_config_load read from_toml p else Inl (ConfigIo p ''configuration file not found''))
      | None \<Rightarrow> Inr agent_config_default)"

definition parsed_labels :: "agent_config \<Rightarrow> labels" where
  "parsed_labels c = parse_labels (ac_labels c)"

definition client_identity :: "agent_config \<Rightarrow> (string \<times> string) option" where
  "client_identity c =
     (case (ac_tls_client_cert_path c, ac_tls_client_key_path c) of (Some a, Some b) \<Rightarrow> Some (a, b) | _ \<Rightarrow> None)"

definition server_name :: "agent_config \<Rightarrow> string" where
  "server_name c =
     (case ac_tls_server_name c of
        Some n \<Rightarrow> n
      | None \<Rightarrow> (case rsplit_once (CHR '':'') (ac_controller c) of Some (host, _) \<Rightarrow> host | None \<Rightarrow> ac_controller c))"

section \<open>The identity of a node\<close>

definition default_identity_path :: "(string \<Rightarrow> string option) \<Rightarrow> string" where
  "default_identity_path var =
     (let base = (case var ''APPDATA'' of
                    Some d \<Rightarrow> d
                  | None \<Rightarrow> (case var ''XDG_DATA_HOME'' of
                               Some d \<Rightarrow> d
                             | None \<Rightarrow> (case var ''HOME'' of Some h \<Rightarrow> join_path h ''.local/share'' | None \<Rightarrow> ''.'')))
      in join_path (join_path base ''aethermesh'') ''node-id'')"

text \<open>
  Files by their path. \<^verbatim>\<open>made\<close> says whether the directories of a path can be made, \<^verbatim>\<open>writable\<close>
  whether it can be written; a write replaces the contents. \<^verbatim>\<open>parse\<close> and \<^verbatim>\<open>print\<close> are the UUID text.
\<close>

definition load_or_create ::
    "(string \<Rightarrow> node_id option) \<Rightarrow> (node_id \<Rightarrow> string) \<Rightarrow> (string \<Rightarrow> bool) \<Rightarrow> (string \<Rightarrow> bool) \<Rightarrow> node_id \<Rightarrow> string
     \<Rightarrow> (string \<rightharpoonup> string) \<Rightarrow> node_id option \<times> (string \<rightharpoonup> string)" where
  "load_or_create parse print made writable fresh path files =
     (case Option.bind (files path) (\<lambda>contents. parse (trim contents)) of
        Some n \<Rightarrow> (Some n, files)
      | None \<Rightarrow>
          (if made path \<and> writable path then (Some fresh, files(path \<mapsto> print fresh)) else (None, files)))"

section \<open>What configuration promises\<close>

text \<open>A loaded configuration serves TLS exactly when it names a certificate; it never has half of the pair.\<close>

lemma loaded_tls_is_complete:
  "controller_config_load_or_default exists read from_toml path = Inr c \<Longrightarrow>
     (config_tls_paths c \<noteq> None) = (cc_tls_cert_path c \<noteq> None) \<and> (cc_tls_cert_path c = None) = (cc_tls_key_path c = None)"
  by (auto simp: controller_config_load_or_default_def controller_config_load_def config_validate_def config_tls_paths_def
      controller_config_default_def split: option.splits sum.splits if_splits)

text \<open>An agent's own certificate is dropped without a word when only half of it is configured.\<close>

lemma half_client_identity_is_dropped:
  "client_identity (agent_config_default\<lparr>ac_tls_client_cert_path := Some ''cert.pem''\<rparr>) = None"
  by (simp add: client_identity_def agent_config_default_def)

text \<open>
  A node keeps its id: once a start returned an id, every later start returns the same one and
  leaves the file alone, whatever fresh id it would have made.
\<close>

lemma identity_survives_restart:
  assumes "\<forall>n. parse (trim (print n)) = Some n"
    and "load_or_create parse print made writable fresh path files = (Some n, files')"
  shows "load_or_create parse print made' writable' fresh' path files' = (Some n, files')"
  using assms by (auto simp: load_or_create_def split: option.splits bind_splits if_splits)

text \<open>The defaults of the two processes fit: five gaps between heartbeats pass before a node counts as silent.\<close>

lemma default_heartbeats_fit:
  "5 * from_secs (ac_heartbeat_secs agent_config_default) < config_heartbeat_timeout controller_config_default"
  by (simp add: agent_config_default_def config_heartbeat_timeout_def controller_config_default_def from_secs_def nanos_per_sec_def)

end
