(* ===== verification/Telemetry.thy ===== *)
theory Telemetry
  imports Autoscale Parsing
begin

text \<open>
  The scrape endpoint of the controller (crates/aether-controller/src/telemetry.rs) and the
  text of its counters (crates/aether-controller/src/observability.rs). A client is the bytes
  it has sent and what follows them: the end of its stream, a failure, or silence. The
  endpoint reads at most 16 KiB of it, a line at a time, and answers with one response whose
  text is a function of the counters and of figures summed over the mesh.
\<close>

section \<open>Printing a double\<close>

text \<open>
  \<^verbatim>\<open>Display\<close> of an \<^verbatim>\<open>f64\<close>: the fewest significant digits whose value rounds back to
  the number, the nearer candidate where two of that length do, written without an exponent.
  Seventeen digits are enough for every double.
\<close>

definition pow10 :: "int \<Rightarrow> rat" where
  "pow10 e = (if 0 \<le> e then 10 ^ nat e else 1 / 10 ^ nat (- e))"

definition decimal_exponent :: "rat \<Rightarrow> int" where
  "decimal_exponent a =
     (let (n, d) = quotient_of a;
          e = int (length (nat_to_string (nat n))) - int (length (nat_to_string (nat d)))
      in if a < pow10 e then e else e + 1)"

definition digits_with :: "rat \<Rightarrow> int \<Rightarrow> nat \<Rightarrow> nat option" where
  "digits_with a e k =
     (let u = pow10 (e - int k); lo = nat \<lfloor>a / u\<rfloor>;
          same = (\<lambda>n. fround f64 False (of_nat n * u) = Num False a)
      in if same lo \<and> same (lo + 1) then Some (if 2 * (a - of_nat lo * u) < u then lo else lo + 1)
         else if same lo then Some lo else if same (lo + 1) then Some (lo + 1) else None)"

fun shortest_digits :: "rat \<Rightarrow> int \<Rightarrow> nat list \<Rightarrow> nat \<times> int" where
  "shortest_digits a e [] = (0, 0)"
| "shortest_digits a e (k # ks) =
     (case digits_with a e k of Some n \<Rightarrow> (n, e - int k) | None \<Rightarrow> shortest_digits a e ks)"

definition decimal_text :: "nat \<times> int \<Rightarrow> string" where
  "decimal_text p =
     (let (n, x) = p in
      if 0 \<le> x then nat_to_string (n * 10 ^ nat x)
      else let m = nat (- x);
               frac = trim_end_matches (CHR ''0'') (pad_zeros m (nat_to_string (n mod 10 ^ m)))
           in nat_to_string (n div 10 ^ m) @ (if frac = '''' then '''' else ''.'' @ frac))"

fun fmt_f64 :: "fl \<Rightarrow> string" where
  "fmt_f64 NaN = ''NaN''"
| "fmt_f64 (Inf s) = (if s then ''-inf'' else ''inf'')"
| "fmt_f64 (Num s a) =
     (if s then ''-'' else '''') @
     (if a = 0 then ''0'' else decimal_text (shortest_digits a (decimal_exponent a) [1..<18]))"

section \<open>The counters as text\<close>

definition nl :: string where
  "nl = [char_of (10 :: nat)]"

definition crlf :: string where
  "crlf = [char_of (13 :: nat), char_of (10 :: nat)]"

definition sample_lines :: "string \<Rightarrow> string \<times> string \<Rightarrow> string" where
  "sample_lines kind s = ''# TYPE '' @ fst s @ '' '' @ kind @ nl @ fst s @ '' '' @ snd s"

definition counter_lines :: "string \<times> nat \<Rightarrow> string" where
  "counter_lines s = sample_lines ''counter'' (fst s, nat_to_string (snd s))"

definition to_prometheus :: "mesh_metrics \<Rightarrow> string" where
  "to_prometheus m =
     joined nl (map counter_lines
       [(''aethermesh_nodes_registered_total'', nodes_registered m),
        (''aethermesh_registrations_rejected_total'', registrations_rejected m),
        (''aethermesh_nodes_disconnected_total'', nodes_disconnected m),
        (''aethermesh_nodes_evicted_total'', nodes_evicted m),
        (''aethermesh_heartbeats_total'', heartbeats m),
        (''aethermesh_tasks_completed_total'', tasks_completed m),
        (''aethermesh_tasks_failed_total'', tasks_failed m),
        (''aethermesh_messages_received_total'', messages_received m)])"

definition traffic_lines :: "traffic \<Rightarrow> (string \<times> nat) list" where
  "traffic_lines t =
     [(''aethermesh_data_bytes_sent_total'', data_bytes_sent t),
      (''aethermesh_data_bytes_uncompressed_total'', data_bytes_uncompressed t),
      (''aethermesh_transfers_skipped_total'', transfers_skipped t),
      (''aethermesh_chunks_skipped_total'', chunks_skipped t),
      (''aethermesh_task_retries_total'', retries t)]"

definition mean_usage :: "(node_metrics \<Rightarrow> fl) \<Rightarrow> node_info list \<Rightarrow> fl" where
  "mean_usage f nodes =
     (if nodes = [] then fconst f32 0
      else fdiv f32 (float_sum (map (\<lambda>node. f (metrics node)) nodes)) (of_nat_f f32 (length nodes)))"

definition gauges :: "mesh_state \<Rightarrow> (string \<times> fl) list" where
  "gauges st =
     (let nodes = mesh_nodes st;
          connected = length (filter (\<lambda>node. is_connected (conns st) (info_id node)) nodes);
          (datasets, dataset_bytes) = totals (catalog st)
      in [(''aethermesh_nodes'', of_nat_f f64 (length nodes)),
          (''aethermesh_nodes_connected'', of_nat_f f64 connected),
          (''aethermesh_cpu_usage_mean'', fcast f64 (mean_usage cpu_usage nodes)),
          (''aethermesh_memory_usage_mean'', fcast f64 (mean_usage memory_usage nodes)),
          (''aethermesh_datasets'', of_nat_f f64 datasets),
          (''aethermesh_dataset_bytes'', of_nat_f f64 dataset_bytes)])"

definition metrics_body :: "mesh_state \<Rightarrow> string" where
  "metrics_body st =
     to_prometheus (counters st)
     @ concat (map (\<lambda>s. nl @ counter_lines s) (traffic_lines (traffic_stats st)))
     @ concat (map (\<lambda>(name, v). nl @ sample_lines ''gauge'' (name, fmt_f64 v)) (gauges st)) @ nl"

section \<open>Responses\<close>

definition status_reason :: "nat \<Rightarrow> string" where
  "status_reason status =
     (if status = 200 then ''OK'' else if status = 404 then ''Not Found''
      else if status = 405 then ''Method Not Allowed'' else ''Error'')"

definition response_head :: "nat \<Rightarrow> string \<Rightarrow> nat \<Rightarrow> string" where
  "response_head status content_type len =
     ''HTTP/1.1 '' @ nat_to_string status @ '' '' @ status_reason status @ crlf
     @ ''content-type: '' @ content_type @ crlf
     @ ''content-length: '' @ nat_to_string len @ crlf
     @ ''cache-control: no-store'' @ crlf @ ''connection: close'' @ crlf @ crlf"

definition response :: "nat \<Rightarrow> string \<Rightarrow> string \<Rightarrow> string" where
  "response status content_type body = response_head status content_type (str_len body) @ body"

text \<open>
  A request line may hold any text, so it is a list of code points. The parts are those
  between the white space of Unicode.
\<close>

type_synonym code_points = "nat list"

definition code_points_of :: "string \<Rightarrow> code_points" where
  "code_points_of s = map of_char s"

definition is_white_space :: "nat \<Rightarrow> bool" where
  "is_white_space n =
     (9 \<le> n \<and> n \<le> 13 \<or> 8192 \<le> n \<and> n \<le> 8202 \<or> n \<in> {32, 133, 160, 5760, 8232, 8233, 8239, 8287, 12288})"

fun first_part :: "code_points \<Rightarrow> code_points \<times> code_points" where
  "first_part cs =
     (let t = dropWhile is_white_space cs
      in (takeWhile (\<lambda>c. \<not> is_white_space c) t, dropWhile (\<lambda>c. \<not> is_white_space c) t))"

definition route :: "code_points \<Rightarrow> mesh_state \<Rightarrow> string" where
  "route request_line st =
     (let (verb, rest) = first_part request_line; (target, _) = first_part rest;
          path = takeWhile (\<lambda>c. c \<noteq> 63) target
      in if verb \<noteq> code_points_of ''GET'' \<and> verb \<noteq> code_points_of ''HEAD''
         then response 405 ''text/plain; charset=utf-8'' (''only GET is supported'' @ nl)
         else if path = code_points_of ''/metrics''
         then response 200 ''text/plain; version=0.0.4; charset=utf-8'' (metrics_body st)
         else if path = code_points_of ''/healthz'' then response 200 ''text/plain; charset=utf-8'' (''ok'' @ nl)
         else response 404 ''text/plain; charset=utf-8'' (''try /metrics or /healthz'' @ nl))"

section \<open>One request\<close>

definition MAX_REQUEST_BYTES :: nat where
  "MAX_REQUEST_BYTES = 16 * 1024"

definition MAX_HEADERS :: nat where
  "MAX_HEADERS = 64"

text \<open>What follows the bytes a client has sent so far.\<close>

datatype ending = Closed | Broken | Silent

text \<open>\<^verbatim>\<open>Take\<close>: past its limit a reader is at its end, without asking the stream.\<close>

definition capped :: "nat \<Rightarrow> bytes \<times> ending \<Rightarrow> bytes \<times> ending" where
  "capped limit s = (if length (fst s) < limit then s else (take limit (fst s), Closed))"

text \<open>
  The bytes of a text in UTF-8. Overlong forms, surrogates and values above U+10FFFF are no
  text.
\<close>

definition continuation :: "byte \<Rightarrow> bool" where
  "continuation b = (unat b div 64 = 2)"

fun from_utf8 :: "bytes \<Rightarrow> code_points option" where
  "from_utf8 [] = Some []"
| "from_utf8 (a # bs) =
     (let n = unat a; low = (\<lambda>b. unat b mod 64) in
      if n < 128 then map_option (Cons n) (from_utf8 bs)
      else if n div 32 = 6 then
        (case bs of b # r \<Rightarrow>
             (let v = n mod 32 * 64 + low b in
              if continuation b \<and> 128 \<le> v then map_option (Cons v) (from_utf8 r) else None)
         | _ \<Rightarrow> None)
      else if n div 16 = 14 then
        (case bs of b # c # r \<Rightarrow>
             (let v = (n mod 16 * 64 + low b) * 64 + low c in
              if continuation b \<and> continuation c \<and> 2048 \<le> v \<and> \<not> (55296 \<le> v \<and> v \<le> 57343)
              then map_option (Cons v) (from_utf8 r) else None)
         | _ \<Rightarrow> None)
      else if n div 8 = 30 then
        (case bs of b # c # d # r \<Rightarrow>
             (let v = ((n mod 8 * 64 + low b) * 64 + low c) * 64 + low d in
              if continuation b \<and> continuation c \<and> continuation d \<and> 65536 \<le> v \<and> v \<le> 1114111
              then map_option (Cons v) (from_utf8 r) else None)
         | _ \<Rightarrow> None)
      else None)"

text \<open>\<^verbatim>\<open>read_line\<close>: up to and with the newline, or up to the end of the stream.\<close>

datatype line_read = LineOf code_points bytes | LineFailed | LineWaits

definition text_of_line :: "bytes \<Rightarrow> bytes \<Rightarrow> line_read" where
  "text_of_line bs rest = (case from_utf8 bs of Some cs \<Rightarrow> LineOf cs rest | None \<Rightarrow> LineFailed)"

definition read_line :: "bytes \<Rightarrow> ending \<Rightarrow> line_read" where
  "read_line bs e =
     (let line = takeWhile (\<lambda>b. b \<noteq> 10) bs; rest = dropWhile (\<lambda>b. b \<noteq> 10) bs in
      case rest of
        b # r \<Rightarrow> text_of_line (line @ [b]) r
      | [] \<Rightarrow> (case e of Closed \<Rightarrow> text_of_line line [] | Broken \<Rightarrow> LineFailed | Silent \<Rightarrow> LineWaits))"

text \<open>How the handler of a connection is left: answered, gone without a request, failed, or waiting.\<close>

datatype handled = Answered bytes | NoRequest | RequestFailed | Waiting

fun skip_headers :: "nat \<Rightarrow> bytes \<Rightarrow> ending \<Rightarrow> handled option" where
  "skip_headers 0 bs e = None"
| "skip_headers (Suc n) bs e =
     (case read_line bs e of
        LineFailed \<Rightarrow> Some RequestFailed
      | LineWaits \<Rightarrow> Some Waiting
      | LineOf header rest \<Rightarrow> (if list_all is_white_space header then None else skip_headers n rest e))"

definition handle :: "bytes \<times> ending \<Rightarrow> mesh_state \<Rightarrow> handled" where
  "handle stream st =
     (let (bs, e) = capped MAX_REQUEST_BYTES stream in
      case read_line bs e of
        LineFailed \<Rightarrow> RequestFailed
      | LineWaits \<Rightarrow> Waiting
      | LineOf request_line rest \<Rightarrow>
          (if request_line = [] then NoRequest
           else case skip_headers MAX_HEADERS rest e of
                  Some early \<Rightarrow> early
                | None \<Rightarrow> Answered (str_bytes (route request_line st))))"

section \<open>What an answer depends on\<close>

text \<open>What the endpoint may show of a node: how busy it is, and whether it is connected.\<close>

definition load_view :: "mesh_state \<Rightarrow> node_info \<Rightarrow> fl \<times> fl \<times> bool" where
  "load_view st node =
     (cpu_usage (metrics node), memory_usage (metrics node), is_connected (conns st) (info_id node))"

definition mesh_view :: "mesh_state \<Rightarrow> (fl \<times> fl \<times> bool) list \<times> mesh_metrics \<times> traffic \<times> nat \<times> nat" where
  "mesh_view st = (map (load_view st) (mesh_nodes st), counters st, traffic_stats st, totals (catalog st))"

lemma mean_usage_map:
  "mean_usage f nodes =
     (let us = map (\<lambda>node. f (metrics node)) nodes
      in if us = [] then fconst f32 0 else fdiv f32 (float_sum us) (of_nat_f f32 (length us)))"
  by (simp add: mean_usage_def Let_def)

lemma connected_view:
  "length (filter (\<lambda>node. is_connected (conns st) (info_id node)) nodes)
   = length (filter (\<lambda>v. snd (snd v)) (map (load_view st) nodes))"
  by (simp add: filter_map o_def load_view_def)

lemma gauges_view:
  assumes "mesh_view s = mesh_view t"
  shows "gauges s = gauges t"
proof -
  have views: "map (load_view s) (mesh_nodes s) = map (load_view t) (mesh_nodes t)"
    and tot: "totals (catalog s) = totals (catalog t)"
    using assms by (simp_all add: mesh_view_def)
  have cpu: "map (\<lambda>node. cpu_usage (metrics node)) (mesh_nodes s) = map (\<lambda>node. cpu_usage (metrics node)) (mesh_nodes t)"
    using arg_cong [OF views, of "map fst"] by (simp add: o_def load_view_def)
  have mem: "map (\<lambda>node. memory_usage (metrics node)) (mesh_nodes s)
      = map (\<lambda>node. memory_usage (metrics node)) (mesh_nodes t)"
    using arg_cong [OF views, of "map (\<lambda>v. fst (snd v))"] by (simp add: o_def load_view_def)
  have conn: "length (filter (\<lambda>node. is_connected (conns s) (info_id node)) (mesh_nodes s))
      = length (filter (\<lambda>node. is_connected (conns t) (info_id node)) (mesh_nodes t))"
    unfolding connected_view views ..
  have len: "length (mesh_nodes s) = length (mesh_nodes t)"
    using views by (metis length_map)
  show ?thesis
    unfolding gauges_def mean_usage_map cpu mem conn tot len Let_def ..
qed

lemma metrics_body_view:
  assumes "mesh_view s = mesh_view t"
  shows "metrics_body s = metrics_body t"
proof -
  have "counters s = counters t" "traffic_stats s = traffic_stats t"
    using assms by (simp_all add: mesh_view_def)
  then show ?thesis unfolding metrics_body_def gauges_view [OF assms] by simp
qed

lemma route_view:
  assumes "mesh_view s = mesh_view t"
  shows "route line s = route line t"
  unfolding route_def metrics_body_view [OF assms] ..

text \<open>
  C28. The scrape endpoint has no authentication and shows no node: two meshes whose
  counters and dataset totals agree and whose nodes, in order, have the same load and the
  same connectedness get the same answer to every request, whatever their hostnames,
  identifiers, addresses, labels, links, datasets and pending work.
\<close>

theorem scrape_shows_only_aggregates:
  assumes "mesh_view s = mesh_view t"
  shows "handle stream s = handle stream t"
  unfolding handle_def route_view [OF assms] ..

definition one_node_mesh :: "node_id \<Rightarrow> string \<Rightarrow> string \<Rightarrow> mesh_state" where
  "one_node_mesh n host addr =
     mesh_state_new\<lparr>registry := snd (register registry_new 0 (node_info_new n host addr 4))\<rparr>"

lemma one_node_mesh_view: "mesh_view (one_node_mesh n host addr) = mesh_view (one_node_mesh m host' addr')"
  by (simp add: mesh_view_def load_view_def one_node_mesh_def mesh_nodes_def register_def registry_new_def
      registry_nodes_def node_info_new_def mesh_state_new_def is_connected_def connections_new_def)

theorem scrape_shows_only_aggregates_witness:
  "handle (str_bytes (''GET /metrics'' @ crlf @ crlf), Closed) (one_node_mesh (NodeId 1) ''alpha'' ''10.0.0.1:1'')
   = handle (str_bytes (''GET /metrics'' @ crlf @ crlf), Closed) (one_node_mesh (NodeId 2) ''beta'' ''10.0.0.2:1'')"
  by (rule scrape_shows_only_aggregates [OF one_node_mesh_view])

section \<open>How much is read\<close>

lemma read_line_closed: "read_line bs Closed \<noteq> LineWaits"
  by (simp add: read_line_def text_of_line_def Let_def split: list.split option.split)

lemma skip_headers_closed: "skip_headers n bs Closed \<noteq> Some Waiting"
  using read_line_closed by (induction n arbitrary: bs) (simp_all split: line_read.split)

lemma handle_closed: "capped MAX_REQUEST_BYTES stream = (bs, Closed) \<Longrightarrow> handle stream st \<noteq> Waiting"
  using read_line_closed [of bs] skip_headers_closed [of MAX_HEADERS]
  by (auto simp: handle_def split: line_read.split option.split)

lemma capped_full: "limit \<le> length bs \<Longrightarrow> capped limit (bs @ xs, e) = (take limit bs, Closed)"
  by (simp add: capped_def)

text \<open>
  A client cannot make the endpoint read without bound: once it has sent 16 KiB, with
  newlines or without, the request is settled (answered or refused, never waited for), and
  nothing it sends afterwards changes the outcome.
\<close>

lemma scrape_reads_are_bounded:
  assumes "MAX_REQUEST_BYTES \<le> length bs"
  shows "handle (bs @ xs, e) st = handle (bs @ ys, e') st \<and> handle (bs @ xs, e) st \<noteq> Waiting"
proof
  show "handle (bs @ xs, e) st = handle (bs @ ys, e') st"
    unfolding handle_def capped_full [OF assms] ..
  show "handle (bs @ xs, e) st \<noteq> Waiting"
    by (rule handle_closed [OF capped_full [OF assms]])
qed

lemma scrape_reads_are_bounded_at:
  "handle (replicate 16384 (65 :: byte) @ [10], Silent) mesh_state_new
     = handle (replicate 16384 65 @ [], Silent) mesh_state_new
   \<and> handle (replicate 16384 (65 :: byte) @ [10], Silent) mesh_state_new \<noteq> Waiting"
  by (rule scrape_reads_are_bounded) (simp add: MAX_REQUEST_BYTES_def)

section \<open>The shape of an answer\<close>

lemma response_declares_length:
  "str_bytes (response status ct body)
   = str_bytes (response_head status ct (length (str_bytes body))) @ str_bytes body"
  by (simp add: response_def str_len_def str_bytes_def)

definition answer_of :: "mesh_state \<Rightarrow> string \<Rightarrow> bool" where
  "answer_of st r = (\<exists>status ct body. status \<in> {200, 404, 405} \<and> (body = metrics_body st \<or> length body < 30)
     \<and> r = response status ct body)"

lemma answer_ofI:
  "status \<in> {200, 404, 405} \<Longrightarrow> body = metrics_body st \<or> length body < 30 \<Longrightarrow> answer_of st (response status ct body)"
  unfolding answer_of_def by blast

lemma route_shape: "answer_of st (route line st)"
  unfolding route_def split_beta Let_def by (auto intro!: answer_ofI simp: nl_def)

text \<open>
  Whatever the request, an answer is one of three statuses, its head declares exactly the
  bytes that follow it, and the figures are only in the answer to a read of \<^verbatim>\<open>/metrics\<close>.
\<close>

lemma answer_shape:
  assumes "handle stream st = Answered out"
  shows "\<exists>status ct body. status \<in> {200, 404, 405} \<and> (body = metrics_body st \<or> length body < 30) \<and>
     out = str_bytes (response_head status ct (length (str_bytes body))) @ str_bytes body"
proof -
  obtain line where out: "out = str_bytes (route line st)"
  proof -
    have no: "skip_headers n bs e \<noteq> Some (Answered out)" for n bs e
      by (induction n arbitrary: bs) (simp_all split: line_read.split)
    show ?thesis
      using assms that no
      by (auto simp: handle_def split_beta Let_def split: line_read.splits option.splits if_splits)
  qed
  show ?thesis
    using route_shape [of st line] unfolding out answer_of_def by (metis response_declares_length)
qed

text \<open>A query string changes nothing.\<close>

lemma query_ignored:
  "route (code_points_of ''GET /metrics?x=1 HTTP/1.1'') st = route (code_points_of ''GET /metrics HTTP/1.1'') st"
  by (simp add: route_def code_points_of_def is_white_space_def Let_def)

text \<open>A \<^verbatim>\<open>HEAD\<close> request is answered with the body as well, which HTTP forbids.\<close>

lemma head_has_a_body:
  "route (code_points_of ''HEAD /healthz HTTP/1.1'') st = response_head 200 ''text/plain; charset=utf-8'' (Suc (Suc (Suc 0))) @ ''ok'' @ nl"
  by (simp add: route_def code_points_of_def is_white_space_def Let_def response_def str_len_def str_bytes_def utf8_def nl_def)

end
