(* ===== verification/Probe.thy ===== *)
theory Probe
  imports Server "HOL-Library.Code_Target_Nat"
begin

text \<open>
  Measuring the links (crates/aether-controller/src/probe.rs) over the live server: a probe
  registers a waiter, queues a ping and waits while the server goes on with whatever arrives,
  until its pong is handed over or ten seconds have passed. What arrives is a list of server
  events with the times they are handled at; an event at the very deadline is still seen.
\<close>

section \<open>The server while a probe waits\<close>

definition PROBE_TIMEOUT :: duration where
  "PROBE_TIMEOUT = from_secs 10"

record probe_world =
  pw_server :: server
  pw_clock :: instant
  pw_events :: "(instant \<times> server_event) list"
  next_nonce :: "64 word"
  pw_waiter :: waiter

abbreviation pw_conns :: "probe_world \<Rightarrow> connections" where
  "pw_conns w \<equiv> conns (mesh (pw_server w))"

definition with_conns :: "probe_world \<Rightarrow> connections \<Rightarrow> probe_world" where
  "with_conns w c = w\<lparr>pw_server := (pw_server w)\<lparr>mesh := (mesh (pw_server w))\<lparr>conns := c\<rparr>\<rparr>\<rparr>"

text \<open>\<^verbatim>\<open>rand_nonce\<close>: a counter of the process.\<close>

definition rand_nonce :: "probe_world \<Rightarrow> 64 word \<times> probe_world" where
  "rand_nonce w = (next_nonce w, w\<lparr>next_nonce := next_nonce w + 1\<rparr>)"

text \<open>
  \<^verbatim>\<open>timeout(PROBE_TIMEOUT, receiver)\<close>: the moment the waiter was woken, with the server and
  the events left over, or \<^verbatim>\<open>None\<close> once the deadline has passed.
\<close>

fun await_pong ::
    "security_config \<Rightarrow> waiter \<Rightarrow> instant \<Rightarrow> (instant \<times> server_event) list \<Rightarrow> server \<Rightarrow>
     instant option \<times> server \<times> (instant \<times> server_event) list" where
  "await_pong security p deadline [] v = (None, v, [])"
| "await_pong security p deadline ((t, e) # rest) v =
     (if deadline < t then (None, v, (t, e) # rest)
      else let v1 = server_step security e v
           in if p \<in> set (woken (conns (mesh v1))) then (Some t, v1, rest)
              else await_pong security p deadline rest v1)"

definition round_trip ::
    "security_config \<Rightarrow> node_id \<Rightarrow> nat \<Rightarrow> probe_world \<Rightarrow> duration option \<times> probe_world" where
  "round_trip security n padding_bytes w0 =
     (let (nonce, w1) = rand_nonce w0;
          p = pw_waiter w1;
          w2 = with_conns (w1\<lparr>pw_waiter := p + 1\<rparr>) (expect_pong (pw_conns w1) n (unat nonce) p)
      in case send (pw_conns w2) n (Ping (unat nonce) (replicate padding_bytes 0)) of
           (Inl _, c) \<Rightarrow> (None, with_conns w2 (forget_pong c n (unat nonce)))
         | (Inr _, c) \<Rightarrow>
             (let started = pw_clock w2; deadline = started + PROBE_TIMEOUT
              in case await_pong security p deadline (pw_events w2) (pw_server (with_conns w2 c)) of
                   (Some t, v, rest) \<Rightarrow>
                     (Some (saturating_duration_since t started),
                      w2\<lparr>pw_server := v, pw_events := rest, pw_clock := max started t\<rparr>)
                 | (None, v, rest) \<Rightarrow>
                     (let w3 = w2\<lparr>pw_server := v, pw_events := rest, pw_clock := deadline\<rparr>
                      in (None, with_conns w3 (forget_pong (pw_conns w3) n (unat nonce))))))"

definition measure_node ::
    "security_config \<Rightarrow> node_id \<Rightarrow> nat \<Rightarrow> probe_world \<Rightarrow> link_measurement option \<times> probe_world" where
  "measure_node security n padding_bytes w =
     (case round_trip security n 0 w of
        (None, w1) \<Rightarrow> (None, w1)
      | (Some small, w1) \<Rightarrow>
          (case round_trip security n padding_bytes w1 of
             (None, w2) \<Rightarrow> (None, w2)
           | (Some large, w2) \<Rightarrow> (measure_link padding_bytes (Some small) (Some large), w2)))"

definition record_measurement :: "node_id \<Rightarrow> link_measurement \<Rightarrow> probe_world \<Rightarrow> probe_world" where
  "record_measurement n m w =
     w\<lparr>pw_server := (pw_server w)\<lparr>mesh := (mesh (pw_server w))\<lparr>registry :=
         record_link (registry (mesh (pw_server w))) n (m_latency_ms m) (m_bandwidth m)\<rparr>\<rparr>\<rparr>"

fun probe_nodes :: "security_config \<Rightarrow> nat \<Rightarrow> node_id list \<Rightarrow> probe_world \<Rightarrow> probe_world" where
  "probe_nodes security padding_bytes [] w = w"
| "probe_nodes security padding_bytes (n # ns) w =
     (case measure_node security n padding_bytes w of
        (None, w1) \<Rightarrow> probe_nodes security padding_bytes ns w1
      | (Some m, w1) \<Rightarrow> probe_nodes security padding_bytes ns (record_measurement n m w1))"

definition probed_nodes :: "probe_world \<Rightarrow> node_id list" where
  "probed_nodes w =
     filter (is_connected (pw_conns w)) (map info_id (registry_nodes (registry (mesh (pw_server w)))))"

definition probe_once :: "security_config \<Rightarrow> nat \<Rightarrow> probe_world \<Rightarrow> probe_world" where
  "probe_once security padding_bytes w = probe_nodes security padding_bytes (probed_nodes w) w"

section \<open>The monitor\<close>

text \<open>Waiting for a tick: the server handles what arrives until then.\<close>

fun advance_to :: "security_config \<Rightarrow> instant \<Rightarrow> (instant \<times> server_event) list \<Rightarrow> server \<Rightarrow>
    server \<times> (instant \<times> server_event) list" where
  "advance_to security tick [] v = (v, [])"
| "advance_to security tick ((t, e) # rest) v =
     (if tick < t then (v, (t, e) # rest) else advance_to security tick rest (server_step security e v))"

definition wait_tick :: "security_config \<Rightarrow> instant \<Rightarrow> probe_world \<Rightarrow> probe_world" where
  "wait_tick security tick w =
     (case advance_to security tick (pw_events w) (pw_server w) of
        (v, rest) \<Rightarrow> w\<lparr>pw_server := v, pw_events := rest, pw_clock := max (pw_clock w) tick\<rparr>)"

text \<open>
  The first \<open>k\<close> rounds of \<^verbatim>\<open>monitor\<close>. The ticker fires at once, then every interval; a
  tick that is late fires as soon as the round before it is done.
\<close>

fun probe_monitor :: "security_config \<Rightarrow> duration \<Rightarrow> nat \<Rightarrow> nat \<Rightarrow> instant \<Rightarrow> probe_world \<Rightarrow> probe_world" where
  "probe_monitor security interval padding_bytes 0 tick w = w"
| "probe_monitor security interval padding_bytes (Suc k) tick w =
     probe_monitor security interval padding_bytes k (tick + max interval (from_millis 100))
       (probe_once security padding_bytes (wait_tick security tick w))"

section \<open>What the server does to the waiters\<close>

text \<open>The waiters of pongs and confirmations, and those already woken.\<close>

definition waits :: "connections \<Rightarrow> (node_id \<times> nat, waiter) hashmap \<times> (node_id \<times> data_id, waiter) hashmap \<times> waiter list" where
  "waits c = (pending_pongs c, pending_data c, woken c)"

text \<open>The event that hands a pong to its waiter: it came over a connection registered as the node.\<close>

definition pong_from :: "server \<Rightarrow> server_event \<Rightarrow> node_id \<Rightarrow> nat \<Rightarrow> bool" where
  "pong_from v e n x =
     (\<exists>k now fresh l. e = Receive k now fresh (Pong x) \<and> map_of (sessions v) k = Some l \<and> registered_id l = Some n)"

lemma waits_simps [simp]:
  "waits (detach c n) = waits c" "waits (attach_data_channel c n k) = waits c" "waits (complete c r) = waits c"
  "waits (snd (channel_send c k m)) = waits c" "waits (snd (attach c n k f)) = waits c"
  "waits (c\<lparr>closed := ks\<rparr>) = waits c"
  by (auto simp: waits_def detach_def attach_data_channel_def complete_def channel_send_def attach_def
      split: option.splits)

lemma push_out_waits [simp]: "waits (conns (snd (push_out s k m))) = waits (conns s)"
  by (simp add: push_out_def waits_def channel_send_def)

lemma close_connection_waits [simp]: "waits (conns (close_connection s l)) = waits (conns s)"
  by (simp add: close_connection_def split: option.split)

lemma evict_waits: "waits (conns (fold evict_one ns s)) = waits (conns s)"
  by (induction ns arbitrary: s) (simp_all add: evict_one_def)

lemma on_register_waits [simp]:
  "waits (conns (fst (snd (on_register security now fresh k version info token s l)))) = waits (conns s)"
  by (auto simp: on_register_def Let_def waits_def push_out_def channel_send_def attach_def
      split: sum.splits option.splits if_splits)

lemma handle_message_waits:
  "waits (conns (after_message security now fresh k m s l)) =
     (case m of
        Pong x \<Rightarrow> (case registered_id l of None \<Rightarrow> waits (conns s) | Some n \<Rightarrow> waits (complete_pong (conns s) n x))
      | DataReady _ i \<Rightarrow> (case speaks_for l of None \<Rightarrow> waits (conns s) | Some n \<Rightarrow> waits (complete_data (conns s) n i))
      | _ \<Rightarrow> waits (conns s))"
  by (cases m) (auto simp: handle_message_def Let_def on_register_data_channel_def on_task_completed_def
      split: option.splits)

lemma server_step_waits:
  "waits (conns (mesh (server_step security e v))) = waits (conns (mesh v))
   \<or> (\<exists>n x. pong_from v e n x \<and> waits (conns (mesh (server_step security e v))) = waits (complete_pong (conns (mesh v)) n x))
   \<or> (\<exists>n i. waits (conns (mesh (server_step security e v))) = waits (complete_data (conns (mesh v)) n i))"
proof (cases e)
  case (Receive k now fresh m)
  show ?thesis
  proof (cases "map_of (sessions v) k")
    case (Some l)
    have "waits (conns (mesh (server_step security e v))) = waits (conns (after_message security now fresh k m (mesh v) l))"
      using Receive Some by (auto simp: end_session_def split: prod.split loop_control.split)
    then show ?thesis
      using Receive Some
      by (cases m) (auto simp: handle_message_waits pong_from_def split: option.splits)
  qed (simp add: Receive)
qed (auto simp: end_session_def evict_stale_nodes_def Let_def evict_waits split: option.split)

section \<open>One probe is waiting\<close>

text \<open>Every waiter known to the server was handed out before \<open>q\<close>.\<close>

definition waiters_below :: "waiter \<Rightarrow> connections \<Rightarrow> bool" where
  "waiters_below q c = ((\<forall>p \<in> snd ` set (pending_pongs c) \<union> snd ` set (pending_data c) \<union> set (woken c). p < q))"

definition only_waiting :: "node_id \<Rightarrow> nat \<Rightarrow> waiter \<Rightarrow> connections \<Rightarrow> bool" where
  "only_waiting n x p c =
     (pending_pongs c = [((n, x), p)] \<and> p \<notin> snd ` set (pending_data c) \<and> p \<notin> set (woken c))"

lemma waits_cong:
  assumes "waits c = waits c'"
  shows "pending_pongs c = pending_pongs c'" "pending_data c = pending_data c'" "woken c = woken c'"
    "waiters_below q c = waiters_below q c'" "only_waiting n x p c = only_waiting n x p c'"
  using assms by (auto simp: waits_def waiters_below_def only_waiting_def)

lemma delete_values: "snd ` set (AList.delete k al) \<subseteq> snd ` set al"
  by (auto simp: AList.delete_eq)

lemma map_of_value: "map_of al k = Some p \<Longrightarrow> p \<in> snd ` set al"
  by (force dest: map_of_SomeD)

lemma below_pong:
  assumes "waiters_below q c"
  shows "waiters_below q (complete_pong c n x)"
proof (cases "map_of (pending_pongs c) (n, x)")
  case (Some p)
  then have "p < q" using assms map_of_value [OF Some] by (simp add: waiters_below_def)
  then show ?thesis
    using assms Some by (auto simp: waiters_below_def complete_pong_def AList.delete_eq)
qed (simp add: complete_pong_def assms)

lemma below_data:
  assumes "waiters_below q c"
  shows "waiters_below q (complete_data c n i)"
proof (cases "map_of (pending_data c) (n, i)")
  case (Some p)
  then have "p < q" using assms map_of_value [OF Some] by (simp add: waiters_below_def)
  then show ?thesis
    using assms Some by (auto simp: waiters_below_def complete_data_def AList.delete_eq)
qed (simp add: complete_data_def assms)

lemma server_step_effect:
  obtains c where "waits (conns (mesh (server_step security e v))) = waits c"
    and "c = conns (mesh v) \<or> (\<exists>n x. pong_from v e n x \<and> c = complete_pong (conns (mesh v)) n x)
      \<or> (\<exists>n i. c = complete_data (conns (mesh v)) n i)"
  using server_step_waits [of security e v] by blast

lemma server_step_below:
  assumes "waiters_below q (conns (mesh v))"
  shows "waiters_below q (conns (mesh (server_step security e v)))"
proof -
  obtain c where c: "waits (conns (mesh (server_step security e v))) = waits c"
    and "c = conns (mesh v) \<or> (\<exists>n x. pong_from v e n x \<and> c = complete_pong (conns (mesh v)) n x)
      \<or> (\<exists>n i. c = complete_data (conns (mesh v)) n i)"
    by (rule server_step_effect)
  then have "waiters_below q c" using assms below_pong below_data by blast
  then show ?thesis unfolding waits_cong(4) [OF c] .
qed

lemma complete_data_pongs: "pending_pongs (complete_data c n i) = pending_pongs c"
  by (simp add: complete_data_def split: option.split)

lemma server_step_no_pongs:
  assumes "pending_pongs (conns (mesh v)) = []"
  shows "pending_pongs (conns (mesh (server_step security e v))) = []"
proof -
  obtain c where c: "waits (conns (mesh (server_step security e v))) = waits c"
    and "c = conns (mesh v) \<or> (\<exists>n x. pong_from v e n x \<and> c = complete_pong (conns (mesh v)) n x)
      \<or> (\<exists>n i. c = complete_data (conns (mesh v)) n i)"
    by (rule server_step_effect)
  then have "pending_pongs c = []" using assms by (auto simp: complete_data_pongs complete_pong_def)
  then show ?thesis unfolding waits_cong(1) [OF c] .
qed

lemma complete_data_waiting: "only_waiting n x p c \<Longrightarrow> only_waiting n x p (complete_data c m i)"
  using delete_values [of "(m, i)" "pending_data c"] map_of_value [of "pending_data c" "(m, i)"]
  by (auto simp: only_waiting_def complete_data_def split: option.split)

lemma complete_pong_waiting:
  "only_waiting n x p c \<Longrightarrow>
     only_waiting n x p (complete_pong c m y) \<and> (m, y) \<noteq> (n, x)
     \<or> (m, y) = (n, x) \<and> pending_pongs (complete_pong c m y) = [] \<and> p \<in> set (woken (complete_pong c m y))"
  by (auto simp: only_waiting_def complete_pong_def AList.delete_eq)

text \<open>An event either leaves the waiter waiting or is the pong it waits for.\<close>

lemma server_step_waiting:
  assumes "only_waiting n x p (conns (mesh v))"
  shows "only_waiting n x p (conns (mesh (server_step security e v)))
   \<or> pong_from v e n x \<and> pending_pongs (conns (mesh (server_step security e v))) = []
      \<and> p \<in> set (woken (conns (mesh (server_step security e v))))"
proof -
  obtain c where c: "waits (conns (mesh (server_step security e v))) = waits c"
    and "c = conns (mesh v) \<or> (\<exists>m y. pong_from v e m y \<and> c = complete_pong (conns (mesh v)) m y)
      \<or> (\<exists>m i. c = complete_data (conns (mesh v)) m i)"
    by (rule server_step_effect)
  then have "only_waiting n x p c \<or> pong_from v e n x \<and> pending_pongs c = [] \<and> p \<in> set (woken c)"
    using assms complete_data_waiting [OF assms] complete_pong_waiting [OF assms] by fastforce
  then show ?thesis unfolding waits_cong [OF c] .
qed

lemma only_waiting_not_woken: "only_waiting n x p c \<Longrightarrow> p \<notin> set (woken c)"
  by (simp add: only_waiting_def)

text \<open>The server after the events the probe waited through.\<close>

definition server_after :: "security_config \<Rightarrow> (instant \<times> server_event) list \<Rightarrow> server \<Rightarrow> server" where
  "server_after security evs v = server_run security (map snd evs) v"

lemma server_after_simps [simp]:
  "server_after security [] v = v"
  "server_after security ((t, e) # evs) v = server_after security evs (server_step security e v)"
  by (simp_all add: server_after_def server_run_def)

lemma await_pong_outcome:
  assumes "only_waiting n x p (conns (mesh v))" "waiters_below q (conns (mesh v))"
    and "await_pong security p deadline evs v = (r, v', rest)"
  shows "waiters_below q (conns (mesh v')) \<and>
    (case r of
       None \<Rightarrow> only_waiting n x p (conns (mesh v')) \<and> (\<exists>pre. evs = pre @ rest)
     | Some t \<Rightarrow> pending_pongs (conns (mesh v')) = [] \<and> t \<le> deadline \<and>
         (\<exists>pre e. evs = pre @ (t, e) # rest \<and> pong_from (server_after security pre v) e n x))"
  using assms
proof (induction security p deadline evs v arbitrary: r v' rest rule: await_pong.induct)
  case (2 security p deadline t e evs v)
  let ?v1 = "server_step security e v"
  note below = server_step_below [OF 2(3), of security e]
  show ?case
  proof (cases "deadline < t")
    case False
    show ?thesis
    proof (cases "p \<in> set (woken (conns (mesh ?v1)))")
      case True
      then have "pong_from v e n x \<and> pending_pongs (conns (mesh ?v1)) = []"
        using server_step_waiting [OF 2(2), of security e] only_waiting_not_woken by blast
      then show ?thesis
        using 2(4) False True below by (auto intro!: exI [of _ "[]"])
    next
      case waiting: False
      then have "only_waiting n x p (conns (mesh ?v1))"
        using server_step_waiting [OF 2(2), of security e] by blast
      moreover have "await_pong security p deadline evs ?v1 = (r, v', rest)"
        using 2(4) False waiting by (simp add: Let_def)
      ultimately have ih: "waiters_below q (conns (mesh v')) \<and>
         (case r of
            None \<Rightarrow> only_waiting n x p (conns (mesh v')) \<and> (\<exists>pre. evs = pre @ rest)
          | Some t \<Rightarrow> pending_pongs (conns (mesh v')) = [] \<and> t \<le> deadline \<and>
              (\<exists>pre e. evs = pre @ (t, e) # rest \<and> pong_from (server_after security pre ?v1) e n x))"
        using 2(1) [OF False refl waiting] below by blast
      show ?thesis
        using ih by (cases r) (auto intro: exI [of _ "(t, e) # _"])
    qed
  qed (use 2 in auto)
qed auto

section \<open>A round of probes\<close>

text \<open>Between probes nothing waits for a pong.\<close>

definition probe_inv :: "probe_world \<Rightarrow> bool" where
  "probe_inv w = (pending_pongs (pw_conns w) = [] \<and> waiters_below (pw_waiter w) (pw_conns w))"

text \<open>What a step of the probe leaves: the invariant, the clock at most \<open>d\<close> later, and the later events.\<close>

definition proceeds :: "duration \<Rightarrow> probe_world \<Rightarrow> probe_world \<Rightarrow> bool" where
  "proceeds d w w' = (probe_inv w' \<and> pw_clock w \<le> pw_clock w' \<and> pw_clock w' \<le> pw_clock w + d
     \<and> (\<exists>pre. pw_events w = pre @ pw_events w'))"

lemma proceeds_trans: "proceeds a u v \<Longrightarrow> proceeds b v w \<Longrightarrow> proceeds (a + b) u w"
  by (auto simp: proceeds_def)

lemma proceeds_mono: "proceeds a u v \<Longrightarrow> a \<le> b \<Longrightarrow> proceeds b u v"
  by (auto simp: proceeds_def)

lemma with_conns_simps [simp]:
  "pw_conns (with_conns w c) = c" "pw_clock (with_conns w c) = pw_clock w" "pw_events (with_conns w c) = pw_events w"
  "pw_waiter (with_conns w c) = pw_waiter w" "sessions (pw_server (with_conns w c)) = sessions (pw_server w)"
  by (simp_all add: with_conns_def)

lemma send_waits: "send c n m = (r, c') \<Longrightarrow> waits c' = waits c"
  by (auto simp: send_def waits_def channel_send_def split: option.splits if_splits)

text \<open>The connections once the probe's waiter is registered.\<close>

abbreviation expecting :: "probe_world \<Rightarrow> node_id \<Rightarrow> connections" where
  "expecting w n \<equiv> expect_pong (pw_conns w) n (unat (next_nonce w)) (pw_waiter w)"

lemma expecting_waits:
  assumes "probe_inv w"
  shows "only_waiting n (unat (next_nonce w)) (pw_waiter w) (expecting w n)"
    and "waiters_below (Suc (pw_waiter w)) (expecting w n)"
proof -
  have none: "pending_pongs (pw_conns w) = []" and below: "waiters_below (pw_waiter w) (pw_conns w)"
    using assms by (simp_all add: probe_inv_def)
  have "p < pw_waiter w" if "p \<in> snd ` set (pending_data (pw_conns w)) \<union> set (woken (pw_conns w))" for p
    using below that unfolding waiters_below_def by blast
  then show "only_waiting n (unat (next_nonce w)) (pw_waiter w) (expecting w n)"
    and "waiters_below (Suc (pw_waiter w)) (expecting w n)"
    using none by (fastforce simp: only_waiting_def expect_pong_def, auto simp: waiters_below_def expect_pong_def less_SucI)
qed

lemma forget_pong_inv:
  assumes "only_waiting n x p c" "waiters_below q c"
  shows "pending_pongs (forget_pong c n x) = []" "waiters_below q (forget_pong c n x)"
  using assms by (auto simp: only_waiting_def waiters_below_def forget_pong_def)

lemma round_trip_outcome:
  assumes "probe_inv w" and "round_trip security n padding w = (r, w')"
  shows "proceeds PROBE_TIMEOUT w w' \<and>
    (\<forall>d. r = Some d \<longrightarrow> d \<le> PROBE_TIMEOUT \<and>
      (\<exists>c pre t e. send (expecting w n) n (Ping (unat (next_nonce w)) (replicate padding 0)) = (Inr (), c) \<and>
         pw_events w = pre @ (t, e) # pw_events w' \<and> d = t - pw_clock w \<and>
         pong_from (server_after security pre (pw_server (with_conns w c))) e n (unat (next_nonce w))))"
proof -
  let ?x = "unat (next_nonce w)" and ?p = "pw_waiter w"
  let ?m = "Ping ?x (replicate padding 0)"
  let ?w2 = "with_conns (w\<lparr>next_nonce := next_nonce w + 1, pw_waiter := ?p + 1\<rparr>) (expecting w n)"
  obtain s c where sent: "send (expecting w n) n ?m = (s, c)" by (meson surj_pair)
  have only: "only_waiting n ?x ?p c" and below: "waiters_below (Suc ?p) c"
    unfolding waits_cong [OF send_waits [OF sent]] by (rule expecting_waits [OF assms(1)])+
  show ?thesis
  proof (cases s)
    case (Inl err)
    then have "r = None" "w' = with_conns ?w2 (forget_pong c n ?x)"
      using assms(2) sent by (simp_all add: round_trip_def rand_nonce_def Let_def)
    then show ?thesis
      using forget_pong_inv [OF only below] by (simp add: proceeds_def probe_inv_def)
  next
    case (Inr u)
    let ?v = "pw_server (with_conns w c)"
    have v: "pw_server (with_conns ?w2 c) = ?v" by (simp add: with_conns_def)
    obtain a v' rest where waited: "await_pong security ?p (pw_clock w + PROBE_TIMEOUT) (pw_events w) ?v = (a, v', rest)"
      by (metis prod_cases3)
    have out: "waiters_below (Suc ?p) (conns (mesh v')) \<and>
      (case a of
         None \<Rightarrow> only_waiting n ?x ?p (conns (mesh v')) \<and> (\<exists>pre. pw_events w = pre @ rest)
       | Some t \<Rightarrow> pending_pongs (conns (mesh v')) = [] \<and> t \<le> pw_clock w + PROBE_TIMEOUT \<and>
           (\<exists>pre e. pw_events w = pre @ (t, e) # rest \<and> pong_from (server_after security pre ?v) e n ?x))"
      using await_pong_outcome [OF _ _ waited] only below by simp
    show ?thesis
    proof (cases a)
      case None
      then have "r = None" and w': "w' = with_conns (?w2\<lparr>pw_server := v', pw_events := rest, pw_clock := pw_clock w + PROBE_TIMEOUT\<rparr>)
          (forget_pong (conns (mesh v')) n ?x)"
        using assms(2) sent Inr waited v by (simp_all add: round_trip_def rand_nonce_def Let_def)
      then show ?thesis
        using out None forget_pong_inv by (auto simp: proceeds_def probe_inv_def)
    next
      case (Some t)
      then have "r = Some (t - pw_clock w)"
        and "w' = ?w2\<lparr>pw_server := v', pw_events := rest, pw_clock := max (pw_clock w) t\<rparr>"
        using assms(2) sent Inr waited v
        by (simp_all add: round_trip_def rand_nonce_def Let_def saturating_duration_since_def)
      then show ?thesis
        using out Some sent Inr by (auto simp: proceeds_def probe_inv_def)
    qed
  qed
qed

text \<open>
  C29. A measurement is authentic: a probe of a node gets a round trip only when the ping
  was queued on the node's connection and, within ten seconds, a pong with the probe's own
  nonce arrived over a connection that is registered as that very node; the round trip is
  the time from the ping to that pong. No other connection can time it.
\<close>

theorem probe_is_authentic:
  assumes "probe_inv w" and "round_trip security n padding w = (Some d, w')"
  shows "d \<le> PROBE_TIMEOUT \<and>
    (\<exists>c pre t e. send (expect_pong (pw_conns w) n (unat (next_nonce w)) (pw_waiter w)) n
         (Ping (unat (next_nonce w)) (replicate padding 0)) = (Inr (), c) \<and>
       pw_events w = pre @ (t, e) # pw_events w' \<and> d = t - pw_clock w \<and>
       pong_from (server_after security pre (pw_server (with_conns w c))) e n (unat (next_nonce w)))"
  using round_trip_outcome [OF assms] by blast

definition probe_sample :: probe_world where
  "probe_sample =
     \<lparr>pw_server = server_run security_open [Accept, Receive 0 1 ''a'' (RegisterNode 1 sample_node None)]
        (server_new mesh_state_new),
      pw_clock = 2, pw_events = [(5, Receive 0 5 ''x'' (Pong 9)), (7, Receive 0 7 ''x'' (Pong 1))],
      next_nonce = 1, pw_waiter = 0\<rparr>"

lemma probe_sample_inv: "probe_inv probe_sample"
  unfolding probe_inv_def by code_simp

lemma probe_sample_measured: "fst (round_trip security_open (NodeId 7) 3 probe_sample) = Some 5"
  by code_simp

theorem probe_is_authentic_witness:
  "(5 :: duration) \<le> PROBE_TIMEOUT \<and>
   (\<exists>pre t e. pw_events probe_sample = pre @ (t, e) # pw_events (snd (round_trip security_open (NodeId 7) 3 probe_sample))
      \<and> 5 = t - pw_clock probe_sample)"
proof -
  let ?r = "round_trip security_open (NodeId 7) 3 probe_sample"
  have "?r = (Some 5, snd ?r)" using probe_sample_measured by (cases ?r) simp
  from probe_is_authentic [OF probe_sample_inv this] show ?thesis by blast
qed

lemma measure_node_proceeds:
  assumes "probe_inv w" and "measure_node security n padding w = (r, w')"
  shows "proceeds (2 * PROBE_TIMEOUT) w w'"
proof -
  obtain a w1 where one: "round_trip security n 0 w = (a, w1)" by (meson surj_pair)
  note p1 = conjunct1 [OF round_trip_outcome [OF assms(1) one]]
  show ?thesis
  proof (cases a)
    case None
    then show ?thesis
      using assms(2) one p1 by (auto simp: measure_node_def intro: proceeds_mono)
  next
    case (Some small)
    obtain b w2 where two: "round_trip security n padding w1 = (b, w2)" by (meson surj_pair)
    have "proceeds (PROBE_TIMEOUT + PROBE_TIMEOUT) w w2"
      using p1 round_trip_outcome [OF _ two] proceeds_trans by (fastforce simp: proceeds_def)
    moreover have "w' = w2"
      using assms(2) one two Some by (auto simp: measure_node_def split: option.splits)
    ultimately show ?thesis by (simp add: mult_2)
  qed
qed

lemma record_measurement_proceeds:
  "proceeds d w w1 \<Longrightarrow> proceeds d w (record_measurement n m w1)"
  by (simp add: proceeds_def probe_inv_def record_measurement_def)

lemma probe_nodes_proceeds:
  "probe_inv w \<Longrightarrow> proceeds (length ns * (2 * PROBE_TIMEOUT)) w (probe_nodes security padding ns w)"
proof (induction ns arbitrary: w)
  case (Cons n ns)
  obtain r w1 where m: "measure_node security n padding w = (r, w1)" by (meson surj_pair)
  define w2 where "w2 = (case r of None \<Rightarrow> w1 | Some m \<Rightarrow> record_measurement n m w1)"
  have "proceeds (2 * PROBE_TIMEOUT) w w2"
    using measure_node_proceeds [OF Cons.prems m] by (simp add: w2_def record_measurement_proceeds split: option.split)
  moreover from this have "proceeds (length ns * (2 * PROBE_TIMEOUT)) w2 (probe_nodes security padding ns w2)"
    using Cons.IH by (simp add: proceeds_def)
  ultimately show ?case
    using proceeds_trans by (fastforce simp: m w2_def split: option.splits)
qed (simp add: proceeds_def)

lemma advance_to_inv:
  "pending_pongs (conns (mesh v)) = [] \<Longrightarrow> waiters_below q (conns (mesh v)) \<Longrightarrow>
   advance_to security tick evs v = (v', rest) \<Longrightarrow>
   pending_pongs (conns (mesh v')) = [] \<and> waiters_below q (conns (mesh v')) \<and> (\<exists>pre. evs = pre @ rest)"
  by (induction security tick evs v rule: advance_to.induct)
    (auto split: if_splits simp: server_step_no_pongs server_step_below intro: exI [of _ "_ # _"])

lemma wait_tick_inv: "probe_inv w \<Longrightarrow> probe_inv (wait_tick security tick w)"
  using advance_to_inv [of "pw_server w" "pw_waiter w" security tick "pw_events w"]
  by (simp add: probe_inv_def wait_tick_def split: prod.split)

text \<open>
  A round of probes always ends and leaves nothing behind: however silent the nodes
  are and whatever else arrives meanwhile, measuring \<open>k\<close> connected nodes takes at most
  twenty seconds for each of them, no waiter of the round stays registered, and the events
  the round lived through were handled in order.
\<close>

lemma probe_round_ends:
  assumes "probe_inv w"
  shows "let w' = probe_once security padding w
         in probe_inv w' \<and> pw_clock w' \<le> pw_clock w + length (probed_nodes w) * from_secs 20
            \<and> (\<exists>pre. pw_events w = pre @ pw_events w')"
  using probe_nodes_proceeds [OF assms, of "probed_nodes w" security padding]
  by (simp add: probe_once_def proceeds_def Let_def PROBE_TIMEOUT_def from_secs_def)

lemma probe_round_ends_at:
  "pw_clock (probe_once security_open 1024 probe_sample) \<le> 2 + length (probed_nodes probe_sample) * from_secs 20"
  using probe_round_ends [OF probe_sample_inv, of security_open 1024]
  by (simp add: Let_def probe_sample_def)

lemma probe_monitor_inv: "probe_inv w \<Longrightarrow> probe_inv (probe_monitor security interval padding k tick w)"
proof (induction k arbitrary: tick w)
  case (Suc k)
  then show ?case
    using probe_nodes_proceeds wait_tick_inv by (simp add: probe_once_def proceeds_def)
qed simp

end
