(* ===== verification/AgentRun.thy ===== *)
theory AgentRun
  imports Agent Pacing
begin

text \<open>
  An agent at work: sampling its machine (crates/aether-agent/src/metrics.rs) and the
  heartbeat task of \<^verbatim>\<open>AgentClient::run\<close> (crates/aether-agent/src/client.rs), composed with
  the controller's server and its eviction of silent nodes. The figures of the operating
  system, which the \<^verbatim>\<open>sysinfo\<close> crate reads, are arguments.
\<close>

section \<open>Sampling\<close>

record system_reading =
  total_memory :: nat
  used_memory :: nat
  global_cpu_usage :: fl
  cpus :: nat
  host_name :: "string option"

definition sample :: "system_reading \<Rightarrow> node_metrics" where
  "sample r =
     metrics_new (fdiv f32 (global_cpu_usage r) (fconst f32 100))
       (if total_memory r = 0 then fconst f32 0
        else fdiv f32 (of_nat_f f32 (used_memory r)) (of_nat_f f32 (total_memory r)))
       (total_memory r)"

definition local_hostname :: "system_reading \<Rightarrow> string" where
  "local_hostname r = (case host_name r of Some h \<Rightarrow> h | None \<Rightarrow> ''unknown'')"

text \<open>The reading is the one taken after the wait of one sampling interval.\<close>

definition local_node_info :: "node_id \<Rightarrow> string \<Rightarrow> system_reading \<Rightarrow> node_info" where
  "local_node_info i addr r =
     update_metrics (node_info_new i (local_hostname r) addr (cpus r mod 2 ^ 32)) (sample r)"

section \<open>The heartbeat task\<close>

text \<open>
  What \<^verbatim>\<open>run\<close> sets up: the holdings are announced first, then the task starts with a
  pacer and the activity counter it has seen. The least interval is a constant of
  \<^verbatim>\<open>sysinfo\<close>.
\<close>

definition heart_start :: "duration \<Rightarrow> duration \<Rightarrow> agent \<Rightarrow> pacer \<times> 64 word" where
  "heart_start min_sample interval a =
     (let i = max interval min_sample
      in (pacer_new i (ceiling_for_timeout i (a_timeout a)), activity a))"

definition agent_run :: "duration \<Rightarrow> duration \<Rightarrow> agent \<Rightarrow> client_error + (pacer \<times> 64 word) \<times> agent" where
  "agent_run min_sample interval a =
     (case announce_holdings a of
        (Inl e, _) \<Rightarrow> Inl e
      | (Inr _, a1) \<Rightarrow> Inr (heart_start min_sample interval a1, a1))"

text \<open>
  The task's loop: each turn sleeps for the pacer's gap, wakes some time late, samples,
  sends, and looks at the activity counter. Each turn has its lateness, its sample, the
  counter then, and whether the writer still took the message. The result is what was sent
  and when.
\<close>

fun heart_beats ::
    "node_id \<Rightarrow> pacer \<Rightarrow> 64 word \<Rightarrow> instant \<Rightarrow> (duration \<times> node_metrics \<times> 64 word \<times> bool) list \<Rightarrow>
     (instant \<times> message) list" where
  "heart_beats n p seen now [] = []"
| "heart_beats n p seen now ((late, m, act, sent) # rest) =
     (let t = now + current p + late
      in if \<not> sent then []
         else (t, Heartbeat n m) # heart_beats n (snd (pacer_record p m (act \<noteq> seen))) act t rest)"

section \<open>A connection that stays\<close>

text \<open>What an agent sends over its connection after registering, so that the handler goes on.\<close>

fun agent_message :: "node_id \<Rightarrow> message \<Rightarrow> bool" where
  "agent_message n (Heartbeat _ _) = True"
| "agent_message n (DataHeld _ _) = True"
| "agent_message n (DataEvicted _ _) = True"
| "agent_message n (DataReady _ _) = True"
| "agent_message n (Pong _) = True"
| "agent_message n (TaskCompleted r) = (res_node_id r = n)"
| "agent_message n _ = False"

text \<open>The connection \<open>k\<close> of the node lives on; other connections may do anything.\<close>

fun keeps :: "conn \<Rightarrow> node_id \<Rightarrow> server_event \<Rightarrow> bool" where
  "keeps k n (HangUp c) = (c \<noteq> k)"
| "keeps k n (Receive c _ _ m) = (c = k \<longrightarrow> agent_message n m)"
| "keeps k n _ = True"

text \<open>
  A connection on which the node is registered, the node having spoken at \<open>since\<close> or later.
\<close>

definition alive :: "conn \<Rightarrow> node_id \<Rightarrow> instant \<Rightarrow> server \<Rightarrow> bool" where
  "alive k n since v =
     (mesh_inv (mesh v) \<and> k < accepted v
      \<and> (\<exists>e. map_of (registry (mesh v)) n = Some e \<and> since \<le> last_seen e)
      \<and> (\<exists>l. map_of (sessions v) k = Some l \<and> registered_id l = Some n))"

text \<open>The last time the node was heard, and that no eviction round comes later than its timeout allows.\<close>

fun is_heartbeat :: "message \<Rightarrow> bool" where
  "is_heartbeat (Heartbeat _ _) = True"
| "is_heartbeat _ = False"

fun heard_by :: "conn \<Rightarrow> instant \<Rightarrow> server_event list \<Rightarrow> bool" where
  "heard_by k since [] = True"
| "heard_by k since (Receive c now f m # evs) =
     (since \<le> now \<and> heard_by k (if c = k \<and> is_heartbeat m then now else since) evs)"
| "heard_by k since (EvictRound now timeout # evs) = (now \<le> since + timeout \<and> heard_by k since evs)"
| "heard_by k since (_ # evs) = heard_by k since evs"

section \<open>The registry under a message\<close>

lemma registered_stays:
  assumes "map_of (registry s) n = Some e" "since \<le> last_seen e" "since \<le> now"
  shows "\<exists>e'. map_of (registry (after_message security now fresh k m s l)) n = Some e' \<and> since \<le> last_seen e'"
proof (cases m)
  case (Heartbeat n' ms)
  then show ?thesis
    using assms by (auto simp: handle_heartbeat on_heartbeat_registry record_heartbeat_def update_conv'
        split: option.splits)
next
  case (RegisterNode version info token)
  then show ?thesis
    using assms by (auto simp: handler_defs register_def update_conv' split: option.splits sum.splits if_splits)
qed (use assms in \<open>auto simp: handler_defs split: option.splits if_splits\<close>)

lemma agent_message_continues:
  assumes "agent_message n m" "registered_id l = Some n"
  shows "fst (handle_message security now fresh k m s l) = Continue
    \<and> registered_id (session_after security now fresh k m s l) = Some n"
  using assms by (cases m) (auto simp: handle_message_def on_task_completed_def on_heartbeat_def speaks_for_def Let_def
      split: option.splits sum.splits prod.splits)

lemma heartbeat_is_seen:
  assumes "registered_id l = Some n" "map_of (registry s) n = Some e" "is_heartbeat m"
  shows "\<exists>e'. map_of (registry (after_message security now fresh k m s l)) n = Some e' \<and> last_seen e' = now"
  using assms by (cases m) (auto simp: handle_heartbeat on_heartbeat_registry record_heartbeat_def update_conv')

section \<open>Hearing a node keeps it\<close>

lemma alive_receive_own:
  assumes "alive k n since v" "agent_message n m" "since \<le> now"
  shows "alive k n (if is_heartbeat m then now else since) (server_step security (Receive k now f m) v)"
proof -
  obtain e l where e: "map_of (registry (mesh v)) n = Some e" "since \<le> last_seen e"
    and l: "map_of (sessions v) k = Some l" "registered_id l = Some n" and inv: "mesh_inv (mesh v)" "k < accepted v"
    using assms(1) by (auto simp: alive_def)
  obtain s' l' where h: "handle_message security now f k m (mesh v) l = (Continue, s', l')" "registered_id l' = Some n"
    using agent_message_continues [OF assms(2) l(2), of security now f k "mesh v"]
    by (cases "handle_message security now f k m (mesh v) l") auto
  have "mesh_inv s'" using handle_message_inv [OF inv(1), of security now f k m l] h by simp
  moreover have "\<exists>e'. map_of (registry s') n = Some e' \<and> since \<le> last_seen e'"
    using registered_stays [OF e assms(3), of security f k m l] h by simp
  moreover have "is_heartbeat m \<Longrightarrow> \<exists>e'. map_of (registry s') n = Some e' \<and> last_seen e' = now"
    using heartbeat_is_seen [OF l(2) e(1), of m security now f k] h by simp
  ultimately show ?thesis
    using l h inv(2) by (auto simp: alive_def update_conv')
qed

lemma close_connection_registry [simp]: "registry (close_connection s l) = registry s"
  by (simp add: close_connection_def split: option.split)

lemma close_connection_inv: "mesh_inv s \<Longrightarrow> mesh_inv (close_connection s l)"
  by (simp add: close_connection_def mesh_inv_def inv_intros split: option.split)

lemma alive_receive_other:
  assumes "alive k n since v" "c \<noteq> k" "since \<le> now"
  shows "alive k n since (server_step security (Receive c now f m) v)"
proof (cases "map_of (sessions v) c")
  case (Some l)
  obtain e where e: "map_of (registry (mesh v)) n = Some e" "since \<le> last_seen e" and inv: "mesh_inv (mesh v)"
    using assms(1) by (auto simp: alive_def)
  obtain go s' l' where h: "handle_message security now f c m (mesh v) l = (go, s', l')"
    by (metis prod_cases3)
  have "mesh_inv s'" using handle_message_inv [OF inv, of security now f c m l] h by simp
  moreover have "\<exists>e'. map_of (registry s') n = Some e' \<and> since \<le> last_seen e'"
    using registered_stays [OF e assms(3), of security f c m l] h by simp
  ultimately show ?thesis
    using assms(1,2) Some h
    by (cases go) (auto simp: alive_def end_session_def update_conv' delete_conv' close_connection_inv)
qed (use assms in simp)

lemma alive_evict:
  assumes "alive k n since v" "now \<le> since + timeout"
  shows "alive k n since (server_step security (EvictRound now timeout) v)"
proof -
  obtain e where e: "map_of (registry (mesh v)) n = Some e" "since \<le> last_seen e" and inv: "mesh_inv (mesh v)"
    using assms(1) by (auto simp: alive_def)
  obtain gone s' where g: "evict_stale_nodes (mesh v) now timeout = (gone, s')" by (metis surj_pair)
  have s': "s' = bump (\<lambda>m. record_evictions m (length gone)) (fold evict_one gone (mesh v))"
    and gone: "gone = stale_nodes (registry (mesh v)) now timeout"
    using g by (auto simp: evict_stale_nodes_def Let_def)
  have "n \<notin> set gone"
    using stale_nodes_iff [of "registry (mesh v)"] inv e assms(2) by (auto simp: gone mesh_inv_def)
  then have "node_view (fold evict_one gone (mesh v)) n = node_view (mesh v) n"
    and "mesh_inv (fold evict_one gone (mesh v))"
    using evict_fold [OF inv, of gone] by auto
  then have "map_of (registry s') n = Some e" "mesh_inv s'"
    using e(1) by (simp_all add: s' node_view_def mesh_inv_def)
  then show ?thesis
    using assms(1) e(2) g by (auto simp: alive_def)
qed

lemma mesh_inv_conns: "mesh_inv (s\<lparr>conns := c\<rparr>) = mesh_inv s"
  by (simp add: mesh_inv_def)

lemma server_step_inv: "mesh_inv (mesh v) \<Longrightarrow> mesh_inv (mesh (server_step security e v))"
proof (cases e)
  case (Receive k now f m)
  assume "mesh_inv (mesh v)"
  moreover from this have "mesh_inv s'" if "handle_message security now f k m (mesh v) l = (go, s', l')" for go s' l l'
    using handle_message_inv [of "mesh v" security now f k m l] that by simp
  ultimately show ?thesis
    using Receive
    by (auto simp: end_session_def close_connection_inv split: option.split prod.split loop_control.split)
next
  case (EvictRound now timeout)
  assume "mesh_inv (mesh v)"
  then show ?thesis
    using EvictRound evict_fold [of "mesh v"] by (simp add: evict_stale_nodes_def Let_def mesh_inv_def)
qed (auto simp: end_session_def close_connection_inv mesh_inv_conns split: option.split)

lemma server_run_inv: "mesh_inv (mesh v) \<Longrightarrow> mesh_inv (mesh (server_run security evs v))"
  by (induction evs arbitrary: v) (simp_all add: server_run_def server_step_inv)

lemma alive_run:
  assumes "alive k n since v" "heard_by k since evs" "\<forall>ev \<in> set evs. keeps k n ev"
  shows "\<exists>now. alive k n now (server_run security evs v)"
  using assms
proof (induction k since evs arbitrary: v rule: heard_by.induct [case_names Nil Receive Evict Accept HangUp WriteFails])
  case (Receive k since c now f m evs)
  have "alive k n (if c = k \<and> is_heartbeat m then now else since) (server_step security (Receive c now f m) v)"
    using Receive(2-4) alive_receive_own [of k n since v m now security f] alive_receive_other [of k n since v c now security f m]
    by (cases "c = k") auto
  then show ?case using Receive(1,3,4) by (simp add: server_run_def)
next
  case (Evict k since now timeout evs)
  then show ?case using alive_evict by (simp add: server_run_def)
next
  case (Accept k since evs)
  then have "alive k n since (server_step security Accept v)" by (auto simp: alive_def update_conv')
  then show ?case using Accept by (simp add: server_run_def)
next
  case (HangUp k since c evs)
  then have "alive k n since (server_step security (HangUp c) v)"
    by (auto simp: alive_def end_session_def delete_conv' close_connection_inv split: option.split)
  then show ?case using HangUp by (simp add: server_run_def)
next
  case (WriteFails k since c evs)
  then have "alive k n since (server_step security (WriteFails c) v)" by (auto simp: alive_def mesh_inv_def)
  then show ?case using WriteFails by (simp add: server_run_def)
qed (auto simp: server_run_def)

section \<open>The pace of a heartbeat task\<close>

text \<open>When the messages of a history are handled.\<close>

fun receive_times :: "server_event list \<Rightarrow> instant list" where
  "receive_times [] = []"
| "receive_times (Receive _ now _ _ # evs) = now # receive_times evs"
| "receive_times (_ # evs) = receive_times evs"

text \<open>A heartbeat of the connection that an eviction round at \<open>now\<close> still counts.\<close>

definition fresh_beat :: "conn \<Rightarrow> instant \<Rightarrow> duration \<Rightarrow> server_event list \<Rightarrow> bool" where
  "fresh_beat k now timeout pre = (\<exists>a f m. Receive k a f m \<in> set pre \<and> is_heartbeat m \<and> now \<le> a + timeout)"

definition covered :: "conn \<Rightarrow> instant \<Rightarrow> server_event list \<Rightarrow> bool" where
  "covered k since evs = (\<forall>pre now timeout post. evs = pre @ EvictRound now timeout # post \<longrightarrow>
     now \<le> since + timeout \<or> fresh_beat k now timeout pre)"

lemma covered_tail:
  assumes "covered k since (ev # evs)" "since \<le> s"
    and "\<And>a f m. ev = Receive k a f m \<Longrightarrow> is_heartbeat m \<Longrightarrow> a \<le> s"
  shows "covered k s evs"
  unfolding covered_def
proof (intro allI impI)
  fix pre now timeout post assume "evs = pre @ EvictRound now timeout # post"
  then have "now \<le> since + timeout \<or> fresh_beat k now timeout (ev # pre)"
    using assms(1) unfolding covered_def by (metis append_Cons)
  then show "now \<le> s + timeout \<or> fresh_beat k now timeout pre"
    using assms(2,3) unfolding fresh_beat_def by fastforce
qed

lemma covered_evict: "covered k since (EvictRound now timeout # evs) \<Longrightarrow> now \<le> since + timeout"
  unfolding covered_def fresh_beat_def by (metis append_Nil empty_iff list.set(1))

lemma heard_by_if_covered: "covered k since evs \<Longrightarrow> sorted (since # receive_times evs) \<Longrightarrow> heard_by k since evs"
proof (induction k since evs rule: heard_by.induct)
  case (2 k since c now f m evs)
  let ?s = "if c = k \<and> is_heartbeat m then now else since"
  have "covered k ?s evs" using covered_tail [OF 2(2), of ?s] 2(3) by auto
  then show ?case using 2 by auto
qed (auto dest: covered_tail covered_evict)

section \<open>A healthy agent stays\<close>

definition previous :: "instant \<Rightarrow> (instant \<times> message) list \<Rightarrow> nat \<Rightarrow> instant" where
  "previous start beats i = (if i = 0 then start else fst (beats ! (i - 1)))"

lemma heart_beats_pace:
  assumes "base p \<le> current p" "current p \<le> ceiling p" "\<forall>(late, _) \<in> set samples. late \<le> L"
    and "i < length (heart_beats n p seen now samples)"
  shows "fst (heart_beats n p seen now samples ! i)
      \<le> previous now (heart_beats n p seen now samples) i + ceiling p + L
    \<and> is_heartbeat (snd (heart_beats n p seen now samples ! i))"
  using assms
proof (induction n p seen now samples arbitrary: i rule: heart_beats.induct)
  case (2 n p seen now late m act sent rest)
  let ?p = "snd (pacer_record p m (act \<noteq> seen))" and ?t = "now + current p + late"
  have sent: sent using 2(5) by (auto simp: Let_def split: if_splits)
  have p: "base ?p \<le> current ?p" "current ?p \<le> ceiling ?p" "ceiling ?p = ceiling p"
    using 2(2,3) by (auto simp: pacer_record_def Let_def)
  show ?case
  proof (cases i)
    case 0
    then show ?thesis using 2(3,4) sent by (auto simp: previous_def Let_def)
  next
    case (Suc j)
    have j: "j < length (heart_beats n ?p act ?t rest)" using 2(5) sent Suc by (simp add: Let_def)
    have "fst (heart_beats n ?p act ?t rest ! j) \<le> previous ?t (heart_beats n ?p act ?t rest) j + ceiling ?p + L
        \<and> is_heartbeat (snd (heart_beats n ?p act ?t rest ! j))"
      using 2(1) [OF refl _ p(1,2) _ j] sent 2(4) by simp
    then show ?thesis
      using sent Suc p(3) by (auto simp: previous_def Let_def nth_Cons split: nat.splits)
  qed
qed simp

text \<open>
  Every heartbeat reaches the server at most \<open>d\<close> after it was sent, before any eviction
  round that is later, and the agent goes on sending until after the last such round.
\<close>

definition beats_delivered ::
    "conn \<Rightarrow> duration \<Rightarrow> (instant \<times> message) list \<Rightarrow> instant list \<Rightarrow> duration \<Rightarrow> server_event list \<Rightarrow> bool" where
  "beats_delivered k d beats arrivals timeout evs =
     (length arrivals = length beats
      \<and> (\<forall>i < length beats. fst (beats ! i) \<le> arrivals ! i \<and> arrivals ! i \<le> fst (beats ! i) + d)
      \<and> (\<forall>pre now t post. evs = pre @ EvictRound now t # post \<longrightarrow>
           t = timeout \<and> (\<exists>i < length beats. now < arrivals ! i)
           \<and> (\<forall>i < length beats. arrivals ! i \<le> now \<longrightarrow> (\<exists>f. Receive k (arrivals ! i) f (snd (beats ! i)) \<in> set pre))))"

lemma delivered_beats_cover:
  assumes "beats_delivered k d beats arrivals timeout evs"
    and pace: "\<And>i. i < length beats \<Longrightarrow> fst (beats ! i) \<le> previous start beats i + c + l \<and> is_heartbeat (snd (beats ! i))"
    and "start \<le> since + s" "c + s + l + d \<le> timeout"
  shows "covered k since evs"
  unfolding covered_def
proof (intro allI impI)
  fix pre now t post assume evs: "evs = pre @ EvictRound now t # post"
  have t: "t = timeout" and ex: "\<exists>i. i < length beats \<and> now < arrivals ! i"
    and got: "\<And>i. i < length beats \<Longrightarrow> arrivals ! i \<le> now \<Longrightarrow> \<exists>f. Receive k (arrivals ! i) f (snd (beats ! i)) \<in> set pre"
    and arr: "\<And>i. i < length beats \<Longrightarrow> fst (beats ! i) \<le> arrivals ! i \<and> arrivals ! i \<le> fst (beats ! i) + d"
    using assms(1) evs unfolding beats_delivered_def by blast+
  define i where "i = (LEAST i. i < length beats \<and> now < arrivals ! i)"
  have i: "i < length beats" "now < arrivals ! i" using LeastI_ex [OF ex] by (simp_all add: i_def)
  have before: "arrivals ! j \<le> now" if "j < i" for j
    using not_less_Least [of j "\<lambda>i. i < length beats \<and> now < arrivals ! i"] that i(1) by (auto simp: i_def [symmetric])
  show "now \<le> since + t \<or> fresh_beat k now t pre"
  proof (cases i)
    case 0
    then have "now \<le> since + t"
      using pace [OF i(1)] arr [OF i(1)] i(2) assms(3,4) t by (simp add: previous_def)
    then show ?thesis ..
  next
    case (Suc j)
    then obtain f where "Receive k (arrivals ! j) f (snd (beats ! j)) \<in> set pre"
      using got [of j] before [of j] i(1) by auto
    moreover have "now \<le> arrivals ! j + t"
      using pace [OF i(1)] arr [OF i(1)] arr [of j] i Suc assms(4) t by (simp add: previous_def)
    moreover have "is_heartbeat (snd (beats ! j))" using pace [of j] i(1) Suc by simp
    ultimately show ?thesis unfolding fresh_beat_def by blast
  qed
qed


text \<open>A node of which one heartbeat arrives between two eviction rounds.\<close>

definition beating_server :: server where
  "beating_server = server_run security_open [Accept, Receive 0 1 ''a'' (RegisterNode 1 sample_node None)]
     (server_new mesh_state_new)"

definition beating_samples :: "(duration \<times> node_metrics \<times> 64 word \<times> bool) list" where
  "beating_samples = [(0, metrics_default, 1, True), (0, metrics_default, 2, True)]"

definition beating_history :: "server_event list" where
  "beating_history = [Receive 0 (from_secs 5 + 1) ''x'' (Heartbeat (NodeId 7) metrics_default),
     EvictRound (from_secs 9) DEFAULT_HEARTBEAT_TIMEOUT]"

lemma beating_server_alive: "alive 0 (NodeId 7) 1 beating_server"
proof -
  have "mesh_inv (mesh beating_server)"
    unfolding beating_server_def
    by (rule server_run_inv) (simp add: server_new_def mesh_inv_def mesh_state_new_def inv_intros)
  moreover have "accepted beating_server = 1" "map_option last_seen (map_of (registry (mesh beating_server)) (NodeId 7)) = Some 1"
    "map_option registered_id (map_of (sessions beating_server) 0) = Some (Some (NodeId 7))"
    by code_simp+
  ultimately show ?thesis by (auto simp: alive_def)
qed
definition beating_agent :: "client_error + agent" where
  "beating_agent = agent_register 4 sample_node (RegisterAccepted (NodeId 7) None (as_secs DEFAULT_HEARTBEAT_TIMEOUT))"


section \<open>Holdings after a reconnection\<close>

lemma set_insert_descriptor: "set (foldr insert_descriptor xs []) = set xs"
proof -
  have "set (insert_descriptor x ys) = insert x (set ys)" for x ys by (induction ys) auto
  then show ?thesis by (induction xs) simp_all
qed

lemma descriptors_iff: "(\<exists>d \<in> set (descriptors st). desc_id d = i) \<longleftrightarrow> contains st i"
proof
  assume "contains st i"
  then obtain e where "(i, e) \<in> set (blobs st)" by (auto simp: contains_def dest: map_of_SomeD)
  then have "descriptor_new i (length (blob_bytes e)) \<in> set (descriptors st)"
    by (force simp: descriptors_def set_insert_descriptor)
  then show "\<exists>d \<in> set (descriptors st). desc_id d = i" by (force simp: descriptor_new_def)
qed (use descriptors_held in blast)

lemma holds_fold_record:
  "holds (fold (\<lambda>d c. record_data c d n) ds c) i n \<longleftrightarrow> holds c i n \<or> (\<exists>d \<in> set ds. desc_id d = i)"
  by (induction ds arbitrary: c) (auto simp: holds_record)

text \<open>The state and session after the messages of one connection.\<close>

fun handle_messages ::
    "security_config \<Rightarrow> instant \<Rightarrow> string \<Rightarrow> conn \<Rightarrow> message list \<Rightarrow> mesh_state \<times> session \<Rightarrow> mesh_state \<times> session" where
  "handle_messages security now fresh k [] sl = sl"
| "handle_messages security now fresh k (m # ms) sl =
     handle_messages security now fresh k ms (snd (handle_message security now fresh k m (fst sl) (snd sl)))"

lemma handle_data_held:
  "registered_id l = Some n \<Longrightarrow>
   snd (handle_message security now fresh k (DataHeld n' ds) s l)
     = ((bump record_message s)\<lparr>catalog := fold (\<lambda>d c. record_data c d n) ds (catalog s)\<rparr>, l)"
  by (simp add: handle_message_def speaks_for_def)

text \<open>
  C15. Whatever the controller believed of a node before, once the node has registered
  again over a new connection and its run loop has started, the catalogue credits it with
  exactly the datasets its store contains; the other nodes keep theirs.
\<close>

theorem reconnection_restores_holdings:
  assumes "mesh_inv st" "authorize security token = Inr ()"
    and "agent_id a = info_id info" "a_outbox a = []"
    and "agent_run min_sample interval a = Inr (h, a1)"
    and "handle_messages security now fresh k (RegisterNode PROTOCOL_VERSION info token # a_outbox a1)
      (st, session_new) = (st1, l1)"
  shows "holds (catalog st1) i n \<longleftrightarrow> (if n = info_id info then contains (a_store a) i else holds (catalog st) i n)"
proof -
  define r where "r = snd (handle_message security now fresh k (RegisterNode PROTOCOL_VERSION info token) st session_new)"
  have cat: "catalog (fst r) = forget_node (catalog st) (info_id info)" and id0: "registered_id (snd r) = Some (info_id info)"
    using assms(2) by (simp_all add: r_def handler_defs session_new_def)
  have inv: "catalog_inv (catalog st)" using assms(1) by (simp add: mesh_inv_def)
  have out: "a_outbox a1 = (if descriptors (a_store a) = [] then [] else [DataHeld (info_id info) (descriptors (a_store a))])"
    using assms(3-5) by (auto simp: agent_run_def announce_holdings_def emit_def Let_def split: if_splits)
  have "catalog st1 = fold (\<lambda>d c. record_data c d (info_id info)) (descriptors (a_store a)) (catalog (fst r))"
    using assms(6) id0 unfolding out
    by (auto simp: r_def [symmetric] handle_data_held split: if_splits)
  then show ?thesis
    using inv by (simp add: holds_fold_record holds_fold_record_other cat holds_forget descriptors_iff)
qed

theorem reconnection_restores_holdings_witness:
  "let st1 = fst (handle_messages security_open 3 ''t'' 0
         [RegisterNode PROTOCOL_VERSION sample_node None, DataHeld (NodeId 7) (descriptors (a_store small_agent))]
         (two_holders, session_new))
   in holds (catalog st1) (DataId [1, 2]) (NodeId 7) \<and> holds (catalog st1) (DataId []) (NodeId 1)"
proof -
  let ?ds = "descriptors (a_store small_agent)"
  have ds: "?ds \<noteq> []" and c: "contains (a_store small_agent) (DataId [1, 2])" by code_simp+
  have run: "agent_run 0 0 small_agent = Inr (heart_start 0 0 (small_agent\<lparr>a_outbox := [DataHeld (NodeId 7) ?ds]\<rparr>),
      small_agent\<lparr>a_outbox := [DataHeld (NodeId 7) ?ds]\<rparr>)"
    using ds by (simp add: agent_run_def announce_holdings_def emit_def small_agent_def Let_def)
  let ?r = "handle_messages security_open 3 ''t'' 0 [RegisterNode PROTOCOL_VERSION sample_node None, DataHeld (NodeId 7) ?ds]
     (two_holders, session_new)"
  have m: "handle_messages security_open 3 ''t'' 0
      (RegisterNode PROTOCOL_VERSION sample_node None # a_outbox (small_agent\<lparr>a_outbox := [DataHeld (NodeId 7) ?ds]\<rparr>))
      (two_holders, session_new) = (fst ?r, snd ?r)"
    by (simp del: handle_messages.simps)
  have h: "holds (catalog (fst ?r)) i n \<longleftrightarrow>
      (if n = info_id sample_node then contains (a_store small_agent) i else holds (catalog two_holders) i n)" for i n
    by (rule reconnection_restores_holdings [OF two_holders_inv _ _ _ run m])
      (simp_all add: small_agent_def sample_node_def node_info_new_def authorize_def identify_def security_open_def requires_auth_def)
  have "holds (catalog two_holders) (DataId []) (NodeId 1)"
    by (simp add: two_holders_def holds_record descriptor_new_def)
  then show ?thesis
    using h [of "DataId [1, 2]" "NodeId 7"] h [of "DataId []" "NodeId 1"] c
    by (simp add: sample_node_def node_info_new_def Let_def del: handle_messages.simps)
qed

end
