(* ===== verification/Tls.thy ===== *)
theory Tls
  imports Telemetry
begin

text \<open>
  Certificates and transport security (crates/aether-controller/src/tls.rs,
  crates/aether-agent/src/tls.rs): reading PEM files, building the server's acceptor and the
  agent's connector, and the commands that generate certificates. The PEM parser, \<^verbatim>\<open>rustls\<close> and
  \<^verbatim>\<open>rcgen\<close> are a record of functions over abstract certificates and keys; the file system is
  its contents with what can be made and written.
\<close>

section \<open>The libraries and the files\<close>

datatype pem_key_error = NoItemsFound | MalformedPem string

text \<open>\<^verbatim>\<open>key_of_draw\<close> generates a key from the randomness of one draw, which is its number.\<close>

record ('c, 'k) tls_lib =
  pem_certs :: "bytes \<Rightarrow> string + 'c list"
  pem_key :: "bytes \<Rightarrow> pem_key_error + 'k"
  cert_pem :: "'c \<Rightarrow> bytes"
  key_pem :: "'k \<Rightarrow> bytes"
  key_of_draw :: "nat \<Rightarrow> string + 'k"
  self_signed_ca :: "'k \<Rightarrow> string + 'c"
  leaf_signed :: "string list \<Rightarrow> 'k \<Rightarrow> 'c \<times> 'k \<Rightarrow> string + 'c"
  simple_self_signed :: "string list \<Rightarrow> nat \<Rightarrow> string + 'c \<times> 'k"
  key_from_pem :: "bytes \<Rightarrow> string + 'k"
  issuer_cert :: "bytes \<Rightarrow> 'k \<Rightarrow> string + 'c"
  root_ok :: "'c \<Rightarrow> string + unit"
  verifier_ok :: "'c list \<Rightarrow> string + unit"
  pair_ok :: "'c list \<Rightarrow> 'k \<Rightarrow> string + unit"

record files =
  contents :: "string \<rightharpoonup> bytes"
  parent_of :: "string \<Rightarrow> string"
  dir_made :: "string \<Rightarrow> bool"
  file_written :: "string \<Rightarrow> bool"

datatype tls_error =
    TlsIo string
  | TlsPem string
  | NoCertificates string
  | NoPrivateKey string
  | RustlsRejected string
  | ClientVerifier string
  | GenerateFailed string

definition read_file :: "files \<Rightarrow> string \<Rightarrow> tls_error + bytes" where
  "read_file fs path = (case contents fs path of Some bs \<Rightarrow> Inr bs | None \<Rightarrow> Inl (TlsIo path))"

definition and_then :: "'e + 'a \<Rightarrow> ('a \<Rightarrow> 'e + 'b) \<Rightarrow> 'e + 'b" where
  "and_then r k = (case r of Inl e \<Rightarrow> Inl e | Inr x \<Rightarrow> k x)"

definition map_err :: "('e \<Rightarrow> 'f) \<Rightarrow> 'e + 'a \<Rightarrow> 'f + 'a" where
  "map_err f r = (case r of Inl e \<Rightarrow> Inl (f e) | Inr x \<Rightarrow> Inr x)"

lemma and_then_simps [simp]: "and_then (Inl e) k = Inl e" "and_then (Inr x) k = k x"
  by (simp_all add: and_then_def)

lemma map_err_simps [simp]: "map_err f (Inl e) = Inl (f e)" "map_err f (Inr x) = Inr x"
  by (simp_all add: map_err_def)

lemma and_then_Inr: "and_then r k = Inr y \<longleftrightarrow> (\<exists>x. r = Inr x \<and> k x = Inr y)"
  by (cases r) simp_all

lemma map_err_Inr: "map_err f r = Inr x \<longleftrightarrow> r = Inr x"
  by (cases r) simp_all

section \<open>Reading certificates\<close>

definition certificates :: "('c, 'k) tls_lib \<Rightarrow> files \<Rightarrow> string \<Rightarrow> tls_error + 'c list" where
  "certificates lib fs path =
     and_then (read_file fs path) (\<lambda>bs.
       and_then (map_err (\<lambda>_. TlsPem path) (pem_certs lib bs)) (\<lambda>certs.
         if certs = [] then Inl (NoCertificates path) else Inr certs))"

definition private_key :: "('c, 'k) tls_lib \<Rightarrow> files \<Rightarrow> string \<Rightarrow> tls_error + 'k" where
  "private_key lib fs path =
     and_then (read_file fs path) (\<lambda>bs.
       map_err (\<lambda>e. case e of NoItemsFound \<Rightarrow> NoPrivateKey path | MalformedPem _ \<Rightarrow> TlsPem path) (pem_key lib bs))"

fun add_roots :: "('c, 'k) tls_lib \<Rightarrow> 'c list \<Rightarrow> 'c list \<Rightarrow> tls_error + 'c list" where
  "add_roots lib roots [] = Inr roots"
| "add_roots lib roots (c # cs) =
     and_then (map_err RustlsRejected (root_ok lib c)) (\<lambda>_. add_roots lib (roots @ [c]) cs)"

lemma add_roots_all: "add_roots lib roots cs = Inr rs \<Longrightarrow> rs = roots @ cs"
proof (induction cs arbitrary: roots)
  case (Cons c cs)
  then have "add_roots lib (roots @ [c]) cs = Inr rs" by (auto simp: and_then_Inr)
  from Cons.IH [OF this] show ?case by simp
qed simp

section \<open>The server\<close>

record tls_paths =
  cert_path :: string
  key_path :: string
  client_ca_path :: "string option"

record ('c, 'k) server_tls =
  sv_chain :: "'c list"
  sv_key :: 'k
  sv_client_roots :: "'c list option"

definition client_auth :: "('c, 'k) tls_lib \<Rightarrow> files \<Rightarrow> string option \<Rightarrow> tls_error + 'c list option" where
  "client_auth lib fs ca =
     (case ca of
        None \<Rightarrow> Inr None
      | Some path \<Rightarrow>
          and_then (certificates lib fs path) (\<lambda>certs.
            and_then (add_roots lib [] certs) (\<lambda>roots.
              and_then (map_err ClientVerifier (verifier_ok lib roots)) (\<lambda>_. Inr (Some roots)))))"

definition tls_acceptor :: "('c, 'k) tls_lib \<Rightarrow> files \<Rightarrow> tls_paths \<Rightarrow> tls_error + ('c, 'k) server_tls" where
  "tls_acceptor lib fs p =
     and_then (certificates lib fs (cert_path p)) (\<lambda>certs.
       and_then (private_key lib fs (key_path p)) (\<lambda>key.
         and_then (client_auth lib fs (client_ca_path p)) (\<lambda>roots.
           and_then (map_err RustlsRejected (pair_ok lib certs key)) (\<lambda>_.
             Inr \<lparr>sv_chain = certs, sv_key = key, sv_client_roots = roots\<rparr>))))"

section \<open>The agent\<close>

record ('c, 'k) client_tls =
  cl_roots :: "'c list"
  cl_identity :: "('c list \<times> 'k) option"

definition build_connector ::
    "('c, 'k) tls_lib \<Rightarrow> files \<Rightarrow> string \<Rightarrow> (string \<times> string) option \<Rightarrow> tls_error + ('c, 'k) client_tls" where
  "build_connector lib fs ca identity =
     and_then (certificates lib fs ca) (\<lambda>cas.
       and_then (add_roots lib [] cas) (\<lambda>roots.
         case identity of
           None \<Rightarrow> Inr \<lparr>cl_roots = roots, cl_identity = None\<rparr>
         | Some (cert, key) \<Rightarrow>
             and_then (certificates lib fs cert) (\<lambda>certs.
               and_then (private_key lib fs key) (\<lambda>k.
                 and_then (map_err RustlsRejected (pair_ok lib certs k)) (\<lambda>_.
                   Inr \<lparr>cl_roots = roots, cl_identity = Some (certs, k)\<rparr>)))))"

definition tls_connector :: "('c, 'k) tls_lib \<Rightarrow> files \<Rightarrow> string \<Rightarrow> tls_error + ('c, 'k) client_tls" where
  "tls_connector lib fs ca = build_connector lib fs ca None"

definition connector_with_client_cert ::
    "('c, 'k) tls_lib \<Rightarrow> files \<Rightarrow> string \<Rightarrow> string \<Rightarrow> string \<Rightarrow> tls_error + ('c, 'k) client_tls" where
  "connector_with_client_cert lib fs ca cert key = build_connector lib fs ca (Some (cert, key))"

section \<open>Generating certificates\<close>

definition write_pem :: "files \<Rightarrow> string \<Rightarrow> bytes \<Rightarrow> (tls_error + unit) \<times> files" where
  "write_pem fs path bs =
     (if parent_of fs path \<noteq> '''' \<and> \<not> dir_made fs (parent_of fs path) then (Inl (TlsIo path), fs)
      else if \<not> file_written fs path then (Inl (TlsIo path), fs)
      else (Inr (), fs\<lparr>contents := (contents fs)(path \<mapsto> bs)\<rparr>))"

fun write_pems :: "files \<Rightarrow> (string \<times> bytes) list \<Rightarrow> (tls_error + unit) \<times> files" where
  "write_pems fs [] = (Inr (), fs)"
| "write_pems fs ((path, bs) # rest) =
     (case write_pem fs path bs of (Inl e, fs1) \<Rightarrow> (Inl e, fs1) | (Inr _, fs1) \<Rightarrow> write_pems fs1 rest)"

definition written :: "files \<Rightarrow> tls_error + (string \<times> bytes) list \<Rightarrow> (tls_error + unit) \<times> files" where
  "written fs r = (case r of Inl e \<Rightarrow> (Inl e, fs) | Inr ps \<Rightarrow> write_pems fs ps)"

definition generate_self_signed ::
    "('c, 'k) tls_lib \<Rightarrow> nat \<Rightarrow> tls_paths \<Rightarrow> string list \<Rightarrow> files \<Rightarrow> (tls_error + unit) \<times> files" where
  "generate_self_signed lib draw p names fs =
     written fs (and_then (map_err GenerateFailed (simple_self_signed lib names draw)) (\<lambda>(cert, key).
       Inr [(cert_path p, cert_pem lib cert), (key_path p, key_pem lib key)]))"

definition generate_ca_and_cert ::
    "('c, 'k) tls_lib \<Rightarrow> nat \<Rightarrow> string \<Rightarrow> string \<Rightarrow> tls_paths \<Rightarrow> string list \<Rightarrow> files \<Rightarrow> (tls_error + unit) \<times> files" where
  "generate_ca_and_cert lib draw ca_cert_path ca_key_path p names fs =
     written fs
       (and_then (map_err GenerateFailed (key_of_draw lib draw)) (\<lambda>ca_key.
        and_then (map_err GenerateFailed (self_signed_ca lib ca_key)) (\<lambda>ca_cert.
        and_then (map_err GenerateFailed (key_of_draw lib (draw + 1))) (\<lambda>leaf_key.
        and_then (map_err GenerateFailed (leaf_signed lib names leaf_key (ca_cert, ca_key))) (\<lambda>leaf_cert.
          Inr [(ca_cert_path, cert_pem lib ca_cert), (ca_key_path, key_pem lib ca_key),
               (cert_path p, cert_pem lib leaf_cert), (key_path p, key_pem lib leaf_key)])))))"

definition read_text :: "files \<Rightarrow> string \<Rightarrow> tls_error + bytes" where
  "read_text fs path =
     and_then (read_file fs path) (\<lambda>bs. if from_utf8 bs = None then Inl (GenerateFailed path) else Inr bs)"

definition issue_client_cert ::
    "('c, 'k) tls_lib \<Rightarrow> nat \<Rightarrow> string \<Rightarrow> string \<Rightarrow> string \<Rightarrow> string \<Rightarrow> string list \<Rightarrow> files \<Rightarrow> (tls_error + unit) \<times> files" where
  "issue_client_cert lib draw ca_cert_path ca_key_path cert key names fs =
     written fs
       (and_then (read_text fs ca_cert_path) (\<lambda>ca_pem.
        and_then (read_text fs ca_key_path) (\<lambda>ca_key_pem.
        and_then (map_err GenerateFailed (key_from_pem lib ca_key_pem)) (\<lambda>ca_key.
        and_then (map_err GenerateFailed (issuer_cert lib ca_pem ca_key)) (\<lambda>ca_cert.
        and_then (map_err GenerateFailed (key_of_draw lib draw)) (\<lambda>k.
        and_then (map_err GenerateFailed (leaf_signed lib names k (ca_cert, ca_key))) (\<lambda>c.
          Inr [(cert, cert_pem lib c), (key, key_pem lib k)])))))))"

section \<open>What the files are after a command\<close>

definition stored :: "(string \<rightharpoonup> bytes) \<Rightarrow> (string \<times> bytes) list \<Rightarrow> (string \<rightharpoonup> bytes)" where
  "stored m ps = fold (\<lambda>(path, bs) m. m(path \<mapsto> bs)) ps m"

lemma write_pems_stored: "write_pems fs ps = (Inr (), fs') \<Longrightarrow> contents fs' = stored (contents fs) ps"
  by (induction ps arbitrary: fs) (auto simp: stored_def write_pem_def split: if_splits)

lemma written_ok: "written fs r = (Inr (), fs') \<Longrightarrow> \<exists>ps. r = Inr ps \<and> contents fs' = stored (contents fs) ps"
  by (auto simp: written_def write_pems_stored split: sum.splits)

text \<open>
  What is relied on of the libraries: what is written as PEM is read back, also as text, a
  generated CA can be a root, and rustls takes a certificate with the key it was made for.
\<close>

definition pem_laws :: "('c, 'k) tls_lib \<Rightarrow> bool" where
  "pem_laws lib =
     ((\<forall>c. pem_certs lib (cert_pem lib c) = Inr [c] \<and> from_utf8 (cert_pem lib c) \<noteq> None)
      \<and> (\<forall>k. pem_key lib (key_pem lib k) = Inr k \<and> key_from_pem lib (key_pem lib k) = Inr k \<and> from_utf8 (key_pem lib k) \<noteq> None)
      \<and> (\<forall>k c. self_signed_ca lib k = Inr c \<longrightarrow>
           issuer_cert lib (cert_pem lib c) k = Inr c \<and> root_ok lib c = Inr () \<and> verifier_ok lib [c] = Inr ())
      \<and> (\<forall>names k issuer c. leaf_signed lib names k issuer = Inr c \<longrightarrow> pair_ok lib [c] k = Inr ()))"

text \<open>A certificate that the holder of a CA's key signed.\<close>

definition issued_by :: "('c, 'k) tls_lib \<Rightarrow> 'c \<Rightarrow> 'k \<Rightarrow> 'c \<Rightarrow> bool" where
  "issued_by lib ca ca_key c = (\<exists>names k. leaf_signed lib names k (ca, ca_key) = Inr c)"

lemma certificates_of_pem:
  "pem_laws lib \<Longrightarrow> contents fs path = Some (cert_pem lib c) \<Longrightarrow> certificates lib fs path = Inr [c]"
  by (simp add: certificates_def read_file_def pem_laws_def)

lemma private_key_of_pem:
  "pem_laws lib \<Longrightarrow> contents fs path = Some (key_pem lib k) \<Longrightarrow> private_key lib fs path = Inr k"
  by (simp add: private_key_def read_file_def pem_laws_def)

lemma generate_ca_stored:
  assumes "generate_ca_and_cert lib draw ca_cert_path ca_key_path p names fs = (Inr (), fs1)"
  obtains ca ca_key leaf leaf_key where "self_signed_ca lib ca_key = Inr ca"
    "leaf_signed lib names leaf_key (ca, ca_key) = Inr leaf"
    "contents fs1 = stored (contents fs) [(ca_cert_path, cert_pem lib ca), (ca_key_path, key_pem lib ca_key),
      (cert_path p, cert_pem lib leaf), (key_path p, key_pem lib leaf_key)]"
  using assms unfolding generate_ca_and_cert_def
  by (auto dest!: written_ok simp: and_then_Inr map_err_Inr)

lemma issue_client_stored:
  assumes "issue_client_cert lib draw ca_cert_path ca_key_path cert key names fs = (Inr (), fs1)"
    and "pem_laws lib" "self_signed_ca lib ca_key = Inr ca"
    and "contents fs ca_cert_path = Some (cert_pem lib ca)" "contents fs ca_key_path = Some (key_pem lib ca_key)"
  obtains c k where "leaf_signed lib names k (ca, ca_key) = Inr c"
    "contents fs1 = stored (contents fs) [(cert, cert_pem lib c), (key, key_pem lib k)]"
proof -
  have "issuer_cert lib (cert_pem lib ca) ca_key = Inr ca" "key_from_pem lib (key_pem lib ca_key) = Inr ca_key"
    "from_utf8 (cert_pem lib ca) \<noteq> None" "from_utf8 (key_pem lib ca_key) \<noteq> None"
    using assms(2,3) by (simp_all add: pem_laws_def)
  then show ?thesis
    using assms(1,4,5) that unfolding issue_client_cert_def
    by (auto dest!: written_ok simp: and_then_Inr map_err_Inr read_text_def read_file_def)
qed

text \<open>
  C30. The certificate commands and the TLS set-up fit together: after a CA, a server
  certificate and a client certificate were written to six different files, the controller
  builds an acceptor that demands client certificates of that CA and the agent builds a
  connector that trusts that CA, and both sides present a certificate the CA signed.
\<close>

theorem generated_certificates_work:
  assumes "pem_laws lib" "distinct [ca_cert, ca_key, cert, key, client_cert, client_key]"
    and "p = \<lparr>cert_path = cert, key_path = key, client_ca_path = Some ca_cert\<rparr>"
    and "generate_ca_and_cert lib draw ca_cert ca_key p names fs = (Inr (), fs1)"
    and "issue_client_cert lib draw' ca_cert ca_key client_cert client_key names' fs1 = (Inr (), fs2)"
  shows "\<exists>ca cak leaf k c ck.
    tls_acceptor lib fs2 p = Inr \<lparr>sv_chain = [leaf], sv_key = k, sv_client_roots = Some [ca]\<rparr> \<and>
    connector_with_client_cert lib fs2 ca_cert client_cert client_key = Inr \<lparr>cl_roots = [ca], cl_identity = Some ([c], ck)\<rparr> \<and>
    issued_by lib ca cak leaf \<and> issued_by lib ca cak c"
proof -
  obtain ca cak leaf k where g: "self_signed_ca lib cak = Inr ca" "leaf_signed lib names k (ca, cak) = Inr leaf"
    and "contents fs1 = stored (contents fs) [(ca_cert, cert_pem lib ca), (ca_key, key_pem lib cak),
      (cert_path p, cert_pem lib leaf), (key_path p, key_pem lib k)]"
    by (rule generate_ca_stored [OF assms(4)])
  then have g3: "contents fs1 = stored (contents fs) [(ca_cert, cert_pem lib ca), (ca_key, key_pem lib cak),
      (cert, cert_pem lib leaf), (key, key_pem lib k)]"
    by (simp add: assms(3))
  have ca1: "contents fs1 ca_cert = Some (cert_pem lib ca)" "contents fs1 ca_key = Some (key_pem lib cak)"
    using assms(2) by (simp_all add: g3 stored_def)
  obtain c ck where i: "leaf_signed lib names' ck (ca, cak) = Inr c"
    "contents fs2 = stored (contents fs1) [(client_cert, cert_pem lib c), (client_key, key_pem lib ck)]"
    using issue_client_stored [OF assms(5,1) g(1) ca1] by blast
  have files: "contents fs2 ca_cert = Some (cert_pem lib ca)" "contents fs2 cert = Some (cert_pem lib leaf)"
    "contents fs2 key = Some (key_pem lib k)" "contents fs2 client_cert = Some (cert_pem lib c)"
    "contents fs2 client_key = Some (key_pem lib ck)"
    using assms(2) by (simp_all add: i(2) g3 stored_def)
  have ok: "root_ok lib ca = Inr ()" "verifier_ok lib [ca] = Inr ()" "pair_ok lib [leaf] k = Inr ()" "pair_ok lib [c] ck = Inr ()"
    using assms(1) g(1,2) i(1) unfolding pem_laws_def by blast+
  note read = certificates_of_pem [OF assms(1) files(1)] certificates_of_pem [OF assms(1) files(2)]
    private_key_of_pem [OF assms(1) files(3)] certificates_of_pem [OF assms(1) files(4)] private_key_of_pem [OF assms(1) files(5)]
  have "tls_acceptor lib fs2 p = Inr \<lparr>sv_chain = [leaf], sv_key = k, sv_client_roots = Some [ca]\<rparr>"
    by (simp add: tls_acceptor_def client_auth_def assms(3) read ok)
  moreover have "connector_with_client_cert lib fs2 ca_cert client_cert client_key = Inr \<lparr>cl_roots = [ca], cl_identity = Some ([c], ck)\<rparr>"
    by (simp add: connector_with_client_cert_def build_connector_def read ok)
  moreover have "issued_by lib ca cak leaf" "issued_by lib ca cak c"
    using g(2) i(1) by (auto simp: issued_by_def)
  ultimately show ?thesis by blast
qed

definition two_cert_lib :: "(bool, bool) tls_lib" where
  "two_cert_lib =
     \<lparr>pem_certs = (\<lambda>bs. Inr [bs = [1]]), pem_key = (\<lambda>bs. Inr (bs = [1])), cert_pem = (\<lambda>c. [if c then 1 else 0]),
      key_pem = (\<lambda>k. [if k then 1 else 0]), key_of_draw = (\<lambda>n. Inr (even n)), self_signed_ca = (\<lambda>_. Inr True),
      leaf_signed = (\<lambda>_ _ _. Inr False), simple_self_signed = (\<lambda>_ n. Inr (False, even n)), key_from_pem = (\<lambda>bs. Inr (bs = [1])),
      issuer_cert = (\<lambda>bs _. Inr (bs = [1])), root_ok = (\<lambda>_. Inr ()), verifier_ok = (\<lambda>_. Inr ()), pair_ok = (\<lambda>_ _. Inr ())\<rparr>"

definition empty_disk :: files where
  "empty_disk = \<lparr>contents = Map.empty, parent_of = (\<lambda>_. ''''), dir_made = (\<lambda>_. True), file_written = (\<lambda>_. True)\<rparr>"

lemma two_cert_laws: "pem_laws two_cert_lib"
  by (auto simp: pem_laws_def two_cert_lib_def Let_def)

definition lab_paths :: tls_paths where
  "lab_paths = \<lparr>cert_path = ''cert.pem'', key_path = ''key.pem'', client_ca_path = Some ''ca.pem''\<rparr>"

definition lab_disk :: files where
  "lab_disk = snd (issue_client_cert two_cert_lib 2 ''ca.pem'' ''ca.key'' ''client.pem'' ''client.key'' [''node'']
     (snd (generate_ca_and_cert two_cert_lib 0 ''ca.pem'' ''ca.key'' lab_paths [''localhost''] empty_disk)))"

theorem generated_certificates_work_witness:
  "\<exists>s. tls_acceptor two_cert_lib lab_disk lab_paths = Inr s \<and> (\<exists>ca. sv_client_roots s = Some [ca])"
proof -
  let ?g = "generate_ca_and_cert two_cert_lib 0 ''ca.pem'' ''ca.key'' lab_paths [''localhost''] empty_disk"
  have g: "?g = (Inr (), snd ?g)"
    by (simp add: generate_ca_and_cert_def two_cert_lib_def lab_paths_def empty_disk_def written_def write_pem_def)
  have i: "issue_client_cert two_cert_lib 2 ''ca.pem'' ''ca.key'' ''client.pem'' ''client.key'' [''node''] (snd ?g) = (Inr (), lab_disk)"
    by (simp add: lab_disk_def generate_ca_and_cert_def issue_client_cert_def two_cert_lib_def lab_paths_def empty_disk_def
        written_def write_pem_def read_text_def read_file_def Let_def)
  have d: "distinct [''ca.pem'', ''ca.key'', ''cert.pem'', ''key.pem'', ''client.pem'', ''client.key'']" by simp
  show ?thesis
    using generated_certificates_work [OF two_cert_laws d lab_paths_def g i] by (metis server_tls.select_convs(3))
qed

text \<open>An acceptor demands client certificates exactly when a client CA is configured, and then that CA's.\<close>

lemma acceptor_client_roots:
  assumes "tls_acceptor lib fs p = Inr s"
  shows "(sv_client_roots s = None) = (client_ca_path p = None) \<and>
    (\<forall>path. client_ca_path p = Some path \<longrightarrow> (\<exists>certs. certificates lib fs path = Inr certs \<and> certs \<noteq> [] \<and> sv_client_roots s = Some certs))"
proof -
  have ne: "certificates lib fs path = Inr certs \<Longrightarrow> certs \<noteq> []" for path certs
    by (auto simp: certificates_def and_then_Inr split: if_splits)
  show ?thesis
    using assms ne by (auto simp: tls_acceptor_def client_auth_def and_then_Inr dest!: add_roots_all split: option.splits)
qed

text \<open>The certificate and the key of a self-signed pair must not share a file: the key replaces the certificate.\<close>

lemma shared_path_loses_certificate:
  assumes "generate_self_signed lib draw \<lparr>cert_path = path, key_path = path, client_ca_path = None\<rparr> names fs = (Inr (), fs1)"
  shows "\<exists>k. contents fs1 path = Some (key_pem lib k)"
proof -
  obtain c k where "contents fs1 = stored (contents fs) [(path, cert_pem lib c), (path, key_pem lib k)]"
    using assms unfolding generate_self_signed_def by (auto dest!: written_ok simp: and_then_Inr map_err_Inr)
  then show ?thesis by (auto simp: stored_def)
qed

section \<open>Connections over TLS\<close>

text \<open>
  A connection accepted by \<^verbatim>\<open>serve_tls\<close> or \<^verbatim>\<open>serve_clients_tls\<close>: the handler of the plaintext
  listener, on the stream of a handshake that succeeded; otherwise nothing is handled.
\<close>

definition tls_serve ::
    "(('c, 'k) server_tls \<Rightarrow> 's \<Rightarrow> string + 'p) \<Rightarrow> ('p \<Rightarrow> 'r) \<Rightarrow> ('c, 'k) server_tls \<Rightarrow> 's \<Rightarrow> 'r option" where
  "tls_serve handshake handler srv stream =
     (case handshake srv stream of Inl _ \<Rightarrow> None | Inr peer \<Rightarrow> Some (handler peer))"

datatype connect_error = BadServerName string | ConnectFailed string

text \<open>The agent's side: the name is checked first, then the socket, then the handshake.\<close>

definition tls_connect ::
    "(string \<Rightarrow> bool) \<Rightarrow> (string \<Rightarrow> string + 't) \<Rightarrow> (('c, 'k) client_tls \<Rightarrow> string \<Rightarrow> 't \<Rightarrow> string + 's) \<Rightarrow>
     ('c, 'k) client_tls \<Rightarrow> string \<Rightarrow> string \<Rightarrow> connect_error + 's" where
  "tls_connect valid_name dial handshake cl addr name =
     (if \<not> valid_name name then Inl (BadServerName name)
      else and_then (map_err ConnectFailed (dial addr)) (\<lambda>tcp. map_err ConnectFailed (handshake cl name tcp)))"

text \<open>
  Mutual TLS: with a client CA configured, nothing of a connection is handled unless the peer
  presented a chain that the certificates of that CA's file verify. The hypothesis is what
  \<^verbatim>\<open>rustls\<close> says of its client verifier.
\<close>

lemma mutual_tls_enforced:
  assumes "\<And>srv stream peer roots. handshake srv stream = Inr peer \<Longrightarrow> sv_client_roots srv = Some roots \<Longrightarrow>
      \<exists>chain. presented stream = Some chain \<and> verifies roots chain"
    and "tls_acceptor lib fs p = Inr srv" "client_ca_path p = Some path"
    and "tls_serve handshake handler srv stream = Some r"
  shows "\<exists>certs chain. certificates lib fs path = Inr certs \<and> presented stream = Some chain \<and> verifies certs chain"
proof -
  obtain peer where "handshake srv stream = Inr peer"
    using assms(4) by (auto simp: tls_serve_def split: sum.splits)
  then show ?thesis
    using assms(1) [of srv stream peer] acceptor_client_roots [OF assms(2)] assms(3) by blast
qed

end
