(* ===== verification/Process.thy ===== *)
theory Process
  imports Config Dispatcher Telemetry Probe AgentRun Tls
begin

text \<open>
  How the two processes are put together (crates/aether-controller/src/main.rs,
  crates/aether-agent/src/main.rs): command-line flags over the configuration file, the
  background jobs that are started, the listeners with their credentials and transport
  security. Starting is the list of jobs started so far with an error or the end. What the
  operating system and the TLS library answer is a record of functions; \<^verbatim>\<open>clap\<close> and the
  logging are not modelled.
\<close>

section \<open>Opening the journal\<close>

text \<open>
  \<^verbatim>\<open>Journal::open\<close>: the directories above the file are made first; opening for appending keeps
  what the file has and makes an empty one otherwise. \<^verbatim>\<open>parent\<close> is \<^verbatim>\<open>Path::parent\<close>, with the
  empty text for a bare file name.
\<close>

definition journal_open ::
    "(string \<Rightarrow> string) \<Rightarrow> (string \<Rightarrow> bool) \<Rightarrow> (string \<Rightarrow> bool) \<Rightarrow> (string \<rightharpoonup> string) \<Rightarrow> string \<Rightarrow> checkpoint_error + journal" where
  "journal_open parent made writable files path =
     (if parent path \<noteq> '''' \<and> \<not> made (parent path) then Inl Io
      else if \<not> writable path then Inl Io
      else Inr (Some (case files path of Some content \<Rightarrow> content | None \<Rightarrow> '''')))"

section \<open>The controller\<close>

datatype controller_command =
    GenerateCert "string list" string string bool string string
  | IssueClientCert string string string string string

text \<open>The certificate commands on the files of the machine.\<close>

fun run_tls_command ::
    "('c, 'k) tls_lib \<Rightarrow> nat \<Rightarrow> controller_command \<Rightarrow> files \<Rightarrow> (tls_error + unit) \<times> files" where
  "run_tls_command lib draw (GenerateCert host cert key with_ca ca_cert ca_key) fs =
     (let p = \<lparr>cert_path = cert, key_path = key, client_ca_path = None\<rparr>
      in if with_ca then generate_ca_and_cert lib draw ca_cert ca_key p host fs
         else generate_self_signed lib draw p host fs)"
| "run_tls_command lib draw (IssueClientCert name ca_cert ca_key cert key) fs =
     issue_client_cert lib draw ca_cert ca_key cert key [name] fs"

record controller_args =
  ca_config :: "string option"
  ca_listen :: "string option"
  ca_client_listen :: "string option"
  ca_no_client_api :: bool
  ca_metrics_listen :: "string option"
  ca_heartbeat_timeout_secs :: "nat option"
  ca_auth_token :: "string option"
  ca_otlp_endpoint :: "string option"
  ca_command :: "controller_command option"

definition overridden :: "'a option \<Rightarrow> 'a \<Rightarrow> 'a" where
  "overridden flag v = (case flag of Some x \<Rightarrow> x | None \<Rightarrow> v)"

definition overridden_option :: "'a option \<Rightarrow> 'a option \<Rightarrow> 'a option" where
  "overridden_option flag v = (if flag \<noteq> None then flag else v)"

definition controller_flags :: "controller_args \<Rightarrow> controller_config \<Rightarrow> controller_config" where
  "controller_flags args c =
     (let c1 = c\<lparr>cc_listen := overridden (ca_listen args) (cc_listen c)\<rparr>;
          c2 = c1\<lparr>cc_client_listen := overridden_option (ca_client_listen args) (cc_client_listen c1)\<rparr>;
          c3 = (if ca_no_client_api args then c2\<lparr>cc_client_listen := None\<rparr> else c2);
          c4 = c3\<lparr>cc_heartbeat_timeout_secs := overridden (ca_heartbeat_timeout_secs args) (cc_heartbeat_timeout_secs c3)\<rparr>;
          c5 = c4\<lparr>cc_auth_token := overridden_option (ca_auth_token args) (cc_auth_token c4)\<rparr>
      in c5\<lparr>cc_metrics_listen := overridden_option (ca_metrics_listen args) (cc_metrics_listen c5)\<rparr>)"

record tls_setup =
  tls_cert :: string
  tls_key :: string
  tls_client_ca :: "string option"

definition tls_config :: "controller_config \<Rightarrow> string \<times> string \<Rightarrow> tls_setup" where
  "tls_config c paths = \<lparr>tls_cert = fst paths, tls_key = snd paths, tls_client_ca = config_client_ca_path c\<rparr>"

datatype boot_error =
    ConfigFailed config_error
  | TracingFailed string
  | CommandFailed string
  | BindFailed string
  | JournalFailed checkpoint_error
  | TlsFailed string
  | NoTlsSupport
  | IdentityFailed

text \<open>The environment of a start: features of the build, files, sockets, and the TLS library.\<close>

record boot =
  has_tls :: bool
  has_otel :: bool
  otel_init :: "string \<Rightarrow> string + unit"
  run_command :: "controller_command \<Rightarrow> string + unit"
  bind_to :: "string \<Rightarrow> string + string"
  open_journal :: "string \<Rightarrow> checkpoint_error + journal"
  acceptor :: "tls_setup \<Rightarrow> string + unit"

datatype controller_job =
    MonitorHealth duration duration
  | MonitorProbes duration nat
  | LogMetrics duration
  | MonitorScaling policy duration
  | ServeMetrics string
  | RunDispatcher controller scheduler_kind "nat queue" nat
  | ServeClients string security_config "tls_setup option"
  | ServeAgents string mesh_state security_config "tls_setup option"

type_synonym 'j startup = "'j list \<times> (boot_error + unit)"

text \<open>\<^verbatim>\<open>?\<close>: an error ends the start with the jobs there are.\<close>

definition attempt :: "'e + 'a \<Rightarrow> ('e \<Rightarrow> boot_error) \<Rightarrow> 'j list \<Rightarrow> ('a \<Rightarrow> 'j startup) \<Rightarrow> 'j startup" where
  "attempt r wrap jobs k = (case r of Inl e \<Rightarrow> (jobs, Inl (wrap e)) | Inr x \<Rightarrow> k x)"

definition start_tracing :: "boot \<Rightarrow> string option \<Rightarrow> string + unit" where
  "start_tracing b endpoint =
     (case endpoint of Some e \<Rightarrow> if has_otel b then otel_init b e else Inr () | None \<Rightarrow> Inr ())"

text \<open>The jobs that only need the shared state.\<close>

definition background_jobs :: "controller_config \<Rightarrow> controller_job list" where
  "background_jobs c =
     [MonitorHealth (config_heartbeat_timeout c) DEFAULT_CHECK_INTERVAL]
     @ (if cc_probe_interval_secs c > 0 then [MonitorProbes (from_secs (cc_probe_interval_secs c)) (cc_probe_bytes c)] else [])
     @ (if cc_metrics_interval_secs c > 0 then [LogMetrics (from_secs (cc_metrics_interval_secs c))] else [])
     @ (if cc_autoscale_interval_secs c > 0
        then [MonitorScaling (cc_autoscale c) (from_secs (cc_autoscale_interval_secs c))] else [])"

text \<open>The controller behind the client API.\<close>

definition configured_controller ::
    "boot \<Rightarrow> controller_config \<Rightarrow> mesh_state \<Rightarrow> checkpoint_error + controller" where
  "configured_controller b c st =
     (let k = with_traffic_stats (controller_new (catalog st)) (traffic_stats st);
          k1 = (case config_result_cache c of Some rc \<Rightarrow> with_result_cache k rc | None \<Rightarrow> k)
      in case cc_checkpoint_path c of
           None \<Rightarrow> Inr k1
         | Some path \<Rightarrow> (case open_journal b path of Inl e \<Rightarrow> Inl e | Inr j \<Rightarrow> Inr (with_checkpoint k1 j)))"

text \<open>A listener with the transport security of the configuration.\<close>

definition serve_with ::
    "boot \<Rightarrow> controller_config \<Rightarrow> controller_job list \<Rightarrow> (tls_setup option \<Rightarrow> controller_job) \<Rightarrow>
     (controller_job list \<Rightarrow> controller_job startup) \<Rightarrow> controller_job startup" where
  "serve_with b c jobs job k =
     (case config_tls_paths c of
        None \<Rightarrow> k (jobs @ [job None])
      | Some paths \<Rightarrow>
          (if \<not> has_tls b then (jobs, Inl NoTlsSupport)
           else let t = tls_config c paths
                in attempt (acceptor b t) TlsFailed jobs (\<lambda>_. k (jobs @ [job (Some t)]))))"

definition start_clients ::
    "boot \<Rightarrow> controller_config \<Rightarrow> mesh_state \<Rightarrow> controller_job list \<Rightarrow> (controller_job list \<Rightarrow> controller_job startup)
     \<Rightarrow> controller_job startup" where
  "start_clients b c st jobs k =
     (case cc_client_listen c of
        None \<Rightarrow> k jobs
      | Some client_addr \<Rightarrow>
          attempt (configured_controller b c st) JournalFailed jobs (\<lambda>controller.
            let jobs1 = jobs @ [RunDispatcher controller (ByScore (cc_scheduler_weights c)) (config_task_queue c) 64]
            in attempt (bind_to b client_addr) BindFailed jobs1 (\<lambda>addr.
                 serve_with b c jobs1 (ServeClients addr (config_security c)) k)))"

definition start_metrics ::
    "boot \<Rightarrow> controller_config \<Rightarrow> controller_job list \<Rightarrow> (controller_job list \<Rightarrow> controller_job startup)
     \<Rightarrow> controller_job startup" where
  "start_metrics b c jobs k =
     (case cc_metrics_listen c of
        None \<Rightarrow> k jobs
      | Some m \<Rightarrow> attempt (bind_to b m) BindFailed jobs (\<lambda>addr. k (jobs @ [ServeMetrics addr])))"

definition serve_mesh :: "boot \<Rightarrow> controller_config \<Rightarrow> controller_job startup" where
  "serve_mesh b c =
     (let st = with_heartbeat_timeout mesh_state_new (config_heartbeat_timeout c)
      in attempt (bind_to b (cc_listen c)) BindFailed [] (\<lambda>addr.
           start_metrics b c (background_jobs c) (\<lambda>jobs.
             start_clients b c st jobs (\<lambda>jobs1.
               serve_with b c jobs1 (ServeAgents addr st (config_security c)) (\<lambda>jobs2. (jobs2, Inr ()))))))"

definition controller_main ::
    "boot \<Rightarrow> (controller_args \<Rightarrow> config_error + controller_config) \<Rightarrow> controller_args \<Rightarrow> controller_job startup" where
  "controller_main b load args =
     attempt (load args) ConfigFailed [] (\<lambda>c0.
       let c = c0\<lparr>cc_otlp_endpoint := overridden_option (ca_otlp_endpoint args) (cc_otlp_endpoint c0)\<rparr>
       in attempt (start_tracing b (cc_otlp_endpoint c)) TracingFailed [] (\<lambda>_.
            case (if has_tls b then ca_command args else None) of
              Some cmd \<Rightarrow> attempt (run_command b cmd) CommandFailed [] (\<lambda>_. ([], Inr ()))
            | None \<Rightarrow> serve_mesh b (controller_flags args c)))"

section \<open>What is served\<close>

text \<open>The transport security a configuration asks for.\<close>

definition configured_tls :: "controller_config \<Rightarrow> tls_setup option" where
  "configured_tls c = map_option (tls_config c) (config_tls_paths c)"

text \<open>A job that may exist under a configuration.\<close>

fun as_configured :: "controller_config \<Rightarrow> controller_job \<Rightarrow> bool" where
  "as_configured c (ServeAgents _ st security tls) =
     (security = config_security c \<and> tls = configured_tls c \<and> heartbeat_timeout st = Some (config_heartbeat_timeout c))"
| "as_configured c (ServeClients _ security tls) = (security = config_security c \<and> tls = configured_tls c)"
| "as_configured c (MonitorHealth d _) = (d = config_heartbeat_timeout c)"
| "as_configured c (RunDispatcher k _ q _) = (q = config_task_queue c \<and> (checkpoint k \<noteq> None) = (cc_checkpoint_path c \<noteq> None))"
| "as_configured c _ = True"

abbreviation all_configured :: "controller_config \<Rightarrow> controller_job startup \<Rightarrow> bool" where
  "all_configured c r \<equiv> list_all (as_configured c) (fst r)"

lemma attempt_configured:
  "list_all (as_configured c) jobs \<Longrightarrow> (\<And>x. r = Inr x \<Longrightarrow> all_configured c (k x)) \<Longrightarrow> all_configured c (attempt r wrap jobs k)"
  by (simp add: attempt_def split: sum.split)

lemma serve_with_configured:
  assumes "list_all (as_configured c) jobs" "as_configured c (job (configured_tls c))"
    and "\<And>jobs. list_all (as_configured c) jobs \<Longrightarrow> all_configured c (k jobs)"
  shows "all_configured c (serve_with b c jobs job k)"
proof (cases "config_tls_paths c")
  case None
  then show ?thesis using assms by (simp add: serve_with_def configured_tls_def)
next
  case (Some paths)
  have "all_configured c (k (jobs @ [job (Some (tls_config c paths))]))"
    using assms(1,2) Some by (intro assms(3)) (simp add: configured_tls_def)
  then show ?thesis
    using Some assms(1) by (simp add: serve_with_def Let_def attempt_def split: sum.split)
qed

lemma configured_controller_checkpoint:
  "configured_controller b c st = Inr k \<Longrightarrow> (checkpoint k \<noteq> None) = (cc_checkpoint_path c \<noteq> None)"
  by (auto simp: configured_controller_def controller_new_def with_traffic_stats_def with_result_cache_def with_checkpoint_def
      Let_def split: option.splits sum.splits)

lemma serve_mesh_configured: "all_configured c (serve_mesh b c)"
proof -
  let ?st = "with_heartbeat_timeout mesh_state_new (config_heartbeat_timeout c)"
  let ?ok = "list_all (as_configured c)"
  have agents: "all_configured c (serve_with b c jobs (ServeAgents addr ?st (config_security c)) (\<lambda>jobs2. (jobs2, Inr ())))"
    if "?ok jobs" for jobs addr
    by (rule serve_with_configured [OF that]) (simp_all add: with_heartbeat_timeout_def)
  have clients: "all_configured c (start_clients b c ?st jobs k)"
    if ok: "?ok jobs" and k: "\<And>jobs. ?ok jobs \<Longrightarrow> all_configured c (k jobs)" for jobs k
  proof (cases "cc_client_listen c")
    case (Some client_addr)
    have "?ok (jobs @ [RunDispatcher r (ByScore (cc_scheduler_weights c)) (config_task_queue c) 64])"
      if "configured_controller b c ?st = Inr r" for r
      using ok configured_controller_checkpoint [OF that] by simp
    then show ?thesis
      unfolding start_clients_def Some option.case Let_def
      by (intro attempt_configured ok serve_with_configured k) simp_all
  qed (simp add: start_clients_def k ok)
  have metrics: "all_configured c (start_metrics b c jobs k)"
    if ok: "?ok jobs" and k: "\<And>jobs. ?ok jobs \<Longrightarrow> all_configured c (k jobs)" for jobs k
  proof (cases "cc_metrics_listen c")
    case (Some m)
    then show ?thesis
      unfolding start_metrics_def Some option.case by (intro attempt_configured ok k) (simp add: ok)
  qed (simp add: start_metrics_def k ok)
  have "?ok (background_jobs c)" by (simp add: background_jobs_def)
  then show ?thesis
    unfolding serve_mesh_def Let_def by (intro attempt_configured metrics clients agents) simp_all
qed

lemma attempt_ok: "snd (attempt r wrap jobs k) = Inr () \<Longrightarrow> \<exists>x. attempt r wrap jobs k = k x"
  by (auto simp: attempt_def split: sum.splits)

lemma serve_with_ok:
  "snd (serve_with b c jobs job k) = Inr () \<Longrightarrow> serve_with b c jobs job k = k (jobs @ [job (configured_tls c)])"
  by (auto simp: serve_with_def configured_tls_def attempt_def Let_def split: option.splits sum.splits if_splits)

lemma start_clients_ok: "snd (start_clients b c st jobs k) = Inr () \<Longrightarrow> \<exists>js. start_clients b c st jobs k = k js"
  by (auto simp: start_clients_def attempt_def Let_def split: option.splits sum.splits dest!: serve_with_ok)

lemma start_metrics_ok: "snd (start_metrics b c jobs k) = Inr () \<Longrightarrow> \<exists>js. start_metrics b c jobs k = k js"
  by (auto simp: start_metrics_def split: option.splits dest!: attempt_ok)

lemma serve_mesh_serves:
  assumes "snd (serve_mesh b c) = Inr ()"
  shows "\<exists>addr st. ServeAgents addr st (config_security c) (configured_tls c) \<in> set (fst (serve_mesh b c))"
proof -
  let ?st = "with_heartbeat_timeout mesh_state_new (config_heartbeat_timeout c)"
  obtain addr where 1: "serve_mesh b c = start_metrics b c (background_jobs c) (\<lambda>jobs. start_clients b c ?st jobs
      (\<lambda>jobs1. serve_with b c jobs1 (ServeAgents addr ?st (config_security c)) (\<lambda>jobs2. (jobs2, Inr ()))))"
    using attempt_ok assms unfolding serve_mesh_def Let_def by blast
  obtain js where 2: "serve_mesh b c = start_clients b c ?st js
      (\<lambda>jobs1. serve_with b c jobs1 (ServeAgents addr ?st (config_security c)) (\<lambda>jobs2. (jobs2, Inr ())))"
    using start_metrics_ok assms unfolding 1 by blast
  obtain js1 where 3: "serve_mesh b c = serve_with b c js1 (ServeAgents addr ?st (config_security c)) (\<lambda>jobs2. (jobs2, Inr ()))"
    using start_clients_ok assms unfolding 2 by blast
  show ?thesis
    using serve_with_ok [of b c js1] assms unfolding 3 by fastforce
qed


definition plain_boot :: boot where
  "plain_boot = \<lparr>has_tls = False, has_otel = False, otel_init = (\<lambda>_. Inr ()), run_command = (\<lambda>_. Inr ()), bind_to = Inr,
     open_journal = (\<lambda>_. Inr (Some '''')), acceptor = (\<lambda>_. Inr ())\<rparr>"

definition token_args :: controller_args where
  "token_args = \<lparr>ca_config = None, ca_listen = None, ca_client_listen = None, ca_no_client_api = True,
     ca_metrics_listen = None, ca_heartbeat_timeout_secs = Some 60, ca_auth_token = Some ''secret'', ca_otlp_endpoint = None,
     ca_command = None\<rparr>"


text \<open>
  A client CA alone asks for mutual TLS and gets a plaintext listener: the configuration is
  accepted and no transport security is set up.
\<close>

lemma client_ca_alone_is_plaintext:
  "config_validate (controller_config_default\<lparr>cc_tls_client_ca_path := Some ''ca.pem''\<rparr>) = Inr () \<and>
   configured_tls (controller_config_default\<lparr>cc_tls_client_ca_path := Some ''ca.pem''\<rparr>) = None"
  by (simp add: config_validate_def configured_tls_def config_tls_paths_def controller_config_default_def)

section \<open>The agent\<close>

record agent_args =
  aa_config :: "string option"
  aa_controller :: "string option"
  aa_advertise :: "string option"
  aa_heartbeat_secs :: "nat option"
  aa_auth_token :: "string option"
  aa_tls_ca :: "string option"
  aa_tls_client_cert :: "string option"
  aa_tls_client_key :: "string option"
  aa_identity_path :: "string option"
  aa_data_channels :: "nat option"
  aa_labels :: "string list"
  aa_storage_budget_mb :: "nat option"
  aa_max_concurrent_tasks :: "nat option"
  aa_reconnect_max_secs :: "nat option"
  aa_otlp_endpoint :: "string option"

definition agent_flags :: "agent_args \<Rightarrow> agent_config \<Rightarrow> agent_config" where
  "agent_flags args c =
     c\<lparr>ac_controller := overridden (aa_controller args) (ac_controller c),
       ac_advertise := overridden (aa_advertise args) (ac_advertise c),
       ac_heartbeat_secs := overridden (aa_heartbeat_secs args) (ac_heartbeat_secs c),
       ac_auth_token := overridden_option (aa_auth_token args) (ac_auth_token c),
       ac_tls_ca_path := overridden_option (aa_tls_ca args) (ac_tls_ca_path c),
       ac_identity_path := overridden_option (aa_identity_path args) (ac_identity_path c),
       ac_tls_client_cert_path := overridden_option (aa_tls_client_cert args) (ac_tls_client_cert_path c),
       ac_tls_client_key_path :=
         (if aa_tls_client_cert args \<noteq> None then aa_tls_client_key args else ac_tls_client_key_path c),
       ac_data_channels := overridden (aa_data_channels args) (ac_data_channels c),
       ac_labels := ac_labels c @ aa_labels args,
       ac_storage_budget_bytes :=
         overridden_option (map_option (\<lambda>mb. min (mb * (1024 * 1024)) (2 ^ 64 - 1)) (aa_storage_budget_mb args))
           (ac_storage_budget_bytes c),
       ac_max_concurrent_tasks := overridden_option (aa_max_concurrent_tasks args) (ac_max_concurrent_tasks c),
       ac_reconnect_max_secs := overridden (aa_reconnect_max_secs args) (ac_reconnect_max_secs c)\<rparr>"

datatype agent_link = PlainLink nat | TlsLink string string "(string \<times> string) option"

record agent_plan =
  ap_info :: node_info
  ap_heartbeat :: duration
  ap_reconnect :: duration
  ap_store :: store
  ap_max_tasks :: "nat option"
  ap_token :: "string option"
  ap_controller :: string
  ap_link :: agent_link

definition agent_info :: "agent_config \<Rightarrow> node_id \<Rightarrow> system_reading \<Rightarrow> node_info" where
  "agent_info c n r =
     (let i = local_node_info n (ac_advertise c) r;
          i1 = (case ac_bandwidth_bytes_per_sec c of Some b \<Rightarrow> with_bandwidth i b | None \<Rightarrow> i)
      in with_labels i1 (parsed_labels c))"

text \<open>
  The start of the agent up to its connection loop. \<open>identity\<close> is \<^verbatim>\<open>load_or_create\<close> on the files of
  the machine, \<open>connector\<close> whether the TLS library takes the certificates.
\<close>

definition agent_main ::
    "bool \<Rightarrow> bool \<Rightarrow> (string \<Rightarrow> string + unit) \<Rightarrow> (agent_args \<Rightarrow> config_error + agent_config) \<Rightarrow> (string \<Rightarrow> string option) \<Rightarrow>
     (string \<Rightarrow> node_id option) \<Rightarrow> system_reading \<Rightarrow> (string \<Rightarrow> (string \<times> string) option \<Rightarrow> string + unit) \<Rightarrow> agent_args \<Rightarrow>
     boot_error + agent_plan" where
  "agent_main tls otel otel_start load var identity reading connector args =
     (case (case aa_otlp_endpoint args of Some e \<Rightarrow> if otel then otel_start e else Inr () | None \<Rightarrow> Inr ()) of
        Inl e \<Rightarrow> Inl (TracingFailed e)
      | Inr _ \<Rightarrow>
     (case load args of
        Inl e \<Rightarrow> Inl (ConfigFailed e)
      | Inr c0 \<Rightarrow>
          (let c = agent_flags args c0;
               path = (case ac_identity_path c of Some p \<Rightarrow> p | None \<Rightarrow> default_identity_path var)
           in case identity path of
                None \<Rightarrow> Inl IdentityFailed
              | Some n \<Rightarrow>
                  (let plan = (\<lambda>link. \<lparr>ap_info = agent_info c n reading, ap_heartbeat = from_secs (ac_heartbeat_secs c),
                          ap_reconnect = from_secs (ac_reconnect_max_secs c),
                          ap_store = (case ac_storage_budget_bytes c of Some b \<Rightarrow> with_budget b | None \<Rightarrow> store_new),
                          ap_max_tasks = ac_max_concurrent_tasks c, ap_token = ac_auth_token c,
                          ap_controller = ac_controller c, ap_link = link\<rparr>)
                   in case ac_tls_ca_path c of
                        None \<Rightarrow> Inr (plan (PlainLink (ac_data_channels c)))
                      | Some ca \<Rightarrow>
                          (if \<not> tls then Inl NoTlsSupport
                           else case connector ca (client_identity c) of
                                  Inl e \<Rightarrow> Inl (TlsFailed e)
                                | Inr _ \<Rightarrow> Inr (plan (TlsLink ca (server_name c) (client_identity c))))))))"

text \<open>
  One turn of the connection loop, after the controller's reply to the registration: the agent
  with the store that outlives its connections, and the data channels it opens.
\<close>

definition agent_session :: "agent_plan \<Rightarrow> nat \<Rightarrow> store \<Rightarrow> message \<Rightarrow> client_error + agent \<times> nat" where
  "agent_session p cpu_count st reply =
     (case agent_register cpu_count (ap_info p) reply of
        Inl e \<Rightarrow> Inl e
      | Inr a \<Rightarrow>
          (let a1 = with_store a st;
               a2 = (case ap_max_tasks p of Some n \<Rightarrow> with_max_concurrent_tasks a1 n | None \<Rightarrow> a1)
           in Inr (a2, case ap_link p of PlainLink channels \<Rightarrow> channels | TlsLink _ _ _ \<Rightarrow> 0)))"

text \<open>A session has the node's own id, its store and what the controller announced.\<close>

lemma agent_session_parts:
  "agent_session p cpu_count st (RegisterAccepted n token secs) = Inr (a, channels) \<Longrightarrow>
   agent_id a = info_id (ap_info p) \<and> n = info_id (ap_info p) \<and> a_store a = st \<and> a_timeout a = from_secs secs"
  by (auto simp: agent_session_def agent_register_def with_store_def with_max_concurrent_tasks_def Let_def
      split: if_splits option.splits)

text \<open>Over TLS the configured data channels are not opened.\<close>

lemma tls_opens_no_channels:
  "ap_link p = TlsLink ca name identity \<Longrightarrow> agent_session p cpu_count st reply = Inr (a, channels) \<Longrightarrow> channels = 0"
  by (auto simp: agent_session_def Let_def split: sum.splits)

end
