(* ===== verification/Screen.thy ===== *)
theory Screen
  imports Dashboard Bench Telemetry
begin

text \<open>
  What the dashboard draws (crates/aether-tui/src/ui.rs): the content of every panel, with its
  colours, and where it goes. The terminal library \<^verbatim>\<open>ratatui\<close> is a record of functions, for the
  areas a layout gives and the area inside a border; a frame is the list of widgets in the
  order they are drawn. Text on the screen is a list of code points, since it holds symbols
  outside Latin-1. A span without a colour of its own has the colour \<^verbatim>\<open>Reset\<close>.
\<close>

section \<open>Text and areas\<close>

datatype colour = Cyan | Green | Red | DarkGray | Yellow | Reset

definition ACCENT :: colour where "ACCENT = Cyan"
definition GOOD :: colour where "GOOD = Green"
definition BAD :: colour where "BAD = Red"
definition DIM :: colour where "DIM = DarkGray"

record span =
  sp_text :: code_points
  sp_colour :: colour
  sp_bold :: bool

abbreviation tx :: "string \<Rightarrow> code_points" where
  "tx \<equiv> code_points_of"

definition styled :: "code_points \<Rightarrow> colour \<Rightarrow> span" where
  "styled t c = \<lparr>sp_text = t, sp_colour = c, sp_bold = False\<rparr>"

definition bold :: "code_points \<Rightarrow> colour \<Rightarrow> span" where
  "bold t c = \<lparr>sp_text = t, sp_colour = c, sp_bold = True\<rparr>"

text \<open>The symbols of the screen, by their code points.\<close>

definition em_dash :: code_points where "em_dash = [8212]"
definition middle_dot :: code_points where "middle_dot = [183]"
definition filled_dot :: code_points where "filled_dot = [9679]"
definition hollow_dot :: code_points where "hollow_dot = [9675]"
definition cross_mark :: code_points where "cross_mark = [10005]"
definition check_tick :: code_points where "check_tick = [10003]"

record rect =
  rx :: nat
  ry :: nat
  rwidth :: nat
  rheight :: nat

definition rect_within :: "rect \<Rightarrow> rect \<Rightarrow> bool" where
  "rect_within r area =
     (rx area \<le> rx r \<and> rx r + rwidth r \<le> rx area + rwidth area \<and>
      ry area \<le> ry r \<and> ry r + rheight r \<le> ry area + rheight area)"

definition centred :: "rect \<Rightarrow> nat \<Rightarrow> nat \<Rightarrow> rect" where
  "centred area width height =
     (let w = min width (rwidth area); h = min height (rheight area)
      in \<lparr>rx = rx area + (rwidth area - w) div 2, ry = ry area + (rheight area - h) div 2, rwidth = w, rheight = h\<rparr>)"

datatype direction = Vertical | Horizontal

datatype constraint_len = Length nat | Min nat | Percentage nat

record toolkit =
  split_area :: "direction \<Rightarrow> constraint_len list \<Rightarrow> rect \<Rightarrow> rect list"
  inner_area :: "rect \<Rightarrow> rect"

text \<open>A row of a table has its cells and, for the node table, the style of the whole row.\<close>

record table_row =
  row_cells :: "span list"
  row_style :: "colour \<times> bool"

datatype widget =
    Border code_points
  | Lines "span list list"
  | Centred span
  | Wrapped "span list list"
  | Spark "nat list"
  | NodeTable "code_points list" "table_row list" "constraint_len list"
  | RecentTable "span list list" "constraint_len list"
  | Clear

type_synonym frame = "(rect \<times> widget) list"

section \<open>Pieces\<close>

definition titled_block :: "toolkit \<Rightarrow> rect \<Rightarrow> code_points \<Rightarrow> rect \<times> frame" where
  "titled_block kit area title = (inner_area kit area, [(area, Border title)])"

definition waiting_line :: widget where
  "waiting_line = Lines [[styled (tx ''waiting for the controller'') DIM]]"

definition pair_line :: "string \<Rightarrow> code_points \<Rightarrow> colour \<Rightarrow> span list" where
  "pair_line label value c = [styled (tx (pad_right 18 label)) DIM, styled value c]"

definition percent :: "fl \<Rightarrow> string" where
  "percent x = fmt_fixed 0 (fmul f32 x (fconst f32 100)) @ ''%''"

definition ago :: "fl \<Rightarrow> string" where
  "ago s =
     (if flt s (fconst f64 60) then fmt_fixed 0 s @ ''s''
      else if flt s (fconst f64 3600) then fmt_fixed 0 (fdiv f64 s (fconst f64 60)) @ ''m''
      else fmt_fixed 0 (fdiv f64 s (fconst f64 3600)) @ ''h'')"

section \<open>Panels\<close>

definition draw_status :: "rect \<Rightarrow> app \<Rightarrow> frame" where
  "draw_status area a =
     (let (mark, t, c) = (case a_connection a of
            Connecting \<Rightarrow> (hollow_dot, tx ''connecting'', Yellow)
          | Live \<Rightarrow> (filled_dot, tx ''live'', GOOD)
          | Lost reason \<Rightarrow> (cross_mark, tx ''lost '' @ em_dash @ tx ('' '' @ reason), BAD))
      in [(area, Lines [[bold (tx '' AetherMesh '') ACCENT, styled (mark @ tx '' '') c, styled t c,
            styled (tx (''  '' @ a_addr a)) DIM,
            styled (tx (''  every '' @ fmt_fixed 2 (as_secs_f32 (a_poll a)) @ ''s'')) DIM]])])"

definition draw_throughput :: "toolkit \<Rightarrow> rect \<Rightarrow> app \<Rightarrow> frame exec" where
  "draw_throughput kit area a =
     (let (inside, drawn) = titled_block kit area (tx '' Throughput '');
          inner = split_area kit Vertical [Length 2, Min 1] inside;
          latest = tp_latest (a_throughput a); peak = throughput_peak (a_throughput a)
      in if length inner < 2 then Panic
         else Ret (drawn @
           [(inner ! 0, Lines
              [[bold (tx (show_bytes latest @ ''/s'')) ACCENT, styled (tx (''   peak '' @ show_bytes peak @ ''/s'')) DIM],
               [styled (tx (case a_traffic a of
                   Some t \<Rightarrow> show_bytes (ts_bytes_sent t) @ '' on the wire so far''
                 | None \<Rightarrow> ''waiting for the first sample'')) DIM]]),
            (inner ! 1, Spark (tp_samples (a_throughput a)))]))"

definition draw_savings :: "toolkit \<Rightarrow> rect \<Rightarrow> app \<Rightarrow> frame" where
  "draw_savings kit area a =
     (let (inner, drawn) = titled_block kit area (tx '' Not moved '')
      in drawn @ [(inner, case a_traffic a of
           None \<Rightarrow> waiting_line
         | Some t \<Rightarrow> Lines
             [pair_line ''compressed away'' (tx (show_bytes (ts_bytes_saved t))) GOOD,
              pair_line ''ratio''
                (if ts_bytes_uncompressed t = 0 then em_dash else tx (fmt_fixed 3 (ts_compression_ratio t))) ACCENT,
              pair_line ''transfers skipped'' (tx (nat_to_string (ts_transfers_skipped t))) GOOD,
              pair_line ''chunks skipped'' (tx (nat_to_string (ts_chunks_skipped t))) GOOD,
              pair_line ''retries'' (tx (nat_to_string (ts_retries t))) (if ts_retries t = 0 then DIM else Yellow)])])"

definition queued_text :: "queue_snapshot option \<Rightarrow> code_points" where
  "queued_text q =
     (case q of
        Some s \<Rightarrow>
          (if snap_depth s > 0
           then tx (nat_to_string (snap_depth s) @ '' '') @ middle_dot
             @ tx ('' oldest '' @ fmt_fixed 1 (fdiv f64 (of_nat_f f64 (snap_longest_wait_ms s)) (fconst f64 1000)) @ ''s'')
           else tx ''none waiting'')
      | None \<Rightarrow> em_dash)"

definition draw_counters :: "toolkit \<Rightarrow> rect \<Rightarrow> app \<Rightarrow> frame" where
  "draw_counters kit area a =
     (let (inner, drawn) = titled_block kit area (tx '' Mesh ''); t = a_totals a
      in drawn @ [(inner, case a_mesh a of
           None \<Rightarrow> waiting_line
         | Some m \<Rightarrow> Lines
             [pair_line ''nodes'' (tx (nat_to_string (tt_nodes_connected t) @ ''/'' @ nat_to_string (tt_nodes t) @ '' connected''))
                (if tt_nodes_connected t = tt_nodes t then GOOD else Yellow),
              pair_line ''datasets'' (tx (nat_to_string (tt_datasets t) @ '' '') @ middle_dot
                @ tx ('' '' @ show_bytes (tt_dataset_bytes t))) ACCENT,
              pair_line ''queued'' (queued_text (a_queue a))
                (case a_queue a of Some q \<Rightarrow> if snap_depth q > 0 then Yellow else DIM | None \<Rightarrow> DIM),
              pair_line ''tasks ok'' (tx (nat_to_string (tasks_completed m))) GOOD,
              pair_line ''tasks failed'' (tx (nat_to_string (tasks_failed m))) (if tasks_failed m = 0 then DIM else BAD)])])"

definition draw_top :: "toolkit \<Rightarrow> rect \<Rightarrow> app \<Rightarrow> frame exec" where
  "draw_top kit area a =
     (let columns = split_area kit Horizontal [Percentage 36, Percentage 32, Percentage 32] area
      in if length columns < 3 then Panic
         else case draw_throughput kit (columns ! 0) a of
                Panic \<Rightarrow> Panic
              | Ret f \<Rightarrow> Ret (f @ draw_savings kit (columns ! 1) a @ draw_counters kit (columns ! 2) a))"

section \<open>The nodes\<close>

definition node_headers :: "code_points list" where
  "node_headers = map tx ['''', ''host'', ''id'', ''cpu'', ''mem'', ''rtt'', ''link'', ''holds'', ''labels'']"

definition node_widths :: "constraint_len list" where
  "node_widths = [Length 2, Min 10, Length 9, Length 6, Length 6, Length 9, Length 12, Length 16, Min 12]"

text \<open>\<^verbatim>\<open>labels\<close> gives the entries of a node's label map in their order.\<close>

definition node_row :: "(node_summary \<Rightarrow> (string \<times> string) list) \<Rightarrow> bool \<Rightarrow> node_summary \<Rightarrow> table_row" where
  "node_row labels selected node =
     \<lparr>row_cells =
        [styled (if ns_connected node then filled_dot else hollow_dot) (if ns_connected node then GOOD else BAD),
         styled (tx (ns_hostname node)) Reset,
         styled (tx (short (ns_node_id node))) Reset,
         styled (tx (percent (ns_cpu_usage node))) Reset,
         styled (tx (percent (ns_memory_usage node))) Reset,
         styled (case ns_latency_ms node of Some ms \<Rightarrow> tx (fmt_fixed 1 ms @ '' ms'') | None \<Rightarrow> em_dash) Reset,
         styled (case ns_bandwidth node of Some rate \<Rightarrow> tx (show_bytes rate @ ''/s'') | None \<Rightarrow> em_dash) Reset,
         styled (if datasets_held node = 0 then em_dash
                 else tx (nat_to_string (datasets_held node) @ '' '') @ middle_dot @ tx ('' '' @ show_bytes (ns_bytes_held node)))
           (if datasets_held node > 0 then GOOD else DIM),
         styled (tx (joined '' '' (map (\<lambda>(key, value). key @ ''='' @ value) (labels node)))) DIM],
      row_style = (if selected then (ACCENT, True) else if ns_connected node then (Reset, False) else (DIM, False))\<rparr>"

definition draw_nodes :: "toolkit \<Rightarrow> (node_summary \<Rightarrow> (string \<times> string) list) \<Rightarrow> rect \<Rightarrow> app \<Rightarrow> frame" where
  "draw_nodes kit labels area a =
     (let (inner, drawn) = titled_block kit area (tx ('' Nodes ('' @ nat_to_string (length (a_nodes a)) @ '') ''))
      in drawn @ [(inner,
           if a_nodes a = [] then Centred (styled (tx ''no nodes registered '' @ em_dash @ tx '' start an agent'') DIM)
           else NodeTable node_headers
                  (map (\<lambda>(index, node). node_row labels (index = a_selected a) node) (List.enumerate 0 (a_nodes a)))
                  node_widths)])"

section \<open>What finished, and this window\<close>

definition recent_row :: "finished_task \<Rightarrow> span list" where
  "recent_row t =
     [styled (if ft_success t then check_tick else cross_mark) (if ft_success t then GOOD else BAD),
      styled (tx (ft_kind t)) ACCENT,
      styled (tx (pad_left 7 (fmt_fixed 1 (ft_duration_ms t)) @ '' ms'')) Reset,
      styled (tx (take 8 (ft_node_id t))) DIM,
      styled (tx (ago (seconds_ago t))) DIM,
      styled (tx (fst (ft_preview t)) @ (if snd (ft_preview t) then [8230] else [])) Reset]"

definition draw_recent :: "toolkit \<Rightarrow> rect \<Rightarrow> app \<Rightarrow> frame" where
  "draw_recent kit area a =
     (let (inner, drawn) = titled_block kit area (tx '' Recent tasks (mesh) '')
      in drawn @ [(inner,
           if a_recent a = [] then Lines [[styled (tx ''nothing has finished yet'') DIM]]
           else RecentTable (map recent_row (take (rheight inner) (a_recent a)))
                  [Length 1, Length 10, Length 10, Length 9, Length 6, Min 8])])"

definition line_colour :: "line_kind \<Rightarrow> colour" where
  "line_colour k = (case k of Info \<Rightarrow> Reset | Good \<Rightarrow> GOOD | Bad \<Rightarrow> BAD)"

definition draw_activity :: "toolkit \<Rightarrow> rect \<Rightarrow> app \<Rightarrow> frame" where
  "draw_activity kit area a =
     (let (inner, drawn) = titled_block kit area (tx '' This window '')
      in drawn @ [(inner,
           if a_log a = [] then Lines [[styled (tx ''press s to send a task'') DIM]]
           else Wrapped (map (\<lambda>l. [styled (tx (l_text l)) (line_colour (l_kind l))]) (take (rheight inner) (a_log a))))])"

definition draw_keys :: "rect \<Rightarrow> app \<Rightarrow> frame" where
  "draw_keys area a =
     [(area, Lines [[styled (case a_mode a of
          Submitting \<Rightarrow> tx '' tab field   '' @ [8592, 8594] @ tx '' priority   enter send   esc cancel ''
        | Help \<Rightarrow> tx '' any key closes ''
        | Watching \<Rightarrow> tx '' q quit   s send a task   '' @ [8593, 8595] @ tx '' node   +/- poll rate   r refresh   ? help '') DIM]])]"

section \<open>Popups\<close>

definition form_field :: "string \<Rightarrow> code_points \<Rightarrow> bool \<Rightarrow> span list" where
  "form_field label value focused =
     [styled ((if focused then [9656, 32] else [32, 32]) @ tx (pad_right 12 label)) (if focused then ACCENT else DIM),
      styled (if focused then value @ tx ''_'' else value) Reset]"

definition draw_form :: "toolkit \<Rightarrow> rect \<Rightarrow> app \<Rightarrow> frame" where
  "draw_form kit area a =
     (let popup = centred area 60 11; f = a_form a;
          (inner, drawn) = titled_block kit popup (tx '' Send a task '')
      in (popup, Clear) # drawn @ [(inner, Lines
           [form_field ''kind'' (tx (f_kind f)) (f_focus f = Kind),
            form_field ''payload'' (tx (f_payload f)) (f_focus f = Payload),
            form_field ''constraints'' (tx (f_constraints f)) (f_focus f = Constraints),
            form_field ''priority'' ([9668, 32] @ tx (priority_as_str (f_priority f)) @ [32, 9658]) (f_focus f = PriorityField),
            [],
            [styled (tx ''  echo '' @ middle_dot @ tx '' hash '' @ middle_dot @ tx '' cpu (payload is an iteration count)'') DIM],
            [styled (tx ''  constraints: gpu=true, region!=us-east, nvme'') DIM],
            [styled (tx ''  priority only matters once a backlog forms'') DIM]])])"

definition help_text :: "string list" where
  "help_text =
     [''Throughput   bytes actually written to sockets, per second.'',
      ''Not moved    what the mesh did not have to send: compression,'',
      ''             whole datasets a node already had, and chunks'',
      ''             deduplicated against data it already held.'',
      '''',
      ''holds        datasets that node already has. Work reading'',
      ''             them costs no transfer, which is the decision'',
      ''             the scheduler makes on every task.'',
      '''',
      ''queued       tasks waiting for a node. Priority decides which'',
      ''             runs next; waiting promotes a task a level at a'',
      ''             time, so low priority means later, not never.'',
      '''',
      ''A node can be registered and not connected: the registry'',
      ''keeps it until its heartbeat times out, deliberately.'']"

definition draw_help :: "toolkit \<Rightarrow> rect \<Rightarrow> frame" where
  "draw_help kit area =
     (let popup = centred area 64 18; (inner, drawn) = titled_block kit popup (tx '' What this shows '')
      in (popup, Clear) # drawn @ [(inner, Wrapped (map (\<lambda>t. [styled (tx t) Reset]) help_text))])"

section \<open>A frame\<close>

definition draw :: "toolkit \<Rightarrow> (node_summary \<Rightarrow> (string \<times> string) list) \<Rightarrow> rect \<Rightarrow> app \<Rightarrow> frame exec" where
  "draw kit labels area a =
     (let rows = split_area kit Vertical [Length 1, Length 9, Min 6, Length 7, Length 1] area
      in if length rows < 5 then Panic
         else let bottom = split_area kit Horizontal [Percentage 38, Percentage 62] (rows ! 3)
              in if length bottom < 2 then Panic
                 else case draw_top kit (rows ! 1) a of
                        Panic \<Rightarrow> Panic
                      | Ret panels \<Rightarrow>
                          Ret (draw_status (rows ! 0) a @ panels @ draw_nodes kit labels (rows ! 2) a
                               @ draw_activity kit (bottom ! 0) a @ draw_recent kit (bottom ! 1) a @ draw_keys (rows ! 4) a
                               @ (case a_mode a of
                                    Submitting \<Rightarrow> draw_form kit area a
                                  | Help \<Rightarrow> draw_help kit area
                                  | Watching \<Rightarrow> [])))"

section \<open>A frame shows what there is\<close>

text \<open>
  What the drawing relies on of the terminal library: a layout gives one area for each
  constraint, all inside the area it divides, and the inside of a border is inside it.
\<close>

definition sound_toolkit :: "toolkit \<Rightarrow> bool" where
  "sound_toolkit kit =
     ((\<forall>d cs r. length (split_area kit d cs r) = length cs \<and> (\<forall>x \<in> set (split_area kit d cs r). rect_within x r))
      \<and> (\<forall>r. rect_within (inner_area kit r) r))"

definition stays_in :: "rect \<Rightarrow> frame \<Rightarrow> bool" where
  "stays_in area f = list_all (\<lambda>(r, _). rect_within r area) f"

lemma rect_within_refl [simp]: "rect_within r r"
  by (simp add: rect_within_def)

lemma rect_within_trans: "rect_within a b \<Longrightarrow> rect_within b c \<Longrightarrow> rect_within a c"
  by (auto simp: rect_within_def)

lemma half_gap: "(a - min w a) div 2 + min w a \<le> (a :: nat)"
  by (cases "w \<le> a") simp_all

lemma centred_within: "rect_within (centred area w h) area"
  using half_gap [of "rwidth area" w] half_gap [of "rheight area" h] by (simp add: centred_def rect_within_def Let_def)

lemma stays_in_simps [simp]:
  "stays_in area []" "stays_in area ((r, w) # f) = (rect_within r area \<and> stays_in area f)"
  "stays_in area (f @ g) = (stays_in area f \<and> stays_in area g)"
  by (simp_all add: stays_in_def)

lemma stays_in_mono: "stays_in r f \<Longrightarrow> rect_within r area \<Longrightarrow> stays_in area f"
  using rect_within_trans by (fastforce simp: stays_in_def list_all_iff)

lemma split_part:
  assumes "sound_toolkit kit" "i < length cs"
  shows "rect_within (split_area kit d cs r ! i) r"
  using assms unfolding sound_toolkit_def by (metis nth_mem)

lemma inner_within: "sound_toolkit kit \<Longrightarrow> rect_within (inner_area kit r) r"
  by (simp add: sound_toolkit_def)

lemma panels_stay:
  assumes "sound_toolkit kit"
  shows "stays_in r (draw_status r a)" "stays_in r (draw_savings kit r a)" "stays_in r (draw_counters kit r a)"
    "stays_in r (draw_nodes kit labels r a)" "stays_in r (draw_recent kit r a)" "stays_in r (draw_activity kit r a)"
    "stays_in r (draw_keys r a)" "stays_in r (draw_form kit r a)" "stays_in r (draw_help kit r)"
  using inner_within [OF assms] centred_within [of r] rect_within_trans [OF inner_within [OF assms] centred_within [of r]]
  by (simp_all add: draw_status_def draw_savings_def draw_counters_def draw_nodes_def draw_recent_def draw_activity_def
      draw_keys_def draw_form_def draw_help_def titled_block_def Let_def split: link_state.split)

lemma draw_throughput_ret:
  assumes "sound_toolkit kit"
  shows "\<exists>f. draw_throughput kit r a = Ret f \<and> stays_in r f"
proof -
  let ?s = "split_area kit Vertical [Length 2, Min 1] (inner_area kit r)"
  have "length ?s = 2" using assms by (simp add: sound_toolkit_def)
  moreover have "rect_within (?s ! 0) r" "rect_within (?s ! 1) r"
    using split_part [OF assms, of _ "[Length 2, Min 1]"] rect_within_trans [OF _ inner_within [OF assms]] by simp_all
  ultimately show ?thesis by (simp add: draw_throughput_def titled_block_def Let_def)
qed

lemma draw_top_ret:
  assumes "sound_toolkit kit"
  shows "\<exists>f. draw_top kit r a = Ret f \<and> stays_in r f"
proof -
  let ?cs = "[Percentage 36, Percentage 32, Percentage 32]"
  let ?s = "split_area kit Horizontal ?cs r"
  have len: "length ?s = 3" using assms by (simp add: sound_toolkit_def)
  have part: "rect_within (?s ! i) r" if "i < 3" for i using split_part [OF assms, of i ?cs] that by simp
  obtain f where "draw_throughput kit (?s ! 0) a = Ret f" "stays_in (?s ! 0) f"
    using draw_throughput_ret [OF assms] by blast
  then show ?thesis
    using len stays_in_mono [OF panels_stay(2) [OF assms] part [of 1]] stays_in_mono [OF panels_stay(3) [OF assms] part [of 2]]
      stays_in_mono [OF _ part [of 0]]
    by (simp add: draw_top_def Let_def)
qed

text \<open>The node table: one row for each node, in order, and the selected one stands out.\<close>

definition node_table :: "(node_summary \<Rightarrow> (string \<times> string) list) \<Rightarrow> app \<Rightarrow> table_row list \<Rightarrow> bool" where
  "node_table labels a rows =
     (length rows = length (a_nodes a) \<and>
      (\<forall>i < length rows. row_cells (rows ! i) = row_cells (node_row labels False (a_nodes a ! i)) \<and>
         (snd (row_style (rows ! i)) \<longleftrightarrow> selected_node a \<noteq> None \<and> i = a_selected a)))"

lemma draw_nodes_table:
  assumes "app_inv a" "a_nodes a \<noteq> []"
  shows "\<exists>r rows. (r, NodeTable node_headers rows node_widths) \<in> set (draw_nodes kit labels area a) \<and> node_table labels a rows"
  using assms
  by (auto simp: draw_nodes_def titled_block_def Let_def node_table_def app_inv_def selected_node_def node_row_def
      nth_enumerate_eq)

text \<open>
  Every frame of the dashboard can be drawn, on a screen of any size: no widget, popups
  included, reaches outside the screen; when nodes are listed, each has one row, in the order
  of the list, and exactly the row of the selected node is highlighted.
\<close>

lemma frame_is_drawn:
  assumes "sound_toolkit kit" "app_inv a"
  shows "\<exists>f. draw kit labels area a = Ret f \<and> stays_in area f \<and>
    (a_nodes a \<noteq> [] \<longrightarrow> (\<exists>r rows. (r, NodeTable node_headers rows node_widths) \<in> set f \<and> node_table labels a rows))"
proof -
  let ?cs = "[Length 1, Length 9, Min 6, Length 7, Length 1]" and ?bs = "[Percentage 38, Percentage 62]"
  let ?s = "split_area kit Vertical ?cs area"
  let ?b = "split_area kit Horizontal ?bs (?s ! 3)"
  have len: "length ?s = 5" "length ?b = 2" using assms(1) by (simp_all add: sound_toolkit_def)
  have part: "rect_within (?s ! i) area" if "i < 5" for i using split_part [OF assms(1), of i ?cs] that by simp
  have low: "rect_within (?b ! i) area" if "i < 2" for i
    using split_part [OF assms(1), of i ?bs] that rect_within_trans [OF _ part [of 3]] by simp
  obtain f where f: "draw_top kit (?s ! 1) a = Ret f" "stays_in (?s ! 1) f" using draw_top_ret [OF assms(1)] by blast
  note stay = panels_stay [OF assms(1)]
  let ?pop = "case a_mode a of Submitting \<Rightarrow> draw_form kit area a | Help \<Rightarrow> draw_help kit area | Watching \<Rightarrow> []"
  let ?f = "draw_status (?s ! 0) a @ f @ draw_nodes kit labels (?s ! 2) a @ draw_activity kit (?b ! 0) a
    @ draw_recent kit (?b ! 1) a @ draw_keys (?s ! 4) a @ ?pop"
  have drawn: "draw kit labels area a = Ret ?f" using len f(1) by (simp add: draw_def Let_def)
  have "stays_in area ?f"
    using stays_in_mono [OF stay(1) part [of 0]] stays_in_mono [OF f(2) part [of 1]] stays_in_mono [OF stay(4) part [of 2]]
      stays_in_mono [OF stay(6) low [of 0]] stays_in_mono [OF stay(5) low [of 1]] stays_in_mono [OF stay(7) part [of 4]] stay(8,9)
    by (simp split: mode.split)
  moreover have "\<exists>r rows. (r, NodeTable node_headers rows node_widths) \<in> set ?f \<and> node_table labels a rows" if "a_nodes a \<noteq> []"
    using draw_nodes_table [OF assms(2) that, of kit labels "?s ! 2"] by auto
  ultimately show ?thesis unfolding drawn by blast
qed

definition plain_kit :: toolkit where
  "plain_kit = \<lparr>split_area = (\<lambda>_ cs r. replicate (length cs) r), inner_area = (\<lambda>r. r)\<rparr>"

lemma frame_is_drawn_at:
  "\<exists>f. draw plain_kit (\<lambda>_. []) \<lparr>rx = 0, ry = 0, rwidth = 80, rheight = 24\<rparr> (app_new ''127.0.0.1:7100'' (from_secs 1)) = Ret f"
proof -
  have "sound_toolkit plain_kit" by (simp add: sound_toolkit_def plain_kit_def)
  from frame_is_drawn [OF this app_new_inv] show ?thesis by blast
qed

end
