(* ===== verification/Spec2Isabelle.thy ===== *)
theory Spec2Isabelle
  imports Delivery Framing Autoscale Dispatcher ClientCall Providers Sandbox BenchRun Reuse
    Process Screen
begin

text \<open>
  \<^bold>\<open>AetherMesh\<close> runs tasks on a mesh of machines. A \<^emph>\<open>controller\<close> accepts work from clients and
  places it on nodes; on every node an \<^emph>\<open>agent\<close> registers with the controller, reports its load
  by heartbeats, stores the data it is sent and runs tasks on it. Data is addressed by its
  BLAKE3 hash, travels whole or in chunks, compressed where that pays, and only to nodes that
  do not hold it. Workflows are graphs of tasks in which a step reads what its dependencies
  produced. This development models the Rust crates under crates/: aether-core,
  aether-scheduler, aether-protocol, aether-controller and aether-agent, which make up the mesh,
  and beside it aether-wasm (the sandbox agents run modules in), aether-cloud (providers of
  machines for agents), aether-tui (the terminal dashboard) and aether-benchmark.

  \<^bold>\<open>How the parts interact.\<close> A client connection (client.rs) turns requests into commands for
  the one task that owns the controller, the dispatcher. It keeps submissions in a queue
  (queue.rs) and lets the controller (dispatch.rs) place them: the scheduler picks a node from
  the registry and the catalogue of data, missing inputs are sent through the transport
  (network.rs) over the live connections (connections.rs), and the call waits for the result.
  The server (server.rs, state.rs, health.rs) handles the messages agents send, hands results
  to the waiting calls, keeps the catalogue and evicts silent nodes. The agent (client.rs of
  aether-agent) handles assignments and data with its store, its assembler of chunks and its
  executor, which passes WebAssembly tasks to the sandbox. Workflows (flow.rs) are submissions
  released by the end of others, optionally journalled (checkpoint.rs). The autoscaler only
  recommends; the cloud providers carry a recommendation out through a signed or authorised
  REST client. The dashboard and the network benchmark are clients of the client API.

  \<^bold>\<open>Theories and sources\<close>, in the order of their dependencies:
  \<^item> Prelude: bytes, durations, Rust's orderings and the iterator selections min_by and max_by
    with the locale \<^verbatim>\<open>comparator\<close>, results that may panic (\<^verbatim>\<open>exec\<close>), list lemmas.
  \<^item> Floats, Text: IEEE 754 binary32 and binary64 with rounding to even as executable functions
    on rationals; the string operations of the standard library.
  \<^item> Data (core/data.rs, id.rs), Task (core/task.rs, labels.rs), Node (core/node.rs),
    Workflow (core/workflow.rs), Compress (core/compress.rs), Store (core/store.rs), Chunk
    (core/chunk.rs): the data model. Catalog (scheduler/locality.rs), Scheduler
    (scheduler/lib.rs, advanced.rs): who holds what, and the three schedulers.
  \<^item> Queue (controller/queue.rs), Ledger (cache.rs, history.rs), Counters (observability.rs),
    Checkpoint (checkpoint.rs), Registry (registry.rs, probe.rs), Protocol
    (protocol/message.rs, controller/security.rs), Framing (protocol/codec.rs, net.rs),
    Connections (connections.rs): the controller's parts.
  \<^item> Server (state.rs, server.rs, health.rs): one function per message with the whole handler;
    any number of connections interleave as a history of messages. Dispatch (dispatch.rs): the
    record \<^verbatim>\<open>controller\<close> and its operations up to \<^verbatim>\<open>submit\<close>; the trait TaskTransport is the record
    \<^verbatim>\<open>transport\<close> of functions. Network (network.rs): that trait over live connections. Flow and
    FlowRun (flow.rs): the loop of a workflow for given results, and the same loop over real
    submissions of the controller with its journal and its errors. Autoscale (autoscale.rs).
  \<^item> Executor (agent/executor.rs), Pacing (heartbeat.rs, reconnect.rs), Agent (agent/client.rs).
  \<^item> ClientApi (controller/client.rs, the connection of a client), Dispatcher (the same file, the
    task that owns the controller, as a state machine with the code's waits as phases) and
    ClientCall (connection.rs, the client's side of the same protocol).
  \<^item> Delivery: controller, connections, server and one agent put together. Reuse (dispatch.rs):
    the bytes sent over any number of submissions. Sim (sim.rs): the in-process transport, with
    every message through the encoding.
  \<^item> Config (config.rs of both processes, agent/identity.rs), Telemetry (telemetry.rs and the
    text of observability.rs: one scrape from its bytes to its response), Tls (tls.rs of both
    processes: certificates, acceptor, connector), Probe (probe.rs over the live server),
    AgentRun (agent/metrics.rs and the heartbeat task of agent/client.rs, composed with the
    server), Process (main.rs of both processes: the start as the list of jobs started so far
    with an error or the end).
  \<^item> Sandbox (aether-wasm/lib.rs, wasmi_backend.rs, wasmtime_backend.rs): capabilities, limits,
    host functions and the run of a module; the engine is a record of functions that either
    fails, ends or asks for an import.
  \<^item> Parsing (number parsing and splitting of the standard library), SigV4 (aether-cloud/sigv4.rs:
    calendar, canonical request, key chain), Http (http.rs: attempts, retries, pages, polling),
    Cloud (lib.rs, static.rs, process.rs: the trait CloudProvider as a locale, two providers),
    Providers (aws.rs, azure.rs, gcp.rs, kubernetes.rs).
  \<^item> Dashboard (aether-tui/app.rs and the loop of main.rs, one function per round), Screen
    (aether-tui/ui.rs: what every panel shows and where), Bench (aether-benchmark/network.rs,
    regression.rs, the figures of lib.rs), BenchRun (the in-process benchmark on the simulated
    mesh, the report texts, the command lines and their exit codes).

  Structs are records and enums datatypes with the source's constructors; hash maps are
  association lists, so that iteration order is explicit; counters of 32 and 64 bits are
  natural numbers where the code cannot reach their end, and wrap or panic explicitly where it
  can (Chunk, Flow, Executor, Connections). An operation that may panic returns \<^verbatim>\<open>exec\<close>. Time is an
  argument. A wait is where other things happen: the transport's waits are a function that
  says what the rest of the mesh does meanwhile (Network, Delivery), spawned submissions end
  in an order the environment chooses (Flow, FlowRun, Dispatcher).

  \<^bold>\<open>Locales.\<close> \<^verbatim>\<open>comparator\<close> (total preorders for the selections), \<^verbatim>\<open>rounding\<close> (IEEE formats), \<^verbatim>\<open>scheduler\<close> (the Scheduler trait,
  interpreted by the three schedulers), \<^verbatim>\<open>holdings\<close> (the catalogue as a relation), \<^verbatim>\<open>blob_store\<close>
  (what the assembler needs of the store), \<^verbatim>\<open>dispatching\<close> (placing against the scheduler's
  contract), \<^verbatim>\<open>conserving\<close> (nothing offered is lost or duplicated: interpreted by the queue and
  again by the dispatcher), \<^verbatim>\<open>cloud_provider\<close> (the trait of the providers, interpreted by all six).

  \<^bold>\<open>What is shown.\<close> End to end: a task runs on exactly the bytes that were published, however
  they travelled (Delivery); a remote call submits exactly the described task and returns the
  dispatcher's answer (ClientCall); every command is answered exactly once, and once clients
  stop sending the dispatcher settles after boundedly many steps with everything answered
  (Dispatcher); a workflow on a mesh with one working node comes back finished, and a named
  run resumed from its journal skips exactly the recorded steps (FlowRun); input data crosses
  the network at most once per node over any number of submissions (Reuse); an agent whose
  beats are sent in time is never evicted, and one that reconnects is credited again with
  everything it holds (AgentRun). At the edges: every listener has the credentials and the
  transport security of the configuration (Process); a scrape shows sums over the mesh and
  nothing of a node or a task (Telemetry); a measured link was answered by the node it is
  about (Probe); the files the certificate commands write load on both sides, with leaves
  issued by the one CA (Tls). Per component: selection, aging and conservation of the queue; the order, waves and acceptance
  of workflows; optimality of the schedulers; refinement of the catalogue to a relation; LRU
  eviction and byte accounting of the store; reassembly and authenticity of chunks; the
  journal; framing; compression; that trust in a connection is earned and messages affect
  their own node only; exact eviction; retries and outstanding work of a submission; freedom
  from panics of controller and agent over all histories; pacing of heartbeats; steadiness of
  the autoscaler; the executor's wrap-around arithmetic. Beside the mesh: a module reaches only
  what it was granted, host functions write only where the call says, and fuel ends every run
  (Sandbox); the date arithmetic agrees with the calendar (SigV4); retries are bounded, pages
  are read to the end and polling returns (Http); the tables of a provider stay consistent over
  all histories (Cloud, Providers); the state of the dashboard stays valid over all rounds
  (Dashboard) and every frame of it is drawn without a panic (Screen); the datasets of a
  measurement never repeat and a report compared with itself passes (Bench). Lemmas beside them
  record where the code does something its comments do not say.

  \<^bold>\<open>Parameters.\<close> Code that is not in the repository is an argument: the digest (hypothesis where
  needed: no collision among the data at hand), LZ4 (decompressing gives the input back), JSON
  and bincode (what is printed parses back), base64 and UUID text, HMAC and SHA-256, the
  WebAssembly engine (that it spends fuel between imports), the HTTP library and the remote end
  of a cloud API, TOML, PEM, rustls and rcgen (what is printed as PEM parses back), the terminal library, generated ids and tokens, the clock, and what the operating system reports.

  \<^bold>\<open>Fuel.\<close> Loops are structural or have termination proofs. \<^verbatim>\<open>run_loop\<close> takes one unit of fuel per
  iteration and \<^verbatim>\<open>run_inner\<close> gives it the number of steps: every iteration finishes a step, and
  the property of FlowRun shows that this is enough. \<^verbatim>\<open>submit_loop\<close> counts the attempts the
  retry policy allows, as the code does. Driving a module (\<^verbatim>\<open>drive\<close>) is a partial function whose
  missing value means not returning; a property of Sandbox shows that it returns.

  \<^bold>\<open>Limits of the model.\<close> A handler is one atomic step, as under the code's locks. A submission is
  one function of the controller; that several overlap is modelled for the table of
  outstanding work (Dispatch) and for the order in which they end (FlowRun, Dispatcher), not
  for interleavings inside two of them. Text of errors of foreign libraries is abstract.

  \<^bold>\<open>Not modelled\<close>: the parsing of command lines (by clap: the flags are given as parsed), trace
  export and log lines (output that nothing in the mesh reads), the accept loops of the sockets
  (a connection is an event of a history), the poison-tolerant lock (handlers are atomic steps),
  the engines behind the sandbox and the TLS, HTTP and terminal libraries (not in the
  repository), examples, test doubles and the clients in other languages.

  \<^bold>\<open>What is left.\<close> Interleavings inside two overlapping submissions of one controller, and the
  serialised form of messages, which the code takes from bincode and serde_json.
\<close>

end
